(* ===== verification/Rust_Prelude.thy ===== *)
theory Rust_Prelude
  imports Main "HOL-Library.Word"
begin

text \<open>
  The part of Rust's core and standard library that the crates under \<open>src/rust/crates\<close> use,
  on a byte-level model of strings: a \<^typ>\<open>string\<close> is a list of bytes (a \<^typ>\<open>char\<close> is one
  byte), so \<open>&[u8]\<close>, \<open>&str\<close>, \<open>String\<close> and \<open>Vec<u8>\<close> are all byte lists and \<open>length\<close> is
  \<open>len()\<close>. A \<open>&str\<close> is a byte list that is valid UTF-8; the functions whose result depends on
  that (lossy decoding, character boundaries, Unicode white space) work on the encoding.

  A panic, an \<open>Err\<close> and a \<open>None\<close> are values (\<^typ>\<open>'a option\<close>, sums). Integers are \<^typ>\<open>int\<close>
  or \<^typ>\<open>nat\<close> with the bound of the Rust type checked where a value enters the program
  (parsing) and words where the code can wrap.
\<close>

named_theorems str_simps \<open>evaluation and length rules for the string operations\<close>

type_synonym bytes = string
type_synonym header_list = "(string \<times> string) list"

section \<open>Bytes and ASCII classes\<close>

definition byte_val :: "char \<Rightarrow> nat" where
  "byte_val c = of_char c"

definition byte_of :: "nat \<Rightarrow> char" where
  "byte_of n = char_of n"

abbreviation LF :: char where "LF \<equiv> CHR 0x0A"
abbreviation CR :: char where "CR \<equiv> CHR 0x0D"
abbreviation TAB :: char where "TAB \<equiv> CHR 0x09"
abbreviation SP :: char where "SP \<equiv> CHR 0x20"
abbreviation DQUOTE :: char where "DQUOTE \<equiv> CHR 0x22"
abbreviation BSLASH :: char where "BSLASH \<equiv> CHR 0x5C"

definition crlf :: string where
  "crlf = [CR, LF]"

definition is_ascii_digit :: "char \<Rightarrow> bool" where
  "is_ascii_digit c \<longleftrightarrow> 48 \<le> byte_val c \<and> byte_val c \<le> 57"

definition is_ascii_uppercase :: "char \<Rightarrow> bool" where
  "is_ascii_uppercase c \<longleftrightarrow> 65 \<le> byte_val c \<and> byte_val c \<le> 90"

definition is_ascii_lowercase :: "char \<Rightarrow> bool" where
  "is_ascii_lowercase c \<longleftrightarrow> 97 \<le> byte_val c \<and> byte_val c \<le> 122"

definition is_ascii_alphanumeric :: "char \<Rightarrow> bool" where
  "is_ascii_alphanumeric c \<longleftrightarrow> is_ascii_digit c \<or> is_ascii_uppercase c \<or> is_ascii_lowercase c"

text \<open>\<open>u8::is_ascii_whitespace\<close>: space, tab, line feed, form feed, carriage return.\<close>

definition is_ascii_whitespace :: "char \<Rightarrow> bool" where
  "is_ascii_whitespace c \<longleftrightarrow> byte_val c \<in> {9, 10, 12, 13, 32}"

definition ascii_lower :: "char \<Rightarrow> char" where
  "ascii_lower c = (if is_ascii_uppercase c then byte_of (byte_val c + 32) else c)"

definition to_ascii_lowercase :: "string \<Rightarrow> string" where
  "to_ascii_lowercase s = map ascii_lower s"

definition ascii_upper :: "char \<Rightarrow> char" where
  "ascii_upper c = (if is_ascii_lowercase c then byte_of (byte_val c - 32) else c)"

definition eq_ignore_ascii_case :: "string \<Rightarrow> string \<Rightarrow> bool" where
  "eq_ignore_ascii_case s t \<longleftrightarrow> to_ascii_lowercase s = to_ascii_lowercase t"

definition is_ascii :: "string \<Rightarrow> bool" where
  "is_ascii s \<longleftrightarrow> list_all (\<lambda>c. byte_val c < 128) s"

section \<open>Searching, splitting, joining\<close>

fun find_byte :: "char \<Rightarrow> string \<Rightarrow> nat option" where
  "find_byte c [] = None"
| "find_byte c (x # xs) = (if x = c then Some 0 else map_option Suc (find_byte c xs))"

definition rfind_byte :: "char \<Rightarrow> string \<Rightarrow> nat option" where
  "rfind_byte c s = map_option (\<lambda>i. length s - 1 - i) (find_byte c (rev s))"

definition starts_with :: "string \<Rightarrow> string \<Rightarrow> bool" where
  "starts_with p s \<longleftrightarrow> take (length p) s = p"

definition ends_with :: "string \<Rightarrow> string \<Rightarrow> bool" where
  "ends_with p s \<longleftrightarrow> starts_with (rev p) (rev s)"

definition strip_prefix :: "string \<Rightarrow> string \<Rightarrow> string option" where
  "strip_prefix p s = (if starts_with p s then Some (drop (length p) s) else None)"

text \<open>\<open>str::find\<close> with a string pattern, and \<open>windows(n).position(..)\<close>: the first offset.\<close>

fun find_str :: "string \<Rightarrow> string \<Rightarrow> nat option" where
  "find_str p [] = (if p = [] then Some 0 else None)"
| "find_str p (x # xs) =
     (if starts_with p (x # xs) then Some 0 else map_option Suc (find_str p xs))"

definition contains_str :: "string \<Rightarrow> string \<Rightarrow> bool" where
  "contains_str p s \<longleftrightarrow> find_str p s \<noteq> None"

definition contains_byte :: "char \<Rightarrow> string \<Rightarrow> bool" where
  "contains_byte c s \<longleftrightarrow> c \<in> set s"

text \<open>\<open>str::split\<close> on a predicate over bytes: always at least one piece.\<close>

fun split_on :: "(char \<Rightarrow> bool) \<Rightarrow> string \<Rightarrow> string list" where
  "split_on P [] = [[]]"
| "split_on P (x # xs) =
     (if P x then [] # split_on P xs
      else case split_on P xs of [] \<Rightarrow> [[x]] | y # ys \<Rightarrow> (x # y) # ys)"

abbreviation split_byte :: "char \<Rightarrow> string \<Rightarrow> string list" where
  "split_byte c \<equiv> split_on (\<lambda>x. x = c)"

definition split_once :: "char \<Rightarrow> string \<Rightarrow> (string \<times> string) option" where
  "split_once c s = map_option (\<lambda>i. (take i s, drop (Suc i) s)) (find_byte c s)"

definition rsplit_once :: "char \<Rightarrow> string \<Rightarrow> (string \<times> string) option" where
  "rsplit_once c s = map_option (\<lambda>i. (take i s, drop (Suc i) s)) (rfind_byte c s)"

fun join_str :: "string \<Rightarrow> string list \<Rightarrow> string" where
  "join_str sep [] = []"
| "join_str sep [x] = x"
| "join_str sep (x # y # ys) = x @ sep @ join_str sep (y # ys)"

text \<open>\<open>str::replace\<close> with a non-empty pattern: left to right, not overlapping.\<close>

function replace_str :: "string \<Rightarrow> string \<Rightarrow> string \<Rightarrow> string" where
  "replace_str p r s =
     (if p = [] \<or> s = [] then s
      else if starts_with p s then r @ replace_str p r (drop (length p) s)
      else hd s # replace_str p r (tl s))"
  by pat_completeness auto
termination
  by (relation "measure (\<lambda>(p, r, s). length s)") (auto simp: length_greater_0_conv)

declare replace_str.simps [simp del]

text \<open>\<open>trim_start_matches\<close> and \<open>trim_end_matches\<close> with a byte predicate.\<close>

definition trim_start_matches :: "(char \<Rightarrow> bool) \<Rightarrow> string \<Rightarrow> string" where
  "trim_start_matches P s = dropWhile P s"

definition trim_end_matches :: "(char \<Rightarrow> bool) \<Rightarrow> string \<Rightarrow> string" where
  "trim_end_matches P s = rev (dropWhile P (rev s))"

section \<open>Unicode white space on the UTF-8 encoding\<close>

text \<open>
  \<open>char::is_whitespace\<close> holds of U+0009..U+000D, U+0020, U+0085, U+00A0, U+1680,
  U+2000..U+200A, U+2028, U+2029, U+202F, U+205F and U+3000. \<open>ws_len s\<close> is the number of bytes
  of the white-space character at the head of \<open>s\<close>, 0 if there is none.
\<close>

fun ws_len :: "string \<Rightarrow> nat" where
  "ws_len [] = 0"
| "ws_len (a # s) =
     (let x = byte_val a in
      if (9 \<le> x \<and> x \<le> 13) \<or> x = 32 then 1
      else case s of [] \<Rightarrow> 0 | b # s' \<Rightarrow>
        (let y = byte_val b in
         if x = 0xC2 \<and> (y = 0x85 \<or> y = 0xA0) then 2
         else case s' of [] \<Rightarrow> 0 | c # s'' \<Rightarrow>
           (let z = byte_val c in
            if x = 0xE1 \<and> y = 0x9A \<and> z = 0x80 then 3
            else if x = 0xE2 \<and> y = 0x80 \<and>
                    ((0x80 \<le> z \<and> z \<le> 0x8A) \<or> z = 0xA8 \<or> z = 0xA9 \<or> z = 0xAF) then 3
            else if x = 0xE2 \<and> y = 0x81 \<and> z = 0x9F then 3
            else if x = 0xE3 \<and> y = 0x80 \<and> z = 0x80 then 3
            else 0)))"

declare ws_len.simps(2) [simp del]

function trim_start :: "string \<Rightarrow> string" where
  "trim_start s = (if ws_len s = 0 then s else trim_start (drop (ws_len s) s))"
  by pat_completeness auto
termination
proof (relation "measure length", goal_cases)
  case (2 s)
  then have "s \<noteq> []" by (metis ws_len.simps(1))
  with 2 show ?case by simp
qed simp

declare trim_start.simps [simp del]

fun trim_end :: "string \<Rightarrow> string" where
  "trim_end [] = []"
| "trim_end (c # cs) = (if trim_start (c # cs) = [] then [] else c # trim_end cs)"

definition trim :: "string \<Rightarrow> string" where
  "trim s = trim_end (trim_start s)"

text \<open>The first word of a string and what follows it.\<close>

function take_word :: "string \<Rightarrow> string \<times> string" where
  "take_word s =
     (if s = [] \<or> ws_len s \<noteq> 0 then ([], s)
      else case take_word (tl s) of (w, r) \<Rightarrow> (hd s # w, r))"
  by pat_completeness auto
termination
  by (relation "measure length") (auto simp: length_greater_0_conv)

declare take_word.simps [simp del]

lemma length_take_word: "length (fst (take_word s)) + length (snd (take_word s)) = length s"
proof (induction s rule: take_word.induct)
  case (1 s)
  show ?case
  proof (cases "s = [] \<or> ws_len s \<noteq> 0")
    case True
    then show ?thesis by (subst (1 2) take_word.simps) auto
  next
    case False
    then obtain c cs where s: "s = c # cs" by (cases s) auto
    show ?thesis
      using 1[OF False] False
      by (subst (1 2) take_word.simps) (auto simp: s split: prod.splits)
  qed
qed

lemma length_trim_start: "length (trim_start s) \<le> length s"
proof (induction s rule: trim_start.induct)
  case (1 s)
  then show ?case by (subst trim_start.simps) (auto intro: le_trans)
qed

function split_whitespace :: "string \<Rightarrow> string list" where
  "split_whitespace s =
     (let t = trim_start s in
      if t = [] then []
      else case take_word t of (w, r) \<Rightarrow>
        if w = [] then [] else w # split_whitespace r)"
  by pat_completeness auto
termination
proof (relation "measure length", goal_cases)
  case (2 s t w r)
  have "length w + length r = length t"
    using length_take_word[of t] 2 by (metis fst_conv snd_conv)
  moreover have "length t \<le> length s" using length_trim_start 2 by simp
  moreover have "0 < length w" using 2 by simp
  ultimately have "length r < length s" by linarith
  then show ?case by simp
qed simp

declare split_whitespace.simps [simp del]

text \<open>\<open>str::lines\<close>: split at line feeds, drop one carriage return before each, and no empty
  last line.\<close>

definition strip_cr :: "string \<Rightarrow> string" where
  "strip_cr l = (if l \<noteq> [] \<and> last l = CR then butlast l else l)"

definition lines_of :: "string \<Rightarrow> string list" where
  "lines_of s =
     (let ps = split_byte LF s;
          n = length ps - 1
      in map strip_cr (take n ps) @ (if last ps = [] then [] else [last ps]))"

section \<open>UTF-8\<close>

definition is_cont :: "nat \<Rightarrow> bool" where
  "is_cont x \<longleftrightarrow> 128 \<le> x \<and> x < 192"

definition byte_at :: "string \<Rightarrow> nat \<Rightarrow> nat" where
  "byte_at s i = (if i < length s then byte_val (s ! i) else 0)"

text \<open>One step of the decoder of \<open>core::str::lossy\<close>: whether the sequence at the head is a
  character, and how many bytes it takes.\<close>

definition utf8_step :: "string \<Rightarrow> bool \<times> nat" where
  "utf8_step s =
     (let x = byte_at s 0; y = byte_at s 1; z = byte_at s 2; u = byte_at s 3 in
      if x < 128 then (True, 1)
      else if 0xC2 \<le> x \<and> x \<le> 0xDF then (if is_cont y then (True, 2) else (False, 1))
      else if 0xE0 \<le> x \<and> x \<le> 0xEF then
        (if is_cont y \<and> (x = 0xE0 \<longrightarrow> 0xA0 \<le> y) \<and> (x = 0xED \<longrightarrow> y \<le> 0x9F)
         then (if is_cont z then (True, 3) else (False, 2)) else (False, 1))
      else if 0xF0 \<le> x \<and> x \<le> 0xF4 then
        (if is_cont y \<and> (x = 0xF0 \<longrightarrow> 0x90 \<le> y) \<and> (x = 0xF4 \<longrightarrow> y \<le> 0x8F)
         then (if is_cont z then (if is_cont u then (True, 4) else (False, 3)) else (False, 2))
         else (False, 1))
      else (False, 1))"

lemma utf8_step_pos [simp]: "0 < snd (utf8_step s)"
  by (simp add: utf8_step_def Let_def)

definition replacement_char :: string where
  "replacement_char = [CHR 0xEF, CHR 0xBF, CHR 0xBD]"

function from_utf8_lossy :: "string \<Rightarrow> string" where
  "from_utf8_lossy s =
     (if s = [] then []
      else (if fst (utf8_step s) then take (snd (utf8_step s)) s else replacement_char)
           @ from_utf8_lossy (drop (snd (utf8_step s)) s))"
  by pat_completeness auto
termination
  by (relation "measure length") (auto simp: length_greater_0_conv)

declare from_utf8_lossy.simps [simp del]

function valid_utf8 :: "string \<Rightarrow> bool" where
  "valid_utf8 s =
     (if s = [] then True
      else if fst (utf8_step s) then valid_utf8 (drop (snd (utf8_step s)) s)
      else False)"
  by pat_completeness auto
termination
  by (relation "measure length") (auto simp: length_greater_0_conv)

declare valid_utf8.simps [simp del]

definition is_char_boundary :: "string \<Rightarrow> nat \<Rightarrow> bool" where
  "is_char_boundary s i \<longleftrightarrow>
     i = 0 \<or> i = length s \<or> (i < length s \<and> \<not> is_cont (byte_val (s ! i)))"

section \<open>Integers: parsing and printing\<close>

definition digit_char :: "nat \<Rightarrow> char" where
  "digit_char d = byte_of (48 + d)"

definition digit_val :: "char \<Rightarrow> nat" where
  "digit_val c = byte_val c - 48"

fun dec_nat :: "nat \<Rightarrow> string" where
  "dec_nat n = (if n < 10 then [digit_char n] else dec_nat (n div 10) @ [digit_char (n mod 10)])"

declare dec_nat.simps [simp del]

definition dec_int :: "int \<Rightarrow> string" where
  "dec_int i = (if i < 0 then CHR ''-'' # dec_nat (nat (- i)) else dec_nat (nat i))"

definition pad_left :: "char \<Rightarrow> nat \<Rightarrow> string \<Rightarrow> string" where
  "pad_left c w s = replicate (w - length s) c @ s"

definition digits_val :: "string \<Rightarrow> nat" where
  "digits_val s = foldl (\<lambda>a c. 10 * a + digit_val c) 0 s"

definition parse_digits :: "string \<Rightarrow> nat option" where
  "parse_digits s = (if s \<noteq> [] \<and> list_all is_ascii_digit s then Some (digits_val s) else None)"

text \<open>\<open>from_str\<close> of the integer types: an optional sign, at least one digit, in range.\<close>

definition parse_unsigned :: "nat \<Rightarrow> string \<Rightarrow> nat option" where
  "parse_unsigned bound s =
     (let ds = (case s of c # cs \<Rightarrow> if c = CHR ''+'' then cs else s | [] \<Rightarrow> [])
      in case parse_digits ds of None \<Rightarrow> None | Some n \<Rightarrow> if n < bound then Some n else None)"

definition parse_signed :: "nat \<Rightarrow> string \<Rightarrow> int option" where
  "parse_signed half s =
     (case s of
        [] \<Rightarrow> None
      | c # cs \<Rightarrow>
          (if c = CHR ''-'' then
             (case parse_digits cs of
                None \<Rightarrow> None
              | Some n \<Rightarrow> if n \<le> half then Some (- int n) else None)
           else
             (case parse_digits (if c = CHR ''+'' then cs else s) of
                None \<Rightarrow> None
              | Some n \<Rightarrow> if n < half then Some (int n) else None)))"

definition parse_u16 :: "string \<Rightarrow> nat option" where
  "parse_u16 = parse_unsigned (2 ^ 16)"

definition parse_u32 :: "string \<Rightarrow> nat option" where
  "parse_u32 = parse_unsigned (2 ^ 32)"

definition parse_i32 :: "string \<Rightarrow> int option" where
  "parse_i32 = parse_signed (2 ^ 31)"

definition parse_i64 :: "string \<Rightarrow> int option" where
  "parse_i64 = parse_signed (2 ^ 63)"

text \<open>Integer division truncates towards zero; \<open>rem_trunc\<close> has the sign of the dividend.\<close>

definition div_trunc :: "int \<Rightarrow> int \<Rightarrow> int" where
  "div_trunc a b = sgn a * sgn b * (\<bar>a\<bar> div \<bar>b\<bar>)"

definition rem_trunc :: "int \<Rightarrow> int \<Rightarrow> int" where
  "rem_trunc a b = a - b * div_trunc a b"

text \<open>The arithmetic of \<open>i64\<close> in a release build wraps around.\<close>

definition wrap_i64 :: "int \<Rightarrow> int" where
  "wrap_i64 x = (x + 2 ^ 63) mod 2 ^ 64 - 2 ^ 63"

section \<open>Paths\<close>

text \<open>
  \<open>std::path\<close> on Unix. A path is its byte string; \<open>path_components\<close> is \<open>Path::components\<close>, and
  \<open>path_parent\<close> gives the parent in normal form (\<open>Path\<close> values are equal iff their components
  are).
\<close>

datatype path_comp = RootDir | CurDir | ParentDir | NormalComp string

definition path_is_absolute :: "string \<Rightarrow> bool" where
  "path_is_absolute s \<longleftrightarrow> starts_with ''/'' s"

definition path_part :: "string \<Rightarrow> path_comp list" where
  "path_part p =
     (if p = [] \<or> p = ''.'' then [] else if p = ''..'' then [ParentDir] else [NormalComp p])"

definition path_components :: "string \<Rightarrow> path_comp list" where
  "path_components s =
     (let parts = split_byte (CHR ''/'') s in
      (if path_is_absolute s then [RootDir] else if hd parts = ''.'' then [CurDir] else [])
      @ concat (map path_part parts))"

definition path_eq :: "string \<Rightarrow> string \<Rightarrow> bool" where
  "path_eq a b \<longleftrightarrow> path_components a = path_components b"

fun comp_str :: "path_comp \<Rightarrow> string" where
  "comp_str RootDir = []"
| "comp_str CurDir = ''.''"
| "comp_str ParentDir = ''..''"
| "comp_str (NormalComp s) = s"

definition render_path :: "path_comp list \<Rightarrow> string" where
  "render_path cs =
     (if cs = [RootDir] then ''/'' else join_str ''/'' (map comp_str cs))"

definition path_parent :: "string \<Rightarrow> string option" where
  "path_parent s =
     (let cs = path_components s in
      if cs = [] \<or> last cs = RootDir then None else Some (render_path (butlast cs)))"

definition path_file_name :: "string \<Rightarrow> string option" where
  "path_file_name s =
     (let cs = path_components s in
      if cs = [] then None
      else case last cs of NormalComp n \<Rightarrow> Some n | _ \<Rightarrow> None)"

definition path_join :: "string \<Rightarrow> string \<Rightarrow> string" where
  "path_join a b =
     (if path_is_absolute b then b
      else if a = [] \<or> last a = CHR ''/'' then a @ b
      else a @ ''/'' @ b)"

definition path_starts_with :: "string \<Rightarrow> string \<Rightarrow> bool" where
  "path_starts_with p base \<longleftrightarrow>
     take (length (path_components base)) (path_components p) = path_components base"

definition path_strip_prefix :: "string \<Rightarrow> string \<Rightarrow> string option" where
  "path_strip_prefix p base =
     (if path_starts_with p base
      then Some (render_path (drop (length (path_components base)) (path_components p)))
      else None)"

text \<open>Instants and durations are integers in nanoseconds.\<close>

definition SECOND :: int where
  "SECOND = 1000000000"

section \<open>Lemmas on bytes, numbers and words\<close>

lemma wrap_i64_id: "- (2 ^ 63) \<le> x \<Longrightarrow> x < 2 ^ 63 \<Longrightarrow> wrap_i64 x = x"
  by (simp add: wrap_i64_def)

lemma div_trunc_nonneg: "0 \<le> a \<Longrightarrow> 0 < b \<Longrightarrow> div_trunc a b = a div b"
  by (cases "a = 0") (simp_all add: div_trunc_def)

lemma div_trunc_zero [simp]: "div_trunc 0 b = 0"
  by (simp add: div_trunc_def)

lemma byte_val_lt [simp]: "byte_val c < 256"
  by (simp add: byte_val_def)

lemma byte_val_of [simp]: "n < 256 \<Longrightarrow> byte_val (byte_of n) = n"
  by (simp add: byte_val_def byte_of_def)

lemma byte_of_val [simp]: "byte_of (byte_val c) = c"
  by (simp add: byte_val_def byte_of_def)

lemma byte_val_inject: "byte_val c = byte_val d \<longleftrightarrow> c = d"
  by (metis byte_of_val)

lemma is_ascii_digit_digit_char [simp]: "d < 10 \<Longrightarrow> is_ascii_digit (digit_char d)"
  by (simp add: is_ascii_digit_def digit_char_def)

lemma digit_val_digit_char [simp]: "d < 10 \<Longrightarrow> digit_val (digit_char d) = d"
  by (simp add: digit_val_def digit_char_def)

lemma dec_nat_digits: "list_all is_ascii_digit (dec_nat n)"
proof (induction n rule: dec_nat.induct)
  case (1 n)
  then show ?case by (subst dec_nat.simps) auto
qed

lemma dec_nat_nonempty [simp]: "dec_nat n \<noteq> []"
  by (subst dec_nat.simps) simp

lemma digits_val_snoc: "digits_val (s @ [c]) = 10 * digits_val s + digit_val c"
  by (simp add: digits_val_def)

lemma digits_val_dec_nat [simp]: "digits_val (dec_nat n) = n"
proof (induction n rule: dec_nat.induct)
  case (1 n)
  show ?case
  proof (cases "n < 10")
    case True
    then show ?thesis by (subst dec_nat.simps) (simp add: digits_val_def)
  next
    case False
    with 1 show ?thesis by (subst dec_nat.simps) (simp add: digits_val_snoc)
  qed
qed

lemma digit_val_zero [simp]: "digit_val (CHR ''0'') = 0"
  by (simp add: digit_val_def byte_val_def)

lemma digits_val_zeros: "digits_val (replicate k (CHR ''0'') @ s) = digits_val s"
  by (induction k) (simp_all add: digits_val_def)

lemma is_ascii_digit_zero [simp]: "is_ascii_digit (CHR ''0'')"
  by (simp add: is_ascii_digit_def byte_val_def)

lemma parse_digits_dec_nat [simp]: "parse_digits (dec_nat n) = Some n"
  by (simp add: parse_digits_def dec_nat_digits)

lemma parse_digits_pad [simp]: "parse_digits (pad_left (CHR ''0'') w (dec_nat n)) = Some n"
  using dec_nat_digits[of n]
  by (auto simp: parse_digits_def pad_left_def digits_val_zeros list_all_iff)

lemma not_digit_sign [simp]: "\<not> is_ascii_digit (CHR ''+'')" "\<not> is_ascii_digit (CHR ''-'')"
  by (simp_all add: is_ascii_digit_def byte_val_def)

lemma parse_unsigned_digits:
  assumes "parse_digits s = Some n" "n < b"
  shows "parse_unsigned b s = Some n"
proof (cases s)
  case Nil
  with assms show ?thesis by (simp add: parse_digits_def)
next
  case (Cons c cs)
  with assms have "is_ascii_digit c" by (auto simp: parse_digits_def split: if_splits)
  then have "c \<noteq> CHR ''+''" by auto
  with assms Cons show ?thesis by (simp add: parse_unsigned_def)
qed

lemma parse_signed_digits:
  assumes "parse_digits s = Some n" "n < b"
  shows "parse_signed b s = Some (int n)"
proof (cases s)
  case Nil
  with assms show ?thesis by (simp add: parse_digits_def)
next
  case (Cons c cs)
  with assms have "is_ascii_digit c" by (auto simp: parse_digits_def split: if_splits)
  then have "c \<noteq> CHR ''+''" "c \<noteq> CHR ''-''" by auto
  with assms Cons show ?thesis by (simp add: parse_signed_def)
qed

lemma parse_signed_dec_int:
  assumes "i < int b" "- i \<le> int b"
  shows "parse_signed b (dec_int i) = Some i"
proof (cases "i < 0")
  case True
  with assms have "nat (- i) \<le> b" by linarith
  with True show ?thesis by (simp add: parse_signed_def dec_int_def)
next
  case False
  with assms have "parse_signed b (dec_nat (nat i)) = Some (int (nat i))"
    by (intro parse_signed_digits) (auto simp: nat_less_iff)
  with False show ?thesis by (simp add: dec_int_def)
qed

text \<open>A graphic ASCII byte is no white space and no part of one.\<close>

definition is_graph :: "char \<Rightarrow> bool" where
  "is_graph c \<longleftrightarrow> 33 \<le> byte_val c \<and> byte_val c \<le> 126"

lemma is_graph_digit [simp]: "is_ascii_digit c \<Longrightarrow> is_graph c"
  by (simp add: is_ascii_digit_def is_graph_def)

lemma ws_len_graph [simp]: "is_graph c \<Longrightarrow> ws_len (c # s) = 0"
  by (simp add: ws_len.simps(2) is_graph_def Let_def split: list.splits)

lemma ws_len_space [simp]: "ws_len (SP # s) = 1"
  by (simp add: ws_len.simps(2) byte_val_def)

lemma trim_start_nil [simp]: "trim_start [] = []"
  by (simp add: trim_start.simps)

lemma trim_start_graph [simp]: "is_graph c \<Longrightarrow> trim_start (c # s) = c # s"
  by (simp add: trim_start.simps)

lemma trim_start_space [simp]: "trim_start (SP # s) = trim_start s"
  by (subst trim_start.simps) simp

lemma take_word_graph_app:
  "list_all is_graph w \<Longrightarrow> take_word (w @ s) = (w @ fst (take_word s), snd (take_word s))"
  by (induction w) (simp_all add: take_word.simps[of "_ # _"])

lemma take_word_nil [simp]: "take_word [] = ([], [])"
  by (simp add: take_word.simps)

lemma take_word_space [simp]: "take_word (SP # s) = ([], SP # s)"
  by (simp add: take_word.simps)

lemma split_whitespace_nil [simp]: "split_whitespace [] = []"
  by (simp add: split_whitespace.simps)

lemma split_whitespace_space [simp]: "split_whitespace (SP # s) = split_whitespace s"
  by (subst (1 2) split_whitespace.simps) simp

lemma split_whitespace_word:
  assumes "list_all is_graph w" "w \<noteq> []"
  shows "split_whitespace w = [w]" "split_whitespace (w @ SP # s) = w # split_whitespace s"
proof -
  obtain c cs where w: "w = c # cs" using assms(2) by (cases w) auto
  show "split_whitespace w = [w]"
    using assms take_word_graph_app[of w "[]"] by (subst split_whitespace.simps) (simp add: w)
  show "split_whitespace (w @ SP # s) = w # split_whitespace s"
    using assms take_word_graph_app[of w "SP # s"]
    by (subst split_whitespace.simps) (simp add: w)
qed

lemma trim_end_graph: "list_all is_graph w \<Longrightarrow> trim_end w = w"
  by (induction w) auto

lemma ws_len_cont:
  assumes "1 \<le> i" "i < ws_len x"
  shows "i < length x \<and> 128 \<le> byte_val (x ! i)"
proof (cases x)
  case Nil
  with assms show ?thesis by simp
next
  case (Cons a s)
  show ?thesis
  proof (cases s)
    case Nil
    with assms Cons show ?thesis by (simp add: ws_len.simps(2) Let_def split: if_splits)
  next
    case 2: (Cons b s')
    show ?thesis
    proof (cases s')
      case Nil
      with assms Cons 2 have "i = 1" "128 \<le> byte_val b"
        by (auto simp: ws_len.simps(2) Let_def split: if_splits)
      with Cons 2 show ?thesis by simp
    next
      case 3: (Cons c s'')
      have "i = 1 \<or> i = 2" "128 \<le> byte_val b" "i = 2 \<Longrightarrow> 128 \<le> byte_val c"
        using assms Cons 2 3 by (auto simp: ws_len.simps(2) Let_def split: if_splits)
      with Cons 2 3 show ?thesis by auto
    qed
  qed
qed

lemma trim_end_app_graph:
  assumes "t \<noteq> []" "list_all is_graph t"
  shows "trim_end (s @ t) = s @ t"
proof -
  have keep: "trim_start (s @ t) \<noteq> []" for s
  proof (induction s rule: length_induct)
    case (1 s)
    show ?case
    proof (cases "ws_len (s @ t) = 0")
      case True
      then show ?thesis using assms(1) by (subst trim_start.simps) simp
    next
      case False
      show ?thesis
      proof (cases s)
        case Nil
        then show ?thesis using assms by (cases t) auto
      next
        case (Cons a b)
        have le: "ws_len (s @ t) \<le> length s"
        proof (rule ccontr)
          assume "\<not> ws_len (s @ t) \<le> length s"
          then have "128 \<le> byte_val ((s @ t) ! length s)"
            using ws_len_cont[of "length s" "s @ t"] Cons by auto
          moreover have "is_graph (t ! 0)" using assms by (cases t) auto
          ultimately show False by (simp add: nth_append is_graph_def)
        qed
        have "trim_start (drop (ws_len (s @ t)) s @ t) \<noteq> []"
          using 1 False Cons by (metis drop_eq_Nil2 length_drop diff_less length_greater_0_conv
              list.distinct(1) bot_nat_0.not_eq_extremum)
        with le False show ?thesis by (subst trim_start.simps) simp
      qed
    qed
  qed
  show ?thesis
  proof (induction s)
    case Nil
    then show ?case using assms(2) by (simp add: trim_end_graph)
  next
    case (Cons a s)
    then show ?case using keep[of "a # s"] by simp
  qed
qed

lemma split_on_no: "list_all (\<lambda>c. \<not> P c) s \<Longrightarrow> split_on P s = [s]"
  by (induction s) auto

lemma split_on_nonempty [simp]: "split_on P s \<noteq> []"
  by (induction s) (auto split: list.splits)

lemma split_on_app:
  assumes "list_all (\<lambda>c. \<not> P c) w" "P c"
  shows "split_on P (w @ c # s) = w # split_on P s"
  using assms by (induction w) auto

section \<open>Lemmas on UTF-8\<close>

lemma byte_at_ascii: "is_ascii s \<Longrightarrow> byte_at s i < 128"
  by (auto simp: byte_at_def is_ascii_def list_all_length)

lemma utf8_step_ascii: "is_ascii s \<Longrightarrow> utf8_step s = (True, 1)"
  using byte_at_ascii[of s 0] by (simp add: utf8_step_def Let_def)

lemma from_utf8_lossy_valid: "valid_utf8 s \<Longrightarrow> from_utf8_lossy s = s"
proof (induction s rule: valid_utf8.induct)
  case (1 s)
  then show ?case
    by (subst from_utf8_lossy.simps)
      (auto simp: valid_utf8.simps[of s] split: if_splits)
qed

lemma valid_utf8_ascii: "is_ascii s \<Longrightarrow> valid_utf8 s"
proof (induction s rule: valid_utf8.induct)
  case (1 s)
  have "is_ascii (drop n s)" for n
    using 1 by (auto simp: is_ascii_def list_all_iff dest: in_set_dropD)
  with 1 show ?case by (subst valid_utf8.simps) (auto simp: utf8_step_ascii)
qed

lemma from_utf8_lossy_ascii [simp]: "is_ascii s \<Longrightarrow> from_utf8_lossy s = s"
  by (simp add: from_utf8_lossy_valid valid_utf8_ascii)

section \<open>Lemmas on splitting and joining\<close>

lemma split_on_pieces: "p \<in> set (split_on P s) \<Longrightarrow> list_all (\<lambda>c. \<not> P c) p"
  by (induction s arbitrary: p) (auto split: list.splits if_splits)

lemma split_on_join:
  assumes "xs \<noteq> []" "\<forall>x \<in> set xs. c \<notin> set x"
  shows "split_byte c (join_str [c] xs) = xs"
  using assms
proof (induction "[c]" xs rule: join_str.induct)
  case 1
  then show ?case by simp
next
  case (2 x)
  then show ?case by (auto intro!: split_on_no simp: list_all_iff)
next
  case (3 x y ys)
  then have "list_all (\<lambda>z. z \<noteq> c) x" by (auto simp: list_all_iff)
  with 3 show ?case using split_on_app[of "\<lambda>z. z = c" x c] by simp
qed

lemma starts_with_refl_app [simp]: "starts_with p (p @ s)"
  by (simp add: starts_with_def)

lemma find_str_Some_iff_app:
  "contains_str p s \<longleftrightarrow> (\<exists>a b. s = a @ p @ b)"
proof (induction s)
  case Nil
  then show ?case by (simp add: contains_str_def)
next
  case (Cons x xs)
  show ?case
  proof (cases "starts_with p (x # xs)")
    case True
    then have "x # xs = [] @ p @ drop (length p) (x # xs)"
      by (metis append_Nil append_take_drop_id starts_with_def)
    then have "\<exists>a b. x # xs = a @ p @ b" by blast
    moreover have "contains_str p (x # xs)" using True by (simp add: contains_str_def)
    ultimately show ?thesis by blast
  next
    case False
    then have "(\<exists>a b. x # xs = a @ p @ b) \<longleftrightarrow> (\<exists>a b. xs = a @ p @ b)"
      by (metis append_Cons append_Nil list.inject neq_Nil_conv starts_with_refl_app)
    with False Cons.IH show ?thesis by (simp add: contains_str_def)
  qed
qed

end
