(* ===== verification/Glob_Match.thy ===== *)
theory Glob_Match
  imports Rust_Prelude
begin

text \<open>
  The glob matcher of \<open>crates/thttpd-match/src/lib.rs\<close>. \<open>match_single\<close> follows the source's loop
  over the pattern; its two inner \<open>for\<close> loops are \<open>try_any\<close> (after \<open>**\<close>) and \<open>try_segment\<close>
  (after a single \<open>*\<close>). The specification is the set of file names a pattern denotes.
\<close>

section \<open>The matcher\<close>

function match_single :: "string \<Rightarrow> string \<Rightarrow> bool"
  and try_any :: "string \<Rightarrow> string \<Rightarrow> bool"
  and try_segment :: "string \<Rightarrow> string \<Rightarrow> bool" where
  "match_single p f =
     (case p of
        [] \<Rightarrow> f = []
      | c # p' \<Rightarrow>
          if c = CHR ''?'' then (case f of [] \<Rightarrow> False | _ # f' \<Rightarrow> match_single p' f')
          else if c = CHR ''*'' then
            (case p' of
               [] \<Rightarrow> \<not> contains_byte (CHR ''/'') f
             | c' # p'' \<Rightarrow>
                 if c' = CHR ''*'' then (if p'' = [] then True else try_any p'' f)
                 else try_segment p' f)
          else (case f of [] \<Rightarrow> False | d # f' \<Rightarrow> c = d \<and> match_single p' f'))"
| "try_any p f =
     (if match_single p f then True
      else (case f of [] \<Rightarrow> False | _ # f' \<Rightarrow> try_any p f'))"
| "try_segment p f =
     (if match_single p f then True
      else (case f of [] \<Rightarrow> False
            | d # f' \<Rightarrow> if d = CHR ''/'' then False else try_segment p f'))"
  by pat_completeness auto
termination
  by (relation "measures
        [case_sum (\<lambda>(p, f). length p) (case_sum (\<lambda>(p, f). length p) (\<lambda>(p, f). length p)),
         case_sum (\<lambda>(p, f). length f) (case_sum (\<lambda>(p, f). length f) (\<lambda>(p, f). length f)),
         case_sum (\<lambda>_. 0) (\<lambda>_. 1)]") auto

declare match_single.simps [simp del] try_any.simps [simp del] try_segment.simps [simp del]

definition match_pattern :: "string \<Rightarrow> string \<Rightarrow> bool" where
  "match_pattern pattern filename =
     list_ex (\<lambda>sub. match_single sub filename) (split_byte (CHR ''|'') pattern)"

section \<open>Specification: the language of a pattern\<close>

datatype glob_tok = Lit char | AnyOne | Star | GlobStar

fun tokens :: "string \<Rightarrow> glob_tok list" where
  "tokens [] = []"
| "tokens [c] =
     [if c = CHR ''?'' then AnyOne else if c = CHR ''*'' then Star else Lit c]"
| "tokens (c # d # p) =
     (if c = CHR ''*'' \<and> d = CHR ''*'' then GlobStar # tokens p
      else (if c = CHR ''?'' then AnyOne else if c = CHR ''*'' then Star else Lit c)
           # tokens (d # p))"

fun glob_lang :: "glob_tok list \<Rightarrow> string set" where
  "glob_lang [] = {[]}"
| "glob_lang (Lit c # ts) = {c # w | w. w \<in> glob_lang ts}"
| "glob_lang (AnyOne # ts) = {c # w | c w. w \<in> glob_lang ts}"
| "glob_lang (Star # ts) = {u @ w | u w. CHR ''/'' \<notin> set u \<and> w \<in> glob_lang ts}"
| "glob_lang (GlobStar # ts) = {u @ w | u w. w \<in> glob_lang ts}"

lemma tokens_question [simp]: "tokens (CHR ''?'' # p) = AnyOne # tokens p"
  by (cases p) auto

lemma tokens_literal: "c \<noteq> CHR ''?'' \<Longrightarrow> c \<noteq> CHR ''*'' \<Longrightarrow> tokens (c # p) = Lit c # tokens p"
  by (cases p) auto

lemma tokens_globstar [simp]: "tokens (CHR ''*'' # CHR ''*'' # p) = GlobStar # tokens p"
  by simp

lemma tokens_star: "p = [] \<or> hd p \<noteq> CHR ''*'' \<Longrightarrow> tokens (CHR ''*'' # p) = Star # tokens p"
  by (cases p) auto

lemma mem_glob_globstar:
  "f \<in> glob_lang (GlobStar # ts) \<longleftrightarrow>
     f \<in> glob_lang ts \<or> (\<exists>c g. f = c # g \<and> g \<in> glob_lang (GlobStar # ts))"
proof
  assume "f \<in> glob_lang (GlobStar # ts)"
  then obtain u w where "f = u @ w" "w \<in> glob_lang ts" by auto
  then show "f \<in> glob_lang ts \<or> (\<exists>c g. f = c # g \<and> g \<in> glob_lang (GlobStar # ts))"
    by (cases u) auto
next
  assume "f \<in> glob_lang ts \<or> (\<exists>c g. f = c # g \<and> g \<in> glob_lang (GlobStar # ts))"
  then consider "f = [] @ f" "f \<in> glob_lang ts"
    | c u w where "f = (c # u) @ w" "w \<in> glob_lang ts" by auto
  then show "f \<in> glob_lang (GlobStar # ts)" unfolding glob_lang.simps by cases blast+
qed

lemma mem_glob_star:
  "f \<in> glob_lang (Star # ts) \<longleftrightarrow>
     f \<in> glob_lang ts \<or>
     (\<exists>c g. f = c # g \<and> c \<noteq> CHR ''/'' \<and> g \<in> glob_lang (Star # ts))"
proof
  assume "f \<in> glob_lang (Star # ts)"
  then obtain u w where "f = u @ w" "CHR ''/'' \<notin> set u" "w \<in> glob_lang ts" by auto
  then show "f \<in> glob_lang ts \<or>
     (\<exists>c g. f = c # g \<and> c \<noteq> CHR ''/'' \<and> g \<in> glob_lang (Star # ts))"
    by (cases u) auto
next
  assume "f \<in> glob_lang ts \<or>
     (\<exists>c g. f = c # g \<and> c \<noteq> CHR ''/'' \<and> g \<in> glob_lang (Star # ts))"
  then show "f \<in> glob_lang (Star # ts)"
  proof
    assume "f \<in> glob_lang ts"
    then show ?thesis by (auto intro: exI[of _ "[]"])
  next
    assume "\<exists>c g. f = c # g \<and> c \<noteq> CHR ''/'' \<and> g \<in> glob_lang (Star # ts)"
    then obtain c u w where "f = (c # u) @ w" "CHR ''/'' \<notin> set (c # u)" "w \<in> glob_lang ts"
      by auto
    then show ?thesis unfolding glob_lang.simps by blast
  qed
qed

declare glob_lang.simps(4,5) [simp del]

lemma glob_star_nil [simp]: "f \<in> glob_lang [Star] \<longleftrightarrow> CHR ''/'' \<notin> set f"
  by (auto simp: glob_lang.simps)

lemma glob_globstar_nil [simp]: "f \<in> glob_lang [GlobStar]"
  by (simp add: glob_lang.simps)

lemma match_single_lang:
  shows "match_single p f \<longleftrightarrow> f \<in> glob_lang (tokens p)"
    and "try_any p f \<longleftrightarrow> f \<in> glob_lang (GlobStar # tokens p)"
    and "try_segment p f \<longleftrightarrow> f \<in> glob_lang (Star # tokens p)"
proof (induction p f and p f and p f rule: match_single_try_any_try_segment.induct)
  case (1 p f)
  show ?case
  proof (cases p)
    case Nil
    then show ?thesis by (simp add: match_single.simps)
  next
    case (Cons c p')
    consider "c = CHR ''?''"
      | "c = CHR ''*''" "p' = []"
      | p'' where "c = CHR ''*''" "p' = CHR ''*'' # p''"
      | c' p'' where "c = CHR ''*''" "p' = c' # p''" "c' \<noteq> CHR ''*''"
      | "c \<noteq> CHR ''?''" "c \<noteq> CHR ''*''"
      by (cases p') auto
    then show ?thesis
    proof cases
      case 1
      then show ?thesis using "1.IH"(1)[OF Cons 1] Cons
        by (subst match_single.simps) (auto split: list.splits)
    next
      case 2
      then show ?thesis using Cons by (simp add: match_single.simps contains_byte_def)
    next
      case 3
      then show ?thesis using "1.IH"(2)[OF Cons _ _ 3(2)] Cons
        by (subst match_single.simps) auto
    next
      case 4
      then show ?thesis using "1.IH"(3)[OF Cons _ _ 4(2)] Cons tokens_star[of p']
        by (subst match_single.simps) auto
    next
      case 5
      then show ?thesis using "1.IH"(4)[OF Cons] Cons
        by (subst match_single.simps) (auto simp: tokens_literal split: list.splits)
    qed
  qed
next
  case (2 p f)
  show ?case
    using 2 by (subst try_any.simps, subst mem_glob_globstar) (auto split: list.splits)
next
  case (3 p f)
  show ?case
    using 3 by (subst try_segment.simps, subst mem_glob_star) (auto split: list.splits)
qed

text \<open>
  C21. The matcher decides exactly the language of the pattern: a file name matches iff it is in
  the language of one of the alternatives between bars, where a literal denotes itself, a
  question mark any one byte, a star any run of bytes without a slash and a double star any run
  of bytes.
\<close>

theorem match_pattern_correct:
  "match_pattern pattern filename \<longleftrightarrow>
     (\<exists>sub \<in> set (split_byte (CHR ''|'') pattern). filename \<in> glob_lang (tokens sub))"
  by (auto simp: match_pattern_def list_ex_iff match_single_lang)

end
