(* ===== verification/Http_Date.thy ===== *)
theory Http_Date
  imports Rust_Prelude
begin

text \<open>
  HTTP dates, \<open>crates/thttpd-tdate/src/lib.rs\<close>: the three date grammars and the plain-integer
  form, the calendar arithmetic and the RFC 1123 printer. The year and month loops of
  \<open>format_http_date\<close> are \<open>year_loop\<close> and \<open>month_loop\<close>; the latter need not end for a month
  past December, so it is a partial function and \<open>format_http_date\<close> returns an option (\<open>None\<close>:
  the loop does not end), with a proof that it always returns. Unsigned subtraction wraps, as in
  the release profile.
\<close>

section \<open>Calendar\<close>

definition month_names :: "string list" where
  "month_names = [''Jan'', ''Feb'', ''Mar'', ''Apr'', ''May'', ''Jun'',
                  ''Jul'', ''Aug'', ''Sep'', ''Oct'', ''Nov'', ''Dec'']"

definition day_names :: "string list" where
  "day_names = [''Sun'', ''Mon'', ''Tue'', ''Wed'', ''Thu'', ''Fri'', ''Sat'']"

fun index_of :: "'a \<Rightarrow> 'a list \<Rightarrow> nat option" where
  "index_of x [] = None"
| "index_of x (y # ys) = (if y = x then Some 0 else map_option Suc (index_of x ys))"

definition month_num :: "string \<Rightarrow> nat option" where
  "month_num name = index_of name month_names"

definition is_leap_year :: "int \<Rightarrow> bool" where
  "is_leap_year y \<longleftrightarrow> (y mod 4 = 0 \<and> y mod 100 \<noteq> 0) \<or> y mod 400 = 0"

definition days_in_year :: "int \<Rightarrow> int" where
  "days_in_year y = (if is_leap_year y then 366 else 365)"

definition days_in_month :: "nat \<Rightarrow> int \<Rightarrow> int" where
  "days_in_month m y =
     (if m \<in> {0, 2, 4, 6, 7, 9, 11} then 31
      else if m \<in> {3, 5, 8, 10} then 30
      else if m = 1 then (if is_leap_year y then 29 else 28)
      else 0)"

definition days_of_years :: "int \<Rightarrow> int \<Rightarrow> int" where
  "days_of_years a b = sum_list (map days_in_year [a..b - 1])"

definition days_of_months :: "nat \<Rightarrow> nat \<Rightarrow> int \<Rightarrow> int" where
  "days_of_months a b y = sum_list (map (\<lambda>m. days_in_month m y) [a..<b])"

definition date_to_epoch :: "int \<Rightarrow> nat \<Rightarrow> nat \<Rightarrow> nat \<Rightarrow> nat \<Rightarrow> nat \<Rightarrow> int" where
  "date_to_epoch year month day hour mins sec =
     (let years = (if year < 1970 then - days_of_years year 1970 else days_of_years 1970 year);
          days = years + days_of_months 0 month year + (int day - 1) mod 2 ^ 32
      in days * 86400 + int hour * 3600 + int mins * 60 + int sec)"

section \<open>Parsing\<close>

definition parse_time :: "string \<Rightarrow> (nat \<times> nat \<times> nat) option" where
  "parse_time s =
     (case split_byte (CHR '':'') s of
        [h, m, sc] \<Rightarrow>
          (case (parse_u32 h, parse_u32 m, parse_u32 sc) of
             (Some h, Some m, Some sc) \<Rightarrow> Some (h, m, sc)
           | _ \<Rightarrow> None)
      | _ \<Rightarrow> None)"

definition make_date ::
  "int option \<Rightarrow> nat option \<Rightarrow> nat option \<Rightarrow> (nat \<times> nat \<times> nat) option \<Rightarrow> int option" where
  "make_date y mo d t =
     (case (y, mo, d, t) of
        (Some year, Some month, Some day, Some (hour, mins, sec)) \<Rightarrow>
          Some (date_to_epoch year month day hour mins sec)
      | _ \<Rightarrow> None)"

definition parse_rfc1123 :: "string \<Rightarrow> int option" where
  "parse_rfc1123 s =
     (case split_whitespace s of
        [_, d, mo, y, t, z] \<Rightarrow>
          if z \<noteq> ''GMT'' then None
          else make_date (parse_i32 y) (month_num mo) (parse_u32 d) (parse_time t)
      | _ \<Rightarrow> None)"

definition expand_year :: "int \<Rightarrow> int" where
  "expand_year year = (if year < 70 then year + 2000 else if year < 100 then year + 1900 else year)"

definition parse_rfc850 :: "string \<Rightarrow> int option" where
  "parse_rfc850 s =
     (case filter (\<lambda>p. p \<noteq> []) (split_on (\<lambda>c. c = SP \<or> c = CHR '','') s) of
        [_, dt, t, z] \<Rightarrow>
          if z \<noteq> ''GMT'' then None
          else (case split_byte (CHR ''-'') dt of
                  [d, mo, y] \<Rightarrow>
                    make_date (map_option expand_year (parse_i32 y)) (month_num mo)
                      (parse_u32 d) (parse_time t)
                | _ \<Rightarrow> None)
      | _ \<Rightarrow> None)"

definition parse_asctime :: "string \<Rightarrow> int option" where
  "parse_asctime s =
     (case split_whitespace s of
        [_, mo, d, t, y] \<Rightarrow>
          make_date (parse_i32 y) (month_num mo) (parse_u32 d) (parse_time t)
      | _ \<Rightarrow> None)"

definition parse_http_date :: "string \<Rightarrow> int option" where
  "parse_http_date input =
     (let s = trim input in
      case parse_i64 s of
        Some ts \<Rightarrow> Some ts
      | None \<Rightarrow>
          (case parse_rfc1123 s of
             Some ts \<Rightarrow> Some ts
           | None \<Rightarrow>
               (case parse_rfc850 s of Some ts \<Rightarrow> Some ts | None \<Rightarrow> parse_asctime s)))"

section \<open>Printing\<close>

lemma days_in_year_pos [simp]: "0 < days_in_year y"
  by (simp add: days_in_year_def)

text \<open>The year is an \<open>i32\<close>: after the largest one it wraps around.\<close>

definition as_i32 :: "int \<Rightarrow> int" where
  "as_i32 i = (i + 2 ^ 31) mod 2 ^ 32 - 2 ^ 31"

function year_loop :: "int \<Rightarrow> int \<Rightarrow> int \<times> int" where
  "year_loop remaining year =
     (if remaining < days_in_year year * 86400 then (remaining, year)
      else year_loop (remaining - days_in_year year * 86400) (as_i32 (year + 1)))"
  by pat_completeness auto
termination
proof (relation "measure (\<lambda>(r, y). nat r)", goal_cases)
  case (2 r y)
  moreover have "0 < days_in_year y * 86400" by simp
  ultimately have "0 < r" "r - days_in_year y * 86400 < r" by linarith+
  then show ?case by simp
qed simp

declare year_loop.simps [simp del]

partial_function (option) month_loop :: "int \<Rightarrow> nat \<Rightarrow> int \<Rightarrow> (int \<times> nat) option" where
  "month_loop remaining month year =
     (if remaining < days_in_month month year * 86400 then Some (remaining, month)
      else month_loop (remaining - days_in_month month year * 86400) (month + 1) year)"

definition as_u32 :: "int \<Rightarrow> nat" where
  "as_u32 i = nat (i mod 2 ^ 32)"

definition two_digits :: "nat \<Rightarrow> string" where
  "two_digits n = pad_left (CHR ''0'') 2 (dec_nat n)"

definition day_of_week :: "int \<Rightarrow> nat" where
  "day_of_week timestamp =
     nat (rem_trunc (rem_trunc (as_i32 (div_trunc timestamp 86400)) 7 + 7) 7)"

definition format_http_date :: "int \<Rightarrow> string option" where
  "format_http_date timestamp =
     (let (rem0, year) = year_loop timestamp 1970 in
      case month_loop rem0 0 year of
        None \<Rightarrow> None
      | Some (rem1, month) \<Rightarrow>
          (let day = (as_u32 (div_trunc rem1 86400) + 1) mod 2 ^ 32;
               rem2 = rem_trunc rem1 86400;
               hour = as_u32 (div_trunc rem2 3600);
               rem3 = rem_trunc rem2 3600;
               mins = as_u32 (div_trunc rem3 60);
               sec = as_u32 (rem_trunc rem3 60)
           in Some (day_names ! day_of_week timestamp @ '', '' @ two_digits day @ '' '' @
                    month_names ! month @ '' '' @ dec_int year @ '' '' @
                    two_digits hour @ '':'' @ two_digits mins @ '':'' @ two_digits sec @
                    '' GMT'')))"

section \<open>Correctness of the calendar loops\<close>

lemma rem_trunc_nonneg: "0 \<le> a \<Longrightarrow> 0 < b \<Longrightarrow> rem_trunc a b = a mod b"
  by (simp add: rem_trunc_def div_trunc_nonneg minus_mult_div_eq_mod)

lemma days_of_years_snoc:
  "a \<le> b \<Longrightarrow> days_of_years a (b + 1) = days_of_years a b + days_in_year b"
  by (simp add: days_of_years_def upto_rec2)

lemma days_of_years_cons:
  "a < b \<Longrightarrow> days_of_years a b = days_in_year a + days_of_years (a + 1) b"
  by (simp add: days_of_years_def upto_rec1)

lemma days_of_years_refl [simp]: "days_of_years a a = 0"
  by (simp add: days_of_years_def)

lemma days_of_months_refl [simp]: "days_of_months a a y = 0"
  by (simp add: days_of_months_def)

lemma days_of_months_cons:
  "a < b \<Longrightarrow> days_of_months a b y = days_in_month a y + days_of_months (Suc a) b y"
  by (simp add: days_of_months_def upt_conv_Cons)

lemma days_of_months_year: "days_of_months 0 12 y = days_in_year y"
  by (simp add: days_of_months_def days_in_month_def days_in_year_def upt_rec)

lemma days_in_month_nonneg [simp]: "0 \<le> days_in_month m y"
  by (simp add: days_in_month_def)

lemma as_i32_id [simp]: "- (2 ^ 31) \<le> y \<Longrightarrow> y < 2 ^ 31 \<Longrightarrow> as_i32 y = y"
  by (simp add: as_i32_def)

lemma year_loop_rest:
  "year_loop r y = (r', y') \<Longrightarrow> 0 \<le> r \<Longrightarrow> 0 \<le> r' \<and> r' < days_in_year y' * 86400"
proof (induction r y arbitrary: r' y' rule: year_loop.induct)
  case (1 r y)
  show ?case
  proof (cases "r < days_in_year y * 86400")
    case True
    with 1 show ?thesis by (auto simp: year_loop.simps[of r y])
  next
    case False
    then have "year_loop (r - days_in_year y * 86400) (as_i32 (y + 1)) = (r', y')" using "1.prems"(1) by (simp add: year_loop.simps[of r y])
    from "1.IH"[OF False this] False show ?thesis by simp
  qed
qed

lemma year_loop_spec:
  "year_loop r y = (r', y') \<Longrightarrow> 0 \<le> r \<Longrightarrow> - (2 ^ 31) \<le> y \<Longrightarrow> y + r div (365 * 86400) < 2 ^ 31 \<Longrightarrow>
     y \<le> y' \<and> r = r' + days_of_years y y' * 86400"
proof (induction r y arbitrary: r' y' rule: year_loop.induct)
  case (1 r y)
  show ?case
  proof (cases "r < days_in_year y * 86400")
    case True
    with 1 show ?thesis by (auto simp: year_loop.simps[of r y])
  next
    case False
    let ?r = "r - days_in_year y * 86400"
    have "?r \<le> r - 365 * 86400" by (simp add: days_in_year_def)
    then have "?r div (365 * 86400) \<le> (r - 365 * 86400) div (365 * 86400)" by (rule zdiv_mono1) simp
    moreover have "(r - 365 * 86400) div (365 * 86400) = r div (365 * 86400) - 1"
      using div_mult_self1[of "365 * 86400" r "-1"] by simp
    moreover have "0 \<le> ?r div (365 * 86400)" using False by (simp add: pos_imp_zdiv_nonneg_iff)
    ultimately have y: "as_i32 (y + 1) = y + 1" "(y + 1) + ?r div (365 * 86400) < 2 ^ 31"
      using "1.prems" by (simp_all add: as_i32_id)
    have "year_loop ?r (y + 1) = (r', y')" using "1.prems"(1) False y by (simp add: year_loop.simps[of r y])
    then have "y + 1 \<le> y' \<and> ?r = r' + days_of_years (y + 1) y' * 86400"
      using "1.IH"[unfolded y(1)] "1.prems" False y by simp
    then show ?thesis using days_of_years_cons[of y y'] by (auto simp: algebra_simps)
  qed
qed

lemma month_loop_spec:
  assumes "0 \<le> r" "r < days_of_months m 12 y * 86400" "m \<le> 12"
  shows "\<exists>r' m'. month_loop r m y = Some (r', m') \<and> m \<le> m' \<and> m' < 12 \<and> 0 \<le> r' \<and>
     r' < days_in_month m' y * 86400 \<and> r = r' + days_of_months m m' y * 86400"
  using assms
proof (induction "12 - m" arbitrary: m r)
  case 0
  then show ?case by simp
next
  case (Suc k)
  then have m: "m < 12" by simp
  show ?case
  proof (cases "r < days_in_month m y * 86400")
    case True
    with m Suc.prems show ?thesis by (auto simp: month_loop.simps[of r])
  next
    case False
    have pre: "k = 12 - Suc m" "0 \<le> r - days_in_month m y * 86400"
       "r - days_in_month m y * 86400 < days_of_months (Suc m) 12 y * 86400" "Suc m \<le> 12"
      using Suc.prems Suc.hyps(2) m False days_of_months_cons[OF m, of y]
      by (simp_all add: algebra_simps)
    obtain r' m' where ih: "month_loop (r - days_in_month m y * 86400) (Suc m) y = Some (r', m')"
       "Suc m \<le> m'" "m' < 12" "0 \<le> r'" "r' < days_in_month m' y * 86400"
       "r - days_in_month m y * 86400 = r' + days_of_months (Suc m) m' y * 86400"
      using Suc.hyps(1)[OF pre] by blast
    have "month_loop r m y = Some (r', m')"
      using False ih(1) by (simp add: month_loop.simps[of r])
    moreover have "r = r' + days_of_months m m' y * 86400"
      using ih days_of_months_cons[of m m' y] by (simp add: algebra_simps)
    ultimately show ?thesis using ih by auto
  qed
qed

text \<open>The fields the printer computes from a time stamp, as one record of facts.\<close>

text \<open>The seconds of a month in days, hours, minutes and seconds.\<close>

lemma clock_fields:
  fixes r n :: int
  assumes "0 \<le> r" "r < n * 86400"
  defines "d \<equiv> div_trunc r 86400" and "s \<equiv> rem_trunc r 86400"
  defines "h \<equiv> div_trunc s 3600" and "mi \<equiv> div_trunc (rem_trunc s 3600) 60" and "sc \<equiv> rem_trunc (rem_trunc s 3600) 60"
  shows "0 \<le> d" "d < n" "0 \<le> h" "h < 24" "0 \<le> mi" "mi < 60" "0 \<le> sc" "sc < 60"
    "r = d * 86400 + h * 3600 + mi * 60 + sc"
proof -
  have s: "s = r mod 86400" "0 \<le> s" using assms(1) by (simp_all add: s_def rem_trunc_nonneg)
  have d: "d = r div 86400" using assms(1) by (simp add: d_def div_trunc_nonneg)
  have h: "h = s div 3600" "mi = s mod 3600 div 60" "sc = s mod 3600 mod 60"
    using s(2) by (simp_all add: h_def mi_def sc_def div_trunc_nonneg rem_trunc_nonneg)
  show "0 \<le> d" "d < n" using assms(1,2) by (simp_all add: d pos_imp_zdiv_nonneg_iff div_less_iff_less_mult)
  show "0 \<le> h" "h < 24" "0 \<le> mi" "mi < 60" "0 \<le> sc" "sc < 60"
    using s by (auto simp: h pos_imp_zdiv_nonneg_iff)
  have "s = h * 3600 + mi * 60 + sc" by (simp add: h)
  then show "r = d * 86400 + h * 3600 + mi * 60 + sc" using div_mult_mod_eq[of r 86400] by (simp add: d s(1))
qed

lemma format_fields:
  assumes "0 \<le> ts"
  obtains year month day hour mins sec where
    "format_http_date ts =
       Some (day_names ! day_of_week ts @ '', '' @ two_digits day @ '' '' @
             month_names ! month @ '' '' @ dec_int year @ '' '' @
             two_digits hour @ '':'' @ two_digits mins @ '':'' @ two_digits sec @ '' GMT'')"
    "month < 12" "0 < day" "int day \<le> days_in_month month year" "hour < 24" "mins < 60" "sec < 60"
    "ts < 365 * 86400 * (2 ^ 31 - 1970) \<longrightarrow> 1970 \<le> year \<and>
       date_to_epoch year month day hour mins sec = ts \<and> days_of_years 1970 year * 86400 \<le> ts"
proof -
  obtain r y where yl: "year_loop ts 1970 = (r, y)" by fastforce
  note y = year_loop_rest[OF yl assms]
  have ys: "1970 \<le> y \<and> ts = r + days_of_years 1970 y * 86400" if "ts < 365 * 86400 * (2 ^ 31 - 1970)"
    using year_loop_spec[OF yl assms] that by (simp add: div_less_iff_less_mult)
  from month_loop_spec[of r 0 y] y obtain r' m where ml: "month_loop r 0 y = Some (r', m)"
    and m: "m < 12" "0 \<le> r'" "r' < days_in_month m y * 86400"
      "r = r' + days_of_months 0 m y * 86400"
    by (auto simp: days_of_months_year)
  define d s where "d = div_trunc r' 86400" and "s = rem_trunc r' 86400"
  define h mi sc where "h = div_trunc s 3600" and "mi = div_trunc (rem_trunc s 3600) 60" and "sc = rem_trunc (rem_trunc s 3600) 60"
  note c = clock_fields[OF m(2,3), folded d_def s_def, folded h_def mi_def sc_def]
  have d31: "d < 31" using c(2) by (auto simp: days_in_month_def split: if_splits)
  have eq: "format_http_date ts =
       Some (day_names ! day_of_week ts @ '', '' @ two_digits (nat d + 1) @ '' '' @
             month_names ! m @ '' '' @ dec_int y @ '' '' @
             two_digits (nat h) @ '':'' @ two_digits (nat mi) @ '':'' @ two_digits (nat sc) @
             '' GMT'')"
    using c(1-8) d31 by (simp add: format_http_date_def yl ml as_u32_def Let_def flip: d_def s_def h_def mi_def sc_def)
  have "1970 \<le> y \<and> date_to_epoch y m (nat d + 1) (nat h) (nat mi) (nat sc) = ts \<and> days_of_years 1970 y * 86400 \<le> ts"
    if "ts < 365 * 86400 * (2 ^ 31 - 1970)"
    using ys[OF that] y m c d31 by (simp add: date_to_epoch_def algebra_simps)
  with eq that[of "nat d + 1" m y "nat h" "nat mi" "nat sc"] m c show ?thesis
    by (simp add: nat_less_iff)
qed

section \<open>The printer is total and its output parses back\<close>

lemma graph_names:
  "m < 12 \<Longrightarrow> list_all is_graph (month_names ! m) \<and> month_names ! m \<noteq> []"
  "d < 7 \<Longrightarrow> list_all is_graph (day_names ! d) \<and> day_names ! d \<noteq> []"
proof -
  have "list_all (\<lambda>w. list_all is_graph w \<and> w \<noteq> []) month_names"
       "list_all (\<lambda>w. list_all is_graph w \<and> w \<noteq> []) day_names"
    by (simp_all add: month_names_def day_names_def is_graph_def byte_val_def)
  then show "m < 12 \<Longrightarrow> list_all is_graph (month_names ! m) \<and> month_names ! m \<noteq> []"
    "d < 7 \<Longrightarrow> list_all is_graph (day_names ! d) \<and> day_names ! d \<noteq> []"
    by (auto simp: list_all_length month_names_def day_names_def)
qed

lemma month_num_names: "m < 12 \<Longrightarrow> month_num (month_names ! m) = Some m"
proof -
  have "\<forall>m \<in> set [0..<12]. month_num (month_names ! m) = Some m"
    by (simp add: month_num_def month_names_def upt_rec)
  then show "m < 12 \<Longrightarrow> ?thesis" by simp
qed

lemma day_of_week_lt: "day_of_week ts < 7"
proof -
  have "\<bar>rem_trunc x 7\<bar> < 7" for x
    by (cases "0 \<le> x") (auto simp: rem_trunc_def div_trunc_def sgn_if abs_if)
  then have "0 \<le> rem_trunc x 7 + 7" for x by (smt (verit))
  then show ?thesis by (simp add: day_of_week_def rem_trunc_nonneg nat_less_iff)
qed

lemma two_digits_props:
  "list_all is_graph (two_digits n)" "two_digits n \<noteq> []"
  "list_all (\<lambda>c. c \<noteq> CHR '':'') (two_digits n)"
  "n < 2 ^ 32 \<Longrightarrow> parse_u32 (two_digits n) = Some n"
proof -
  have d: "list_all is_ascii_digit (two_digits n)"
    using dec_nat_digits[of n] by (auto simp: two_digits_def pad_left_def list_all_iff)
  then show "list_all is_graph (two_digits n)" by (auto simp: list_all_iff)
  show "two_digits n \<noteq> []" by (simp add: two_digits_def pad_left_def)
  have "\<not> is_ascii_digit (CHR '':'')" by (simp add: is_ascii_digit_def byte_val_def)
  with d show "list_all (\<lambda>c. c \<noteq> CHR '':'') (two_digits n)" by (auto simp: list_all_iff)
  show "n < 2 ^ 32 \<Longrightarrow> parse_u32 (two_digits n) = Some n"
    by (simp add: parse_u32_def two_digits_def parse_unsigned_digits)
qed

lemma parse_time_two_digits:
  assumes "h < 24" "m < 60" "s < 60"
  shows "parse_time (two_digits h @ '':'' @ two_digits m @ '':'' @ two_digits s) = Some (h, m, s)"
  using assms two_digits_props
  by (simp add: parse_time_def split_on_app split_on_no)

lemma dec_int_graph: "0 \<le> y \<Longrightarrow> list_all is_graph (dec_int y) \<and> dec_int y \<noteq> []"
  using dec_nat_digits[of "nat y"] by (auto simp: dec_int_def list_all_iff)

lemma graph_consts [simp]: "is_graph (CHR '','')" "is_graph (CHR '':'')"
  "is_graph (CHR ''G'')" "is_graph (CHR ''M'')" "is_graph (CHR ''T'')"
  by (simp_all add: is_graph_def byte_val_def)

lemma days_of_years_ge: "a \<le> b \<Longrightarrow> 365 * (b - a) \<le> days_of_years a b"
proof (induction "nat (b - a)" arbitrary: a)
  case 0
  then show ?case by simp
next
  case (Suc k)
  then have "a < b" by simp
  then have k: "k = nat (b - (a + 1))" "a + 1 \<le> b" using Suc.hyps(2) by linarith+
  have "365 * (b - (a + 1)) \<le> days_of_years (a + 1) b"
    using Suc.hyps(1)[OF k] .
  moreover have "days_of_years a b = days_in_year a + days_of_years (a + 1) b"
    using \<open>a < b\<close> by (rule days_of_years_cons)
  moreover have "365 \<le> days_in_year a" by (simp add: days_in_year_def)
  ultimately show ?case by (simp add: algebra_simps)
qed

lemma date_words:
  assumes "0 \<le> y" "m < 12" "wd < 7"
  shows "split_whitespace
      (day_names ! wd @ '', '' @ two_digits d @ '' '' @ month_names ! m @ '' '' @ dec_int y @
       '' '' @ two_digits h @ '':'' @ two_digits mi @ '':'' @ two_digits s @ '' GMT'') =
     [day_names ! wd @ '','', two_digits d, month_names ! m, dec_int y,
      two_digits h @ '':'' @ two_digits mi @ '':'' @ two_digits s, ''GMT'']"
proof -
  have w1: "list_all is_graph (day_names ! wd @ '','')" "day_names ! wd @ '','' \<noteq> []"
    using graph_names(2)[OF assms(3)] by simp_all
  have w5: "list_all is_graph (two_digits h @ '':'' @ two_digits mi @ '':'' @ two_digits s)"
    "two_digits h @ '':'' @ two_digits mi @ '':'' @ two_digits s \<noteq> []"
    by (simp_all add: two_digits_props)
  have w6: "split_whitespace ''GMT'' = [''GMT'']"
    by (rule split_whitespace_word) simp_all
  show ?thesis
    using split_whitespace_word(2)[OF w1]
      split_whitespace_word(2)[OF two_digits_props(1,2)[of d]]
      split_whitespace_word(2)[of "month_names ! m"] graph_names(1)[OF assms(2)]
      split_whitespace_word(2)[of "dec_int y"] dec_int_graph[OF assms(1)]
      split_whitespace_word(2)[OF w5] w6
    by simp
qed

lemma trim_date: "wd < 7 \<Longrightarrow> trim (day_names ! wd @ s @ '' GMT'') = day_names ! wd @ s @ '' GMT''"
proof -
  assume "wd < 7"
  then obtain c cs where c: "day_names ! wd = c # cs" "is_graph c"
    using graph_names(2) by (metis list.pred_inject(2) neq_Nil_conv)
  then have "trim_start (day_names ! wd @ s @ '' GMT'') = day_names ! wd @ s @ '' GMT''"
    by simp
  moreover have "trim_end ((day_names ! wd @ s @ '' '') @ ''GMT'') =
      (day_names ! wd @ s @ '' '') @ ''GMT''"
    by (rule trim_end_app_graph) simp_all
  ultimately show ?thesis by (simp add: trim_def)
qed

lemma parse_i64_day: "wd < 7 \<Longrightarrow> parse_i64 (day_names ! wd @ s) = None"
proof -
  assume "wd < 7"
  moreover have "\<forall>w \<in> set day_names. parse_i64 (w @ s) = None"
    by (simp add: day_names_def parse_i64_def parse_signed_def parse_digits_def
        is_ascii_digit_def byte_val_def)
  moreover have "day_names ! wd \<in> set day_names"
    using \<open>wd < 7\<close> by (intro nth_mem) (simp add: day_names_def)
  ultimately show ?thesis by blast
qed

text \<open>
  For every time stamp the date printer returns a string: neither the year loop nor the
  month loop runs forever.
\<close>

theorem format_http_date_total: "\<exists>s. format_http_date ts = Some s"
proof (cases "0 \<le> ts")
  case True
  then show ?thesis by (rule format_fields) blast
next
  case False
  then show ?thesis
    by (simp add: format_http_date_def year_loop.simps month_loop.simps days_in_year_def
        days_in_month_def is_leap_year_def Let_def)
qed

text \<open>
  C32. Round trip: parsing the printed date of a time stamp that is not negative and whose year is in
  the range of i32 gives the time stamp back.
\<close>

theorem parse_format_roundtrip:
  assumes "0 \<le> ts" "ts < 365 * 86400 * (2 ^ 31 - 1970)"
    and "format_http_date ts = Some s"
  shows "parse_http_date s = Some ts"
proof -
  obtain y m d h mi sc where f: "format_http_date ts =
       Some (day_names ! day_of_week ts @ '', '' @ two_digits d @ '' '' @ month_names ! m @
             '' '' @ dec_int y @ '' '' @ two_digits h @ '':'' @ two_digits mi @ '':'' @
             two_digits sc @ '' GMT'')"
    and b: "m < 12" "0 < d" "int d \<le> days_in_month m y" "h < 24" "mi < 60" "sc < 60"
    and r: "ts < 365 * 86400 * (2 ^ 31 - 1970) \<longrightarrow>
      1970 \<le> y \<and> date_to_epoch y m d h mi sc = ts \<and> days_of_years 1970 y * 86400 \<le> ts"
    by (rule format_fields[OF assms(1)])
  have y0: "1970 \<le> y" and e: "date_to_epoch y m d h mi sc = ts" and le: "days_of_years 1970 y * 86400 \<le> ts"
    using r assms(2) by simp_all
  have "365 * (y - 1970) * 86400 < 365 * 86400 * (2 ^ 31 - 1970)"
    using days_of_years_ge[OF y0] le assms(2) by linarith
  then have y: "y < 2 ^ 31" by simp
  have d: "d < 2 ^ 32" using b(3) by (auto simp: days_in_month_def split: if_splits)
  have "parse_i32 (dec_int y) = Some y"
    using y y0 by (simp add: parse_i32_def parse_signed_dec_int)
  then have "parse_rfc1123 s = Some ts"
    using f assms(3) b y0 e d date_words[of y m "day_of_week ts" d h mi sc] day_of_week_lt[of ts]
    by (simp add: parse_rfc1123_def make_date_def month_num_names two_digits_props
        parse_time_two_digits[simplified])
  moreover have "trim s = s"
    using trim_date[OF day_of_week_lt[of ts], of "'', '' @ two_digits d @ '' '' @ month_names ! m @
             '' '' @ dec_int y @ '' '' @ two_digits h @ '':'' @ two_digits mi @ '':'' @
             two_digits sc"] f assms(3) by simp
  moreover have "parse_i64 s = None"
    using parse_i64_day[OF day_of_week_lt[of ts]] f assms(3) by simp
  ultimately show ?thesis by (simp add: parse_http_date_def)
qed

lemma format_example:
  "format_http_date 5000000 = Some ''Mon, 27 Feb 1970 20:53:20 GMT''"
proof -
  have yl: "year_loop 5000000 1970 = (5000000, 1970)" by code_simp
  have ml: "month_loop 5000000 0 1970 = Some (2321600, 1)"
    by (subst month_loop.simps, simp add: days_in_month_def,
        subst month_loop.simps, simp add: days_in_month_def is_leap_year_def)
  have ds: "two_digits 27 = ''27''" "two_digits 20 = ''20''" "two_digits 53 = ''53''"
    "dec_int 1970 = ''1970''" "day_names ! 1 = ''Mon''" "month_names ! 1 = ''Feb''"
    by code_simp+
  have wd: "day_of_week 5000000 = 1"
    by (simp add: day_of_week_def div_trunc_nonneg rem_trunc_nonneg as_i32_def)
  show ?thesis
    using ds by (simp add: format_http_date_def yl ml wd div_trunc_nonneg rem_trunc_nonneg
        as_u32_def del: One_nat_def)
qed

theorem parse_format_roundtrip_witness:
  "format_http_date 5000000 = Some ''Mon, 27 Feb 1970 20:53:20 GMT'' \<and>
   parse_http_date ''Mon, 27 Feb 1970 20:53:20 GMT'' = Some 5000000"
  using parse_format_roundtrip[OF _ _ format_example] format_example by simp

text \<open>
  The weekday is wrong: 1 January 1970 was a Thursday, so the day of a time stamp is the
  entry of the day table at the number of days plus four, modulo seven. The printer indexes the
  table with the number of days modulo seven and prints another day, for every time stamp in
  the range of the day count.
\<close>

theorem format_http_date_weekday_wrong:
  assumes "0 \<le> ts" "ts < 86400 * 2 ^ 31"
  shows "\<exists>rest. format_http_date ts = Some (day_names ! nat (ts div 86400 mod 7) @ rest) \<and>
     day_names ! nat (ts div 86400 mod 7) \<noteq> day_names ! nat ((ts div 86400 + 4) mod 7)"
proof -
  define n where "n = ts div 86400"
  have n: "0 \<le> n" "n < 2 ^ 31" using assms by (simp_all add: n_def div_less_iff_less_mult)
  then have dow: "day_of_week ts = nat (n mod 7)"
    using assms by (simp add: day_of_week_def div_trunc_nonneg rem_trunc_nonneg as_i32_def
        flip: n_def)
  have ne: "nat (n mod 7) \<noteq> nat ((n + 4) mod 7)"
  proof
    assume "nat (n mod 7) = nat ((n + 4) mod 7)"
    moreover have "0 \<le> n mod 7" "0 \<le> (n + 4) mod 7" by simp_all
    ultimately have "n mod 7 = (n + 4) mod 7" by simp
    then show False by presburger
  qed
  have "distinct day_names" by (simp add: day_names_def)
  then have "day_names ! nat (n mod 7) \<noteq> day_names ! nat ((n + 4) mod 7)"
    using ne by (simp add: nth_eq_iff_index_eq day_names_def nat_less_iff)
  moreover obtain rest where "format_http_date ts = Some (day_names ! day_of_week ts @ rest)"
    by (rule format_fields[OF assms(1)]) blast
  ultimately show ?thesis by (auto simp: dow n_def)
qed

theorem format_http_date_weekday_wrong_witness:
  "\<exists>rest. format_http_date 5000000 = Some (''Mon'' @ rest) \<and> ''Mon'' \<noteq> ''Fri''"
  using format_http_date_weekday_wrong[of 5000000] by (simp add: day_names_def)

end
