(* ===== verification/Fd_Watch.thy ===== *)
theory Fd_Watch
  imports Rust_Prelude
begin

text \<open>
  Token arithmetic of \<open>crates/thttpd-fdwatch/src/lib.rs\<close>: listen sockets and connections share
  one token space, split at \<open>CONN_BASE\<close>. A mio \<open>Token\<close> is its number.
\<close>

definition MAX_LISTENERS :: nat where
  "MAX_LISTENERS = 16"

definition CONN_BASE :: nat where
  "CONN_BASE = MAX_LISTENERS"

definition listen_token :: "nat \<Rightarrow> nat option" where
  "listen_token listener_idx =
     (if listener_idx < MAX_LISTENERS then Some listener_idx else None)"

definition conn_token :: "nat \<Rightarrow> nat" where
  "conn_token slab_key = CONN_BASE + slab_key"

definition slab_key_from_token :: "nat \<Rightarrow> nat option" where
  "slab_key_from_token token = (if CONN_BASE \<le> token then Some (token - CONN_BASE) else None)"

definition is_listen_token :: "nat \<Rightarrow> bool" where
  "is_listen_token token \<longleftrightarrow> token < CONN_BASE"

lemmas token_defs = MAX_LISTENERS_def CONN_BASE_def listen_token_def conn_token_def
  slab_key_from_token_def is_listen_token_def

lemma conn_token_roundtrip [simp]: "slab_key_from_token (conn_token k) = Some k"
  by (simp add: token_defs)

lemma conn_token_not_listen [simp]: "\<not> is_listen_token (conn_token k)"
  by (simp add: token_defs)

lemma conn_token_inject [simp]: "conn_token j = conn_token k \<longleftrightarrow> j = k"
  by (simp add: token_defs)

text \<open>
  The token space is split without overlap: a token decodes to slab key k exactly when it is
  the token of connection k, the listen tokens are exactly the tokens of the listener indices,
  and every token is one or the other but not both.
\<close>

theorem token_space_partition:
  "(slab_key_from_token t = Some k \<longleftrightarrow> t = conn_token k) \<and>
   (is_listen_token t \<longleftrightarrow> listen_token t = Some t) \<and>
   (is_listen_token t \<longleftrightarrow> slab_key_from_token t = None) \<and>
   (listen_token i = Some t \<longleftrightarrow> i = t \<and> is_listen_token t)"
  by (auto simp: token_defs)

end
