(* ===== verification/Mime_Types.thy ===== *)
theory Mime_Types
  imports Rust_Prelude
begin

text \<open>
  MIME lookup, \<open>crates/thttpd-mime/src/types.rs\<close>. \<open>walk_extensions\<close> is the loop of \<open>figure_mime\<close>
  over the extensions from the right, with the encodings found so far as its accumulator.
\<close>

record mime_info =
  mi_type :: string
  mi_encoding :: "string option"

definition lookup_encoding :: "string \<Rightarrow> string option" where
  "lookup_encoding ext =
     (if ext = ''gz'' then Some ''gzip''
      else if ext = ''bz2'' then Some ''x-bzip2''
      else if ext = ''Z'' then Some ''compress''
      else None)"

definition type_table :: "(string \<times> string) list" where
  "type_table =
     [(''html'', ''text/html''), (''htm'', ''text/html''), (''css'', ''text/css''),
      (''js'', ''application/javascript''), (''txt'', ''text/plain''),
      (''json'', ''application/json''), (''xml'', ''application/xml''),
      (''png'', ''image/png''), (''jpg'', ''image/jpeg''), (''jpeg'', ''image/jpeg''),
      (''gif'', ''image/gif''), (''svg'', ''image/svg+xml''), (''ico'', ''image/x-icon''),
      (''pdf'', ''application/pdf''), (''zip'', ''application/zip''),
      (''tar'', ''application/x-tar''), (''mp3'', ''audio/mpeg''), (''mp4'', ''video/mp4''),
      (''webm'', ''video/webm''), (''wav'', ''audio/wav''), (''ogg'', ''audio/ogg''),
      (''doc'', ''application/msword''), (''xls'', ''application/vnd.ms-excel''),
      (''ppt'', ''application/vnd.ms-powerpoint''),
      (''swf'', ''application/x-shockwave-flash''), (''wasm'', ''application/wasm'')]"

definition lookup_type :: "string \<Rightarrow> string option" where
  "lookup_type ext = map_of type_table ext"

definition default_type :: string where
  "default_type = ''application/octet-stream''"

fun walk_extensions :: "string list \<Rightarrow> string list \<Rightarrow> string \<times> string list" where
  "walk_extensions [] encs = (default_type, encs)"
| "walk_extensions (ext # exts) encs =
     (let encs' = (case lookup_encoding ext of Some e \<Rightarrow> encs @ [e] | None \<Rightarrow> encs)
      in case lookup_type ext of
           Some t \<Rightarrow> (t, encs')
         | None \<Rightarrow> walk_extensions exts encs')"

definition figure_mime :: "string \<Rightarrow> mime_info" where
  "figure_mime filename =
     (let components = (case path_file_name filename of
                          Some n \<Rightarrow> split_byte (CHR ''.'') n
                        | None \<Rightarrow> [])
      in if length components \<le> 1
         then \<lparr>mi_type = default_type, mi_encoding = None\<rparr>
         else (let (t, encs) = walk_extensions (rev (tl components)) []
               in \<lparr>mi_type = t,
                   mi_encoding = (if encs = [] then None else Some (join_str '','' encs))\<rparr>))"

definition mime_type :: "string \<Rightarrow> string" where
  "mime_type filename = mi_type (figure_mime filename)"

definition mime_encoding :: "string \<Rightarrow> string option" where
  "mime_encoding filename = mi_encoding (figure_mime filename)"

lemma no_type_and_encoding: "lookup_type ext = Some t \<Longrightarrow> lookup_encoding ext = None"
  by (auto simp: lookup_type_def type_table_def lookup_encoding_def split: if_splits)

lemma encoding_no_type: "lookup_encoding ext = Some e \<Longrightarrow> lookup_type ext = None"
  using no_type_and_encoding by (cases "lookup_type ext") auto

text \<open>The extensions to the right of the one that gives the type.\<close>

definition untyped_tail :: "string list \<Rightarrow> string list" where
  "untyped_tail exts = takeWhile (\<lambda>e. lookup_type e = None) exts"

lemma walk_extensions_eq:
  "walk_extensions exts encs =
     (case List.find (\<lambda>e. lookup_type e \<noteq> None) exts of
        None \<Rightarrow> default_type | Some e \<Rightarrow> the (lookup_type e),
      encs @ List.map_filter lookup_encoding (untyped_tail exts))"
  by (induction exts arbitrary: encs)
    (auto simp: untyped_tail_def List.map_filter_simps Let_def dest: no_type_and_encoding encoding_no_type
      split: option.splits)

text \<open>
  The MIME type of a file is that of the rightmost extension with a known type and its
  content encoding lists the encodings of the extensions to the right of it, rightmost first;
  the default type and no encoding otherwise.
\<close>

theorem figure_mime_spec:
  assumes "path_file_name filename = Some n" "split_byte (CHR ''.'') n = base # exts"
  shows "mime_type filename =
           (case List.find (\<lambda>e. lookup_type e \<noteq> None) (rev exts) of
              None \<Rightarrow> default_type | Some e \<Rightarrow> the (lookup_type e)) \<and>
         mime_encoding filename =
           (let encs = List.map_filter lookup_encoding (untyped_tail (rev exts))
            in if encs = [] then None else Some (join_str '','' encs))"
  using assms
  by (auto simp: mime_type_def mime_encoding_def figure_mime_def walk_extensions_eq Let_def
      untyped_tail_def List.map_filter_simps)

theorem figure_mime_spec_witness:
  "mime_type ''/www/a.tar.gz.bz2'' = ''application/x-tar'' \<and>
   mime_encoding ''/www/a.tar.gz.bz2'' = Some ''x-bzip2,gzip''"
proof -
  have n: "path_file_name ''/www/a.tar.gz.bz2'' = Some ''a.tar.gz.bz2''"
    "split_byte (CHR ''.'') ''a.tar.gz.bz2'' = ''a'' # [''tar'', ''gz'', ''bz2'']"
    by code_simp+
  have "untyped_tail (rev [''tar'', ''gz'', ''bz2'']) = [''bz2'', ''gz'']" by code_simp
  with figure_mime_spec[OF n] show ?thesis
    by (simp add: lookup_type_def type_table_def lookup_encoding_def List.map_filter_simps)
qed

end
