(* ===== verification/Url_Path.thy ===== *)
theory Url_Path
  imports Rust_Prelude
begin

text \<open>
  URL handling: \<open>percent_decode\<close> and \<open>normalize_path\<close> of \<open>crates/thttpd-http/src/url.rs\<close>, and
  the \<open>url_encode\<close> the directory listing uses to build links
  (\<open>crates/thttpd-http/src/dirlist.rs\<close>), which must decode back to the file name.
\<close>

section \<open>Percent decoding\<close>

definition from_hex :: "char \<Rightarrow> nat option" where
  "from_hex b =
     (let x = byte_val b in
      if 48 \<le> x \<and> x \<le> 57 then Some (x - 48)
      else if 97 \<le> x \<and> x \<le> 102 then Some (x - 97 + 10)
      else if 65 \<le> x \<and> x \<le> 70 then Some (x - 65 + 10)
      else None)"

fun percent_decode_bytes :: "string \<Rightarrow> string" where
  "percent_decode_bytes [] = []"
| "percent_decode_bytes [a] = [if a = CHR ''+'' then SP else a]"
| "percent_decode_bytes [a, b] =
     (if a = CHR ''+'' then SP else a) # percent_decode_bytes [b]"
| "percent_decode_bytes (a # b # c # s) =
     (if a = CHR ''%'' then
        (case (from_hex b, from_hex c) of
           (Some hi, Some lo) \<Rightarrow> byte_of (hi * 16 + lo) # percent_decode_bytes s
         | _ \<Rightarrow> a # percent_decode_bytes (b # c # s))
      else (if a = CHR ''+'' then SP else a) # percent_decode_bytes (b # c # s))"

definition percent_decode :: "string \<Rightarrow> string" where
  "percent_decode input = from_utf8_lossy (percent_decode_bytes input)"

definition hex_digit :: "nat \<Rightarrow> char" where
  "hex_digit d = (if d < 10 then byte_of (48 + d) else byte_of (55 + d))"

definition is_unreserved :: "char \<Rightarrow> bool" where
  "is_unreserved b \<longleftrightarrow>
     is_ascii_alphanumeric b \<or> b = CHR ''.'' \<or> b = CHR ''-'' \<or> b = CHR ''_'' \<or> b = CHR ''~''"

definition url_encode_byte :: "char \<Rightarrow> string" where
  "url_encode_byte b =
     (if is_unreserved b then [b]
      else [CHR ''%'', hex_digit (byte_val b div 16), hex_digit (byte_val b mod 16)])"

definition url_encode :: "string \<Rightarrow> string" where
  "url_encode s = concat (map url_encode_byte s)"

lemma from_hex_digit [simp]: "d < 16 \<Longrightarrow> from_hex (hex_digit d) = Some d"
  by (auto simp: from_hex_def hex_digit_def Let_def)

lemma percent_decode_plain:
  "a \<noteq> CHR ''%'' \<Longrightarrow> a \<noteq> CHR ''+'' \<Longrightarrow>
     percent_decode_bytes (a # s) = a # percent_decode_bytes s"
  by (cases s rule: percent_decode_bytes.cases) auto

lemma unreserved_not_special: "is_unreserved b \<Longrightarrow> b \<noteq> CHR ''%'' \<and> b \<noteq> CHR ''+''"
  by (auto simp: is_unreserved_def is_ascii_alphanumeric_def is_ascii_digit_def
      is_ascii_uppercase_def is_ascii_lowercase_def byte_val_def)

lemma percent_decode_url_encode_bytes: "percent_decode_bytes (url_encode s) = s"
proof (induction s)
  case Nil
  then show ?case by (simp add: url_encode_def)
next
  case (Cons b s)
  have "byte_val b div 16 < 16" "byte_val b div 16 * 16 + byte_val b mod 16 = byte_val b"
    using byte_val_lt[of b] by (simp_all add: div_less_iff_less_mult del: byte_val_lt)
  with Cons unreserved_not_special[of b] show ?case
    by (simp add: url_encode_def url_encode_byte_def percent_decode_plain)
qed

text \<open>
  Round trip between the directory listing and the request parser: percent-decoding the
  encoded form of a file name gives the file name back, for every name that is valid UTF-8.
\<close>

theorem percent_decode_url_encode:
  assumes "valid_utf8 name"
  shows "percent_decode (url_encode name) = name"
  using assms by (simp add: percent_decode_def percent_decode_url_encode_bytes from_utf8_lossy_valid)

theorem percent_decode_url_encode_witness:
  "valid_utf8 [CHR ''a'', SP, CHR ''%'', CHR 0xC3, CHR 0xA9] \<and>
   url_encode [CHR ''a'', SP, CHR ''%'', CHR 0xC3, CHR 0xA9] = ''a%20%25%C3%A9'' \<and>
   percent_decode (url_encode [CHR ''a'', SP, CHR ''%'', CHR 0xC3, CHR 0xA9]) =
     [CHR ''a'', SP, CHR ''%'', CHR 0xC3, CHR 0xA9]"
proof -
  have v: "valid_utf8 [CHR ''a'', SP, CHR ''%'', CHR 0xC3, CHR 0xA9]" by code_simp
  have e: "url_encode [CHR ''a'', SP, CHR ''%'', CHR 0xC3, CHR 0xA9] = ''a%20%25%C3%A9''"
    by code_simp
  from v e percent_decode_url_encode[OF v] show ?thesis by blast
qed

section \<open>Path normalisation\<close>

text \<open>The loop over the components, with the stack of components pushed so far (a \<open>Vec\<close>).\<close>

fun normalize_parts :: "string list \<Rightarrow> string list \<Rightarrow> string list option" where
  "normalize_parts [] comps = Some comps"
| "normalize_parts (p # ps) comps =
     (if p = [] \<or> p = ''.'' then normalize_parts ps comps
      else if p = ''..'' then (if comps = [] then None else normalize_parts ps (butlast comps))
      else normalize_parts ps (comps @ [p]))"

definition normalize_path :: "string \<Rightarrow> string option" where
  "normalize_path path =
     (if contains_str ''//'' path then None
      else case normalize_parts (split_byte (CHR ''/'') path) [] of
             None \<Rightarrow> None
           | Some comps \<Rightarrow>
               Some (if comps = [] then ''/'' else CHR ''/'' # join_str ''/'' comps))"

text \<open>What a component of a normalised path is, and what such a path looks like.\<close>

definition safe_comp :: "string \<Rightarrow> bool" where
  "safe_comp c \<longleftrightarrow> c \<noteq> [] \<and> c \<noteq> ''.'' \<and> c \<noteq> ''..'' \<and> CHR ''/'' \<notin> set c"

definition safe_path :: "string \<Rightarrow> bool" where
  "safe_path p \<longleftrightarrow> (\<exists>cs. list_all safe_comp cs \<and> p = CHR ''/'' # join_str ''/'' cs)"

lemma normalize_parts_safe:
  "normalize_parts ps comps = Some cs \<Longrightarrow> list_all (\<lambda>p. CHR ''/'' \<notin> set p) ps \<Longrightarrow>
     list_all safe_comp comps \<Longrightarrow> list_all safe_comp cs"
proof (induction ps comps arbitrary: cs rule: normalize_parts.induct)
  case (1 comps)
  then show ?case by simp
next
  case (2 p ps comps)
  have b: "list_all safe_comp (butlast comps)"
    using 2(6) by (auto simp: list_all_iff dest: in_set_butlastD)
  consider "p = [] \<or> p = ''.''" | "p = ''..''" "comps \<noteq> []" | "safe_comp p"
    using 2(4,5) by (auto simp: safe_comp_def split: if_splits)
  then show ?case
  proof cases
    case 1
    with 2 show ?thesis by auto
  next
    case 2
    then show ?thesis using "2.IH"(2) "2.prems" b by simp
  next
    case 3
    then have "p \<noteq> []" "p \<noteq> ''.''" "p \<noteq> ''..''" by (simp_all add: safe_comp_def)
    with 3 show ?thesis using "2.IH"(3) "2.prems" by simp
  qed
qed

lemma normalize_parts_safe_id:
  "list_all safe_comp ps \<Longrightarrow> normalize_parts ps comps = Some (comps @ ps)"
  by (induction ps arbitrary: comps) (auto simp: safe_comp_def)

lemma no_double_slash:
  assumes "list_all safe_comp cs"
  shows "\<not> contains_str ''//'' (CHR ''/'' # join_str ''/'' cs)"
proof -
  have "\<not> contains_str ''//'' (join_str ''/'' cs) \<and>
        (cs = [] \<or> hd (join_str ''/'' cs) \<noteq> CHR ''/'' \<and> join_str ''/'' cs \<noteq> [])"
    using assms
  proof (induction "''/''" cs rule: join_str.induct)
    case 1
    then show ?case by (simp add: contains_str_def)
  next
    case (2 x)
    have "\<not> contains_str ''//'' x"
      using 2 by (auto simp: find_str_Some_iff_app safe_comp_def)
    with 2 show ?case by (cases x) (auto simp: safe_comp_def)
  next
    case (3 x y ys)
    then have ih: "\<not> contains_str ''//'' (join_str ''/'' (y # ys))"
      and h: "hd (join_str ''/'' (y # ys)) \<noteq> CHR ''/''" "join_str ''/'' (y # ys) \<noteq> []"
      by auto
    have x: "x \<noteq> []" "CHR ''/'' \<notin> set x" using 3 by (auto simp: safe_comp_def)
    obtain d ds where j: "join_str ''/'' (y # ys) = d # ds" "d \<noteq> CHR ''/''"
      using h by (cases "join_str ''/'' (y # ys)") auto
    have "\<not> contains_str ''//'' (x @ CHR ''/'' # d # ds)"
      using x(2)
    proof (induction x)
      case Nil
      with ih j show ?case by (simp add: contains_str_def starts_with_def)
    next
      case (Cons c cs)
      then show ?case by (auto simp: contains_str_def starts_with_def)
    qed
    with x j show ?case by (cases x) auto
  qed
  then show ?thesis
    by (cases "join_str ''/'' cs") (auto simp: contains_str_def starts_with_def)
qed

lemma normalize_path_safe:
  assumes "normalize_path path = Some r"
  shows "safe_path r"
proof -
  obtain comps where c: "normalize_parts (split_byte (CHR ''/'') path) [] = Some comps"
    and r: "r = (if comps = [] then ''/'' else CHR ''/'' # join_str ''/'' comps)"
    using assms by (auto simp: normalize_path_def split: if_splits option.splits)
  have "list_all (\<lambda>p. CHR ''/'' \<notin> set p) (split_byte (CHR ''/'') path)"
    using split_on_pieces[of _ "\<lambda>c. c = CHR ''/''" path] by (fastforce simp: list_all_iff)
  with c have "list_all safe_comp comps" by (rule normalize_parts_safe) simp
  with r show ?thesis unfolding safe_path_def by (intro exI[of _ comps]) auto
qed

lemma normalize_safe_path:
  assumes "list_all safe_comp cs"
  shows "normalize_path (CHR ''/'' # join_str ''/'' cs) = Some (CHR ''/'' # join_str ''/'' cs)"
proof (cases "cs = []")
  case True
  then show ?thesis by (simp add: normalize_path_def contains_str_def starts_with_def)
next
  case False
  have "split_byte (CHR ''/'') (join_str ''/'' cs) = cs"
    using assms False by (intro split_on_join) (auto simp: list_all_iff safe_comp_def)
  then have "split_byte (CHR ''/'') (CHR ''/'' # join_str ''/'' cs) = [] # cs" by simp
  then show ?thesis
    using False assms no_double_slash[OF assms]
    by (simp add: normalize_path_def normalize_parts_safe_id)
qed

text \<open>
  C19. Path traversal is impossible through the URL: whenever normalisation accepts a path, the
  result is a slash followed by components joined by single slashes, none of which is empty, a
  dot or a double dot or contains a slash; and normalising the result again changes nothing.
\<close>

theorem normalize_path_no_traversal:
  assumes "normalize_path path = Some r"
  shows "(\<exists>cs. list_all safe_comp cs \<and> r = CHR ''/'' # join_str ''/'' cs) \<and>
         normalize_path r = Some r"
  using normalize_path_safe[OF assms] normalize_safe_path by (auto simp: safe_path_def)

theorem normalize_path_no_traversal_witness:
  "normalize_path ''/a/./b/../c'' = Some ''/a/c'' \<and> normalize_path ''/a/c'' = Some ''/a/c''"
proof -
  have n: "normalize_path ''/a/./b/../c'' = Some ''/a/c''" by code_simp
  from n normalize_path_no_traversal[OF n] show ?thesis by blast
qed

text \<open>The specification of rejection: walking the components, the depth below the root.\<close>

fun depth_ok :: "nat \<Rightarrow> string list \<Rightarrow> bool" where
  "depth_ok d [] = True"
| "depth_ok d (p # ps) =
     (if p = [] \<or> p = ''.'' then depth_ok d ps
      else if p = ''..'' then 0 < d \<and> depth_ok (d - 1) ps
      else depth_ok (d + 1) ps)"

lemma normalize_parts_None: "normalize_parts ps comps = None \<longleftrightarrow> \<not> depth_ok (length comps) ps"
  by (induction ps comps rule: normalize_parts.induct) auto

text \<open>
  Normalisation rejects exactly the paths that contain a double slash or climb above the
  root at some point when walked component by component.
\<close>

theorem normalize_path_rejects:
  "normalize_path path = None \<longleftrightarrow>
     contains_str ''//'' path \<or> depth_ok 0 (split_byte (CHR ''/'') path) = False"
  using normalize_parts_None[of "split_byte (CHR ''/'') path" "[]"]
  by (auto simp: normalize_path_def split: option.splits)

end
