(* ===== verification/Request_Fsm.thy ===== *)
theory Request_Fsm
  imports Rust_Prelude
begin

text \<open>
  Request detection: the parser states of \<open>crates/thttpd-http/src/parse_state.rs\<close>, the methods of
  \<open>method.rs\<close> and the incremental scanner \<open>got_request\<close> of \<open>parse.rs\<close>. One step of the scanner's
  loop is \<open>fsm_step\<close>, one equation per arm of the source's \<open>match\<close>; the loop returns an option,
  where \<open>None\<close> is the panic of an index past the buffer.

  The contract between the scanner and its caller (\<open>handle_read\<close>, which keeps the index and
  the state between reads) is the locale \<open>resumable_scan\<close>.
\<close>

section \<open>States, results and methods\<close>

datatype got_result = NoRequest | GotRequest | BadRequest

datatype parse_state =
  FirstWord | FirstWs | SecondWord | SecondWs | ThirdWord | ThirdWs
  | Lf | Cr | Crlf | Crlfcr | Line | StGotRequest | Bogus

definition initial_state :: parse_state where
  "initial_state = FirstWord"

fun is_terminal :: "parse_state \<Rightarrow> bool" where
  "is_terminal StGotRequest = True"
| "is_terminal Bogus = True"
| "is_terminal _ = False"

datatype http_method = Get | Head | Post | Unknown

definition method_parse :: "string \<Rightarrow> http_method" where
  "method_parse s =
     (if s = ''GET'' then Get else if s = ''HEAD'' then Head
      else if s = ''POST'' then Post else Unknown)"

fun method_str :: "http_method \<Rightarrow> string" where
  "method_str Get = ''GET''"
| "method_str Head = ''HEAD''"
| "method_str Post = ''POST''"
| "method_str Unknown = ''UNKNOWN''"

section \<open>The scanner\<close>

datatype fsm_out = Go parse_state | FsmAccept | FsmReject | Stuck

definition is_ws :: "char \<Rightarrow> bool" where
  "is_ws c \<longleftrightarrow> c = SP \<or> c = TAB"

definition is_eol :: "char \<Rightarrow> bool" where
  "is_eol c \<longleftrightarrow> c = CR \<or> c = LF"

fun fsm_step :: "parse_state \<Rightarrow> char \<Rightarrow> fsm_out" where
  "fsm_step FirstWord c = (if is_ws c then Go FirstWs else if is_eol c then FsmReject else Go FirstWord)"
| "fsm_step FirstWs c = (if is_ws c then Go FirstWs else if is_eol c then FsmReject else Go SecondWord)"
| "fsm_step SecondWord c = (if is_ws c then Go SecondWs else if is_eol c then FsmAccept else Go SecondWord)"
| "fsm_step SecondWs c = (if is_ws c then Go SecondWs else if is_eol c then FsmReject else Go ThirdWord)"
| "fsm_step ThirdWord c =
     (if is_ws c then Go ThirdWs else if c = CR then Go Cr else if c = LF then Go Lf else Go ThirdWord)"
| "fsm_step ThirdWs c =
     (if is_ws c then Go ThirdWs else if c = CR then Go Cr else if c = LF then Go Lf else FsmReject)"
| "fsm_step Lf c = (if c = CR then Go Cr else if c = LF then FsmAccept else Go Line)"
| "fsm_step Cr c = (if c = LF then Go Crlf else if c = CR then FsmAccept else Go Line)"
| "fsm_step Crlf c = (if c = CR then Go Crlfcr else if c = LF then FsmAccept else Go Line)"
| "fsm_step Line c = (if c = CR then Go Cr else if c = LF then Go Lf else Go Line)"
| "fsm_step Crlfcr c = (if is_eol c then FsmAccept else Go Line)"
| "fsm_step StGotRequest c = Stuck"
| "fsm_step Bogus c = Stuck"

function got_request ::
  "string \<Rightarrow> nat \<Rightarrow> nat \<Rightarrow> parse_state \<Rightarrow> (got_result \<times> nat \<times> parse_state) option" where
  "got_request read_buf checked_idx read_idx state =
     (if checked_idx < read_idx then
        (if length read_buf \<le> checked_idx then None
         else case fsm_step state (read_buf ! checked_idx) of
                Go st \<Rightarrow> got_request read_buf (checked_idx + 1) read_idx st
              | FsmAccept \<Rightarrow> Some (GotRequest, checked_idx + 1, StGotRequest)
              | FsmReject \<Rightarrow> Some (BadRequest, checked_idx, Bogus)
              | Stuck \<Rightarrow> Some (NoRequest, checked_idx, state))
      else Some (NoRequest, checked_idx, state))"
  by pat_completeness auto
termination
  by (relation "measure (\<lambda>(b, c, r, s). r - c)") auto

declare got_request.simps [simp del]

text \<open>\<open>read_buf[..end]\<close> panics past the end of the buffer.\<close>

definition parse_method :: "string \<Rightarrow> nat \<Rightarrow> http_method option" where
  "parse_method read_buf end_idx =
     (if length read_buf < end_idx then None
      else Some (method_parse
             (from_utf8_lossy (takeWhile (\<lambda>b. b \<noteq> SP \<and> b \<noteq> TAB) (take end_idx read_buf)))))"

section \<open>The scanner's contract with its caller\<close>

fun feed :: "(nat \<Rightarrow> nat \<Rightarrow> 's \<Rightarrow> ('r \<times> nat \<times> 's) option) \<Rightarrow> 'r \<Rightarrow> nat \<Rightarrow> 's \<Rightarrow> nat list
    \<Rightarrow> ('r \<times> nat \<times> 's) option" where
  "feed scan pending i s [] = Some (pending, i, s)"
| "feed scan pending i s (n # ns) =
     (case scan i n s of
        None \<Rightarrow> None
      | Some (r, i', s') \<Rightarrow>
          if r = pending then feed scan pending i' s' ns else Some (r, i', s'))"

locale resumable_scan =
  fixes scan :: "nat \<Rightarrow> nat \<Rightarrow> 's \<Rightarrow> ('r \<times> nat \<times> 's) option"
    and pending :: 'r
    and limit :: nat
  assumes scan_total: "n \<le> limit \<Longrightarrow> scan i n s \<noteq> None"
    and scan_resume: "m \<le> n \<Longrightarrow> n \<le> limit \<Longrightarrow> scan i m s = Some (pending, i', s') \<Longrightarrow>
          scan i n s = scan i' n s'"
    and scan_final: "m \<le> n \<Longrightarrow> n \<le> limit \<Longrightarrow> scan i m s = Some (r, i', s') \<Longrightarrow> r \<noteq> pending \<Longrightarrow>
          scan i n s = Some (r, i', s')"
begin

lemma feed_eq_scan:
  "sorted (ns @ [n]) \<Longrightarrow> n \<le> limit \<Longrightarrow> feed scan pending i s (ns @ [n]) = scan i n s"
proof (induction ns arbitrary: i s)
  case Nil
  then show ?case using scan_total[of n i s] by (auto split: option.splits)
next
  case (Cons m ns)
  then have mn: "m \<le> n" "sorted (ns @ [n])" by (auto simp: sorted_append)
  obtain r i' s' where sc: "scan i m s = Some (r, i', s')"
    using scan_total[of m i s] mn Cons.prems(2) by (cases "scan i m s") auto
  show ?case
  proof (cases "r = pending")
    case True
    then show ?thesis
      using sc Cons.IH[OF mn(2) Cons.prems(2), of i' s']
        scan_resume[OF mn(1) Cons.prems(2), of i s i' s'] by simp
  next
    case False
    then show ?thesis using sc scan_final[OF mn(1) Cons.prems(2) sc] by simp
  qed
qed

lemma pending_before_final:
  "scan i n s = Some (r, i', s') \<Longrightarrow> m \<le> n \<Longrightarrow> n \<le> limit \<Longrightarrow>
     scan i m s = Some (r', j, s'') \<Longrightarrow> r' \<noteq> pending \<Longrightarrow> (r', j, s'') = (r, i', s')"
  using scan_final by fastforce

end

lemma got_request_total: "read_idx \<le> length buf \<Longrightarrow> got_request buf i read_idx s \<noteq> None"
proof (induction buf i read_idx s rule: got_request.induct)
  case (1 buf i n s)
  then show ?case by (subst got_request.simps) (auto split: fsm_out.splits)
qed

lemma got_request_resume:
  "m \<le> n \<Longrightarrow> n \<le> length buf \<Longrightarrow> got_request buf i m s = Some (NoRequest, i', s') \<Longrightarrow>
     got_request buf i n s = got_request buf i' n s'"
proof (induction buf i m s rule: got_request.induct)
  case (1 buf i m s)
  show ?case
  proof (cases "i < m")
    case True
    then show ?thesis using 1
      by (cases "fsm_step s (buf ! i)") (auto simp: got_request.simps[of buf i])
  next
    case False
    then show ?thesis using 1 by (auto simp: got_request.simps[of buf i m])
  qed
qed

lemma got_request_final:
  "m \<le> n \<Longrightarrow> n \<le> length buf \<Longrightarrow> got_request buf i m s = Some (r, i', s') \<Longrightarrow> r \<noteq> NoRequest \<Longrightarrow>
     got_request buf i n s = Some (r, i', s')"
proof (induction buf i m s rule: got_request.induct)
  case (1 buf i m s)
  show ?case
  proof (cases "i < m")
    case True
    then show ?thesis
      using 1 got_request.simps[of buf i n s] got_request.simps[of buf i m s]
      by (cases "fsm_step s (buf ! i)") auto
  next
    case False
    then show ?thesis using 1 by (auto simp: got_request.simps[of buf i m])
  qed
qed

interpretation request_scan: resumable_scan "got_request buf" NoRequest "length buf" for buf
  by unfold_locales (use got_request_total got_request_resume got_request_final in blast)+

text \<open>
  C18. The scanner is incremental: feeding it the data in any sequence of reads (the read index
  growing to n), keeping index and state in between and stopping at the first verdict, gives
  exactly the result of one scan over all n bytes; no read makes it panic.
\<close>

theorem got_request_incremental:
  assumes "sorted (ns @ [n])" "n \<le> length buf"
  shows "feed (got_request buf) NoRequest i st (ns @ [n]) = got_request buf i n st \<and>
         got_request buf i n st \<noteq> None"
  using request_scan.feed_eq_scan[OF assms] got_request_total[OF assms(2)] by blast

section \<open>Which requests are accepted, and where\<close>

text \<open>A run of the automaton over bytes that give no verdict.\<close>

fun fsm_run :: "parse_state \<Rightarrow> string \<Rightarrow> parse_state option" where
  "fsm_run st [] = Some st"
| "fsm_run st (c # cs) = (case fsm_step st c of Go st' \<Rightarrow> fsm_run st' cs | _ \<Rightarrow> None)"

lemma fsm_run_append:
  "fsm_run st (xs @ ys) = (case fsm_run st xs of Some st' \<Rightarrow> fsm_run st' ys | None \<Rightarrow> None)"
  by (induction xs arbitrary: st) (auto split: fsm_out.splits)

lemma got_request_run:
  "fsm_run st w = Some st' \<Longrightarrow> i + length w \<le> n \<Longrightarrow> take (length w) (drop i buf) = w \<Longrightarrow>
     got_request buf i n st = got_request buf (i + length w) n st'"
proof (induction w arbitrary: i st)
  case Nil
  then show ?case by simp
next
  case (Cons c w)
  have i: "i < length buf" using Cons.prems(3) by (cases "i < length buf") auto
  then have d: "drop i buf = buf ! i # drop (i + 1) buf" by (simp add: Cons_nth_drop_Suc)
  with Cons.prems have c: "buf ! i = c" "take (length w) (drop (i + 1) buf) = w" by simp_all
  obtain st1 where s1: "fsm_step st c = Go st1" "fsm_run st1 w = Some st'"
    using Cons.prems(1) by (auto split: fsm_out.splits)
  have "got_request buf i n st = got_request buf (i + 1) n st1"
    using i c s1 Cons.prems(2) by (subst got_request.simps) simp
  with Cons.IH[OF s1(2), of "i + 1"] c Cons.prems(2) show ?case by simp
qed

definition is_word :: "string \<Rightarrow> bool" where
  "is_word w \<longleftrightarrow> w \<noteq> [] \<and> list_all (\<lambda>c. \<not> is_ws c \<and> \<not> is_eol c) w"

definition is_header_line :: "string \<Rightarrow> bool" where
  "is_header_line h \<longleftrightarrow> h \<noteq> [] \<and> list_all (\<lambda>c. \<not> is_eol c) h"

definition request_bytes :: "string \<Rightarrow> string \<Rightarrow> string \<Rightarrow> string list \<Rightarrow> string" where
  "request_bytes meth url version headers =
     meth @ [SP] @ url @ [SP] @ version @ crlf @ concat (map (\<lambda>h. h @ crlf) headers) @ crlf"

lemma ws_eol_simps [simp]:
  "is_ws SP" "\<not> is_eol SP" "\<not> is_ws CR" "is_eol CR" "\<not> is_ws LF" "is_eol LF"
  by (simp_all add: is_ws_def is_eol_def)

lemma not_eol: "\<not> is_eol c \<Longrightarrow> c \<noteq> CR \<and> c \<noteq> LF"
  by (auto simp: is_eol_def)

lemma run_word_loops:
  assumes "list_all (\<lambda>c. \<not> is_ws c \<and> \<not> is_eol c) w"
  shows "fsm_run FirstWord w = Some FirstWord" "fsm_run SecondWord w = Some SecondWord"
    "fsm_run ThirdWord w = Some ThirdWord"
  using assms by (induction w) (auto dest: not_eol)

lemma run_line_loop: "list_all (\<lambda>c. \<not> is_eol c) w \<Longrightarrow> fsm_run Line w = Some Line"
  by (induction w) (auto dest: not_eol)

lemma run_headers:
  "list_all is_header_line hs \<Longrightarrow> fsm_run Crlf (concat (map (\<lambda>h. h @ crlf) hs)) = Some Crlf"
proof (induction hs)
  case Nil
  then show ?case by simp
next
  case (Cons h hs)
  then obtain c cs where h: "h = c # cs" "\<not> is_eol c" "list_all (\<lambda>c. \<not> is_eol c) cs"
    by (cases h) (auto simp: is_header_line_def)
  with Cons not_eol[OF h(2)] show ?case
    by (simp add: fsm_run_append run_line_loop crlf_def)
qed

lemma run_request:
  assumes "is_word meth" "is_word url" "is_word version" "list_all is_header_line hs"
  shows "fsm_run FirstWord
      (meth @ [SP] @ url @ [SP] @ version @ crlf @ concat (map (\<lambda>h. h @ crlf) hs) @ [CR]) =
    Some Crlfcr"
proof -
  obtain u us v vs where uv: "url = u # us" "version = v # vs"
    using assms by (cases url; cases version) (auto simp: is_word_def)
  then have l: "list_all (\<lambda>c. \<not> is_ws c \<and> \<not> is_eol c) meth"
    "list_all (\<lambda>c. \<not> is_ws c \<and> \<not> is_eol c) us" "list_all (\<lambda>c. \<not> is_ws c \<and> \<not> is_eol c) vs"
    "\<not> is_ws u" "\<not> is_eol u" "\<not> is_ws v" "\<not> is_eol v"
    using assms by (auto simp: is_word_def)
  show ?thesis
    using l run_headers[OF assms(4)]
    by (simp add: uv fsm_run_append run_word_loops crlf_def)
qed

text \<open>
  Every well-formed request (three words and any number of header lines, each ended by
  CRLF, then an empty line) is accepted exactly at its last byte, whatever follows it in the
  buffer, and no shorter prefix gets a verdict.
\<close>

theorem got_request_accepts:
  assumes "is_word meth" "is_word url" "is_word version" "list_all is_header_line hs"
    and "buf = request_bytes meth url version hs @ rest" "n \<le> length buf"
  shows "got_request buf 0 n FirstWord =
     (if n < length (request_bytes meth url version hs)
      then Some (NoRequest, n, the (fsm_run FirstWord (take n buf)))
      else Some (GotRequest, length (request_bytes meth url version hs), StGotRequest))"
proof -
  define w where
    "w = meth @ [SP] @ url @ [SP] @ version @ crlf @ concat (map (\<lambda>h. h @ crlf) hs) @ [CR]"
  have rb: "request_bytes meth url version hs = w @ [LF]"
    by (simp add: request_bytes_def crlf_def w_def)
  have run: "fsm_run FirstWord w = Some Crlfcr" unfolding w_def by (rule run_request[OF assms(1-4)])
  have w: "take (length w) (drop 0 buf) = w" "buf ! length w = LF" "length w < length buf"
    using assms(5) by (simp_all add: rb nth_append)
  show ?thesis
  proof (cases "n < length (request_bytes meth url version hs)")
    case True
    then have n: "n \<le> length w" using rb by simp
    then have tk: "take n buf = take n w" using w(1) by (metis drop0 min.absorb1 take_take)
    have "fsm_run FirstWord (take n w @ drop n w) = Some Crlfcr" using run by simp
    then obtain st where st: "fsm_run FirstWord (take n w) = Some st"
      unfolding fsm_run_append by (auto split: option.splits)
    have "length (take n w) = n" using n by simp
    with got_request_run[OF st, of 0 n buf] n tk True st show ?thesis
      by (simp add: got_request.simps[of buf n n])
  next
    case False
    then have n: "length w < n" using rb by simp
    then have "got_request buf 0 n FirstWord = got_request buf (length w) n Crlfcr"
      using got_request_run[OF run, of 0 n buf] w(1) by simp
    also have "\<dots> = Some (GotRequest, length w + 1, StGotRequest)"
      using w(2,3) n by (subst got_request.simps) simp
    finally show ?thesis using False rb by simp
  qed
qed

theorem got_request_incremental_witness:
  "sorted ([3, 9] @ [length ''GET / HTTP/1.0'']) \<and>
   feed (got_request ''GET / HTTP/1.0'') NoRequest 0 FirstWord ([3, 9] @ [14]) =
     got_request ''GET / HTTP/1.0'' 0 14 FirstWord"
  using got_request_incremental[of "[3, 9]" 14 "''GET / HTTP/1.0''" 0 FirstWord] by simp

theorem got_request_accepts_witness:
  "got_request (request_bytes ''GET'' ''/'' ''HTTP/1.0'' [''Host: a''] @ ''xyz'') 0 30 FirstWord =
     Some (GotRequest, 27, StGotRequest)"
proof -
  have h: "is_word ''GET''" "is_word ''/''" "is_word ''HTTP/1.0''"
    "list_all is_header_line [''Host: a'']" by code_simp+
  have l: "length (request_bytes ''GET'' ''/'' ''HTTP/1.0'' [''Host: a'']) = 27"
    by (simp add: request_bytes_def crlf_def)
  then have l2: "30 \<le> length (request_bytes ''GET'' ''/'' ''HTTP/1.0'' [''Host: a''] @ ''xyz'')"
    by simp
  from got_request_accepts[OF h refl l2] l show ?thesis by simp
qed

text \<open>Bounds of the index the scanner returns, for the caller's slices of the buffer.\<close>

lemma got_request_bounds:
  "got_request buf i n s = Some (r, j, s') \<Longrightarrow> i \<le> n \<Longrightarrow> i \<le> j \<and> j \<le> n"
proof (induction buf i n s rule: got_request.induct)
  case (1 buf i n s)
  then show ?case
    by (subst (asm) (2) got_request.simps) (fastforce split: if_splits fsm_out.splits)
qed

lemma got_request_state:
  "got_request buf i n s = Some (r, j, s') \<Longrightarrow>
     (r = GotRequest \<longrightarrow> s' = StGotRequest \<and> i < j) \<and> (r = BadRequest \<longrightarrow> s' = Bogus)"
proof (induction buf i n s rule: got_request.induct)
  case (1 buf i n s)
  then show ?case
    by (subst (asm) (2) got_request.simps) (fastforce split: if_splits fsm_out.splits)
qed

end
