(* ===== verification/Http_Conn.thy ===== *)
theory Http_Conn
  imports Request_Fsm
begin

text \<open>
  The per-connection HTTP state \<open>HttpConn\<close> of \<open>crates/thttpd-http/src/conn.rs\<close> and the error kinds
  of \<open>error.rs\<close>. A memory mapping (\<open>Rc<Mmap>\<close>) is its identity and its bytes.
\<close>

datatype conn_state = Free | Reading | Sending | Pausing | Lingering

record mmap =
  mm_id :: nat
  mm_data :: string

record http_conn =
  h_read_buf :: string
  h_read_idx :: nat
  h_checked_idx :: nat
  h_parse_state :: parse_state
  h_method :: http_method
  h_http_version :: string
  h_one_one :: bool
  h_vhost_dir :: string
  h_encoded_url :: string
  h_decoded_url :: string
  h_path_info :: string
  h_query :: string
  h_fragment :: string
  h_orig_filename :: string
  h_expn_filename :: string
  h_host :: string
  h_x_forwarded_for :: string
  h_content_type :: string
  h_content_length :: "int option"
  h_referer :: string
  h_user_agent :: string
  h_cookie :: string
  h_authorization :: string
  h_charset :: string
  h_accept :: string
  h_accept_encoding :: string
  h_accept_language :: string
  h_if_modified_since :: "int option"
  h_mime_flag :: bool
  h_got_range :: bool
  h_first_byte_index :: int
  h_last_byte_index :: int
  h_range_if :: "int option"
  h_response :: string
  h_response_len :: nat
  h_response_header_len :: nat
  h_status_code :: nat
  h_status_text :: string
  h_headers :: header_list
  h_file_address :: "mmap option"
  h_bytes_sent :: int
  h_state :: conn_state
  h_keep_alive :: bool
  h_should_linger :: bool

definition READ_BUF_SIZE :: nat where
  "READ_BUF_SIZE = 60000"

definition http_conn_new :: http_conn where
  "http_conn_new =
     \<lparr>h_read_buf = replicate 60000 (CHR 0x00), h_read_idx = 0, h_checked_idx = 0,
      h_parse_state = initial_state, h_method = Unknown, h_http_version = [], h_one_one = False,
      h_vhost_dir = [], h_encoded_url = [], h_decoded_url = [], h_path_info = [], h_query = [],
      h_fragment = [], h_orig_filename = [], h_expn_filename = [], h_host = [],
      h_x_forwarded_for = [], h_content_type = [], h_content_length = None, h_referer = [],
      h_user_agent = [], h_cookie = [], h_authorization = [], h_charset = ''iso-8859-1'',
      h_accept = [], h_accept_encoding = [], h_accept_language = [], h_if_modified_since = None,
      h_mime_flag = True, h_got_range = False, h_first_byte_index = 0, h_last_byte_index = -1,
      h_range_if = None, h_response = [], h_response_len = 0, h_response_header_len = 0,
      h_status_code = 0, h_status_text = [], h_headers = [], h_file_address = None,
      h_bytes_sent = 0, h_state = Reading, h_keep_alive = False, h_should_linger = False\<rparr>"

definition http_conn_reset :: "http_conn \<Rightarrow> http_conn" where
  "http_conn_reset c =
     c\<lparr>h_read_idx := 0, h_checked_idx := 0, h_parse_state := initial_state, h_method := Unknown,
       h_http_version := [], h_one_one := False, h_vhost_dir := [], h_encoded_url := [],
       h_decoded_url := [], h_path_info := [], h_query := [], h_fragment := [],
       h_orig_filename := [], h_expn_filename := [], h_host := [], h_x_forwarded_for := [],
       h_content_type := [], h_content_length := None, h_referer := [], h_user_agent := [],
       h_cookie := [], h_authorization := [], h_charset := ''iso-8859-1'', h_accept := [],
       h_accept_encoding := [], h_accept_language := [], h_if_modified_since := None,
       h_mime_flag := True, h_got_range := False, h_first_byte_index := 0,
       h_last_byte_index := -1, h_range_if := None, h_response := [], h_response_len := 0,
       h_response_header_len := 0, h_status_code := 0, h_status_text := [], h_headers := [],
       h_file_address := None, h_bytes_sent := 0, h_state := Reading, h_keep_alive := False,
       h_should_linger := False\<rparr>"

text \<open>
  Resetting a connection for reuse leaves nothing of the previous request behind: the
  result is a fresh connection, up to the bytes of the read buffer, which are past its read
  index.
\<close>

theorem reset_is_fresh:
  "http_conn_reset c = http_conn_new\<lparr>h_read_buf := h_read_buf c\<rparr> \<and>
   take (h_read_idx (http_conn_reset c)) (h_read_buf (http_conn_reset c)) = []"
  by (simp add: http_conn_reset_def http_conn_new_def)

section \<open>Error kinds\<close>

datatype http_error =
  ErrBadRequest | ErrUnauthorized string | ErrForbidden | ErrNotFound | ErrRequestTimeout
  | ErrInternalServerError | ErrNotImplemented | ErrServiceUnavailable

fun error_status_code :: "http_error \<Rightarrow> nat" where
  "error_status_code ErrBadRequest = 400"
| "error_status_code (ErrUnauthorized _) = 401"
| "error_status_code ErrForbidden = 403"
| "error_status_code ErrNotFound = 404"
| "error_status_code ErrRequestTimeout = 408"
| "error_status_code ErrInternalServerError = 500"
| "error_status_code ErrNotImplemented = 501"
| "error_status_code ErrServiceUnavailable = 503"

fun error_status_text :: "http_error \<Rightarrow> string" where
  "error_status_text ErrBadRequest = ''Bad Request''"
| "error_status_text (ErrUnauthorized _) = ''Unauthorized''"
| "error_status_text ErrForbidden = ''Forbidden''"
| "error_status_text ErrNotFound = ''Not Found''"
| "error_status_text ErrRequestTimeout = ''Request Timeout''"
| "error_status_text ErrInternalServerError = ''Internal Server Error''"
| "error_status_text ErrNotImplemented = ''Not Implemented''"
| "error_status_text ErrServiceUnavailable = ''Service Unavailable''"

end
