(* ===== verification/Http_Response.thy ===== *)
theory Http_Response
  imports Http_Conn Http_Date
begin

text \<open>
  Response construction, \<open>crates/thttpd-http/src/response.rs\<close>, and the helpers of
  \<open>crates/thttpd-core/src/eventloop.rs\<close> that read a finished response back
  (\<open>header_end_offset\<close>, \<open>entity_bytes_sent\<close>). The current time is an argument.
\<close>

definition SERVER_SOFTWARE :: string where
  "SERVER_SOFTWARE = ''sthttpd/2.27.0 03oct2014''"

definition SERVER_ADDRESS :: string where
  "SERVER_ADDRESS = ''http://localhost''"

section \<open>The response builder\<close>

record response_builder =
  rb_status_code :: nat
  rb_status_text :: string
  rb_headers :: header_list
  rb_body :: string

definition rb_new :: response_builder where
  "rb_new = \<lparr>rb_status_code = 200, rb_status_text = ''OK'', rb_headers = [], rb_body = []\<rparr>"

definition rb_status :: "nat \<Rightarrow> string \<Rightarrow> response_builder \<Rightarrow> response_builder" where
  "rb_status code text rb = rb\<lparr>rb_status_code := code, rb_status_text := text\<rparr>"

definition rb_header :: "string \<Rightarrow> string \<Rightarrow> response_builder \<Rightarrow> response_builder" where
  "rb_header name value rb = rb\<lparr>rb_headers := rb_headers rb @ [(name, value)]\<rparr>"

definition rb_set_body :: "string \<Rightarrow> response_builder \<Rightarrow> response_builder" where
  "rb_set_body body rb = rb\<lparr>rb_body := body\<rparr>"

definition header_line :: "string \<times> string \<Rightarrow> string" where
  "header_line h = fst h @ '': '' @ snd h"

definition crlf_lines :: "string list \<Rightarrow> string" where
  "crlf_lines ls = concat (map (\<lambda>l. l @ crlf) ls)"

definition rb_build :: "response_builder \<Rightarrow> string" where
  "rb_build rb =
     (''HTTP/1.0 '' @ dec_nat (rb_status_code rb) @ '' '' @ rb_status_text rb @ crlf) @
     crlf_lines (map header_line (rb_headers rb)) @ crlf @ rb_body rb"

section \<open>The full response header\<close>

definition http_date :: "int \<Rightarrow> string" where
  "http_date ts = (case format_http_date ts of Some s \<Rightarrow> s | None \<Rightarrow> [])"

definition fixed_content_type :: "http_conn \<Rightarrow> string \<Rightarrow> string" where
  "fixed_content_type http content_type =
     (let charset = (if h_charset http = [] then ''iso-8859-1'' else h_charset http)
      in if starts_with ''text/'' content_type \<and> \<not> contains_str ''charset='' content_type
         then content_type @ ''; charset='' @ charset
         else content_type)"

definition is_partial :: "http_conn \<Rightarrow> nat \<Rightarrow> int \<Rightarrow> int \<Rightarrow> bool" where
  "is_partial http status len mod_time \<longleftrightarrow>
     h_got_range http \<and> status = 200 \<and>
     h_first_byte_index http \<le> h_last_byte_index http \<and>
     (h_last_byte_index http \<noteq> len - 1 \<or> h_first_byte_index http \<noteq> 0) \<and>
     (h_range_if http = None \<or> h_range_if http = Some mod_time)"

definition full_response_lines ::
  "int \<Rightarrow> http_conn \<Rightarrow> nat \<Rightarrow> string \<Rightarrow> string \<Rightarrow> int \<Rightarrow> int \<Rightarrow> header_list \<Rightarrow> string list" where
  "full_response_lines now_ts http status status_text content_type len mtime extra_headers =
     (let mod_time = (if mtime = 0 then now_ts else mtime);
          partial = is_partial http status len mod_time;
          final_status = (if partial then 206 else status);
          final_text = (if partial then ''Partial Content'' else status_text);
          protocol = (if h_http_version http = [] then ''HTTP/1.0'' else h_http_version http);
          s100 = final_status div 100;
          is_ce = (\<lambda>h. eq_ignore_ascii_case (fst h) ''Content-Encoding'')
      in [protocol @ '' '' @ dec_nat final_status @ '' '' @ final_text,
          ''Server: '' @ SERVER_SOFTWARE,
          ''Content-Type: '' @ fixed_content_type http content_type,
          ''Date: '' @ http_date now_ts,
          ''Last-Modified: '' @ http_date mod_time,
          ''Accept-Ranges: bytes'',
          ''Connection: close''] @
         (if s100 \<noteq> 2 \<and> s100 \<noteq> 3 then [''Cache-Control: no-cache,no-store''] else []) @
         map (\<lambda>h. ''Content-Encoding: '' @ snd h) (filter is_ce extra_headers) @
         (if partial then
            [''Content-Range: bytes '' @ dec_int (h_first_byte_index http) @ ''-'' @
               dec_int (h_last_byte_index http) @ ''/'' @ dec_int len,
             ''Content-Length: '' @
               dec_int (h_last_byte_index http - h_first_byte_index http + 1)]
          else if 0 \<le> len then [''Content-Length: '' @ dec_int len] else []) @
         map header_line (filter (\<lambda>h. \<not> is_ce h) extra_headers))"

definition build_full_response ::
  "int \<Rightarrow> http_conn \<Rightarrow> nat \<Rightarrow> string \<Rightarrow> string \<Rightarrow> int \<Rightarrow> int \<Rightarrow> header_list \<Rightarrow> string" where
  "build_full_response now_ts http status status_text content_type len mtime extra_headers =
     (if \<not> h_mime_flag http then []
      else crlf_lines (full_response_lines now_ts http status status_text content_type len mtime
             extra_headers) @ crlf)"

section \<open>Error pages\<close>

function floor_char_boundary_loop :: "string \<Rightarrow> nat \<Rightarrow> nat" where
  "floor_char_boundary_loop s index =
     (if is_char_boundary s index then index else floor_char_boundary_loop s (index - 1))"
  by pat_completeness auto
termination
proof (relation "measure snd", goal_cases)
  case (2 s index)
  then have "index \<noteq> 0" by (auto simp: is_char_boundary_def)
  then show ?case by simp
qed simp

declare floor_char_boundary_loop.simps [simp del]

definition floor_char_boundary :: "string \<Rightarrow> nat \<Rightarrow> nat" where
  "floor_char_boundary s index =
     (if length s \<le> index then length s else floor_char_boundary_loop s index)"

definition defang_byte :: "char \<Rightarrow> string" where
  "defang_byte c =
     (if c = CHR ''<'' then ''&lt;'' else if c = CHR ''>'' then ''&gt;'' else [c])"

definition defang :: "string \<Rightarrow> string" where
  "defang s = concat (map defang_byte s)"

definition defanged_arg :: "string \<Rightarrow> string" where
  "defanged_arg arg =
     (let d = defang arg
      in if 80 < length d then take (floor_char_boundary d 80) d else d)"

definition body_message :: "string \<Rightarrow> string \<Rightarrow> string" where
  "body_message form arg =
     (if contains_str ''%.80s'' form then replace_str ''%.80s'' (defanged_arg arg) form else form)"

definition msie_padding :: string where
  "msie_padding =
     ''<!--'' @ [LF] @
     concat (replicate 6
       (''Padding so that MSIE deigns to show this error instead of its own canned one.'' @ [LF])) @
     ''-->'' @ [LF]"

definition error_page :: "nat \<Rightarrow> string \<Rightarrow> string \<Rightarrow> string \<Rightarrow> string option \<Rightarrow> string" where
  "error_page status title form arg user_agent =
     (let st = dec_nat status in
      ''<HTML>'' @ [LF] @ ''<HEAD><TITLE>'' @ st @ '' '' @ title @ ''</TITLE></HEAD>'' @ [LF] @
      ''<BODY BGCOLOR='' @ [DQUOTE] @ ''#cc9999'' @ [DQUOTE] @ '' TEXT='' @ [DQUOTE] @ ''#000000'' @
      [DQUOTE] @ '' LINK='' @ [DQUOTE] @ ''#2020ff'' @ [DQUOTE] @ '' VLINK='' @ [DQUOTE] @
      ''#4040cc'' @ [DQUOTE] @ ''>'' @ [LF] @
      ''<H2>'' @ st @ '' '' @ title @ ''</H2>'' @ [LF] @ body_message form arg @
      (case user_agent of
         Some ua \<Rightarrow> if contains_str ''MSIE'' ua then msie_padding else []
       | None \<Rightarrow> []) @
      ''<HR>'' @ [LF] @ ''<ADDRESS><A HREF='' @ [DQUOTE] @ SERVER_ADDRESS @ [DQUOTE] @ ''>'' @
      SERVER_SOFTWARE @ ''</A></ADDRESS>'' @ [LF] @ ''</BODY>'' @ [LF] @ ''</HTML>'' @ [LF])"

section \<open>Reading a response back\<close>

definition header_end_offset :: "string \<Rightarrow> nat option" where
  "header_end_offset response =
     (case find_str (crlf @ crlf) response of
        Some pos \<Rightarrow> Some (pos + 4)
      | None \<Rightarrow> map_option (\<lambda>pos. pos + 2) (find_str [LF, LF] response))"

definition entity_bytes_sent :: "int \<Rightarrow> nat \<Rightarrow> int" where
  "entity_bytes_sent bytes_sent header_len = max (bytes_sent - int header_len) 0"

section \<open>Framing: the header block ends where the first empty line is\<close>

definition line_safe :: "string \<Rightarrow> bool" where
  "line_safe l \<longleftrightarrow> CR \<notin> set l \<and> LF \<notin> set l"

lemma line_safe_append [simp]: "line_safe (a @ b) \<longleftrightarrow> line_safe a \<and> line_safe b"
  by (auto simp: line_safe_def)

lemma line_safe_Cons: "line_safe (c # b) \<longleftrightarrow> c \<noteq> CR \<and> c \<noteq> LF \<and> line_safe b"
  by (auto simp: line_safe_def)

lemma line_safe_nil [simp]: "line_safe []"
  by (simp add: line_safe_def)

lemma find_skip: "CR \<notin> set l \<Longrightarrow>
   find_str (CR # p) (l @ s) = map_option (\<lambda>i. i + length l) (find_str (CR # p) s)"
  by (induction l)
    (auto simp: starts_with_def option.map_comp comp_def option.map_ident)

lemma find_crlf2_lines:
  assumes "ls \<noteq> []" "list_all (\<lambda>l. line_safe l \<and> l \<noteq> []) ls"
  shows "find_str (crlf @ crlf) (crlf_lines ls @ crlf @ body) = Some (length (crlf_lines ls) - 2)"
  using assms
proof (induction ls)
  case Nil
  then show ?case by simp
next
  case (Cons l ls)
  have cr: "CR \<notin> set l" using Cons.prems by (simp add: line_safe_def)
  show ?case
  proof (cases ls)
    case Nil
    then show ?thesis
      using find_skip[OF cr, of "[LF, CR, LF]" "crlf @ crlf @ body"]
      by (simp add: crlf_lines_def crlf_def starts_with_def)
  next
    case (Cons l2 ls2)
    then obtain d ds where d: "l2 = d # ds" "d \<noteq> CR"
      using Cons.prems by (cases l2) (auto simp: line_safe_def)
    have ih: "find_str (crlf @ crlf) (crlf_lines ls @ crlf @ body) =
        Some (length (crlf_lines ls) - 2)"
      using Cons.IH Cons.prems Cons by simp
    have pos: "2 \<le> length (crlf_lines ls)" using Cons by (simp add: crlf_lines_def crlf_def)
    have "find_str (crlf @ crlf) (crlf @ crlf_lines ls @ crlf @ body) =
        map_option (\<lambda>i. i + 2) (find_str (crlf @ crlf) (crlf_lines ls @ crlf @ body))"
      using d Cons by (simp add: crlf_def crlf_lines_def starts_with_def option.map_comp comp_def)
    then show ?thesis
      using find_skip[OF cr, of "[LF, CR, LF]" "crlf @ crlf_lines ls @ crlf @ body"] ih pos
      by (simp add: crlf_def crlf_lines_def)
  qed
qed

lemma is_ascii_digit_not_eol: "is_ascii_digit c \<Longrightarrow> c \<noteq> CR \<and> c \<noteq> LF"
  by (auto simp: is_ascii_digit_def byte_val_def)

lemma line_safe_dec [simp]: "line_safe (dec_nat n)" "line_safe (dec_int i)"
proof -
  have n: "line_safe (dec_nat m)" for m
    using dec_nat_digits[of m] is_ascii_digit_not_eol by (fastforce simp: line_safe_def list_all_iff)
  show "line_safe (dec_nat n)" by (rule n)
  show "line_safe (dec_int i)" using n by (simp add: dec_int_def line_safe_Cons)
qed

lemma line_safe_http_date [simp]: "0 \<le> ts \<Longrightarrow> line_safe (http_date ts)"
proof -
  assume "0 \<le> ts"
  then obtain y m d h mi sc where f: "format_http_date ts =
       Some (day_names ! day_of_week ts @ '', '' @ two_digits d @ '' '' @ month_names ! m @
             '' '' @ dec_int y @ '' '' @ two_digits h @ '':'' @ two_digits mi @ '':'' @
             two_digits sc @ '' GMT'')" and m: "m < 12"
    by (rule format_fields)
  have g: "list_all is_graph w \<Longrightarrow> line_safe w" for w
    by (auto simp: line_safe_def list_all_iff is_graph_def byte_val_def)
  show ?thesis
    using g[of "day_names ! day_of_week ts"] g[of "month_names ! m"] g[of "two_digits _"]
      graph_names m day_of_week_lt[of ts] two_digits_props(1)
    by (simp add: http_date_def f line_safe_Cons)
qed

lemma line_safe_charset:
  "line_safe content_type \<Longrightarrow> line_safe (h_charset http) \<Longrightarrow>
     line_safe (fixed_content_type http content_type)"
  by (simp add: fixed_content_type_def Let_def line_safe_Cons)

lemma full_response_lines_safe:
  assumes "0 < now_ts" "0 \<le> mtime" "line_safe status_text" "line_safe content_type"
    and "line_safe (h_charset http)" "line_safe (h_http_version http)"
    and "list_all (\<lambda>h. line_safe (fst h) \<and> line_safe (snd h)) extra_headers"
  shows "list_all (\<lambda>l. line_safe l \<and> l \<noteq> [])
    (full_response_lines now_ts http status status_text content_type len mtime extra_headers)"
  using assms line_safe_charset[OF assms(4,5)]
  by (auto simp: full_response_lines_def Let_def line_safe_Cons SERVER_SOFTWARE_def
      header_line_def list_all_iff)

text \<open>
  No header injection and exact framing: when the values put into it contain no line breaks,
  the header block is a sequence of non-empty lines without line breaks, each ended by CRLF, and
  the position the server computes for the start of the entity body is exactly the length of the
  block, whatever the body is.
\<close>

theorem build_full_response_framing:
  assumes "0 < now_ts" "0 \<le> mtime" "line_safe status_text" "line_safe content_type"
    and "line_safe (h_charset http)" "line_safe (h_http_version http)"
    and "list_all (\<lambda>h. line_safe (fst h) \<and> line_safe (snd h)) extra_headers"
    and "h_mime_flag http"
    and "resp = build_full_response now_ts http status status_text content_type len mtime
           extra_headers"
  shows "(\<exists>ls. list_all (\<lambda>l. line_safe l \<and> l \<noteq> []) ls \<and> resp = crlf_lines ls @ crlf) \<and>
     header_end_offset (resp @ body) = Some (length resp)"
proof -
  let ?ls = "full_response_lines now_ts http status status_text content_type len mtime extra_headers"
  have safe: "list_all (\<lambda>l. line_safe l \<and> l \<noteq> []) ?ls"
    by (rule full_response_lines_safe[OF assms(1-7)])
  have r: "resp = crlf_lines ?ls @ crlf" using assms(8,9) by (simp add: build_full_response_def)
  have ne: "?ls \<noteq> []" by (simp add: full_response_lines_def Let_def)
  have "2 \<le> length (crlf_lines ?ls)"
    using ne by (cases ?ls) (simp_all add: crlf_lines_def crlf_def)
  then have "header_end_offset (resp @ body) = Some (length resp)"
    using find_crlf2_lines[OF ne safe, of body] by (simp add: header_end_offset_def r crlf_def)
  with safe r show ?thesis by blast
qed

theorem build_full_response_framing_witness:
  "header_end_offset
     (build_full_response 5000000 (http_conn_new\<lparr>h_http_version := ''HTTP/1.1''\<rparr>) 200 ''OK''
        ''text/html'' 3 0 [(''Content-Encoding'', ''gzip'')] @ ''abc'') =
   Some (length (build_full_response 5000000 (http_conn_new\<lparr>h_http_version := ''HTTP/1.1''\<rparr>) 200
        ''OK'' ''text/html'' 3 0 [(''Content-Encoding'', ''gzip'')]))"
  by (rule build_full_response_framing[THEN conjunct2, OF _ _ _ _ _ _ _ _ refl])
    (simp_all add: http_conn_new_def line_safe_def)

section \<open>Error pages carry no markup from the request\<close>

lemma defang_no_markup: "CHR ''<'' \<notin> set (defang s) \<and> CHR ''>'' \<notin> set (defang s)"
  by (auto simp: defang_def defang_byte_def split: if_splits)

lemma floor_char_boundary_loop_le:
  "floor_char_boundary_loop s i \<le> i \<and> is_char_boundary s (floor_char_boundary_loop s i)"
proof (induction s i rule: floor_char_boundary_loop.induct)
  case (1 s i)
  then show ?case by (subst (1 2) floor_char_boundary_loop.simps) auto
qed

lemma floor_char_boundary_spec:
  "floor_char_boundary s i \<le> i \<and> floor_char_boundary s i \<le> length s \<and>
   is_char_boundary s (floor_char_boundary s i)"
  using floor_char_boundary_loop_le[of s i]
  by (auto simp: floor_char_boundary_def is_char_boundary_def)

lemma floor_char_boundary_greatest:
  "j \<le> i \<Longrightarrow> is_char_boundary s j \<Longrightarrow> j \<le> floor_char_boundary_loop s i"
proof (induction s i rule: floor_char_boundary_loop.induct)
  case (1 s i)
  show ?case
  proof (cases "is_char_boundary s i")
    case False
    then have "j \<le> i - 1" using "1.prems" by (cases "j = i") auto
    then show ?thesis using 1 False by (subst floor_char_boundary_loop.simps) simp
  qed (use "1.prems" in \<open>subst floor_char_boundary_loop.simps, simp\<close>)
qed

lemma defanged_arg_prefix:
  "\<exists>k. defanged_arg arg = take k (defang arg) \<and> is_char_boundary (defang arg) k \<and> k \<le> length (defang arg) \<and>
     length (defanged_arg arg) \<le> 80 \<and> (length (defang arg) \<le> 80 \<longrightarrow> k = length (defang arg)) \<and>
     (\<forall>j \<le> 80. is_char_boundary (defang arg) j \<longrightarrow> j \<le> k)"
proof (cases "80 < length (defang arg)")
  case True
  let ?k = "floor_char_boundary (defang arg) 80"
  have "defanged_arg arg = take ?k (defang arg)" using True by (simp add: defanged_arg_def Let_def)
  moreover have "j \<le> ?k" if "j \<le> 80" "is_char_boundary (defang arg) j" for j
    using floor_char_boundary_greatest[OF that] True by (simp add: floor_char_boundary_def)
  ultimately show ?thesis using True floor_char_boundary_spec[of "defang arg" 80] by (intro exI[of _ ?k]) auto
next
  case False
  then show ?thesis
    by (auto simp: defanged_arg_def Let_def is_char_boundary_def intro!: exI[of _ "length (defang arg)"])
qed

definition is_angle :: "char \<Rightarrow> bool" where
  "is_angle c \<longleftrightarrow> c = CHR ''<'' \<or> c = CHR ''>''"

lemma defanged_arg_inert: "filter is_angle (defanged_arg arg) = []"
  using defanged_arg_prefix[of arg] defang_no_markup[of arg] by (auto simp: filter_empty_conv is_angle_def dest: in_set_takeD)

lemma filter_replace_str:
  "filter P r = filter P r' \<Longrightarrow> filter P (replace_str p r s) = filter P (replace_str p r' s)"
proof (induction p r s rule: replace_str.induct)
  case (1 p r s)
  then show ?case
    by (subst (1 2) replace_str.simps) auto
qed

lemma filter_body_message: "filter is_angle (body_message form arg) = filter is_angle (body_message form arg')"
  using filter_replace_str[of is_angle "defanged_arg arg" "defanged_arg arg'"] by (simp add: body_message_def defanged_arg_inert)

lemma wrapped_append:
  assumes "\<exists>h t. \<forall>x y. f x y = h @ g x y @ t"
  shows "\<exists>h t. \<forall>x y. a @ f x y = h @ g x y @ t"
  using assms by (metis append.assoc)

lemma wrapped_here: "\<exists>h t. \<forall>x y. g x y @ b = h @ g x y @ t"
  by (metis append_Nil)

lemma error_page_parts: "\<exists>h t. \<forall>form arg. error_page status title form arg ua = h @ body_message form arg @ t"
  unfolding error_page_def Let_def by (intro wrapped_append wrapped_here)

lemma replace_str_skip:
  assumes "CHR ''%'' \<notin> set a"
  shows "replace_str (CHR ''%'' # p) r (a @ s) = a @ replace_str (CHR ''%'' # p) r s"
  using assms
proof (induction a)
  case (Cons c a)
  then show ?case by (subst replace_str.simps) (auto simp: starts_with_def)
qed simp

lemma body_message_inserts:
  assumes "CHR ''%'' \<notin> set a" "CHR ''%'' \<notin> set b"
  shows "body_message (a @ ''%.80s'' @ b) arg = a @ defanged_arg arg @ b"
proof -
  have "contains_str ''%.80s'' (a @ ''%.80s'' @ b)" using find_str_Some_iff_app by blast
  moreover have "replace_str ''%.80s'' r b = b" for r
    using replace_str_skip[OF assms(2), of "''.80s''" r "[]"] by (simp add: replace_str.simps)
  moreover have "replace_str ''%.80s'' r (''%.80s'' @ b) = r @ replace_str ''%.80s'' r b" for r
    by (subst replace_str.simps) (simp add: starts_with_def)
  ultimately show ?thesis
    using replace_str_skip[OF assms(1), of "''.80s''" "defanged_arg arg" "''%.80s'' @ b"] by (simp add: body_message_def)
qed

text \<open>
  C38. What an error page shows of the request is inert and bounded. For every form the sequence of
  the angle brackets of the page is the one it has with an empty argument. And a page whose form has
  one place for the argument is the fixed head, the form with a text in this place, and the fixed
  foot; the text is the argument with every angle bracket replaced by its entity, whole if this has
  at most 80 bytes and otherwise cut at the last character boundary that is not past 80.
\<close>

theorem error_page_argument_safe:
  "filter is_angle (error_page status title form arg ua) = filter is_angle (error_page status title form [] ua) \<and>
   (\<exists>head foot. \<forall>a b arg escaped. CHR ''%'' \<notin> set (a @ b) \<and>
      escaped = concat (map (\<lambda>c. if c = CHR ''<'' then ''&lt;'' else if c = CHR ''>'' then ''&gt;'' else [c]) arg) \<longrightarrow>
      (\<exists>k \<le> length escaped. error_page status title (a @ ''%.80s'' @ b) arg ua = head @ a @ take k escaped @ b @ foot \<and>
        k \<le> 80 \<and> is_char_boundary escaped k \<and> (length escaped \<le> 80 \<longrightarrow> k = length escaped) \<and>
        (\<forall>j \<le> 80. is_char_boundary escaped j \<longrightarrow> j \<le> k)))"
proof -
  obtain head foot where p: "\<And>form arg. error_page status title form arg ua = head @ body_message form arg @ foot"
    using error_page_parts by blast
  have d: "concat (map (\<lambda>c. if c = CHR ''<'' then ''&lt;'' else if c = CHR ''>'' then ''&gt;'' else [c]) x) = defang x" for x
    unfolding defang_def by (intro arg_cong[where f = concat] map_cong refl) (simp add: defang_byte_def)
  have "filter is_angle (error_page status title form arg ua) = filter is_angle (error_page status title form [] ua)"
    using filter_body_message[of form arg "[]"] by (simp add: p)
  moreover have "\<exists>k \<le> length (defang x). error_page status title (a @ ''%.80s'' @ b) x ua = head @ a @ take k (defang x) @ b @ foot \<and>
      k \<le> 80 \<and> is_char_boundary (defang x) k \<and> (length (defang x) \<le> 80 \<longrightarrow> k = length (defang x)) \<and>
      (\<forall>j \<le> 80. is_char_boundary (defang x) j \<longrightarrow> j \<le> k)"
    if "CHR ''%'' \<notin> set (a @ b)" for a b x
  proof -
    obtain k where "defanged_arg x = take k (defang x)" "is_char_boundary (defang x) k" "k \<le> length (defang x)"
      "length (defanged_arg x) \<le> 80" "length (defang x) \<le> 80 \<longrightarrow> k = length (defang x)"
      "\<forall>j \<le> 80. is_char_boundary (defang x) j \<longrightarrow> j \<le> k" using defanged_arg_prefix by blast
    moreover have "body_message (a @ ''%.80s'' @ b) x = a @ defanged_arg x @ b" using that by (intro body_message_inserts) simp_all
    ultimately show ?thesis by (intro exI[of _ k]) (simp add: p)
  qed
  ultimately show ?thesis unfolding d by blast
qed

theorem error_page_argument_safe_witness:
  "\<exists>head foot. error_page 404 ''Not Found'' ''No %.80s here'' ''/<b>'' None = head @ ''No /&lt;b&gt; here'' @ foot"
proof -
  let ?esc = "\<lambda>arg. concat (map (\<lambda>c. if c = CHR ''<'' then ''&lt;'' else if c = CHR ''>'' then ''&gt;'' else [c]) arg)"
  obtain head foot where p: "\<forall>a b arg escaped. CHR ''%'' \<notin> set (a @ b) \<and> escaped = ?esc arg \<longrightarrow>
      (\<exists>k \<le> length escaped. error_page 404 ''Not Found'' (a @ ''%.80s'' @ b) arg None = head @ a @ take k escaped @ b @ foot \<and>
        k \<le> 80 \<and> is_char_boundary escaped k \<and> (length escaped \<le> 80 \<longrightarrow> k = length escaped) \<and>
        (\<forall>j \<le> 80. is_char_boundary escaped j \<longrightarrow> j \<le> k))"
    using conjunct2[OF error_page_argument_safe[of 404 "''Not Found''" "[]" "[]" None]] by (elim exE) (rule that)
  have "CHR ''%'' \<notin> set (''No '' @ '' here'') \<and> ''/&lt;b&gt;'' = ?esc ''/<b>''" by simp
  from p[rule_format, OF this] obtain k where
    "error_page 404 ''Not Found'' (''No '' @ ''%.80s'' @ '' here'') ''/<b>'' None =
       head @ ''No '' @ take k ''/&lt;b&gt;'' @ '' here'' @ foot"
    "length ''/&lt;b&gt;'' \<le> 80 \<longrightarrow> k = length ''/&lt;b&gt;''" by (elim exE conjE) (rule that)
  then show ?thesis by auto
qed

end
