(* ===== verification/Throttle_Table.thy ===== *)
theory Throttle_Table
  imports Glob_Match
begin

text \<open>
  The bandwidth throttle table of \<open>crates/thttpd-core/src/throttle.rs\<close>: its rules, the
  throttlefile parser, admission of a request, release at the end of a transfer, the fair share
  of a connection and the rolling averages. The table is its list of entries. Limits and rates
  are \<open>i64\<close>: the products and sums of configured values wrap around, \<open>num_sending\<close> counts
  connections and does not come near the bound.

  What the event loop relies on is the locale \<open>usage_ledger\<close>: what an admission acquires, a
  release gives back, so that the counters are those of the open transfers at every moment.
\<close>

section \<open>Rules and table\<close>

definition THROTTLE_TIME :: int where
  "THROTTLE_TIME = 2"

definition MAX_THROTTLE_NUMS :: nat where
  "MAX_THROTTLE_NUMS = 10"

definition CGI_BYTECOUNT :: int where
  "CGI_BYTECOUNT = 25000"

definition THROTTLE_NOLIMIT :: int where
  "THROTTLE_NOLIMIT = -1"

record throttle_entry =
  te_pattern :: string
  te_max_limit :: int
  te_min_limit :: int
  te_rate :: int
  te_bytes_since_avg :: int
  te_num_sending :: int

type_synonym throttle_table = "throttle_entry list"

definition throttle_entry_new :: "string \<Rightarrow> int \<Rightarrow> int \<Rightarrow> throttle_entry" where
  "throttle_entry_new pattern max_limit min_limit =
     \<lparr>te_pattern = pattern, te_max_limit = max_limit, te_min_limit = min_limit, te_rate = 0,
      te_bytes_since_avg = 0, te_num_sending = 0\<rparr>"

datatype throttle_decision = Unlimited | Allow "nat list" int int | Reject

section \<open>The throttlefile\<close>

definition throttle_parse_rates :: "string \<Rightarrow> (int \<times> int) option" where
  "throttle_parse_rates first =
     (case split_once (CHR ''-'') first of
        Some (min_str, max_str) \<Rightarrow>
          (case parse_i64 (trim min_str) of
             None \<Rightarrow> None
           | Some min_limit \<Rightarrow>
               map_option (\<lambda>max_limit. (min_limit, max_limit)) (parse_i64 (trim max_str)))
      | None \<Rightarrow> map_option (\<lambda>max_limit. (0, max_limit)) (parse_i64 first))"

definition throttle_parse_pattern :: "string \<Rightarrow> (string \<times> string) option" where
  "throttle_parse_pattern line =
     (case strip_prefix [DQUOTE] line of
        Some stripped \<Rightarrow>
          map_option (\<lambda>e. (take e stripped, trim_start (drop (Suc e) stripped)))
            (find_byte DQUOTE stripped)
      | None \<Rightarrow>
          (case take_word line of
             (pattern, rest) \<Rightarrow>
               if rest = [] then None
               else Some (trim pattern, trim_start (drop (ws_len rest) rest))))"

definition throttle_parse_line :: "string \<Rightarrow> throttle_entry option" where
  "throttle_parse_line line =
     (case throttle_parse_pattern line of
        None \<Rightarrow> None
      | Some (raw, rest) \<Rightarrow>
          (let stripped = trim_start_matches (\<lambda>c. c = CHR ''/'') raw;
               pattern = (if contains_str ''|/'' stripped then replace_str ''|/'' ''|'' stripped
                          else stripped);
               first = trim (fst (take_word rest))
           in case throttle_parse_rates first of
                None \<Rightarrow> None
              | Some (min_limit, max_limit) \<Rightarrow>
                  if pattern = [] then None
                  else Some (throttle_entry_new pattern max_limit min_limit)))"

definition throttle_load_line :: "string \<Rightarrow> throttle_entry option" where
  "throttle_load_line raw_line =
     (let line = trim_end_matches (\<lambda>c. c \<in> {SP, TAB, LF, CR}) raw_line
      in if contains_byte (CHR ''#'') line
         then (let trimmed = hd (split_byte (CHR ''#'') line)
               in if trim trimmed = [] then None else throttle_parse_line (trim_end trimmed))
         else if line = [] then None
         else throttle_parse_line line)"

definition throttle_load :: "string \<Rightarrow> throttle_table" where
  "throttle_load content = List.map_filter throttle_load_line (lines_of content)"

section \<open>Admission, release and accounting\<close>

definition map_entry :: "(throttle_entry \<Rightarrow> throttle_entry) \<Rightarrow> nat \<Rightarrow> throttle_table \<Rightarrow> throttle_table"
  where "map_entry f t es = (if t < length es then es[t := f (es ! t)] else es)"

definition throttle_clear :: "throttle_table \<Rightarrow> nat list \<Rightarrow> throttle_table" where
  "throttle_clear es tnums =
     foldl (\<lambda>es t. map_entry (\<lambda>e. e\<lparr>te_num_sending := te_num_sending e - 1\<rparr>) t es) es tnums"

definition entry_rejects :: "throttle_entry \<Rightarrow> bool" where
  "entry_rejects e \<longleftrightarrow> wrap_i64 (te_max_limit e * 2) < te_rate e \<or> te_rate e < te_min_limit e"

definition entry_admit :: "throttle_entry \<Rightarrow> throttle_entry" where
  "entry_admit e = e\<lparr>te_num_sending := max (te_num_sending e) 0 + 1\<rparr>"

definition tighter_max :: "int \<Rightarrow> int \<Rightarrow> int" where
  "tighter_max max_limit l = (if max_limit = THROTTLE_NOLIMIT then l else min max_limit l)"

definition tighter_min :: "int \<Rightarrow> int \<Rightarrow> int" where
  "tighter_min min_limit l = (if min_limit = THROTTLE_NOLIMIT then l else max min_limit l)"

function check_loop ::
  "string \<Rightarrow> throttle_table \<Rightarrow> nat \<Rightarrow> nat list \<Rightarrow> int \<Rightarrow> int \<Rightarrow> throttle_table \<times> throttle_decision"
  where
  "check_loop filename es tnum tnums max_limit min_limit =
     (if length es \<le> tnum \<or> MAX_THROTTLE_NUMS \<le> length tnums then
        (es, if tnums = [] then Unlimited else Allow tnums max_limit min_limit)
      else if match_pattern (te_pattern (es ! tnum)) filename then
        (if entry_rejects (es ! tnum) then (throttle_clear es tnums, Reject)
         else
           (let e = entry_admit (es ! tnum) in
            check_loop filename (es[tnum := e]) (Suc tnum) (tnums @ [tnum])
              (tighter_max max_limit (div_trunc (te_max_limit e) (te_num_sending e)))
              (tighter_min min_limit (te_min_limit e))))
      else check_loop filename es (Suc tnum) tnums max_limit min_limit)"
  by pat_completeness auto
termination
  by (relation "measure (\<lambda>(f, es, t, ts, mx, mn). length es - t)") auto

declare check_loop.simps [simp del]

definition check_request :: "throttle_table \<Rightarrow> string \<Rightarrow> throttle_table \<times> throttle_decision" where
  "check_request es filename =
     (if es = [] then (es, Unlimited)
      else check_loop filename es 0 [] THROTTLE_NOLIMIT THROTTLE_NOLIMIT)"

definition throttle_add_bytes :: "throttle_table \<Rightarrow> nat list \<Rightarrow> int \<Rightarrow> throttle_table" where
  "throttle_add_bytes es tnums n =
     foldl (\<lambda>es t. map_entry
         (\<lambda>e. e\<lparr>te_bytes_since_avg := wrap_i64 (te_bytes_since_avg e + n)\<rparr>) t es) es tnums"

definition fair_share_for :: "throttle_table \<Rightarrow> nat list \<Rightarrow> int" where
  "fair_share_for es tnums =
     foldl (\<lambda>m t. if t < length es
                  then tighter_max m (div_trunc (te_max_limit (es ! t))
                                        (max (te_num_sending (es ! t)) 1))
                  else m) THROTTLE_NOLIMIT tnums"

definition update_rate :: "throttle_entry \<Rightarrow> throttle_entry" where
  "update_rate e =
     e\<lparr>te_rate := div_trunc (wrap_i64 (wrap_i64 (2 * te_rate e)
                                + div_trunc (te_bytes_since_avg e) THROTTLE_TIME)) 3,
       te_bytes_since_avg := 0\<rparr>"

definition update_averages :: "throttle_table \<Rightarrow> throttle_table" where
  "update_averages es = map update_rate es"

definition fair_share :: "int \<Rightarrow> int \<Rightarrow> int" where
  "fair_share max_limit num_sending =
     (if 0 < num_sending then div_trunc max_limit num_sending else max_limit)"

definition check_throttles :: "throttle_table \<Rightarrow> string \<Rightarrow> int \<times> int" where
  "check_throttles es filename =
     (case List.find (\<lambda>e. match_pattern (te_pattern e) filename) es of
        Some e \<Rightarrow> (te_max_limit e, te_min_limit e)
      | None \<Rightarrow> (THROTTLE_NOLIMIT, THROTTLE_NOLIMIT))"

section \<open>The ledger contract\<close>

datatype ('r, 'e) ledger_op = LAcquire 'r | LRelease nat | LTick 'e

text \<open>
  A client that keeps the granted lists of its open transfers: acquiring adds a list when it is
  granted, the k-th transfer may end at any time, and other events come in between.
\<close>

fun ledger_step :: "('s \<Rightarrow> 'r \<Rightarrow> 's \<times> nat list option) \<Rightarrow> ('s \<Rightarrow> nat list \<Rightarrow> 's) \<Rightarrow>
    ('e \<Rightarrow> nat list list \<Rightarrow> 's \<Rightarrow> 's) \<Rightarrow>
    's \<times> nat list list \<Rightarrow> ('r, 'e) ledger_op \<Rightarrow> 's \<times> nat list list" where
  "ledger_step acquire release tick (s, held) (LAcquire r) =
     (case acquire s r of (s', Some ts) \<Rightarrow> (s', held @ [ts]) | (s', None) \<Rightarrow> (s', held))"
| "ledger_step acquire release tick (s, held) (LRelease k) =
     (if k < length held then (release s (held ! k), take k held @ drop (Suc k) held)
      else (s, held))"
| "ledger_step acquire release tick (s, held) (LTick e) = (tick e held s, held)"

definition held_count :: "nat list list \<Rightarrow> nat \<Rightarrow> int" where
  "held_count held i = (\<Sum>ts\<leftarrow>held. int (count_list ts i))"

lemma held_count_nonneg: "0 \<le> held_count held i"
  by (auto simp: held_count_def intro!: sum_list_nonneg)

lemma held_count_append [simp]: "held_count (a @ b) i = held_count a i + held_count b i"
  by (simp add: held_count_def)

lemma held_count_Cons [simp]: "held_count (ts # b) i = int (count_list ts i) + held_count b i"
  by (simp add: held_count_def)

lemma held_count_Nil [simp]: "held_count [] i = 0"
  by (simp add: held_count_def)

lemma held_count_remove:
  assumes "k < length held"
  shows "held_count (take k held @ drop (Suc k) held) i =
         held_count held i - int (count_list (held ! k) i)"
  using arg_cong[OF id_take_nth_drop[OF assms], of "\<lambda>h. held_count h i"] by simp

locale usage_ledger =
  fixes acquire :: "'s \<Rightarrow> 'r \<Rightarrow> 's \<times> nat list option"
    and release :: "'s \<Rightarrow> nat list \<Rightarrow> 's"
    and tick :: "'e \<Rightarrow> nat list list \<Rightarrow> 's \<Rightarrow> 's"
    and slots :: "'s \<Rightarrow> nat"
    and usage :: "'s \<Rightarrow> nat \<Rightarrow> int"
  assumes acquire_grants: "(\<And>i. 0 \<le> usage s i) \<Longrightarrow> acquire s r = (s', Some ts) \<Longrightarrow>
      (\<forall>t \<in> set ts. t < slots s) \<and> (\<forall>i. usage s' i = usage s i + int (count_list ts i))"
    and acquire_refuses: "(\<And>i. 0 \<le> usage s i) \<Longrightarrow> acquire s r = (s', None) \<Longrightarrow> usage s' i = usage s i"
    and release_returns: "(\<And>t. t \<in> set ts \<Longrightarrow> t < slots s) \<Longrightarrow>
      usage (release s ts) i = usage s i - int (count_list ts i)"
    and tick_neutral: "usage (tick e held s) i = usage s i"
    and slots_fixed: "slots (fst (acquire s r)) = slots s" "slots (release s ts) = slots s"
      "slots (tick e held s) = slots s"
begin

abbreviation step :: "'s \<times> nat list list \<Rightarrow> ('r, 'e) ledger_op \<Rightarrow> 's \<times> nat list list" where
  "step \<equiv> ledger_step acquire release tick"

definition exact :: "'s \<times> nat list list \<Rightarrow> bool" where
  "exact c \<longleftrightarrow> (\<forall>i. usage (fst c) i = held_count (snd c) i) \<and>
     (\<forall>ts \<in> set (snd c). \<forall>t \<in> set ts. t < slots (fst c))"

lemma step_exact:
  assumes "exact c"
  shows "exact (step c op)"
proof -
  obtain s held where c: "c = (s, held)" by (cases c)
  have use: "usage s i = held_count held i" for i using assms c by (simp add: exact_def)
  have nonneg: "0 \<le> usage s i" for i using use held_count_nonneg by simp
  have rng: "ts \<in> set held \<Longrightarrow> t \<in> set ts \<Longrightarrow> t < slots s" for ts t
    using assms c by (auto simp: exact_def)
  show ?thesis
  proof (cases op)
    case (LAcquire r)
    obtain s' g where g: "acquire s r = (s', g)" by (cases "acquire s r")
    have "slots s' = slots s" using slots_fixed(1)[of s r] g by simp
    then show ?thesis
      using g LAcquire c use rng acquire_grants[OF nonneg, of r s'] acquire_refuses[OF nonneg, of r s']
      by (cases g) (auto simp: exact_def)
  next
    case (LRelease k)
    show ?thesis
    proof (cases "k < length held")
      case True
      then have "t \<in> set (held ! k) \<Longrightarrow> t < slots s" for t using rng nth_mem by blast
      from release_returns[OF this] True show ?thesis
        using LRelease c use rng held_count_remove[OF True]
        by (auto simp: exact_def slots_fixed dest: in_set_takeD in_set_dropD)
    next
      case False
      then show ?thesis using assms LRelease c by simp
    qed
  next
    case (LTick e)
    then show ?thesis using assms c by (simp add: exact_def tick_neutral slots_fixed)
  qed
qed

lemma run_exact:
  assumes "\<And>i. usage s i = 0"
  shows "exact (foldl step (s, []) ops)"
proof -
  have "exact c \<Longrightarrow> exact (foldl step c ops)" for c
  proof (induction ops arbitrary: c)
    case (Cons op ops)
    then show ?case using Cons.IH[OF step_exact[OF Cons.prems]] by simp
  qed simp
  moreover have "exact (s, [])" using assms by (simp add: exact_def)
  ultimately show ?thesis by blast
qed

end

section \<open>The table honours the contract\<close>

definition throttle_usage :: "throttle_table \<Rightarrow> nat \<Rightarrow> int" where
  "throttle_usage es i = (if i < length es then te_num_sending (es ! i) else 0)"

text \<open>Between admissions and releases: the k-th open transfer sends n bytes, or the periodic
  timer updates the averages.\<close>

datatype throttle_event = EvSent nat int | EvAverages

fun throttle_event_apply :: "throttle_event \<Rightarrow> nat list list \<Rightarrow> throttle_table \<Rightarrow> throttle_table" where
  "throttle_event_apply (EvSent k n) held es =
     (if k < length held then throttle_add_bytes es (held ! k) n else es)"
| "throttle_event_apply EvAverages held es = update_averages es"

definition throttle_acquire :: "throttle_table \<Rightarrow> string \<Rightarrow> throttle_table \<times> nat list option" where
  "throttle_acquire es filename =
     (case check_request es filename of
        (es', Unlimited) \<Rightarrow> (es', Some [])
      | (es', Allow tnums _ _) \<Rightarrow> (es', Some tnums)
      | (es', Reject) \<Rightarrow> (es', None))"

lemma length_map_entry [simp]: "length (map_entry f t es) = length es"
  by (simp add: map_entry_def)

lemma length_throttle_clear [simp]: "length (throttle_clear es ts) = length es"
proof (induction ts arbitrary: es)
  case (Cons t ts)
  show ?case using Cons[of "map_entry _ t es"] by (simp add: throttle_clear_def)
qed (simp add: throttle_clear_def)

lemma length_throttle_add_bytes [simp]: "length (throttle_add_bytes es ts n) = length es"
proof (induction ts arbitrary: es)
  case (Cons t ts)
  show ?case using Cons[of "map_entry _ t es"] by (simp add: throttle_add_bytes_def)
qed (simp add: throttle_add_bytes_def)

lemma throttle_clear_usage:
  "(\<And>t. t \<in> set ts \<Longrightarrow> t < length es) \<Longrightarrow>
     throttle_usage (throttle_clear es ts) i = throttle_usage es i - int (count_list ts i)"
proof (induction ts arbitrary: es)
  case (Cons t ts)
  let ?es = "map_entry (\<lambda>e. e\<lparr>te_num_sending := te_num_sending e - 1\<rparr>) t es"
  have "throttle_usage (throttle_clear ?es ts) i = throttle_usage ?es i - int (count_list ts i)"
    using Cons by simp
  then show ?case
    using Cons.prems by (auto simp: throttle_clear_def throttle_usage_def map_entry_def)
qed (simp add: throttle_clear_def)

lemma throttle_add_bytes_usage:
  "throttle_usage (throttle_add_bytes es ts n) i = throttle_usage es i"
proof (induction ts arbitrary: es)
  case (Cons t ts)
  show ?case
    using Cons[of "map_entry _ t es"]
    by (auto simp: throttle_add_bytes_def throttle_usage_def map_entry_def nth_list_update)
qed (simp add: throttle_add_bytes_def)

lemma update_averages_usage: "throttle_usage (update_averages es) i = throttle_usage es i"
  by (simp add: update_averages_def throttle_usage_def update_rate_def)

definition check_post :: "nat list \<Rightarrow> throttle_table \<Rightarrow> throttle_table \<times> throttle_decision \<Rightarrow> bool" where
  "check_post tnums es r \<longleftrightarrow> length (fst r) = length es \<and>
     (case snd r of
        Unlimited \<Rightarrow> tnums = [] \<and> (\<forall>i. throttle_usage (fst r) i = throttle_usage es i)
      | Allow ts _ _ \<Rightarrow> (\<forall>t \<in> set ts. t < length es) \<and>
          (\<forall>i. throttle_usage (fst r) i + int (count_list tnums i) =
               throttle_usage es i + int (count_list ts i))
      | Reject \<Rightarrow> (\<forall>i. throttle_usage (fst r) i = throttle_usage es i - int (count_list tnums i)))"

lemma check_post_snoc:
  assumes "check_post (tnums @ [t]) es' r" "length es' = length es"
    and "\<And>i. throttle_usage es' i = throttle_usage es i + (if i = t then 1 else 0)"
  shows "check_post tnums es r"
proof -
  have "int (count_list (tnums @ [t]) i) = int (count_list tnums i) + (if i = t then 1 else 0)" for i
    by simp
  with assms show ?thesis by (cases "snd r") (simp_all add: check_post_def)
qed

lemma check_loop_post:
  "(\<And>i. 0 \<le> throttle_usage es i) \<Longrightarrow> (\<And>t. t \<in> set tnums \<Longrightarrow> t < length es) \<Longrightarrow>
     check_post tnums es (check_loop f es tnum tnums mx mn)"
proof (induction f es tnum tnums mx mn rule: check_loop.induct)
  case (1 f es tnum tnums mx mn)
  let ?e = "es ! tnum"
  consider (stop) "length es \<le> tnum \<or> MAX_THROTTLE_NUMS \<le> length tnums"
    | (rej) "\<not> (length es \<le> tnum \<or> MAX_THROTTLE_NUMS \<le> length tnums)"
        "match_pattern (te_pattern ?e) f" "entry_rejects ?e"
    | (adm) "\<not> (length es \<le> tnum \<or> MAX_THROTTLE_NUMS \<le> length tnums)"
        "match_pattern (te_pattern ?e) f" "\<not> entry_rejects ?e"
    | (skip) "\<not> (length es \<le> tnum \<or> MAX_THROTTLE_NUMS \<le> length tnums)"
        "\<not> match_pattern (te_pattern ?e) f" by blast
  then show ?case
  proof cases
    case stop
    then show ?thesis using 1(4) by (subst check_loop.simps) (auto simp: check_post_def)
  next
    case rej
    then show ?thesis
      using throttle_clear_usage[of tnums es] 1(4)
      by (subst check_loop.simps) (simp add: check_post_def)
  next
    case adm
    let ?es = "es[tnum := entry_admit ?e]"
    have lt: "tnum < length es" using adm by simp
    have n0: "0 \<le> te_num_sending ?e" using 1(3)[of tnum] lt by (simp add: throttle_usage_def)
    have u: "throttle_usage ?es i = throttle_usage es i + (if i = tnum then 1 else 0)" for i
      using lt n0 by (auto simp: throttle_usage_def entry_admit_def)
    have "check_post (tnums @ [tnum]) ?es
       (check_loop f ?es (Suc tnum) (tnums @ [tnum])
         (tighter_max mx (div_trunc (te_max_limit (entry_admit ?e)) (te_num_sending (entry_admit ?e))))
         (tighter_min mn (te_min_limit (entry_admit ?e))))"
      using adm 1(3,4) u lt by (intro 1(1)) auto
    from check_post_snoc[OF this _ u] show ?thesis
      using adm by (subst check_loop.simps) (simp add: Let_def)
  next
    case skip
    then show ?thesis using 1 by (subst check_loop.simps) simp
  qed
qed

lemma check_request_post:
  "(\<And>i. 0 \<le> throttle_usage es i) \<Longrightarrow> check_post [] es (check_request es f)"
  using check_loop_post[of es "[]"] by (simp add: check_request_def) (simp add: check_post_def)

lemma length_check_loop: "length (fst (check_loop f es tnum tnums mx mn)) = length es"
proof (induction f es tnum tnums mx mn rule: check_loop.induct)
  case (1 f es tnum tnums mx mn)
  then show ?case by (subst check_loop.simps) (simp add: Let_def)
qed

interpretation throttle_ledger: usage_ledger throttle_acquire throttle_clear throttle_event_apply
  length throttle_usage
proof
  fix s s' :: throttle_table and r :: string and ts :: "nat list"
  assume "\<And>i. 0 \<le> throttle_usage s i" "throttle_acquire s r = (s', Some ts)"
  with check_request_post[of s r]
  show "(\<forall>t \<in> set ts. t < length s) \<and>
      (\<forall>i. throttle_usage s' i = throttle_usage s i + int (count_list ts i))"
    by (auto simp: throttle_acquire_def check_post_def split: prod.splits throttle_decision.splits)
next
  fix s s' :: throttle_table and r :: string and i :: nat
  assume "\<And>i. 0 \<le> throttle_usage s i" "throttle_acquire s r = (s', None)"
  with check_request_post[of s r] show "throttle_usage s' i = throttle_usage s i"
    by (auto simp: throttle_acquire_def check_post_def split: prod.splits throttle_decision.splits)
next
  fix s :: throttle_table and e held i
  show "throttle_usage (throttle_event_apply e held s) i = throttle_usage s i"
    by (cases e) (simp_all add: throttle_add_bytes_usage update_averages_usage)
  show "length (throttle_event_apply e held s) = length s"
    by (cases e) (simp_all add: update_averages_def)
next
  fix s :: throttle_table and r :: string
  show "length (fst (throttle_acquire s r)) = length s"
    using length_check_loop[of r s 0 "[]" THROTTLE_NOLIMIT THROTTLE_NOLIMIT]
    by (auto simp: throttle_acquire_def check_request_def split: prod.splits throttle_decision.splits)
qed (auto simp: throttle_clear_usage)


abbreviation throttle_step ::
  "throttle_table \<times> nat list list \<Rightarrow> (string, throttle_event) ledger_op \<Rightarrow>
     throttle_table \<times> nat list list" where
  "throttle_step \<equiv> ledger_step throttle_acquire throttle_clear throttle_event_apply"

lemma throttle_parse_line_new:
  "throttle_parse_line l = Some e \<Longrightarrow> \<exists>p mx mn. e = throttle_entry_new p mx mn"
  by (auto simp: throttle_parse_line_def Let_def split: option.splits prod.splits if_splits)

lemma throttle_load_fresh:
  assumes "e \<in> set (throttle_load content)"
  shows "te_num_sending e = 0 \<and> te_rate e = 0 \<and> te_bytes_since_avg e = 0"
proof -
  obtain l where "throttle_load_line l = Some e"
    using assms by (auto simp: throttle_load_def List.map_filter_def)
  then obtain l' where "throttle_parse_line l' = Some e"
    by (auto simp: throttle_load_line_def Let_def split: if_splits)
  then show ?thesis using throttle_parse_line_new by (fastforce simp: throttle_entry_new_def)
qed

lemma throttle_load_usage [simp]: "throttle_usage (throttle_load content) i = 0"
  using throttle_load_fresh nth_mem by (auto simp: throttle_usage_def)

text \<open>
  Whatever the interleaving of admissions, refusals, ends of transfers, sends and timer
  ticks after the throttlefile is loaded, the number of senders recorded in a rule is the number
  of open transfers that were admitted under it.
\<close>

theorem throttle_counts_open_transfers:
  "throttle_usage (fst (foldl throttle_step (throttle_load content, []) ops)) i =
   held_count (snd (foldl throttle_step (throttle_load content, []) ops)) i"
  using throttle_ledger.run_exact[of "throttle_load content" ops]
  by (simp add: throttle_ledger.exact_def)

section \<open>What an admission changes\<close>

text \<open>Admission and release change nothing of an entry but its sender count.\<close>

definition entry_static :: "throttle_entry \<Rightarrow> throttle_entry" where
  "entry_static e = e\<lparr>te_num_sending := 0\<rparr>"

definition entry_conf :: "throttle_entry \<Rightarrow> string \<times> int \<times> int" where
  "entry_conf e = (te_pattern e, te_max_limit e, te_min_limit e)"

lemma map_entry_id: "(\<And>e. g (f e) = g e) \<Longrightarrow> map g (map_entry f t es) = map g es"
  by (cases "t < length es") (simp_all add: map_entry_def map_update list_update_same_conv)

lemma foldl_map_entry_id:
  assumes "\<And>e. g (f e) = g e"
  shows "map g (foldl (\<lambda>es t. map_entry f t es) es ts) = map g es"
proof (induction ts arbitrary: es)
  case (Cons t ts)
  show ?case using Cons[of "map_entry f t es"] map_entry_id[of g f t es] assms by simp
qed simp

lemma throttle_clear_static: "map entry_static (throttle_clear es ts) = map entry_static es"
  unfolding throttle_clear_def by (rule foldl_map_entry_id) (simp add: entry_static_def)

lemma check_loop_static: "map entry_static (fst (check_loop f es tnum tnums mx mn)) = map entry_static es"
proof (induction f es tnum tnums mx mn rule: check_loop.induct)
  case (1 f es tnum tnums mx mn)
  have "map entry_static (es[tnum := entry_admit (es ! tnum)]) = map entry_static es"
    using map_entry_id[of entry_static entry_admit tnum es]
    by (cases "tnum < length es")
      (simp_all add: map_entry_def entry_static_def entry_admit_def list_update_beyond)
  with 1 show ?case
    by (subst check_loop.simps) (simp add: Let_def throttle_clear_static)
qed

lemma throttle_acquire_static: "map entry_static (fst (throttle_acquire es f)) = map entry_static es"
  using check_loop_static[of f es 0 "[]" THROTTLE_NOLIMIT THROTTLE_NOLIMIT]
  by (auto simp: throttle_acquire_def check_request_def split: prod.splits throttle_decision.splits)

lemma static_conf: "map entry_static es = map entry_static es' \<Longrightarrow> map entry_conf es = map entry_conf es'"
proof -
  assume "map entry_static es = map entry_static es'"
  then have "map entry_conf (map entry_static es) = map entry_conf (map entry_static es')" by simp
  moreover have "entry_conf \<circ> entry_static = entry_conf"
    by (simp add: fun_eq_iff entry_static_def entry_conf_def)
  ultimately show ?thesis by simp
qed

lemma throttle_add_bytes_conf: "map entry_conf (throttle_add_bytes es ts n) = map entry_conf es"
  unfolding throttle_add_bytes_def by (rule foldl_map_entry_id) (simp add: entry_conf_def)

lemma throttle_step_conf: "map entry_conf (fst (throttle_step c op)) = map entry_conf (fst c)"
proof -
  obtain es held where c: "c = (es, held)" by (cases c)
  show ?thesis
  proof (cases op)
    case (LAcquire r)
    show ?thesis
      using LAcquire c static_conf[OF throttle_acquire_static[of es r]]
      by (cases "throttle_acquire es r") (simp split: option.splits)
  next
    case (LRelease k)
    then show ?thesis using c static_conf[OF throttle_clear_static] by simp
  next
    case (LTick e)
    then show ?thesis
      using c by (cases e) (simp_all add: throttle_add_bytes_conf update_averages_def
          update_rate_def entry_conf_def comp_def)
  qed
qed

lemma throttle_run_conf: "map entry_conf (fst (foldl throttle_step c ops)) = map entry_conf (fst c)"
proof (induction ops arbitrary: c)
  case (Cons op ops)
  show ?case using Cons[of "throttle_step c op"] throttle_step_conf[of c op] by simp
qed simp

section \<open>Fair shares\<close>

lemma fair_share_fold:
  assumes "\<And>e. e \<in> set es \<Longrightarrow> 0 \<le> te_max_limit e"
    and "m = THROTTLE_NOLIMIT \<or> 0 \<le> m"
  defines "fs \<equiv> foldl (\<lambda>m t. if t < length es
                  then tighter_max m (div_trunc (te_max_limit (es ! t))
                                        (max (te_num_sending (es ! t)) 1))
                  else m)"
  shows "(fs m ts = THROTTLE_NOLIMIT \<or> 0 \<le> fs m ts) \<and> (0 \<le> m \<longrightarrow> 0 \<le> fs m ts \<and> fs m ts \<le> m) \<and>
    (\<forall>t \<in> set ts. t < length es \<longrightarrow>
        fs m ts \<le> te_max_limit (es ! t) div max (te_num_sending (es ! t)) 1)"
  using assms(2)
proof (induction ts arbitrary: m)
  case Nil
  then show ?case by (simp add: fs_def)
next
  case (Cons t ts)
  define m' where "m' = (if t < length es
     then tighter_max m (div_trunc (te_max_limit (es ! t)) (max (te_num_sending (es ! t)) 1)) else m)"
  have step: "fs m (t # ts) = fs m' ts" by (simp add: fs_def m'_def)
  have l: "t < length es \<Longrightarrow>
      div_trunc (te_max_limit (es ! t)) (max (te_num_sending (es ! t)) 1) =
      te_max_limit (es ! t) div max (te_num_sending (es ! t)) 1 \<and>
      0 \<le> te_max_limit (es ! t) div max (te_num_sending (es ! t)) 1"
    using assms(1)[of "es ! t"] by (simp add: div_trunc_nonneg pos_imp_zdiv_nonneg_iff)
  then have m': "m' = THROTTLE_NOLIMIT \<or> 0 \<le> m'" "0 \<le> m \<Longrightarrow> 0 \<le> m' \<and> m' \<le> m"
      "t < length es \<Longrightarrow> 0 \<le> m' \<and> m' \<le> te_max_limit (es ! t) div max (te_num_sending (es ! t)) 1"
    using Cons.prems by (auto simp: m'_def tighter_max_def THROTTLE_NOLIMIT_def)
  show ?case unfolding step using Cons.IH[OF m'(1)] m' by fastforce
qed

lemma fair_share_le:
  assumes "\<And>e. e \<in> set es \<Longrightarrow> 0 \<le> te_max_limit e" "t \<in> set ts" "t < length es"
  shows "fair_share_for es ts \<le> te_max_limit (es ! t) div max (te_num_sending (es ! t)) 1"
  using fair_share_fold[of es THROTTLE_NOLIMIT ts] assms by (simp add: fair_share_for_def)

lemma length_filter_held: "int (length (filter (\<lambda>ts. i \<in> set ts) held)) \<le> held_count held i"
proof (induction held)
  case (Cons ts held)
  have "i \<in> set ts \<Longrightarrow> 0 < count_list ts i" by (metis count_list_0_iff gr0I)
  with Cons show ?case by auto
qed simp

lemma sum_list_le_bound:
  fixes f :: "'a \<Rightarrow> int"
  assumes "\<And>x. x \<in> set xs \<Longrightarrow> f x \<le> b"
  shows "sum_list (map f xs) \<le> int (length xs) * b"
  using assms by (induction xs) (auto simp: algebra_simps add_mono)

lemma fair_shares_bounded:
  assumes nonneg: "\<And>e. e \<in> set es \<Longrightarrow> 0 \<le> te_max_limit e"
    and exact: "throttle_usage es i = held_count held i" and i: "i < length es"
  shows "(\<Sum>ts\<leftarrow>filter (\<lambda>ts. i \<in> set ts) held. fair_share_for es ts) \<le> te_max_limit (es ! i)"
proof -
  let ?n = "max (te_num_sending (es ! i)) 1" and ?h = "filter (\<lambda>ts. i \<in> set ts) held"
  let ?q = "te_max_limit (es ! i) div ?n"
  have m: "0 \<le> te_max_limit (es ! i)" using nonneg i by simp
  have "(\<Sum>ts\<leftarrow>?h. fair_share_for es ts) \<le> int (length ?h) * ?q"
    using fair_share_le[OF nonneg] i by (intro sum_list_le_bound) auto
  also have "int (length ?h) \<le> ?n"
    using length_filter_held[of i held] exact i by (simp add: throttle_usage_def)
  then have "int (length ?h) * ?q \<le> ?n * ?q"
    using m by (intro mult_right_mono) (simp_all add: pos_imp_zdiv_nonneg_iff)
  also have "\<dots> \<le> te_max_limit (es ! i)"
    using m by (metis mult.commute div_mult_mod_eq le_add_same_cancel1 max.strict_coboundedI2
        pos_mod_sign zero_less_one)
  finally show ?thesis .
qed

text \<open>
  At every moment of a run, the fair shares of all the open transfers under a rule add up to
  at most the rule's limit, however the rules overlap (limits not negative).
\<close>

theorem fair_shares_within_limit:
  assumes "\<forall>e \<in> set (throttle_load content). 0 \<le> te_max_limit e"
    and "foldl throttle_step (throttle_load content, []) ops = (es, held)"
    and "i < length es"
  shows "(\<Sum>ts\<leftarrow>filter (\<lambda>ts. i \<in> set ts) held. fair_share_for es ts) \<le> te_max_limit (es ! i)"
proof (rule fair_shares_bounded)
  have conf: "map entry_conf es = map entry_conf (throttle_load content)"
    using throttle_run_conf[of "(throttle_load content, [])" ops] assms(2) by simp
  fix e assume "e \<in> set es"
  then have "entry_conf e \<in> entry_conf ` set (throttle_load content)"
    by (metis conf image_eqI list.set_map)
  then show "0 \<le> te_max_limit e" using assms(1) by (auto simp: entry_conf_def)
next
  show "throttle_usage es i = held_count held i"
    using throttle_ledger.run_exact[of "throttle_load content" ops] assms(2)
    by (simp add: throttle_ledger.exact_def)
qed (rule assms(3))

lemma parse_i64_dec [simp]: "n < 2 ^ 63 \<Longrightarrow> parse_i64 (dec_nat n) = Some (int n)"
  by (simp add: parse_i64_def parse_signed_digits)

lemma throttle_example:
  "throttle_load (''**.jpg 50000'' @ [LF] @ ''img/** 20000-90000'') =
     [throttle_entry_new ''**.jpg'' 50000 0, throttle_entry_new ''img/**'' 90000 20000]"
proof -
  have rates: "throttle_parse_rates ''50000'' = Some (0, 50000)"
    "throttle_parse_rates ''20000-90000'' = Some (20000, 90000)"
    by (simp_all add: throttle_parse_rates_def split_once_def parse_i64_def parse_signed_def
        parse_digits_def digits_val_def digit_val_def is_ascii_digit_def byte_val_def trim_def
        trim_start.simps ws_len.simps)
  have lines: "lines_of (''**.jpg 50000'' @ [LF] @ ''img/** 20000-90000'') =
      [''**.jpg 50000'', ''img/** 20000-90000'']" by code_simp
  have pats: "throttle_parse_pattern ''**.jpg 50000'' = Some (''**.jpg'', ''50000'')"
    "throttle_parse_pattern ''img/** 20000-90000'' = Some (''img/**'', ''20000-90000'')"
    by code_simp+
  have words: "trim (fst (take_word ''50000'')) = ''50000''"
    "trim (fst (take_word ''20000-90000'')) = ''20000-90000''" by code_simp+
  have strip: "trim_start_matches (\<lambda>c. c = CHR ''/'') ''**.jpg'' = ''**.jpg''"
    "trim_start_matches (\<lambda>c. c = CHR ''/'') ''img/**'' = ''img/**''"
    "\<not> contains_str ''|/'' ''**.jpg''" "\<not> contains_str ''|/'' ''img/**''" by code_simp+
  show ?thesis unfolding throttle_load_def lines
    by (simp add: throttle_load_line_def throttle_parse_line_def pats words rates strip Let_def
        trim_end_matches_def contains_byte_def List.map_filter_def)
qed

theorem fair_shares_within_limit_witness:
  "(\<Sum>ts\<leftarrow>filter (\<lambda>ts. 0 \<in> set ts) [[0], [0]].
      fair_share_for [(throttle_entry_new ''**.jpg'' 50000 0)\<lparr>te_num_sending := 2\<rparr>,
                      throttle_entry_new ''img/**'' 90000 20000] ts) \<le> 50000"
proof -
  let ?load = "throttle_load (''**.jpg 50000'' @ [LF] @ ''img/** 20000-90000'')"
  let ?es = "[(throttle_entry_new ''**.jpg'' 50000 0)\<lparr>te_num_sending := 2\<rparr>,
              throttle_entry_new ''img/**'' 90000 20000]"
  have "foldl throttle_step ([throttle_entry_new ''**.jpg'' 50000 0,
      throttle_entry_new ''img/**'' 90000 20000], []) [LAcquire ''a.jpg'', LAcquire ''b.jpg''] =
      (?es, [[0], [0]])" by code_simp
  then have run: "foldl throttle_step (?load, []) [LAcquire ''a.jpg'', LAcquire ''b.jpg''] = (?es, [[0], [0]])"
    unfolding throttle_example .
  have "\<forall>e \<in> set ?load. 0 \<le> te_max_limit e"
    unfolding throttle_example by (simp add: throttle_entry_new_def)
  from fair_shares_within_limit[OF this run, of 0] show ?thesis
    by (simp add: throttle_entry_new_def)
qed

section \<open>A rule with a minimum is never entered\<close>

lemma check_loop_avoids:
  "entry_rejects (es ! i) \<Longrightarrow> i \<notin> set tnums \<Longrightarrow>
     snd (check_loop f es tnum tnums mx mn) = Allow ts mx' mn' \<Longrightarrow> i \<notin> set ts"
proof (induction f es tnum tnums mx mn rule: check_loop.induct)
  case (1 f es tnum tnums mx mn)
  have "\<not> entry_rejects (es ! tnum) \<Longrightarrow> es[tnum := e] ! i = es ! i \<and> tnum \<noteq> i" for e
    using 1(3) by (metis nth_list_update_neq)
  with 1 show ?case
    by (subst (asm) (3) check_loop.simps) (auto simp: Let_def split: if_splits)
qed

lemma check_loop_rejects:
  "tnum \<le> i \<Longrightarrow> i < length es \<Longrightarrow> i < MAX_THROTTLE_NUMS \<Longrightarrow> length tnums \<le> tnum \<Longrightarrow>
     match_pattern (te_pattern (es ! i)) f \<Longrightarrow> entry_rejects (es ! i) \<Longrightarrow>
     snd (check_loop f es tnum tnums mx mn) = Reject"
proof (induction f es tnum tnums mx mn rule: check_loop.induct)
  case (1 f es tnum tnums mx mn)
  have go: "\<not> (length es \<le> tnum \<or> MAX_THROTTLE_NUMS \<le> length tnums)" using 1(3-6) by simp
  show ?case
  proof (cases "tnum = i")
    case True
    with go 1(7,8) show ?thesis by (subst check_loop.simps) simp
  next
    case False
    with 1 go show ?thesis by (subst check_loop.simps) (simp add: Let_def)
  qed
qed

definition starved :: "nat \<Rightarrow> throttle_table \<times> nat list list \<Rightarrow> bool" where
  "starved i c \<longleftrightarrow> i < length (fst c) \<and> te_rate (fst c ! i) = 0 \<and> te_bytes_since_avg (fst c ! i) = 0 \<and>
     0 < te_min_limit (fst c ! i) \<and> (\<forall>ts \<in> set (snd c). i \<notin> set ts)"

lemma static_nth:
  assumes "map entry_static es' = map entry_static es" "i < length es"
  shows "length es' = length es \<and> te_rate (es' ! i) = te_rate (es ! i) \<and>
    te_bytes_since_avg (es' ! i) = te_bytes_since_avg (es ! i) \<and>
    te_min_limit (es' ! i) = te_min_limit (es ! i)"
proof -
  have "length es' = length es" using assms(1) by (metis length_map)
  moreover have "entry_static (es' ! i) = entry_static (es ! i)"
    using assms calculation by (metis nth_map)
  ultimately show ?thesis
    by (metis entry_static_def throttle_entry.select_convs(2-5) throttle_entry.surjective
        throttle_entry.update_convs(6))
qed

lemma throttle_add_bytes_other: "i \<notin> set ts \<Longrightarrow> throttle_add_bytes es ts n ! i = es ! i"
  unfolding throttle_add_bytes_def by (induction ts arbitrary: es) (auto simp: map_entry_def)

lemma starved_step:
  assumes "starved i c"
  shows "starved i (throttle_step c op)"
proof -
  obtain es held where c: "c = (es, held)" by (cases c)
  have i: "i < length es" and e: "te_rate (es ! i) = 0" "te_bytes_since_avg (es ! i) = 0"
      "0 < te_min_limit (es ! i)" and h: "\<forall>ts \<in> set held. i \<notin> set ts"
    using assms c by (auto simp: starved_def)
  have rej: "entry_rejects (es ! i)" using e by (simp add: entry_rejects_def)
  show ?thesis
  proof (cases op)
    case (LAcquire r)
    obtain es' g where g: "throttle_acquire es r = (es', g)" by (cases "throttle_acquire es r")
    have "\<And>ts. g = Some ts \<Longrightarrow> i \<notin> set ts"
      using g check_loop_avoids[of es i "[]" r 0 THROTTLE_NOLIMIT THROTTLE_NOLIMIT, OF rej]
      by (auto simp: throttle_acquire_def check_request_def
          split: prod.splits throttle_decision.splits if_splits)
    with g LAcquire c h static_nth[of es' es i] throttle_acquire_static[of es r] i e show ?thesis
      by (cases g) (auto simp: starved_def)
  next
    case (LRelease k)
    with c h i e static_nth[OF throttle_clear_static i, of "held ! k"] show ?thesis
      by (auto simp: starved_def dest: in_set_takeD in_set_dropD)
  next
    case (LTick ev)
    show ?thesis
    proof (cases ev)
      case (EvSent k n)
      then show ?thesis
        using LTick c h i e throttle_add_bytes_other[of i "held ! k" es n]
        by (auto simp: starved_def)
    next
      case EvAverages
      then show ?thesis
        using LTick c h i e
        by (simp add: starved_def update_averages_def update_rate_def wrap_i64_id)
    qed
  qed
qed

lemma starved_run: "starved i c \<Longrightarrow> starved i (foldl throttle_step c ops)"
proof (induction ops arbitrary: c)
  case (Cons op ops)
  then show ?case using Cons.IH[OF starved_step[OF Cons.prems]] by simp
qed simp

text \<open>
  A rule with a positive minimum (among the first ten of the throttlefile) refuses every
  request that it matches, at every moment of every run: its rate starts at 0, below the minimum,
  and only the transfers it admits could raise it.
\<close>

theorem minimum_starves:
  assumes "i < length (throttle_load content)" "i < MAX_THROTTLE_NUMS"
    and "0 < te_min_limit (throttle_load content ! i)"
    and "match_pattern (te_pattern (throttle_load content ! i)) filename"
  shows "snd (check_request (fst (foldl throttle_step (throttle_load content, []) ops)) filename) = Reject"
proof -
  let ?c = "foldl throttle_step (throttle_load content, []) ops"
  have "starved i (throttle_load content, [])"
    using assms(1,3) throttle_load_fresh[of "throttle_load content ! i" content]
    by (simp add: starved_def)
  from starved_run[OF this] have st: "starved i ?c" .
  have conf: "map entry_conf (fst ?c) = map entry_conf (throttle_load content)"
    using throttle_run_conf[of "(throttle_load content, [])" ops] by simp
  have "entry_conf (fst ?c ! i) = entry_conf (throttle_load content ! i)"
    using conf st assms(1) by (metis nth_map starved_def)
  then have "match_pattern (te_pattern (fst ?c ! i)) filename"
    using assms(4) by (simp add: entry_conf_def)
  moreover have "entry_rejects (fst ?c ! i)" "i < length (fst ?c)"
    using st by (auto simp: starved_def entry_rejects_def)
  ultimately show ?thesis
    using check_loop_rejects[of 0 i "fst ?c" "[]" filename] assms(2)
    by (auto simp: check_request_def)
qed

theorem minimum_starves_witness:
  "snd (check_request (fst (foldl throttle_step
       (throttle_load (''**.jpg 50000'' @ [LF] @ ''img/** 20000-90000''), [])
       [LAcquire ''a.jpg'', LTick (EvSent 0 100000), LTick EvAverages])) ''img/b.png'') = Reject"
proof (rule minimum_starves[of 1])
  show "match_pattern (te_pattern (throttle_load (''**.jpg 50000'' @ [LF] @
      ''img/** 20000-90000'') ! 1)) ''img/b.png''"
    unfolding throttle_example by (simp add: throttle_entry_new_def) code_simp
qed (unfold throttle_example, simp_all add: throttle_entry_new_def MAX_THROTTLE_NUMS_def)

end
