(* ===== verification/Timer_Wheel.thy ===== *)
theory Timer_Wheel
  imports Rust_Prelude "HOL-Library.Multiset"
begin

text \<open>
  The timer wheel of \<open>crates/thttpd-timers/src/lib.rs\<close>. The \<open>BinaryHeap<Reverse<TimerEntry>>\<close> is
  the list of its entries in ascending order of the key \<open>(deadline, id)\<close>, so that \<open>peek\<close> and
  \<open>pop\<close> give the head. An \<open>Instant\<close> is an integer, a callback is a label, and \<open>run\<close> returns the
  labels of the callbacks it calls, in order. Every reading of the clock is an argument: \<open>now\<close> for
  the first one of an operation, \<open>clock k\<close> for the k-th later one in \<open>run\<close>. The loop of \<open>run\<close> is a
  \<open>partial_function\<close>: with a period of zero and a clock that stands still it does not return.
\<close>

section \<open>Entries, keys and the wheel\<close>

datatype timer_key = TimerKey (tk_deadline: int) (tk_id: nat)

instantiation timer_key :: linorder
begin

definition less_eq_timer_key :: "timer_key \<Rightarrow> timer_key \<Rightarrow> bool" where
  "less_eq_timer_key a b \<longleftrightarrow>
     tk_deadline a < tk_deadline b \<or> tk_deadline a = tk_deadline b \<and> tk_id a \<le> tk_id b"

definition less_timer_key :: "timer_key \<Rightarrow> timer_key \<Rightarrow> bool" where
  "less_timer_key a b \<longleftrightarrow>
     tk_deadline a < tk_deadline b \<or> tk_deadline a = tk_deadline b \<and> tk_id a < tk_id b"

instance
  by standard (auto simp: less_eq_timer_key_def less_timer_key_def timer_key.expand)

end

record 'c timer_entry =
  tm_id :: nat
  tm_deadline :: int
  tm_period :: "int option"
  tm_callback :: 'c

record 'c timer_wheel =
  tw_heap :: "'c timer_entry list"
  tw_next_id :: nat
  tw_cancelled :: "nat set"

definition timer_key_of :: "'c timer_entry \<Rightarrow> timer_key" where
  "timer_key_of e = TimerKey (tm_deadline e) (tm_id e)"

definition heap_push :: "'c timer_entry \<Rightarrow> 'c timer_entry list \<Rightarrow> 'c timer_entry list" where
  "heap_push = insort_key timer_key_of"

definition wheel_new :: "'c timer_wheel" where
  "wheel_new = \<lparr>tw_heap = [], tw_next_id = 0, tw_cancelled = {}\<rparr>"

section \<open>Operations\<close>

definition wheel_create :: "int \<Rightarrow> 'c timer_wheel \<Rightarrow> int \<Rightarrow> 'c \<Rightarrow> 'c timer_wheel \<times> nat" where
  "wheel_create now w delay callback =
     (let i = tw_next_id w in
      (w\<lparr>tw_next_id := i + 1,
         tw_heap := heap_push \<lparr>tm_id = i, tm_deadline = now + delay, tm_period = None,
                               tm_callback = callback\<rparr> (tw_heap w)\<rparr>, i))"

definition wheel_create_periodic :: "int \<Rightarrow> 'c timer_wheel \<Rightarrow> int \<Rightarrow> 'c \<Rightarrow> 'c timer_wheel \<times> nat" where
  "wheel_create_periodic now w period callback =
     (let i = tw_next_id w in
      (w\<lparr>tw_next_id := i + 1,
         tw_heap := heap_push \<lparr>tm_id = i, tm_deadline = now + period, tm_period = Some period,
                               tm_callback = callback\<rparr> (tw_heap w)\<rparr>, i))"

definition wheel_cancel :: "'c timer_wheel \<Rightarrow> nat \<Rightarrow> 'c timer_wheel" where
  "wheel_cancel w i = w\<lparr>tw_cancelled := insert i (tw_cancelled w)\<rparr>"

definition wheel_is_cancelled :: "'c timer_wheel \<Rightarrow> nat \<Rightarrow> bool" where
  "wheel_is_cancelled w i \<longleftrightarrow> i \<in> tw_cancelled w"

definition wheel_reset :: "int \<Rightarrow> 'c timer_wheel \<Rightarrow> nat \<Rightarrow> int \<Rightarrow> 'c timer_wheel \<times> nat option" where
  "wheel_reset now w i delay =
     (case List.find (\<lambda>e. tm_id e = i) (tw_heap w) of
        None \<Rightarrow> (w, None)
      | Some old \<Rightarrow>
          (let new_id = tw_next_id w in
           (w\<lparr>tw_cancelled := tw_cancelled w - {i}, tw_next_id := new_id + 1,
              tw_heap := heap_push \<lparr>tm_id = new_id, tm_deadline = now + delay,
                                    tm_period = tm_period old, tm_callback = tm_callback old\<rparr>
                           (remove1 old (tw_heap w))\<rparr>, Some new_id)))"

partial_function (option) run_loop ::
  "int \<Rightarrow> (nat \<Rightarrow> int) \<Rightarrow> nat \<Rightarrow> 'c timer_wheel \<Rightarrow> 'c list \<Rightarrow> ('c timer_wheel \<times> 'c list) option" where
  "run_loop now clock k w fired =
     (case tw_heap w of
        [] \<Rightarrow> Some (w, fired)
      | e # es \<Rightarrow>
          if wheel_is_cancelled w (tm_id e) then
            run_loop now clock k
              (w\<lparr>tw_heap := es, tw_cancelled := tw_cancelled w - {tm_id e}\<rparr>) fired
          else if tm_deadline e \<le> now then
            (case tm_period e of
               None \<Rightarrow> run_loop now clock k (w\<lparr>tw_heap := es\<rparr>) (fired @ [tm_callback e])
             | Some period \<Rightarrow>
                 run_loop now clock (Suc k)
                   (w\<lparr>tw_heap := heap_push (e\<lparr>tm_deadline := clock k + period\<rparr>) es\<rparr>)
                   (fired @ [tm_callback e]))
          else Some (w, fired))"

function clean_top :: "'c timer_wheel \<Rightarrow> 'c timer_wheel" where
  "clean_top w =
     (case tw_heap w of
        [] \<Rightarrow> w
      | e # es \<Rightarrow>
          if wheel_is_cancelled w (tm_id e)
          then clean_top (w\<lparr>tw_heap := es, tw_cancelled := tw_cancelled w - {tm_id e}\<rparr>)
          else w)"
  by pat_completeness auto
termination
  by (relation "measure (\<lambda>w. length (tw_heap w))") auto

declare clean_top.simps [simp del]

definition wheel_run ::
  "int \<Rightarrow> (nat \<Rightarrow> int) \<Rightarrow> 'c timer_wheel \<Rightarrow> ('c timer_wheel \<times> 'c list) option" where
  "wheel_run now clock w = map_option (\<lambda>(w', fired). (clean_top w', fired)) (run_loop now clock 0 w [])"

definition next_deadline :: "int \<Rightarrow> 'c timer_wheel \<Rightarrow> int option" where
  "next_deadline now w =
     map_option (\<lambda>d. max (d - now) 0)
       (foldl (\<lambda>earliest e.
          if wheel_is_cancelled w (tm_id e) then earliest
          else case earliest of
                 None \<Rightarrow> Some (tm_deadline e)
               | Some d \<Rightarrow> Some (if tm_deadline e < d then tm_deadline e else d))
        None (tw_heap w))"

section \<open>The invariant\<close>

definition wheel_ok :: "'c timer_wheel \<Rightarrow> bool" where
  "wheel_ok w \<longleftrightarrow> sorted (map timer_key_of (tw_heap w)) \<and> distinct (map tm_id (tw_heap w)) \<and>
     (\<forall>e \<in> set (tw_heap w). tm_id e < tw_next_id w) \<and>
     (\<forall>e \<in> set (tw_heap w). \<forall>p. tm_period e = Some p \<longrightarrow> 0 < p)"

lemma set_heap_push [simp]: "set (heap_push e es) = insert e (set es)"
  by (simp add: heap_push_def set_insort_key)

lemma distinct_ids_push [simp]:
  "distinct (map tm_id (heap_push e es)) \<longleftrightarrow> tm_id e \<notin> tm_id ` set es \<and> distinct (map tm_id es)"
proof -
  have "mset (map tm_id (heap_push e es)) = mset (map tm_id (e # es))"
    by (simp add: heap_push_def)
  then show ?thesis by (metis distinct.simps(2) list.simps(9) list.set_map mset_eq_imp_distinct_iff)
qed

lemma sorted_heap_push [simp]:
  "sorted (map timer_key_of (heap_push e es)) \<longleftrightarrow> sorted (map timer_key_of es)"
  by (simp add: heap_push_def sorted_insort_key)

lemma wheel_ok_new: "wheel_ok wheel_new"
  by (simp add: wheel_ok_def wheel_new_def)

lemma wheel_ok_create: "wheel_ok w \<Longrightarrow> wheel_ok (fst (wheel_create now w delay c))"
  by (auto simp: wheel_ok_def wheel_create_def Let_def)

lemma wheel_ok_create_periodic:
  "wheel_ok w \<Longrightarrow> 0 < period \<Longrightarrow> wheel_ok (fst (wheel_create_periodic now w period c))"
  by (auto simp: wheel_ok_def wheel_create_periodic_def Let_def)

lemma wheel_ok_cancel: "wheel_ok w \<Longrightarrow> wheel_ok (wheel_cancel w i)"
  by (simp add: wheel_ok_def wheel_cancel_def)

lemma sorted_map_remove1: "sorted (map f xs) \<Longrightarrow> sorted (map f (remove1 x xs))"
  by (induction xs) (auto dest: notin_set_remove1)

lemma distinct_map_remove1: "distinct (map f xs) \<Longrightarrow> distinct (map f (remove1 x xs))"
  by (induction xs) (auto dest!: subsetD[OF set_remove1_subset])

lemma wheel_ok_reset:
  assumes "wheel_ok w"
  shows "wheel_ok (fst (wheel_reset now w i delay))"
proof (cases "List.find (\<lambda>e. tm_id e = i) (tw_heap w)")
  case None
  with assms show ?thesis by (simp add: wheel_reset_def)
next
  case (Some old)
  let ?h = "remove1 old (tw_heap w)"
  have old: "old \<in> set (tw_heap w)" using Some by (auto simp: find_Some_iff)
  have sub: "set ?h \<subseteq> set (tw_heap w)" by (rule set_remove1_subset)
  have lt: "e \<in> set ?h \<Longrightarrow> tm_id e < tw_next_id w" for e
    using assms sub by (auto simp: wheel_ok_def)
  have per: "e \<in> set (tw_heap w) \<Longrightarrow> tm_period e = Some p \<Longrightarrow> 0 < p" for e p
    using assms by (auto simp: wheel_ok_def)
  have "sorted (map timer_key_of ?h)" "distinct (map tm_id ?h)"
    using assms by (auto simp: wheel_ok_def sorted_map_remove1 distinct_map_remove1)
  moreover have "tw_next_id w \<notin> tm_id ` set ?h" using lt by fastforce
  ultimately show ?thesis
    using Some old sub lt per
    unfolding wheel_reset_def wheel_ok_def Some option.case Let_def fst_conv
    by (auto simp: less_Suc_eq)
qed

section \<open>Running the wheel\<close>

definition live :: "'c timer_wheel \<Rightarrow> 'c timer_entry list" where
  "live w = filter (\<lambda>e. tm_id e \<notin> tw_cancelled w) (tw_heap w)"

definition due :: "int \<Rightarrow> 'c timer_wheel \<Rightarrow> 'c timer_entry list" where
  "due now w = filter (\<lambda>e. tm_deadline e \<le> now) (live w)"

definition run_post :: "int \<Rightarrow> 'c timer_wheel \<Rightarrow> 'c timer_wheel \<Rightarrow> bool" where
  "run_post now w w' \<longleftrightarrow> wheel_ok w' \<and> due now w' = [] \<and>
     tm_id ` set (live w') =
       tm_id ` {e \<in> set (live w). tm_deadline e \<le> now \<longrightarrow> tm_period e \<noteq> None}"

lemma sorted_head_le:
  assumes "sorted (map timer_key_of (e # es))" "x \<in> set es"
  shows "tm_deadline e \<le> tm_deadline x"
  using assms by (auto simp: less_eq_timer_key_def timer_key_of_def)

lemma due_heap_push:
  assumes "now < tm_deadline e"
  shows "filter (\<lambda>e. tm_deadline e \<le> now) (filter P (heap_push e es)) =
         filter (\<lambda>e. tm_deadline e \<le> now) (filter P es)"
  using assms by (induction es) (auto simp: heap_push_def)

lemma filter_push_neg: "\<not> P e \<Longrightarrow> filter P (heap_push e es) = filter P es"
  by (induction es) (auto simp: heap_push_def)

lemma wheel_ok_tl:
  "wheel_ok w \<Longrightarrow> tw_heap w = e # es \<Longrightarrow> wheel_ok (w\<lparr>tw_heap := es, tw_cancelled := C\<rparr>)"
  by (auto simp: wheel_ok_def)

lemma wheel_ok_repush:
  "wheel_ok w \<Longrightarrow> tw_heap w = e # es \<Longrightarrow> wheel_ok (w\<lparr>tw_heap := heap_push (e\<lparr>tm_deadline := d\<rparr>) es\<rparr>)"
  by (auto simp: wheel_ok_def)

lemma head_id_unique:
  "wheel_ok w \<Longrightarrow> tw_heap w = e # es \<Longrightarrow> x \<in> set es \<Longrightarrow> tm_id x \<noteq> tm_id e"
  unfolding wheel_ok_def by (metis distinct.simps(2) image_eqI list.simps(9) list.set_map)

lemma live_pop_cancelled:
  assumes "wheel_ok w" "tw_heap w = e # es" "tm_id e \<in> tw_cancelled w"
  shows "live (w\<lparr>tw_heap := es, tw_cancelled := tw_cancelled w - {tm_id e}\<rparr>) = live w"
  using assms(2,3) head_id_unique[OF assms(1,2)] by (auto simp: live_def intro!: filter_cong)

text \<open>What the loop still has to deal with: cancelled entries and due ones.\<close>

definition pending :: "int \<Rightarrow> 'c timer_wheel \<Rightarrow> nat" where
  "pending now w =
     length (filter (\<lambda>e. tm_id e \<in> tw_cancelled w \<or> tm_deadline e \<le> now) (tw_heap w))"

text \<open>A due periodic timer is pushed again with a later deadline: fewer timers are pending, and what
  holds after the rest of the run holds after the whole.\<close>

lemma pending_repush:
  assumes "tw_heap w = e # es" "tm_id e \<notin> tw_cancelled w" "tm_deadline e \<le> now" "now < tm_deadline e'" "tm_id e' = tm_id e"
  shows "pending now (w\<lparr>tw_heap := heap_push e' es\<rparr>) < pending now w"
proof -
  have "filter (\<lambda>e. tm_id e \<in> tw_cancelled w \<or> tm_deadline e \<le> now) (heap_push e' es) =
      filter (\<lambda>e. tm_id e \<in> tw_cancelled w \<or> tm_deadline e \<le> now) es"
    using assms by (intro filter_push_neg) simp
  then show ?thesis using assms by (simp add: pending_def)
qed

lemma run_post_repush:
  assumes "tw_heap w = e # es" "tm_id e \<notin> tw_cancelled w" "tm_deadline e \<le> now" "now < tm_deadline e'" "tm_id e' = tm_id e"
    and "tm_period e = Some p" "run_post now (w\<lparr>tw_heap := heap_push e' es\<rparr>) w'"
  shows "due now w = e # due now (w\<lparr>tw_heap := heap_push e' es\<rparr>) \<and> run_post now w w'"
proof
  let ?w = "w\<lparr>tw_heap := heap_push e' es\<rparr>"
  show "due now w = e # due now ?w"
    using assms(1-3) due_heap_push[OF assms(4)] by (simp add: due_def live_def)
  let ?keep = "\<lambda>e. tm_deadline e \<le> now \<longrightarrow> tm_period e \<noteq> None"
  let ?A = "{x \<in> set es. tm_id x \<notin> tw_cancelled w \<and> ?keep x}"
  have "{x \<in> set (live w). ?keep x} = insert e ?A" "{x \<in> set (live ?w). ?keep x} = insert e' ?A"
    using assms by (auto simp: live_def)
  then have "tm_id ` {x \<in> set (live w). ?keep x} = tm_id ` {x \<in> set (live ?w). ?keep x}" using assms(5) by simp
  with assms(7) show "run_post now w w'" by (simp add: run_post_def)
qed

lemma pending_pop_cancelled:
  assumes "wheel_ok w" "tw_heap w = e # es" "tm_id e \<in> tw_cancelled w"
  shows "pending now (w\<lparr>tw_heap := es, tw_cancelled := tw_cancelled w - {tm_id e}\<rparr>) < pending now w"
  using assms(2,3) head_id_unique[OF assms(1,2)]
  by (auto simp: pending_def less_Suc_eq_le intro!: filter_cong length_filter_le eq_imp_le arg_cong[where f = length])

lemma nothing_due:
  assumes "wheel_ok w" "tw_heap w = e # es" "now < tm_deadline e"
  shows "due now w = []" "{e \<in> set (live w). tm_deadline e \<le> now \<longrightarrow> tm_period e \<noteq> None} = set (live w)"
proof -
  have "x \<in> set (tw_heap w) \<Longrightarrow> \<not> tm_deadline x \<le> now" for x
    using assms sorted_head_le[of e es x] by (auto simp: wheel_ok_def)
  then show "due now w = []" "{e \<in> set (live w). tm_deadline e \<le> now \<longrightarrow> tm_period e \<noteq> None} = set (live w)"
    by (auto simp: due_def live_def filter_empty_conv)
qed

lemma run_post_once:
  assumes "tw_heap w = e # es" "tm_id e \<notin> tw_cancelled w" "tm_deadline e \<le> now" "tm_period e = None"
    and "run_post now (w\<lparr>tw_heap := es\<rparr>) w'"
  shows "due now w = e # due now (w\<lparr>tw_heap := es\<rparr>)" "run_post now w w'"
proof -
  show "due now w = e # due now (w\<lparr>tw_heap := es\<rparr>)"
    using assms(1-4) by (auto simp: due_def live_def)
  have "set (live w) = insert e (set (live (w\<lparr>tw_heap := es\<rparr>)))" using assms(1,2) by (auto simp: live_def)
  then show "run_post now w w'" using assms(3-5) by (auto simp: run_post_def)
qed

lemma run_loop_spec:
  assumes "wheel_ok w" "\<And>j. now \<le> clock j"
  shows "\<exists>w'. run_loop now clock k w fired = Some (w', fired @ map tm_callback (due now w)) \<and>
    run_post now w w'"
  using assms(1)
proof (induction "pending now w" arbitrary: w k fired rule: less_induct)
  case less
  show ?case
  proof (cases "tw_heap w")
    case Nil
    then show ?thesis
      using less.prems by (subst run_loop.simps) (simp add: run_post_def due_def live_def)
  next
    case (Cons e es)
    note step = run_loop.simps[of now clock k w fired] Cons wheel_is_cancelled_def
    consider (can) "tm_id e \<in> tw_cancelled w"
      | (once) "tm_id e \<notin> tw_cancelled w" "tm_deadline e \<le> now" "tm_period e = None"
      | (per) p where "tm_id e \<notin> tw_cancelled w" "tm_deadline e \<le> now" "tm_period e = Some p"
      | (stop) "tm_id e \<notin> tw_cancelled w" "now < tm_deadline e"
      by (metis not_le option.exhaust)
    then show ?thesis
    proof cases
      case can
      from less.hyps[OF pending_pop_cancelled wheel_ok_tl, OF less.prems Cons can less.prems Cons, of k fired]
      show ?thesis using can live_pop_cancelled[OF less.prems Cons can] by (simp add: step run_post_def due_def)
    next
      case once
      have "wheel_ok (w\<lparr>tw_heap := es\<rparr>)" using wheel_ok_tl[OF less.prems Cons, of "tw_cancelled w"] by simp
      moreover have "pending now (w\<lparr>tw_heap := es\<rparr>) < pending now w" using Cons once by (simp add: pending_def)
      ultimately show ?thesis
        using less.hyps[of "w\<lparr>tw_heap := es\<rparr>" k "fired @ [tm_callback e]"] run_post_once[OF Cons once] once
        by (auto simp: step)
    next
      case per
      let ?e = "e\<lparr>tm_deadline := clock k + p\<rparr>"
      have late: "now < tm_deadline ?e" using less.prems Cons per assms(2)[of k] by (auto simp: wheel_ok_def)
      from less.hyps[OF pending_repush[OF Cons per(1,2) late] wheel_ok_repush[OF less.prems Cons], of "Suc k" "fired @ [tm_callback e]"]
      show ?thesis using run_post_repush[OF Cons per(1,2) late _ per(3)] per by (auto simp: step)
    next
      case stop
      with less.prems nothing_due[OF less.prems Cons stop(2)] show ?thesis by (simp add: step run_post_def)
    qed
  qed
qed

lemma clean_top_live:
  "wheel_ok w \<Longrightarrow> wheel_ok (clean_top w) \<and> live (clean_top w) = live w"
proof (induction w rule: clean_top.induct)
  case (1 w)
  show ?case
  proof (cases "tw_heap w")
    case Nil
    then show ?thesis using 1 by (subst (1 2) clean_top.simps) simp
  next
    case (Cons e es)
    show ?thesis
    proof (cases "wheel_is_cancelled w (tm_id e)")
      case True
      then show ?thesis
        using 1(1)[OF Cons True wheel_ok_tl[OF 1(2) Cons]] Cons 1(2)
          live_pop_cancelled[OF 1(2) Cons]
        by (subst (1 2) clean_top.simps) (simp add: wheel_is_cancelled_def)
    next
      case False
      then show ?thesis using Cons 1(2) by (subst (1 2) clean_top.simps) simp
    qed
  qed
qed


text \<open>
  C22. When every period is positive and the clock does not run backwards, running the wheel
  returns, and it calls exactly the callbacks of the timers that are due and not cancelled, each
  once, in the order of their deadlines. Afterwards no live timer is due, and the live timers are
  those that were live before, less the one-shot timers that fired.
\<close>

theorem wheel_run_fires_due:
  assumes "wheel_ok w" "\<And>j. now \<le> clock j"
  shows "\<exists>w'. wheel_run now clock w = Some (w', map tm_callback (due now w)) \<and> run_post now w w'"
proof -
  obtain w' where w': "run_loop now clock 0 w [] = Some (w', map tm_callback (due now w))"
      "run_post now w w'"
    using run_loop_spec[of w now clock 0 "[]"] assms by auto
  moreover have "wheel_ok w'" using w'(2) by (simp add: run_post_def)
  ultimately show ?thesis
    using clean_top_live[of w'] by (auto simp: wheel_run_def run_post_def due_def)
qed

definition example_wheel :: "string timer_wheel" where
  "example_wheel =
     wheel_cancel (fst (wheel_create 0 (fst (wheel_create_periodic 0 (fst (wheel_create 0 wheel_new 5
        ''once'')) 3 ''tick'')) 2 ''cancelled'')) 2"

lemma example_wheel_ok: "wheel_ok example_wheel"
  unfolding example_wheel_def
  by (intro wheel_ok_cancel wheel_ok_create wheel_ok_create_periodic wheel_ok_new) simp

theorem wheel_run_fires_due_witness:
  "\<exists>w'. wheel_run 5 (\<lambda>_. 6) example_wheel = Some (w', [''tick'', ''once'']) \<and>
        tm_id ` set (live w') = {1}"
proof -
  have "due 5 example_wheel =
      [\<lparr>tm_id = 1, tm_deadline = 3, tm_period = Some 3, tm_callback = ''tick''\<rparr>,
       \<lparr>tm_id = 0, tm_deadline = 5, tm_period = None, tm_callback = ''once''\<rparr>]" by code_simp
  moreover have "tm_id ` {e \<in> set (live example_wheel). tm_deadline e \<le> 5 \<longrightarrow> tm_period e \<noteq> None} = {1}"
    by code_simp
  moreover have "\<exists>w'. wheel_run 5 (\<lambda>_. 6) example_wheel =
      Some (w', map tm_callback (due 5 example_wheel)) \<and> run_post 5 example_wheel w'"
    by (rule wheel_run_fires_due[OF example_wheel_ok]) simp
  ultimately show ?thesis by (auto simp: run_post_def)
qed

text \<open>
  Resetting a timer that is in the heap succeeds and gives it a fresh id: the entry under the
  new id is live and keeps the callback and the period, and no other entry changes. This holds of
  a cancelled timer too, which the reset brings back to life.
\<close>

theorem wheel_reset_revives:
  assumes "wheel_ok w" "old \<in> set (tw_heap w)" "tw_cancelled w \<subseteq> {..<tw_next_id w}"
  shows "\<exists>w'. wheel_reset now w (tm_id old) delay = (w', Some (tw_next_id w)) \<and> wheel_ok w' \<and>
     \<lparr>tm_id = tw_next_id w, tm_deadline = now + delay, tm_period = tm_period old,
      tm_callback = tm_callback old\<rparr> \<in> set (live w') \<and>
     set (tw_heap w') - {\<lparr>tm_id = tw_next_id w, tm_deadline = now + delay, tm_period = tm_period old,
      tm_callback = tm_callback old\<rparr>} = set (tw_heap w) - {old}"
proof -
  have d: "distinct (map tm_id (tw_heap w))" using assms(1) by (simp add: wheel_ok_def)
  then have inj: "\<And>e. e \<in> set (tw_heap w) \<Longrightarrow> tm_id e = tm_id old \<Longrightarrow> e = old"
    using assms(2) by (auto simp: distinct_map inj_on_def)
  have f: "List.find (\<lambda>e. tm_id e = tm_id old) (tw_heap w) = Some old"
  proof (cases "List.find (\<lambda>e. tm_id e = tm_id old) (tw_heap w)")
    case None
    then show ?thesis using assms(2) by (auto simp: find_None_iff)
  next
    case (Some e)
    then have "e \<in> set (tw_heap w)" "tm_id e = tm_id old" by (auto simp: find_Some_iff)
    with inj Some show ?thesis by simp
  qed
  have "distinct (tw_heap w)" using d by (simp add: distinct_map)
  then have r: "set (remove1 old (tw_heap w)) = set (tw_heap w) - {old}" by simp
  have fresh: "\<lparr>tm_id = tw_next_id w, tm_deadline = d, tm_period = p, tm_callback = c\<rparr> \<notin> set (tw_heap w)"
    for d p c using assms(1) by (auto simp: wheel_ok_def)
  show ?thesis
    using wheel_ok_reset[OF assms(1), of now "tm_id old" delay] f r fresh assms(3)
    by (auto simp: wheel_reset_def Let_def live_def)
qed

theorem wheel_reset_revives_witness:
  "2 \<in> tw_cancelled example_wheel \<and>
   (\<exists>w'. wheel_reset 9 example_wheel 2 1 = (w', Some 3) \<and>
     \<lparr>tm_id = 3, tm_deadline = 10, tm_period = None, tm_callback = ''cancelled''\<rparr> \<in> set (live w'))"
proof -
  let ?old = "\<lparr>tm_id = 2, tm_deadline = 2, tm_period = None, tm_callback = ''cancelled''\<rparr>"
  have "?old \<in> set (tw_heap example_wheel)" by code_simp
  moreover have "tw_cancelled example_wheel \<subseteq> {..<tw_next_id example_wheel}" by code_simp
  moreover have "tw_next_id example_wheel = 3" "2 \<in> tw_cancelled example_wheel" by code_simp+
  ultimately show ?thesis
    using wheel_reset_revives[OF example_wheel_ok, of ?old 9 1] by auto
qed

end
