(* ===== verification/Mmap_Cache.thy ===== *)
theory Mmap_Cache
  imports Http_Conn
begin

text \<open>
  The cache of memory-mapped files of \<open>crates/thttpd-mmc/src/lib.rs\<close>. The hash map is an
  association list with distinct keys; a mapping is its identity and bytes, and the identities of
  the mappings come from a counter. \<open>Rc::strong_count\<close> is the parameter \<open>refs\<close>: how many handles
  of a mapping are held outside the cache. What opening a path gives (its metadata, its bytes, or
  an error) is an argument too. Durations are in nanoseconds. The bytes of a mapping are those at the
  time of mapping: the system's mapping is shared with the file, so that a file overwritten while it
  is mapped may show through, which the source excludes by its comment on \<open>Mmap::map\<close>.
\<close>

section \<open>Data\<close>

text \<open>What the source reads of \<open>std::fs::Metadata\<close>, and the key it makes of it.\<close>

record file_metadata =
  md_dev :: nat
  md_ino :: nat
  md_len :: nat
  md_ctime :: int
  md_ctime_nsec :: int

record file_key =
  fk_dev :: nat
  fk_ino :: nat
  fk_size :: nat
  fk_ctime_sec :: int
  fk_ctime_nsec :: int

definition file_key_of :: "file_metadata \<Rightarrow> file_key" where
  "file_key_of md = \<lparr>fk_dev = md_dev md, fk_ino = md_ino md, fk_size = md_len md,
     fk_ctime_sec = md_ctime md, fk_ctime_nsec = md_ctime_nsec md\<rparr>"

record cache_entry =
  ce_mmap :: mmap
  ce_last_used :: int
  ce_size :: nat

datatype mmap_error = FileNotFound string | MmapIo

record mmap_cache =
  mc_entries :: "(file_key \<times> cache_entry) list"
  mc_expire_age :: int
  mc_max_size :: nat
  mc_next :: nat

text \<open>What \<open>File::open\<close> found: the metadata, unless reading it fails, and the mapped bytes,
  unless mapping fails.\<close>

record open_file =
  of_metadata :: "file_metadata option"
  of_map :: "string option"

definition mmc_new :: mmap_cache where
  "mmc_new = \<lparr>mc_entries = [], mc_expire_age = 120 * SECOND, mc_max_size = 64 * 1024 * 1024,
              mc_next = 0\<rparr>"

definition mmc_with_max_size :: "nat \<Rightarrow> mmap_cache" where
  "mmc_with_max_size max_size = mmc_new\<lparr>mc_max_size := max_size\<rparr>"

section \<open>Operations\<close>

definition entry_update :: "file_key \<Rightarrow> cache_entry \<Rightarrow> (file_key \<times> cache_entry) list \<Rightarrow>
    (file_key \<times> cache_entry) list" where
  "entry_update k e es = map (\<lambda>(k', e'). if k' = k then (k', e) else (k', e')) es"

definition mmc_map :: "(string \<Rightarrow> open_file option) \<Rightarrow> int \<Rightarrow> mmap_cache \<Rightarrow> string \<Rightarrow>
    mmap_cache \<times> (mmap_error + mmap)" where
  "mmc_map fs_open now c path =
     (case fs_open path of
        None \<Rightarrow> (c, Inl (FileNotFound path))
      | Some f \<Rightarrow>
          (case of_metadata f of
             None \<Rightarrow> (c, Inl MmapIo)
           | Some metadata \<Rightarrow>
               (let key = file_key_of metadata in
                case map_of (mc_entries c) key of
                  Some e \<Rightarrow>
                    (c\<lparr>mc_entries := entry_update key (e\<lparr>ce_last_used := now\<rparr>) (mc_entries c)\<rparr>,
                     Inr (ce_mmap e))
                | None \<Rightarrow>
                    (case of_map f of
                       None \<Rightarrow> (c, Inl MmapIo)
                     | Some data \<Rightarrow>
                         (let m = \<lparr>mm_id = mc_next c, mm_data = data\<rparr> in
                          (c\<lparr>mc_entries := (key, \<lparr>ce_mmap = m, ce_last_used = now,
                                                 ce_size = md_len metadata\<rparr>) # mc_entries c,
                             mc_next := mc_next c + 1\<rparr>, Inr m))))))"

definition mmc_unmap :: "mmap_cache \<Rightarrow> mmap \<Rightarrow> mmap_cache" where
  "mmc_unmap c m = c"

definition mmc_keep :: "int \<Rightarrow> (nat \<Rightarrow> nat) \<Rightarrow> int \<Rightarrow> cache_entry \<Rightarrow> bool" where
  "mmc_keep now refs expire_age e \<longleftrightarrow>
     0 < refs (mm_id (ce_mmap e)) \<or> max (now - ce_last_used e) 0 < expire_age"

definition mmc_total :: "mmap_cache \<Rightarrow> nat" where
  "mmc_total c = (\<Sum>(k, e)\<leftarrow>mc_entries c. ce_size e)"

definition mmc_cleanup :: "int \<Rightarrow> (nat \<Rightarrow> nat) \<Rightarrow> mmap_cache \<Rightarrow> mmap_cache" where
  "mmc_cleanup now refs c =
     (let c1 = c\<lparr>mc_entries := filter (\<lambda>(k, e). mmc_keep now refs (mc_expire_age c) e) (mc_entries c)\<rparr>
      in if mc_max_size c1 < mmc_total c1 then c1\<lparr>mc_expire_age := mc_expire_age c1 div 2\<rparr>
         else if mc_expire_age c1 < 120 * SECOND then c1\<lparr>mc_expire_age := mc_expire_age c1 * 2\<rparr>
         else c1)"

section \<open>The cache answers with the file's current bytes\<close>

text \<open>
  The stamp of a file: device, inode, length and time of the last change of its status. The cache
  keeps distinct keys, distinct mapping identities below the counter, and under each key the bytes
  of a file with this key, when a stamp determines the bytes (\<open>contents\<close>).
\<close>

type_synonym stamp = "nat \<times> nat \<times> nat \<times> int \<times> int"

definition stamp_of :: "file_metadata \<Rightarrow> stamp" where
  "stamp_of md = (md_dev md, md_ino md, md_len md, md_ctime md, md_ctime_nsec md)"

lemma same_key_same_stamp: "file_key_of md = file_key_of md' \<Longrightarrow> stamp_of md = stamp_of md'"
  by (simp add: file_key_of_def stamp_of_def)

lemma key_size [simp]: "fk_size (file_key_of md) = md_len md"
  by (simp add: file_key_of_def)

definition mmc_ok :: "(stamp \<Rightarrow> string) \<Rightarrow> mmap_cache \<Rightarrow> bool" where
  "mmc_ok contents c \<longleftrightarrow> distinct (map fst (mc_entries c)) \<and>
     distinct (map (\<lambda>x. mm_id (ce_mmap (snd x))) (mc_entries c)) \<and>
     (\<forall>(k, e) \<in> set (mc_entries c). mm_id (ce_mmap e) < mc_next c \<and> ce_size e = fk_size k \<and>
        (\<exists>md. file_key_of md = k \<and> mm_data (ce_mmap e) = contents (stamp_of md))) \<and>
     0 \<le> mc_expire_age c \<and> mc_expire_age c < 240 * SECOND"

lemma mmc_ok_new: "mmc_ok contents mmc_new" "mmc_ok contents (mmc_with_max_size n)"
  by (simp_all add: mmc_ok_def mmc_new_def mmc_with_max_size_def SECOND_def)

lemma entry_update_keys [simp]: "map fst (entry_update k e es) = map fst es"
  by (induction es) (auto simp: entry_update_def)

lemma entry_update_ids:
  assumes "map_of es k = Some e" "distinct (map fst es)" "ce_mmap e' = ce_mmap e"
  shows "map (\<lambda>x. mm_id (ce_mmap (snd x))) (entry_update k e' es) = map (\<lambda>x. mm_id (ce_mmap (snd x))) es"
proof -
  have "x \<in> set es \<Longrightarrow> fst x = k \<Longrightarrow> snd x = e" for x
    using assms(1,2) by (metis map_of_is_SomeI option.inject prod.collapse)
  with assms(3) show ?thesis by (auto simp: entry_update_def split: prod.splits)
qed

definition key_faithful :: "(string \<Rightarrow> open_file option) \<Rightarrow> (stamp \<Rightarrow> string) \<Rightarrow> bool" where
  "key_faithful fs_open contents \<longleftrightarrow>
     (\<forall>path f md. fs_open path = Some f \<longrightarrow> of_metadata f = Some md \<longrightarrow>
        of_map f = None \<or> of_map f = Some (contents (stamp_of md)))"

lemma mmc_map_hit:
  assumes "mmc_ok contents c" "fs_open path = Some f" "of_metadata f = Some md" "map_of (mc_entries c) (file_key_of md) = Some e"
  shows "mmc_ok contents (fst (mmc_map fs_open now c path)) \<and>
    (\<forall>m. snd (mmc_map fs_open now c path) = Inr m \<longrightarrow> mm_data m = contents (stamp_of md))"
proof -
  let ?k = "file_key_of md"
  have e: "(?k, e) \<in> set (mc_entries c)" using assms(4) by (rule map_of_SomeD)
  have up: "(x, y) \<in> set (entry_update ?k (e\<lparr>ce_last_used := now\<rparr>) (mc_entries c)) \<Longrightarrow>
      (x = ?k \<and> y = e\<lparr>ce_last_used := now\<rparr>) \<or> (x, y) \<in> set (mc_entries c)" for x y
    by (auto simp: entry_update_def split: if_splits)
  have ids: "map (\<lambda>x. mm_id (ce_mmap (snd x))) (entry_update ?k (e\<lparr>ce_last_used := now\<rparr>) (mc_entries c)) =
      map (\<lambda>x. mm_id (ce_mmap (snd x))) (mc_entries c)"
    using assms(1,4) by (intro entry_update_ids) (simp_all add: mmc_ok_def)
  have m: "mmc_map fs_open now c path = (c\<lparr>mc_entries := entry_update ?k (e\<lparr>ce_last_used := now\<rparr>) (mc_entries c)\<rparr>, Inr (ce_mmap e))"
    using assms(2-4) by (simp add: mmc_map_def Let_def)
  have ok: "mm_id (ce_mmap y) < mc_next c \<and> ce_size y = fk_size x \<and>
      (\<exists>md. file_key_of md = x \<and> mm_data (ce_mmap y) = contents (stamp_of md))"
    if "(x, y) \<in> set (mc_entries c)" for x y using assms(1) that by (auto simp: mmc_ok_def)
  have "mmc_ok contents (fst (mmc_map fs_open now c path))"
    using assms(1) ok[OF e] by (auto simp: m mmc_ok_def ids dest!: up)
  moreover have "mm_data (ce_mmap e) = contents (stamp_of md)" using ok[OF e] same_key_same_stamp by metis
  ultimately show ?thesis by (simp add: m)
qed

lemma mmc_map_miss:
  assumes "mmc_ok contents c" "key_faithful fs_open contents" "fs_open path = Some f" "of_metadata f = Some md"
    and "map_of (mc_entries c) (file_key_of md) = None"
  shows "mmc_ok contents (fst (mmc_map fs_open now c path)) \<and>
    (\<forall>m. snd (mmc_map fs_open now c path) = Inr m \<longrightarrow> mm_data m = contents (stamp_of md))"
proof (cases "of_map f")
  case None
  with assms show ?thesis by (simp add: mmc_map_def Let_def)
next
  case (Some data)
  let ?k = "file_key_of md"
  have "data = contents (stamp_of md)" using assms(2-4) Some by (fastforce simp: key_faithful_def)
  moreover have "mmc_map fs_open now c path =
      (c\<lparr>mc_entries := (?k, \<lparr>ce_mmap = \<lparr>mm_id = mc_next c, mm_data = data\<rparr>, ce_last_used = now, ce_size = md_len md\<rparr>) # mc_entries c,
         mc_next := mc_next c + 1\<rparr>, Inr \<lparr>mm_id = mc_next c, mm_data = data\<rparr>)"
    using assms(3-5) Some by (simp add: mmc_map_def Let_def)
  moreover have "?k \<notin> fst ` set (mc_entries c)" using assms(5) by (simp add: map_of_eq_None_iff)
  moreover have "mc_next c \<notin> (\<lambda>x. mm_id (ce_mmap (snd x))) ` set (mc_entries c)"
    using assms(1) by (auto simp: mmc_ok_def)
  ultimately show ?thesis using assms(1) by (auto simp: mmc_ok_def less_Suc_eq)
qed

lemma mmc_ok_map:
  assumes "mmc_ok contents c" "key_faithful fs_open contents"
  shows "mmc_ok contents (fst (mmc_map fs_open now c path)) \<and>
    (\<forall>m. snd (mmc_map fs_open now c path) = Inr m \<longrightarrow>
       (\<exists>f md. fs_open path = Some f \<and> of_metadata f = Some md \<and> mm_data m = contents (stamp_of md)))"
proof (cases "Option.bind (fs_open path) of_metadata")
  case None
  with assms show ?thesis by (cases "fs_open path") (simp_all add: mmc_map_def)
next
  case (Some md)
  then obtain f where f: "fs_open path = Some f" "of_metadata f = Some md" by (auto simp: bind_eq_Some_conv)
  have "mmc_ok contents (fst (mmc_map fs_open now c path)) \<and>
      (\<forall>m. snd (mmc_map fs_open now c path) = Inr m \<longrightarrow> mm_data m = contents (stamp_of md))"
  proof (cases "map_of (mc_entries c) (file_key_of md)")
    case None
    then show ?thesis by (rule mmc_map_miss[OF assms f])
  next
    case (Some e)
    then show ?thesis by (rule mmc_map_hit[of contents c fs_open, OF assms(1) f])
  qed
  then show ?thesis using f by blast
qed

lemma mmc_cleanup_entries:
  "mc_entries (mmc_cleanup now refs c) =
     filter (\<lambda>(k, e). mmc_keep now refs (mc_expire_age c) e) (mc_entries c)"
  "mc_next (mmc_cleanup now refs c) = mc_next c" "mc_max_size (mmc_cleanup now refs c) = mc_max_size c"
  by (simp_all add: mmc_cleanup_def Let_def)

lemma mmc_cleanup_age:
  "0 \<le> mc_expire_age c \<Longrightarrow> mc_expire_age c < 240 * SECOND \<Longrightarrow>
     0 \<le> mc_expire_age (mmc_cleanup now refs c) \<and> mc_expire_age (mmc_cleanup now refs c) < 240 * SECOND"
  by (auto simp: mmc_cleanup_def Let_def SECOND_def)

lemma mmc_ok_cleanup: "mmc_ok contents c \<Longrightarrow> mmc_ok contents (mmc_cleanup now refs c)"
  using mmc_cleanup_age[of c now refs]
  by (auto simp: mmc_ok_def mmc_cleanup_entries distinct_map_filter)

datatype mmc_op =
  OpMap "string \<Rightarrow> open_file option" int string
| OpUnmap mmap
| OpCleanup int "nat \<Rightarrow> nat"

fun mmc_step :: "mmap_cache \<Rightarrow> mmc_op \<Rightarrow> mmap_cache" where
  "mmc_step c (OpMap fs_open now path) = fst (mmc_map fs_open now c path)"
| "mmc_step c (OpUnmap m) = mmc_unmap c m"
| "mmc_step c (OpCleanup now refs) = mmc_cleanup now refs c"

text \<open>Bytes that some map of a history has mapped, of a file that had the stamp.\<close>

definition mapped_before :: "mmc_op list \<Rightarrow> stamp \<Rightarrow> string \<Rightarrow> bool" where
  "mapped_before ops st data \<longleftrightarrow> (\<exists>fs_open now path f md. OpMap fs_open now path \<in> set ops \<and>
     fs_open path = Some f \<and> of_metadata f = Some md \<and> stamp_of md = st \<and> of_map f = Some data)"

lemma mapped_before_mono: "mapped_before ops st d \<Longrightarrow> mapped_before (ops @ ops') st d"
  unfolding mapped_before_def by (metis UnCI set_append)

lemma mmc_map_entries:
  assumes "(k, e) \<in> set (mc_entries (fst (mmc_map fs_open now c path)))"
  shows "(\<exists>e'. (k, e') \<in> set (mc_entries c) \<and> ce_mmap e = ce_mmap e') \<or>
    mapped_before [OpMap fs_open now path] (fk_dev k, fk_ino k, fk_size k, fk_ctime_sec k, fk_ctime_nsec k) (mm_data (ce_mmap e))"
  using assms
  by (fastforce simp: mmc_map_def entry_update_def mapped_before_def stamp_of_def file_key_of_def Let_def
      split: option.splits if_splits dest: map_of_SomeD)

lemma mmc_entry_history:
  "(k, e) \<in> set (mc_entries (foldl mmc_step mmc_new ops)) \<Longrightarrow>
     mapped_before ops (fk_dev k, fk_ino k, fk_size k, fk_ctime_sec k, fk_ctime_nsec k) (mm_data (ce_mmap e))"
proof (induction ops arbitrary: e rule: rev_induct)
  case Nil
  then show ?case by (simp add: mmc_new_def)
next
  case (snoc op ops)
  let ?c = "foldl mmc_step mmc_new ops" and ?st = "(fk_dev k, fk_ino k, fk_size k, fk_ctime_sec k, fk_ctime_nsec k)"
  have "(\<exists>e'. (k, e') \<in> set (mc_entries ?c) \<and> ce_mmap e = ce_mmap e') \<or> mapped_before [op] ?st (mm_data (ce_mmap e))"
    using snoc.prems mmc_map_entries[of k e] by (cases op) (auto simp: mmc_unmap_def mmc_cleanup_entries)
  moreover have "mapped_before [op] st d \<Longrightarrow> mapped_before (ops @ [op]) st d" for st d
    unfolding mapped_before_def by (metis Un_iff set_append)
  ultimately show ?case using snoc.IH mapped_before_mono by metis
qed

text \<open>
  C23. The cache never serves a mapping of a file with another stamp. After any history of maps,
  unmaps and cleanups, over a file system that changes in any way in between, the mapping returned
  for a path is of the file opened there now: it has the bytes this file has now, or bytes that an
  earlier map of the history mapped, of a file whose device, inode, length and time of change (seconds
  and nanoseconds) were all those of the file there now. And a file that can be opened, examined and
  mapped is mapped. Nothing is assumed of the file system: whether a file can change without its
  time of change changing is outside.
\<close>

theorem mmc_map_not_stale:
  assumes "r = snd (mmc_map fs_open now (foldl mmc_step mmc_new ops) path)"
  shows "(\<forall>m. r = Inr m \<longrightarrow> (\<exists>f md. fs_open path = Some f \<and> of_metadata f = Some md \<and>
       (of_map f = Some (mm_data m) \<or>
        mapped_before ops (md_dev md, md_ino md, md_len md, md_ctime md, md_ctime_nsec md) (mm_data m)))) \<and>
    (\<forall>f md data. fs_open path = Some f \<and> of_metadata f = Some md \<and> of_map f = Some data \<longrightarrow> (\<exists>m. r = Inr m))"
proof -
  let ?c = "foldl mmc_step mmc_new ops"
  have hit: "mapped_before ops (md_dev md, md_ino md, md_len md, md_ctime md, md_ctime_nsec md) (mm_data (ce_mmap e))"
    if "map_of (mc_entries ?c) (file_key_of md) = Some e" for md e
    using mmc_entry_history[OF map_of_SomeD[OF that]] by (simp add: file_key_of_def)
  show ?thesis unfolding assms by (auto simp: mmc_map_def Let_def hit split: option.splits)
qed

definition example_md :: "nat \<Rightarrow> int \<Rightarrow> file_metadata" where
  "example_md n t = \<lparr>md_dev = 1, md_ino = 7, md_len = n, md_ctime = t, md_ctime_nsec = 0\<rparr>"

definition example_fs :: "int \<Rightarrow> string \<Rightarrow> string \<Rightarrow> open_file option" where
  "example_fs t data path =
     (if path = ''index.html''
      then Some \<lparr>of_metadata = Some (example_md (length data) t), of_map = Some data\<rparr> else None)"

text \<open>A file overwritten in place by one of the same length is mapped again.\<close>

theorem mmc_map_not_stale_witness:
  "\<exists>m. snd (mmc_map (example_fs 8 ''new'') 9 (foldl mmc_step mmc_new
        [OpMap (example_fs 0 ''old'') 0 ''index.html'', OpCleanup 5 (\<lambda>_. 0)]) ''index.html'') = Inr m \<and>
      mm_data m = ''new''"
proof -
  let ?ops = "[OpMap (example_fs 0 ''old'') 0 ''index.html'', OpCleanup 5 (\<lambda>_. 0)]"
  let ?r = "snd (mmc_map (example_fs 8 ''new'') 9 (foldl mmc_step mmc_new ?ops) ''index.html'')"
  note ok = mmc_map_not_stale[of ?r "example_fs 8 ''new''" 9 ?ops "''index.html''", OF refl]
  have "example_fs 8 ''new'' ''index.html'' = Some \<lparr>of_metadata = Some (example_md 3 8), of_map = Some ''new''\<rparr>"
    by (simp add: example_fs_def numeral_3_eq_3)
  with ok obtain m where m: "?r = Inr m" by fastforce
  have "\<not> mapped_before ?ops (Suc 0, 7, Suc (Suc (Suc 0)), 8, 0) d" for d
    by (auto simp: mapped_before_def example_fs_def example_md_def stamp_of_def split: if_splits)
  then have "mm_data m = ''new''" using ok m by (auto simp: example_fs_def example_md_def)
  with m show ?thesis by blast
qed

section \<open>The adaptive expiry age\<close>

lemma mmc_map_age [simp]:
  "mc_expire_age (fst (mmc_map fs now c p)) = mc_expire_age c"
  "mc_max_size (fst (mmc_map fs now c p)) = mc_max_size c"
  by (auto simp: mmc_map_def Let_def split: option.splits)

lemma age_zero_stays: "mc_expire_age c = 0 \<Longrightarrow> mc_expire_age (foldl mmc_step c ops) = 0"
proof (induction ops arbitrary: c)
  case (Cons op ops)
  have "mc_expire_age (mmc_step c op) = 0"
    using Cons.prems by (cases op) (auto simp: mmc_unmap_def mmc_cleanup_def Let_def)
  with Cons show ?case by simp
qed simp

lemma mmc_total_keep:
  "\<forall>(k, e) \<in> set (mc_entries c). 0 < refs (mm_id (ce_mmap e)) \<Longrightarrow>
     mc_entries (mmc_cleanup now refs c) = mc_entries c"
  by (auto simp: mmc_cleanup_entries mmc_keep_def intro!: filter_True)

lemma oversize_halves:
  assumes "\<forall>(k, e) \<in> set (mc_entries c). 0 < refs (mm_id (ce_mmap e))" "mc_max_size c < mmc_total c"
  shows "mc_expire_age (((mmc_cleanup now refs) ^^ n) c) = mc_expire_age c div 2 ^ n \<and>
    mc_entries (((mmc_cleanup now refs) ^^ n) c) = mc_entries c \<and>
    mc_max_size (((mmc_cleanup now refs) ^^ n) c) = mc_max_size c"
proof (induction n)
  case (Suc n)
  let ?d = "((mmc_cleanup now refs) ^^ n) c"
  have d: "mc_expire_age ?d = mc_expire_age c div 2 ^ n" "mc_entries ?d = mc_entries c"
    "mc_max_size ?d = mc_max_size c" using Suc by auto
  have keep: "mc_entries (mmc_cleanup now refs ?d) = mc_entries c"
    using mmc_total_keep[of ?d refs now] assms(1) d by simp
  have "filter (\<lambda>(k, e). mmc_keep now refs (mc_expire_age ?d) e) (mc_entries ?d) = mc_entries c"
    using keep mmc_cleanup_entries(1)[of now refs ?d] by simp
  then have "mc_expire_age (mmc_cleanup now refs ?d) = mc_expire_age ?d div 2"
    using assms(2) d by (simp add: mmc_cleanup_def Let_def mmc_total_def)
  also have "\<dots> = mc_expire_age c div 2 ^ Suc n"
    using d by (simp add: zdiv_zmult2_eq[symmetric] mult.commute)
  finally show ?case using keep d by (simp add: mmc_cleanup_entries)
qed simp

text \<open>
  The expiry age can collapse for good. While the mappings in use exceed the size limit, 37
  cleanups (the event loop runs one per iteration) halve the initial two minutes down to zero;
  doubling then keeps it at zero, and from then on, whatever happens, every cleanup evicts every
  mapping that is not in use at that moment.
\<close>

theorem expire_age_collapse:
  assumes "mc_expire_age c = 120 * SECOND" "mc_max_size c < mmc_total c"
    and "\<forall>(k, e) \<in> set (mc_entries c). 0 < refs (mm_id (ce_mmap e))"
  shows "mc_expire_age (foldl mmc_step (((mmc_cleanup now refs) ^^ 37) c) ops) = 0 \<and>
    mc_entries (mmc_cleanup now' refs' (foldl mmc_step (((mmc_cleanup now refs) ^^ 37) c) ops)) =
      filter (\<lambda>(k, e). 0 < refs' (mm_id (ce_mmap e)))
        (mc_entries (foldl mmc_step (((mmc_cleanup now refs) ^^ 37) c) ops))"
proof -
  have "mc_expire_age (((mmc_cleanup now refs) ^^ 37) c) = 0"
    using oversize_halves[OF assms(3,2), of 37 now] assms(1) by (simp add: SECOND_def)
  from age_zero_stays[OF this, of ops] show ?thesis
    by (auto simp: mmc_cleanup_entries mmc_keep_def intro: filter_cong)
qed

definition example_big :: mmap_cache where
  "example_big = \<lparr>mc_entries = [(file_key_of (example_md 5 0), \<lparr>ce_mmap = \<lparr>mm_id = 0, mm_data = ''hello''\<rparr>,
     ce_last_used = 0, ce_size = 5\<rparr>)], mc_expire_age = 120 * SECOND, mc_max_size = 4, mc_next = 1\<rparr>"

theorem expire_age_collapse_witness:
  "mc_entries (mmc_cleanup 1 (\<lambda>_. 0) (((mmc_cleanup 1 (\<lambda>_. 1)) ^^ 37) example_big)) = []"
proof -
  have big: "mc_expire_age example_big = 120 * SECOND" "mc_max_size example_big < mmc_total example_big"
    "\<forall>(k, e) \<in> set (mc_entries example_big). 0 < (\<lambda>_. 1 :: nat) (mm_id (ce_mmap e))"
    by (simp_all add: example_big_def mmc_total_def)
  from expire_age_collapse[OF big, where now = 1 and now' = 1 and refs' = "\<lambda>_. 0" and ops = "[]"] show ?thesis
    by (simp add: case_prod_beta')
qed

end
