(* ===== verification/Basic_Auth.thy ===== *)
theory Basic_Auth
  imports Rust_Prelude
begin

text \<open>
  Basic authentication of \<open>crates/thttpd-auth/src/lib.rs\<close>. The file system (\<open>exists\<close>,
  \<open>read_to_string\<close>), the decoder of the base64 crate and libc's \<open>crypt\<close> are arguments; \<open>crypt\<close>
  gives \<open>None\<close> for a null pointer. The mutex around \<open>crypt\<close> has no effect on the values.
\<close>

definition AUTH_FILE :: string where
  "AUTH_FILE = ''.htpasswd''"

definition ERR_401_TITLE :: string where
  "ERR_401_TITLE = ''Unauthorized''"

definition ERR_401_FORM :: string where
  "ERR_401_FORM = ''Authorization required for the URL '' @ [CHR 0x27] @ ''%.80s'' @ [CHR 0x27] @ ''.'' @ [LF]"

datatype auth_result = NoAuthFile | AuthOk | AuthUnauthorized | AuthForbidden

definition parse_basic_auth :: "(string \<Rightarrow> string option) \<Rightarrow> string \<Rightarrow> (string \<times> string) option" where
  "parse_basic_auth b64_decode authorization =
     (case strip_prefix ''Basic '' (trim authorization) of
        None \<Rightarrow> None
      | Some b64_part \<Rightarrow>
          (case b64_decode (trim b64_part) of
             None \<Rightarrow> None
           | Some decoded \<Rightarrow>
               if valid_utf8 decoded then split_once (CHR '':'') decoded else None))"

definition verify_password :: "(string \<Rightarrow> string \<Rightarrow> string option) \<Rightarrow> string \<Rightarrow> string \<Rightarrow> bool" where
  "verify_password crypt password stored_hash \<longleftrightarrow>
     (if CHR 0x00 \<in> set password \<or> CHR 0x00 \<in> set stored_hash then False
      else case crypt password stored_hash of
             None \<Rightarrow> False
           | Some result \<Rightarrow> valid_utf8 result \<and> result = stored_hash)"

fun htpasswd_loop ::
  "(string \<Rightarrow> string \<Rightarrow> string option) \<Rightarrow> string \<Rightarrow> string \<Rightarrow> string list \<Rightarrow> auth_result" where
  "htpasswd_loop crypt user pass [] = AuthUnauthorized"
| "htpasswd_loop crypt user pass (raw # lines) =
     (let line = trim_end raw in
      if line = [] then htpasswd_loop crypt user pass lines
      else case split_once (CHR '':'') line of
             None \<Rightarrow> htpasswd_loop crypt user pass lines
           | Some (line_user, line_hash) \<Rightarrow>
               if line_user \<noteq> user then htpasswd_loop crypt user pass lines
               else if verify_password crypt pass line_hash then AuthOk
               else AuthUnauthorized)"

definition check_htpasswd :: "(string \<Rightarrow> string option) \<Rightarrow> (string \<Rightarrow> string option) \<Rightarrow>
    (string \<Rightarrow> string \<Rightarrow> string option) \<Rightarrow> string \<Rightarrow> string \<Rightarrow> auth_result" where
  "check_htpasswd fs_read b64_decode crypt auth_path authorization =
     (case parse_basic_auth b64_decode authorization of
        None \<Rightarrow> AuthUnauthorized
      | Some (user, pass) \<Rightarrow>
          (case fs_read auth_path of
             None \<Rightarrow> AuthForbidden
           | Some content \<Rightarrow> htpasswd_loop crypt user pass (lines_of content)))"

text \<open>\<open>Path::parent\<close> on the components of a path.\<close>

definition comp_parent :: "path_comp list \<Rightarrow> path_comp list option" where
  "comp_parent cs = (if cs = [] \<or> last cs = RootDir then None else Some (butlast cs))"

function auth_walk :: "(string \<Rightarrow> bool) \<Rightarrow> (string \<Rightarrow> auth_result) \<Rightarrow> path_comp list \<Rightarrow> auth_result" where
  "auth_walk fs_exists check cs =
     (case comp_parent cs of
        None \<Rightarrow> NoAuthFile
      | Some dir \<Rightarrow>
          (let auth_path = path_join (render_path dir) AUTH_FILE in
           if fs_exists auth_path then check auth_path else auth_walk fs_exists check dir))"
  by pat_completeness auto
termination
  by (relation "measure (\<lambda>(_, _, cs). length cs)")
    (auto simp: comp_parent_def split: if_splits)

declare auth_walk.simps [simp del]

definition auth_check2 :: "(string \<Rightarrow> bool) \<Rightarrow> (string \<Rightarrow> string option) \<Rightarrow> (string \<Rightarrow> string option) \<Rightarrow>
    (string \<Rightarrow> string \<Rightarrow> string option) \<Rightarrow> string \<Rightarrow> string \<Rightarrow> auth_result" where
  "auth_check2 fs_exists fs_read b64_decode crypt path authorization =
     auth_walk fs_exists
       (\<lambda>auth_path. check_htpasswd fs_read b64_decode crypt auth_path authorization)
       (path_components path)"

section \<open>The decision\<close>

text \<open>The password files that can govern a path, the nearest directory first, and the entries of
  a password file.\<close>

definition auth_files :: "string \<Rightarrow> string list" where
  "auth_files path =
     (let cs = path_components path;
          lo = (if path_is_absolute path then 1 else 0)
      in map (\<lambda>k. path_join (render_path (take k cs)) AUTH_FILE) (rev [lo ..< length cs]))"

definition htpasswd_entries :: "string \<Rightarrow> (string \<times> string) list" where
  "htpasswd_entries content =
     List.map_filter (\<lambda>raw. if trim_end raw = [] then None else split_once (CHR '':'') (trim_end raw))
       (lines_of content)"

lemma htpasswd_loop_entries:
  "htpasswd_loop crypt user pass lines =
     (case map_of (List.map_filter
        (\<lambda>raw. if trim_end raw = [] then None else split_once (CHR '':'') (trim_end raw)) lines) user of
        Some h \<Rightarrow> if verify_password crypt pass h then AuthOk else AuthUnauthorized
      | None \<Rightarrow> AuthUnauthorized)"
  by (induction lines) (auto simp: Let_def List.map_filter_simps split: option.splits)

lemma no_inner_root: "RootDir \<notin> set (concat (map path_part ps))"
  by (auto simp: path_part_def)

lemma path_components_root:
  "k < length (path_components path) \<Longrightarrow>
     path_components path ! k = RootDir \<longleftrightarrow> path_is_absolute path \<and> k = 0"
proof -
  assume k: "k < length (path_components path)"
  let ?c = "concat (map path_part (split_byte (CHR ''/'') path))"
  have in_c: "j < length ?c \<Longrightarrow> ?c ! j \<noteq> RootDir" for j
    using no_inner_root nth_mem by metis
  show ?thesis
    using k in_c by (cases k) (auto simp: path_components_def Let_def split: if_splits)
qed

lemma auth_walk_files:
  assumes "n \<le> length cs" "\<And>k. k < length cs \<Longrightarrow> cs ! k = RootDir \<longleftrightarrow> ab \<and> k = 0"
    and "ab \<Longrightarrow> cs \<noteq> []"
  shows "auth_walk fs_exists check (take n cs) =
    (case List.find fs_exists
        (map (\<lambda>k. path_join (render_path (take k cs)) AUTH_FILE) (rev [(if ab then 1 else 0) ..< n])) of
       None \<Rightarrow> NoAuthFile | Some p \<Rightarrow> check p)"
  using assms(1)
proof (induction n)
  case 0
  then show ?case by (simp add: auth_walk.simps comp_parent_def)
next
  case (Suc n)
  have t: "take (Suc n) cs = take n cs @ [cs ! n]" using Suc.prems by (simp add: take_Suc_conv_app_nth)
  show ?case
  proof (cases "ab \<and> n = 0")
    case True
    then show ?thesis
      using assms(2)[of n] Suc.prems t
      by (cases cs) (simp_all add: auth_walk.simps comp_parent_def)
  next
    case False
    then have "comp_parent (take (Suc n) cs) = Some (take n cs)"
      using assms(2)[of n] Suc.prems t by (simp add: comp_parent_def)
    with Suc False show ?thesis
      by (subst auth_walk.simps) (auto simp: Let_def)
  qed
qed

lemma auth_check2_nearest:
  "auth_check2 fs_exists fs_read b64_decode crypt path authorization =
    (case List.find fs_exists (auth_files path) of
       None \<Rightarrow> NoAuthFile
     | Some p \<Rightarrow> check_htpasswd fs_read b64_decode crypt p authorization)"
proof -
  have "path_is_absolute path \<Longrightarrow> path_components path \<noteq> []" by (simp add: path_components_def Let_def)
  with auth_walk_files[of "length (path_components path)" "path_components path" "path_is_absolute path"]
  show ?thesis
    using path_components_root[of _ path] by (simp add: auth_check2_def auth_files_def Let_def)
qed

text \<open>
  C39. Access is granted exactly when the nearest password file above the path can be read and its
  first entry for the user named by the Authorization header carries a hash that crypt of the
  presented password reproduces. The request is unguarded exactly when no directory above the
  path has a password file; the result is then NoAuthFile, which the caller treats as access,
  where the comment on the function announces Ok.
\<close>

theorem auth_check2_decides:
  "(auth_check2 fs_exists fs_read b64_decode crypt path authorization = AuthOk \<longleftrightarrow>
     (\<exists>file user pass content hash.
        List.find fs_exists (auth_files path) = Some file \<and>
        parse_basic_auth b64_decode authorization = Some (user, pass) \<and>
        fs_read file = Some content \<and>
        map_of (htpasswd_entries content) user = Some hash \<and>
        CHR 0x00 \<notin> set pass \<and> CHR 0x00 \<notin> set hash \<and> valid_utf8 hash \<and>
        crypt pass hash = Some hash)) \<and>
   (auth_check2 fs_exists fs_read b64_decode crypt path authorization = NoAuthFile \<longleftrightarrow>
     List.find fs_exists (auth_files path) = None)"
proof -
  have c: "check_htpasswd fs_read b64_decode crypt f authorization \<noteq> NoAuthFile" for f
    by (auto simp: check_htpasswd_def htpasswd_loop_entries split: option.splits)
  have "check_htpasswd fs_read b64_decode crypt f authorization = AuthOk \<longleftrightarrow>
     (\<exists>user pass content hash.
        parse_basic_auth b64_decode authorization = Some (user, pass) \<and>
        fs_read f = Some content \<and> map_of (htpasswd_entries content) user = Some hash \<and>
        verify_password crypt pass hash)" for f
    by (auto simp: check_htpasswd_def htpasswd_loop_entries htpasswd_entries_def split: option.splits)
  moreover have "verify_password crypt pass hash \<longleftrightarrow> CHR 0x00 \<notin> set pass \<and> CHR 0x00 \<notin> set hash \<and>
      valid_utf8 hash \<and> crypt pass hash = Some hash" for pass hash
    by (auto simp: verify_password_def split: option.splits)
  ultimately show ?thesis
    using c by (auto simp: auth_check2_nearest split: option.splits)
qed

end
