(* ===== verification/Dir_Listing.thy ===== *)
theory Dir_Listing
  imports Http_Response Url_Path "HOL-Library.List_Lexorder" "HOL-Library.Char_ord"
begin

text \<open>
  Directory listings of \<open>crates/thttpd-http/src/dirlist.rs\<close>: the HTML page and its own calendar.
  What reading the directory gives is an argument: the entries in the order of the system, each
  with its lstat, stat and link target, any of which can fail. The lower-case mapping of Unicode
  is the argument \<open>lower\<close>.
\<close>

section \<open>The calendar of the listing\<close>

definition dl_is_leap :: "nat \<Rightarrow> bool" where
  "dl_is_leap year \<longleftrightarrow> (year mod 4 = 0 \<and> year mod 100 \<noteq> 0) \<or> year mod 400 = 0"

definition dl_days_in_year :: "nat \<Rightarrow> nat" where
  "dl_days_in_year year = (if dl_is_leap year then 366 else 365)"

definition dl_month_days :: "nat \<Rightarrow> nat list" where
  "dl_month_days year =
     (if dl_is_leap year then [31, 29, 31, 30, 31, 30, 31, 31, 30, 31, 30, 31]
      else [31, 28, 31, 30, 31, 30, 31, 31, 30, 31, 30, 31])"

function dl_year_loop :: "nat \<Rightarrow> nat \<Rightarrow> nat \<times> nat" where
  "dl_year_loop days year =
     (if days < dl_days_in_year year then (days, year)
      else dl_year_loop (days - dl_days_in_year year) (year + 1))"
  by pat_completeness auto
termination
  by (relation "measure fst") (auto simp: dl_days_in_year_def split: if_splits)

declare dl_year_loop.simps [simp del]

text \<open>The loop over the months: \<open>i\<close> is the index of the head of the list.\<close>

fun dl_month_loop :: "nat \<Rightarrow> nat list \<Rightarrow> nat \<Rightarrow> nat \<Rightarrow> nat \<times> nat" where
  "dl_month_loop i [] month remaining = (month, remaining)"
| "dl_month_loop i (md # mds) month remaining =
     (if remaining < md then (i, remaining)
      else dl_month_loop (Suc i) mds (if i = 11 then 11 else month) (remaining - md))"

definition days_to_ymd :: "nat \<Rightarrow> nat \<times> nat \<times> nat" where
  "days_to_ymd days =
     (case dl_year_loop days 1970 of
        (days', year) \<Rightarrow>
          (case dl_month_loop 0 (dl_month_days year) 0 days' of
             (month, remaining) \<Rightarrow> (year, month + 1, remaining + 1)))"

definition format_ls_time :: "nat \<Rightarrow> nat \<Rightarrow> string" where
  "format_ls_time now_secs secs =
     (let days_since_epoch = secs div 86400;
          time_of_day = secs mod 86400
      in case days_to_ymd days_since_epoch of
           (year, month, day) \<Rightarrow>
             (let month_str = (if month - 1 < length month_names then month_names ! (month - 1)
                               else ''???'')
              in if 60 * 60 * 24 * 182 < now_secs - secs
                 then month_str @ '' '' @ pad_left SP 2 (dec_nat day) @ ''  '' @ dec_nat year
                 else month_str @ '' '' @ pad_left SP 2 (dec_nat day) @ '' ''
                      @ two_digits (time_of_day div 3600) @ '':''
                      @ two_digits (time_of_day mod 3600 div 60)))"

section \<open>The page\<close>

record file_stat =
  st_is_dir :: bool
  st_is_symlink :: bool
  st_mode :: nat
  st_nlink :: nat
  st_len :: nat
  st_mtime :: int

text \<open>One entry of \<open>read_dir\<close>: its name, \<open>symlink_metadata\<close>, \<open>metadata\<close> and \<open>read_link\<close>.\<close>

record dir_item =
  di_name :: string
  di_lstat :: "file_stat option"
  di_stat :: "file_stat option"
  di_link :: "string option"

record dir_entry =
  de_name :: string
  de_metadata :: file_stat
  de_lstat :: file_stat
  de_link :: "string option"

text \<open>An error of the iterator is \<open>None\<close> in the list and ends the listing with an error.\<close>

fun collect_entries :: "dir_item option list \<Rightarrow> dir_entry list option" where
  "collect_entries [] = Some []"
| "collect_entries (None # items) = None"
| "collect_entries (Some it # items) =
     (case di_lstat it of
        None \<Rightarrow> collect_entries items
      | Some lstat \<Rightarrow>
          map_option (\<lambda>es. \<lparr>de_name = di_name it,
              de_metadata = (case di_stat it of Some m \<Rightarrow> m | None \<Rightarrow> lstat),
              de_lstat = lstat, de_link = di_link it\<rparr> # es) (collect_entries items))"

definition mode_has :: "nat \<Rightarrow> nat \<Rightarrow> bool" where
  "mode_has bits b \<longleftrightarrow> (bits div b) mod 2 = 1"

definition mode_string :: "file_stat \<Rightarrow> string" where
  "mode_string lstat =
     [if st_is_dir lstat then CHR ''d'' else if st_is_symlink lstat then CHR ''l'' else CHR ''-'',
      if mode_has (st_mode lstat) 4 then CHR ''r'' else CHR ''-'',
      if mode_has (st_mode lstat) 2 then CHR ''w'' else CHR ''-'',
      if mode_has (st_mode lstat) 1 then CHR ''x'' else CHR ''-'']"

definition truncate_to_80 :: "string \<Rightarrow> string" where
  "truncate_to_80 s = (if length s \<le> 80 then s else take (floor_char_boundary_loop s 80) s)"

definition file_class :: "dir_entry \<Rightarrow> string" where
  "file_class e =
     (if st_is_dir (de_metadata e) then ''/''
      else if st_is_symlink (de_lstat e) then ''@''
      else if mode_has (st_mode (de_lstat e)) 1 then ''*'' else [])"

definition link_suffix :: "dir_entry \<Rightarrow> string" where
  "link_suffix e =
     (if st_is_symlink (de_lstat e)
      then (case de_link e of Some target \<Rightarrow> '' -&gt; '' @ from_utf8_lossy target | None \<Rightarrow> [])
      else [])"

definition entry_href :: "string \<Rightarrow> dir_entry \<Rightarrow> string" where
  "entry_href url_prefix e =
     ''/'' @ url_prefix @ url_encode (de_name e) @ (if st_is_dir (de_metadata e) then ''/'' else [])"

definition listing_line :: "nat \<Rightarrow> string \<Rightarrow> dir_entry \<Rightarrow> string" where
  "listing_line now_secs url_prefix e =
     mode_string (de_lstat e) @ '' '' @ pad_left SP 3 (dec_nat (st_nlink (de_lstat e))) @ ''  '' @
     pad_left SP 10 (dec_int (wrap_i64 (int (if st_is_dir (de_metadata e) then st_len (de_lstat e)
                                   else st_len (de_metadata e))))) @ ''  '' @
     format_ls_time now_secs (nat (st_mtime (de_lstat e))) @
     ''  <A HREF='' @ [DQUOTE] @ entry_href url_prefix e @ [DQUOTE] @ ''>'' @
     truncate_to_80 (de_name e) @ ''</A>'' @ link_suffix e @ file_class e @ [LF]"

definition listing_header :: "string \<Rightarrow> string" where
  "listing_header url_path =
     ''<HTML>'' @ [LF] @ ''<HEAD><TITLE>Index of '' @ url_path @ ''</TITLE></HEAD>'' @ [LF] @
     ''<BODY BGCOLOR='' @ [DQUOTE] @ ''#99cc99'' @ [DQUOTE] @ '' TEXT='' @ [DQUOTE] @ ''#000000'' @
     [DQUOTE] @ '' LINK='' @ [DQUOTE] @ ''#2020ff'' @ [DQUOTE] @ '' VLINK='' @ [DQUOTE] @ ''#4040cc'' @
     [DQUOTE] @ ''>'' @ [LF] @ ''<H2>Index of '' @ url_path @ ''</H2>'' @ [LF] @ ''<PRE>'' @ [LF] @
     ''mode  links  bytes  last-changed  name'' @ [LF] @ ''<HR>''"

definition generate_listing ::
  "(string \<Rightarrow> string) \<Rightarrow> nat \<Rightarrow> dir_item option list option \<Rightarrow> string \<Rightarrow> string option" where
  "generate_listing lower now_secs dir url_path =
     (case dir of
        None \<Rightarrow> None
      | Some items \<Rightarrow>
          map_option (\<lambda>es.
            listing_header url_path @
            concat (map (listing_line now_secs
                (if ends_with ''/'' url_path then url_path else url_path @ ''/''))
              (sort_key (\<lambda>e. lower (de_name e)) es)) @
            ''</PRE></BODY>'' @ [LF] @ ''</HTML>'' @ [LF]) (collect_entries items))"

section \<open>The two calendars agree\<close>

lemma dl_is_leap_eq: "dl_is_leap y \<longleftrightarrow> is_leap_year (int y)"
proof -
  have "(int y mod 4 = 0) = (y mod 4 = 0)" "(int y mod 100 = 0) = (y mod 100 = 0)"
    "(int y mod 400 = 0) = (y mod 400 = 0)" by presburger+
  then show ?thesis by (simp add: dl_is_leap_def is_leap_year_def rem_trunc_nonneg)
qed

lemma dl_days_in_year_eq: "int (dl_days_in_year y) = days_in_year (int y)"
  by (simp add: dl_days_in_year_def days_in_year_def dl_is_leap_eq)

lemma dl_year_loop_spec:
  "dl_year_loop days y = (r, y') \<Longrightarrow> y \<le> y' \<and> r < dl_days_in_year y' \<and>
     int days = int r + days_of_years (int y) (int y')"
proof (induction days y rule: dl_year_loop.induct)
  case (1 days y)
  show ?case
  proof (cases "days < dl_days_in_year y")
    case True
    then show ?thesis using 1(2) by (simp add: dl_year_loop.simps)
  next
    case False
    then have "dl_year_loop (days - dl_days_in_year y) (y + 1) = (r, y')"
      using 1(2) by (subst (asm) dl_year_loop.simps) simp
    from 1(1)[OF False this] False show ?thesis
      using days_of_years_cons[of "int y" "int y'"] dl_days_in_year_eq[of y]
      by (auto simp: of_nat_diff add.commute)
  qed
qed

lemma dl_month_days_eq: "m < 12 \<Longrightarrow> int (dl_month_days y ! m) = days_in_month m (int y)"
proof -
  have "\<forall>m \<in> set [0..<12]. int (dl_month_days y ! m) = days_in_month m (int y)"
    by (simp add: dl_month_days_def days_in_month_def dl_is_leap_eq upt_rec)
  then show "m < 12 \<Longrightarrow> ?thesis" by simp
qed

lemma dl_month_loop_spec:
  assumes "i \<le> 12" "int r < days_of_months i 12 (int y)"
    and "dl_month_loop i (drop i (dl_month_days y)) m0 r = (m, r')"
  shows "m < 12 \<and> i \<le> m \<and> int r' < days_in_month m (int y) \<and>
     int r = int r' + days_of_months i m (int y)"
  using assms
proof (induction "12 - i" arbitrary: i r m0)
  case 0
  then show ?case by simp
next
  case (Suc n)
  then have i: "i < 12" by simp
  have len: "length (dl_month_days y) = 12" by (simp add: dl_month_days_def)
  have d: "drop i (dl_month_days y) = dl_month_days y ! i # drop (Suc i) (dl_month_days y)"
    using i len by (simp add: Cons_nth_drop_Suc)
  have di: "int (dl_month_days y ! i) = days_in_month i (int y)" by (rule dl_month_days_eq[OF i])
  have cons: "days_of_months i 12 (int y) = days_in_month i (int y) + days_of_months (Suc i) 12 (int y)"
    using i by (rule days_of_months_cons)
  show ?case
  proof (cases "r < dl_month_days y ! i")
    case True
    then show ?thesis using Suc.prems(3) d di i by auto
  next
    case False
    let ?r = "r - dl_month_days y ! i"
    have "int ?r < days_of_months (Suc i) 12 (int y)"
      using Suc.prems(2) cons di False by (simp add: of_nat_diff)
    with Suc.hyps Suc.prems(3) d i False have "m < 12 \<and> Suc i \<le> m \<and>
        int r' < days_in_month m (int y) \<and> int ?r = int r' + days_of_months (Suc i) m (int y)"
      by (intro Suc.hyps(1)[of "Suc i" ?r "if i = 11 then 11 else m0"]) auto
    moreover from this have "days_of_months i m (int y) =
        days_in_month i (int y) + days_of_months (Suc i) m (int y)"
      by (intro days_of_months_cons) simp
    ultimately show ?thesis using di False by (simp add: of_nat_diff)
  qed
qed

text \<open>
  The calendar of the directory listing agrees with the one of the HTTP dates: the year,
  month and day it computes for a day number are a valid date from 1970 on whose timestamp is the
  midnight of that day.
\<close>

theorem days_to_ymd_agrees:
  "\<exists>year month day. days_to_ymd days = (year, month, day) \<and> 1970 \<le> year \<and>
     1 \<le> month \<and> month \<le> 12 \<and> 1 \<le> day \<and> int day \<le> days_in_month (month - 1) (int year) \<and>
     date_to_epoch (int year) (month - 1) day 0 0 0 = int days * 86400"
proof -
  obtain r y where y: "dl_year_loop days 1970 = (r, y)" by fastforce
  obtain m r' where m: "dl_month_loop 0 (dl_month_days y) 0 r = (m, r')" by fastforce
  from dl_year_loop_spec[OF y] have ys: "1970 \<le> y" "r < dl_days_in_year y"
    "int days = int r + days_of_years 1970 (int y)" by auto
  have "int r < days_of_months 0 12 (int y)"
    using ys(2) dl_days_in_year_eq[of y] by (simp add: days_of_months_year)
  with dl_month_loop_spec[of 0 r y 0 m r'] m have ms: "m < 12"
    "int r' < days_in_month m (int y)" "int r = int r' + days_of_months 0 m (int y)" by auto
  have "days_in_month m (int y) < 2 ^ 32" by (simp add: days_in_month_def)
  with ms ys have "date_to_epoch (int y) m (r' + 1) 0 0 0 = int days * 86400"
    by (simp add: date_to_epoch_def Let_def)
  with y m ms ys show ?thesis by (simp add: days_to_ymd_def)
qed

lemma truncate_to_80_spec: "\<exists>k \<le> 80. truncate_to_80 s = take k s \<and> is_char_boundary s (min k (length s))"
proof (cases "length s \<le> 80")
  case True
  then show ?thesis
    by (intro exI[of _ 80]) (simp add: truncate_to_80_def is_char_boundary_def)
next
  case False
  then show ?thesis
    using floor_char_boundary_loop_le[of s 80]
    by (intro exI[of _ "floor_char_boundary_loop s 80"]) (simp add: truncate_to_80_def min_def)
qed

end
