(* ===== verification/Cgi_Env.thy ===== *)
theory Cgi_Env
  imports Rust_Prelude "HOL-Library.Sublist"
begin

text \<open>
  CGI execution of \<open>crates/thttpd-http/src/cgi.rs\<close>: the environment of a script and the command
  that is started. Starting a process is the argument \<open>spawn\<close>, which receives everything the
  source configures on \<open>std::process::Command\<close> and the bytes written to the script's input.
\<close>

record cgi_context =
  cx_server_software :: string
  cx_server_name :: string
  cx_gateway_interface :: string
  cx_server_protocol :: string
  cx_server_port :: nat
  cx_request_method :: string
  cx_script_name :: string
  cx_query_string :: string
  cx_remote_addr :: string
  cx_content_type :: "string option"
  cx_content_length :: "int option"
  cx_http_headers :: "string \<rightharpoonup> string"
  cx_path_info :: "string option"
  cx_path_translated :: "string option"
  cx_remote_user :: "string option"
  cx_auth_type :: "string option"

definition is_nph_script :: "string \<Rightarrow> bool" where
  "is_nph_script script_path \<longleftrightarrow>
     (case path_file_name script_path of Some name \<Rightarrow> starts_with ''nph-'' name | None \<Rightarrow> False)"

definition opt_var :: "string \<Rightarrow> string option \<Rightarrow> header_list" where
  "opt_var key v = (case v of Some x \<Rightarrow> [(key, x)] | None \<Rightarrow> [])"

definition fixed_order :: "string list" where
  "fixed_order = [''Referer'', ''User-Agent'', ''Accept'', ''Accept-Encoding'', ''Accept-Language'',
     ''Cookie'', ''Host'']"

definition http_var :: "string \<Rightarrow> string" where
  "http_var header = ''HTTP_'' @ map (\<lambda>c. if c = CHR ''-'' then CHR ''_'' else c) (map ascii_upper header)"

definition build_envp :: "cgi_context \<Rightarrow> string \<Rightarrow> string \<Rightarrow> header_list" where
  "build_envp ctx script_path cgi_pattern =
     [(''PATH'', ''/usr/local/bin:/usr/ucb:/bin:/usr/bin''),
      (''SERVER_SOFTWARE'', cx_server_software ctx),
      (''SERVER_NAME'', cx_server_name ctx),
      (''GATEWAY_INTERFACE'', cx_gateway_interface ctx),
      (''SERVER_PROTOCOL'', cx_server_protocol ctx),
      (''SERVER_PORT'', dec_nat (cx_server_port ctx)),
      (''REQUEST_METHOD'', cx_request_method ctx)]
     @ opt_var ''PATH_INFO'' (cx_path_info ctx)
     @ opt_var ''PATH_TRANSLATED'' (cx_path_translated ctx)
     @ [(''SCRIPT_NAME'', script_path)]
     @ (if cx_query_string ctx \<noteq> [] then [(''QUERY_STRING'', cx_query_string ctx)] else [])
     @ [(''REMOTE_ADDR'', cx_remote_addr ctx)]
     @ opt_var ''AUTH_TYPE'' (cx_auth_type ctx)
     @ opt_var ''REMOTE_USER'' (cx_remote_user ctx)
     @ concat (map (\<lambda>h. opt_var (http_var h) (cx_http_headers ctx h)) fixed_order)
     @ opt_var ''CONTENT_TYPE'' (cx_content_type ctx)
     @ opt_var ''CONTENT_LENGTH'' (map_option dec_int (cx_content_length ctx))
     @ [(''CGI_PATTERN'', cgi_pattern)]"

record cgi_command =
  cc_program :: string
  cc_current_dir :: "string option"
  cc_env :: header_list
  cc_stdin :: string

text \<open>\<open>None\<close> is an I/O error: the working directory is unknown, or the process does not start. The
  script's input is closed in any case, after the body if there is one.\<close>

definition execute_cgi :: "string option \<Rightarrow> (cgi_command \<Rightarrow> 'p option) \<Rightarrow> string \<Rightarrow> string option \<Rightarrow>
    header_list \<Rightarrow> string option \<Rightarrow> ('p \<times> bool) option" where
  "execute_cgi cwd spawn script_path working_dir env post_body =
     (let is_nph = is_nph_script (from_utf8_lossy script_path);
          executable = (if working_dir \<noteq> None \<and> \<not> path_is_absolute script_path
                        then map_option (\<lambda>d. path_join d script_path) cwd
                        else Some script_path)
      in case executable of
           None \<Rightarrow> None
         | Some program \<Rightarrow>
             map_option (\<lambda>child. (child, is_nph))
               (spawn \<lparr>cc_program = program, cc_current_dir = working_dir, cc_env = env,
                       cc_stdin = (case post_body of Some body \<Rightarrow> body | None \<Rightarrow> [])\<rparr>))"

section \<open>What a script can see\<close>

definition cgi_vars :: "string list" where
  "cgi_vars = [''PATH'', ''SERVER_SOFTWARE'', ''SERVER_NAME'', ''GATEWAY_INTERFACE'', ''SERVER_PROTOCOL'',
     ''SERVER_PORT'', ''REQUEST_METHOD'', ''PATH_INFO'', ''PATH_TRANSLATED'', ''SCRIPT_NAME'',
     ''QUERY_STRING'', ''REMOTE_ADDR'', ''AUTH_TYPE'', ''REMOTE_USER'', ''HTTP_REFERER'',
     ''HTTP_USER_AGENT'', ''HTTP_ACCEPT'', ''HTTP_ACCEPT_ENCODING'', ''HTTP_ACCEPT_LANGUAGE'',
     ''HTTP_COOKIE'', ''HTTP_HOST'', ''CONTENT_TYPE'', ''CONTENT_LENGTH'', ''CGI_PATTERN'']"

lemma http_var_fixed:
  "map http_var fixed_order = [''HTTP_REFERER'', ''HTTP_USER_AGENT'', ''HTTP_ACCEPT'',
     ''HTTP_ACCEPT_ENCODING'', ''HTTP_ACCEPT_LANGUAGE'', ''HTTP_COOKIE'', ''HTTP_HOST'']"
  by code_simp

lemma opt_var_keys: "map fst (opt_var k v) = (if v = None then [] else [k])"
  by (simp add: opt_var_def split: option.splits)

lemma opt_var_subseq: "subseq (map fst (opt_var k v)) [k]"
  by (simp add: opt_var_keys)

lemma headers_subseq: "subseq (map fst (concat (map (\<lambda>h. opt_var (g h) (m h)) hs))) (map g hs)"
proof (induction hs)
  case (Cons h hs)
  then show ?case using list_emb_append_mono[OF opt_var_subseq Cons, of "g h" "m h"] by simp
qed simp

lemma subseq_keeps:
  assumes "subseq xs ys" "distinct ys"
  shows "distinct xs \<and> set xs \<subseteq> set ys"
  using assms by (induction rule: list_emb.induct) auto

text \<open>
  The environment of a script has its variables in the fixed order of the legacy server, each
  at most once, and none but the fixed ones, whatever headers the request has: in particular a
  request header cannot set a variable such as HTTP\_PROXY.
\<close>

theorem build_envp_fixed:
  "subseq (map fst (build_envp ctx script_path cgi_pattern)) cgi_vars \<and>
   distinct (map fst (build_envp ctx script_path cgi_pattern)) \<and>
   ''HTTP_PROXY'' \<notin> set (map fst (build_envp ctx script_path cgi_pattern))"
proof -
  have "distinct cgi_vars" "''HTTP_PROXY'' \<notin> set cgi_vars" by code_simp+
  moreover have "subseq (map fst (build_envp ctx script_path cgi_pattern)) cgi_vars"
  proof -
    have vars: "cgi_vars = [''PATH'', ''SERVER_SOFTWARE'', ''SERVER_NAME'', ''GATEWAY_INTERFACE'',
        ''SERVER_PROTOCOL'', ''SERVER_PORT'', ''REQUEST_METHOD''] @ [''PATH_INFO''] @ [''PATH_TRANSLATED''] @
        [''SCRIPT_NAME''] @ [''QUERY_STRING''] @ [''REMOTE_ADDR''] @ [''AUTH_TYPE''] @ [''REMOTE_USER''] @
        map http_var fixed_order @ [''CONTENT_TYPE''] @ [''CONTENT_LENGTH''] @ [''CGI_PATTERN'']"
      by (simp add: cgi_vars_def http_var_fixed)
    show ?thesis
      unfolding vars build_envp_def map_append
      by (intro list_emb_append_mono opt_var_subseq headers_subseq) simp_all
  qed
  ultimately show ?thesis using subseq_keeps by blast
qed

end
