(* ===== verification/Server_Config.thy ===== *)
theory Server_Config
  imports Rust_Prelude
begin

text \<open>
  Command line and configuration file of \<open>crates/thttpd-core/src/config.rs\<close>: the rewriting of the
  legacy argument spellings, the order-sensitive toggles, the defaults, the legacy configuration
  file and the overriding by the command line. The parser of the clap crate is not modelled: its
  result is the record \<open>cli\<close>. Error messages are the constructors of \<open>config_error\<close>.
\<close>

section \<open>Legacy arguments\<close>

fun normalize_legacy_args :: "string list \<Rightarrow> string list" where
  "normalize_legacy_args [] = []"
| "normalize_legacy_args (arg # args) =
     (if arg = ''-h'' then
        ''--hostname'' # (case args of [] \<Rightarrow> [] | v # rest \<Rightarrow> v # normalize_legacy_args rest)
      else if arg = ''-dd'' then
        ''--data-dir'' # (case args of [] \<Rightarrow> [] | v # rest \<Rightarrow> v # normalize_legacy_args rest)
      else if arg = ''-nor'' then ''--nor'' # normalize_legacy_args args
      else if arg = ''-nov'' then ''--nov'' # normalize_legacy_args args
      else if arg = ''-g'' then ''--global-passwd'' # normalize_legacy_args args
      else if arg = ''-nog'' \<or> arg = ''-noP'' then ''--no-global-passwd'' # normalize_legacy_args args
      else if arg = ''-s'' then ''--symlinks'' # normalize_legacy_args args
      else if arg = ''-nos'' then ''--no-symlinks'' # normalize_legacy_args args
      else arg # normalize_legacy_args args)"

datatype legacy_toggle = TgChroot bool | TgSymlinkCheck bool | TgVhost bool | TgGlobalPasswd bool

definition value_flags :: "string list" where
  "value_flags = [''-p'', ''--port'', ''-d'', ''--dir'', ''--data-dir'', ''-u'', ''--user'', ''-l'', ''--log'',
     ''-c'', ''--cgipat'', ''-T'', ''--charset'', ''-P'', ''--p3p'', ''-M'', ''--maxage'', ''-C'', ''--config'',
     ''-t'', ''--throttle-file'', ''-H'', ''--hostname'', ''-i'', ''--pidfile'', ''--cgi-limit'']"

definition toggle_of :: "string \<Rightarrow> legacy_toggle option" where
  "toggle_of arg =
     (if arg = ''-r'' \<or> arg = ''--chroot'' then Some (TgChroot True)
      else if arg = ''--nor'' then Some (TgChroot False)
      else if arg = ''--symlinks'' then Some (TgSymlinkCheck True)
      else if arg = ''--no-symlinks'' then Some (TgSymlinkCheck False)
      else if arg = ''-v'' \<or> arg = ''--vhost'' then Some (TgVhost True)
      else if arg = ''--nov'' then Some (TgVhost False)
      else if arg = ''--global-passwd'' then Some (TgGlobalPasswd True)
      else if arg = ''--no-global-passwd'' then Some (TgGlobalPasswd False)
      else None)"

fun toggle_scan :: "bool \<Rightarrow> string list \<Rightarrow> legacy_toggle list" where
  "toggle_scan skip_next [] = []"
| "toggle_scan skip_next (arg # args) =
     (if skip_next then toggle_scan False args
      else case toggle_of arg of
             Some t \<Rightarrow> t # toggle_scan False args
           | None \<Rightarrow> toggle_scan (arg \<in> set value_flags) args)"

definition legacy_toggle_events :: "string list \<Rightarrow> legacy_toggle list" where
  "legacy_toggle_events args = toggle_scan False (drop 1 args)"

section \<open>The configuration\<close>

record server_config =
  sc_port :: nat
  sc_dir :: string
  sc_do_chroot :: bool
  sc_no_symlink_check :: bool
  sc_data_dir :: "string option"
  sc_user :: "string option"
  sc_logfile :: "string option"
  sc_cgi_pattern :: "string option"
  sc_cgi_limit :: "int option"
  sc_charset :: string
  sc_p3p :: "string option"
  sc_max_age :: int
  sc_vhost :: bool
  sc_global_passwd :: bool
  sc_url_pattern :: "string option"
  sc_local_pattern :: "string option"
  sc_no_empty_referers :: bool
  sc_hostname :: "string option"
  sc_throttle_file :: "string option"
  sc_pidfile :: "string option"
  sc_daemonize :: bool

definition server_config_default :: server_config where
  "server_config_default =
     \<lparr>sc_port = 80, sc_dir = ''.'', sc_do_chroot = False, sc_no_symlink_check = False,
      sc_data_dir = None, sc_user = None, sc_logfile = None, sc_cgi_pattern = None,
      sc_cgi_limit = None, sc_charset = ''iso-8859-1'', sc_p3p = None, sc_max_age = -1,
      sc_vhost = False, sc_global_passwd = True, sc_url_pattern = None, sc_local_pattern = None,
      sc_no_empty_referers = False, sc_hostname = None, sc_throttle_file = None,
      sc_pidfile = None, sc_daemonize = True\<rparr>"

fun apply_toggle :: "server_config \<Rightarrow> legacy_toggle \<Rightarrow> server_config" where
  "apply_toggle c (TgChroot True) = c\<lparr>sc_do_chroot := True, sc_no_symlink_check := True\<rparr>"
| "apply_toggle c (TgChroot False) = c\<lparr>sc_do_chroot := False, sc_no_symlink_check := False\<rparr>"
| "apply_toggle c (TgSymlinkCheck True) = c\<lparr>sc_no_symlink_check := False\<rparr>"
| "apply_toggle c (TgSymlinkCheck False) = c\<lparr>sc_no_symlink_check := True\<rparr>"
| "apply_toggle c (TgVhost enabled) = c\<lparr>sc_vhost := enabled\<rparr>"
| "apply_toggle c (TgGlobalPasswd enabled) = c\<lparr>sc_global_passwd := enabled\<rparr>"

definition apply_legacy_toggle_order :: "server_config \<Rightarrow> legacy_toggle list \<Rightarrow> server_config" where
  "apply_legacy_toggle_order config events = foldl apply_toggle config events"

record cli =
  cl_port :: "nat option"
  cl_dir :: "string option"
  cl_chroot :: bool
  cl_no_chroot :: bool
  cl_data_dir :: "string option"
  cl_symlinks :: bool
  cl_no_symlinks :: bool
  cl_user :: "string option"
  cl_logfile :: "string option"
  cl_cgipat :: "string option"
  cl_charset :: "string option"
  cl_p3p :: "string option"
  cl_max_age :: "int option"
  cl_no_vhost :: bool
  cl_vhost :: bool
  cl_global_passwd :: bool
  cl_no_global_passwd :: bool
  cl_config_file :: "string option"
  cl_debug :: bool
  cl_throttle_file :: "string option"
  cl_hostname :: "string option"
  cl_pidfile :: "string option"
  cl_cgi_limit :: "int option"
  cl_legacy_version :: bool

section \<open>The configuration file\<close>

datatype config_error =
  CfgValueRequired string | CfgNoValue string | CfgInvalidPort string | CfgInvalidInteger string
  | CfgUnknown string | CfgUnreadable string | CfgAtLine string nat config_error

definition with_value :: "string \<Rightarrow> string option \<Rightarrow> (string \<Rightarrow> config_error + server_config) \<Rightarrow>
    config_error + server_config" where
  "with_value name v k = (case v of None \<Rightarrow> Inl (CfgValueRequired name) | Some x \<Rightarrow> k x)"

definition without_value :: "string \<Rightarrow> string option \<Rightarrow> server_config \<Rightarrow> config_error + server_config" where
  "without_value name v c = (case v of Some _ \<Rightarrow> Inl (CfgNoValue name) | None \<Rightarrow> Inr c)"

definition apply_config_option ::
  "server_config \<Rightarrow> string \<Rightarrow> string option \<Rightarrow> config_error + server_config" where
  "apply_config_option c name v =
     (let key = to_ascii_lowercase name in
      if key = ''debug'' then without_value name v (c\<lparr>sc_daemonize := False\<rparr>)
      else if key = ''port'' then
        with_value name v (\<lambda>x. case parse_u16 x of
                                None \<Rightarrow> Inl (CfgInvalidPort name) | Some p \<Rightarrow> Inr (c\<lparr>sc_port := p\<rparr>))
      else if key = ''dir'' then with_value name v (\<lambda>x. Inr (c\<lparr>sc_dir := x\<rparr>))
      else if key = ''chroot'' then
        without_value name v (c\<lparr>sc_do_chroot := True, sc_no_symlink_check := True\<rparr>)
      else if key = ''nochroot'' then
        without_value name v (c\<lparr>sc_do_chroot := False, sc_no_symlink_check := False\<rparr>)
      else if key = ''data_dir'' then with_value name v (\<lambda>x. Inr (c\<lparr>sc_data_dir := Some x\<rparr>))
      else if key = ''symlink'' \<or> key = ''symlinks'' then
        without_value name v (c\<lparr>sc_no_symlink_check := False\<rparr>)
      else if key = ''nosymlink'' \<or> key = ''nosymlinks'' then
        without_value name v (c\<lparr>sc_no_symlink_check := True\<rparr>)
      else if key = ''user'' then with_value name v (\<lambda>x. Inr (c\<lparr>sc_user := Some x\<rparr>))
      else if key = ''cgipat'' then with_value name v (\<lambda>x. Inr (c\<lparr>sc_cgi_pattern := Some x\<rparr>))
      else if key = ''cgilimit'' then
        with_value name v (\<lambda>x. case parse_i32 x of
                                None \<Rightarrow> Inl (CfgInvalidInteger name)
                              | Some n \<Rightarrow> Inr (c\<lparr>sc_cgi_limit := Some n\<rparr>))
      else if key = ''urlpat'' then with_value name v (\<lambda>x. Inr (c\<lparr>sc_url_pattern := Some x\<rparr>))
      else if key = ''noemptyreferers'' then without_value name v (c\<lparr>sc_no_empty_referers := True\<rparr>)
      else if key = ''localpat'' then with_value name v (\<lambda>x. Inr (c\<lparr>sc_local_pattern := Some x\<rparr>))
      else if key = ''throttles'' then with_value name v (\<lambda>x. Inr (c\<lparr>sc_throttle_file := Some x\<rparr>))
      else if key = ''host'' then with_value name v (\<lambda>x. Inr (c\<lparr>sc_hostname := Some x\<rparr>))
      else if key = ''logfile'' then with_value name v (\<lambda>x. Inr (c\<lparr>sc_logfile := Some x\<rparr>))
      else if key = ''vhost'' then without_value name v (c\<lparr>sc_vhost := True\<rparr>)
      else if key = ''novhost'' then without_value name v (c\<lparr>sc_vhost := False\<rparr>)
      else if key = ''globalpasswd'' then without_value name v (c\<lparr>sc_global_passwd := True\<rparr>)
      else if key = ''noglobalpasswd'' then without_value name v (c\<lparr>sc_global_passwd := False\<rparr>)
      else if key = ''pidfile'' then with_value name v (\<lambda>x. Inr (c\<lparr>sc_pidfile := Some x\<rparr>))
      else if key = ''charset'' then with_value name v (\<lambda>x. Inr (c\<lparr>sc_charset := x\<rparr>))
      else if key = ''p3p'' then with_value name v (\<lambda>x. Inr (c\<lparr>sc_p3p := Some x\<rparr>))
      else if key = ''max_age'' then
        with_value name v (\<lambda>x. case parse_i32 x of
                                None \<Rightarrow> Inl (CfgInvalidInteger name)
                              | Some n \<Rightarrow> Inr (c\<lparr>sc_max_age := n\<rparr>))
      else Inl (CfgUnknown name))"

definition split_option :: "string \<Rightarrow> string \<times> string option" where
  "split_option opt =
     (case split_once (CHR ''='') opt of Some (name, v) \<Rightarrow> (name, Some v) | None \<Rightarrow> (opt, None))"

fun apply_options :: "string \<Rightarrow> nat \<Rightarrow> server_config \<Rightarrow> string list \<Rightarrow> config_error + server_config" where
  "apply_options path line_no c [] = Inr c"
| "apply_options path line_no c (opt # opts) =
     (case split_option opt of
        (name, v) \<Rightarrow>
          (case apply_config_option c name v of
             Inl e \<Rightarrow> Inl (CfgAtLine path line_no e)
           | Inr c' \<Rightarrow> apply_options path line_no c' opts))"

definition line_options :: "string \<Rightarrow> string list" where
  "line_options raw_line = split_whitespace (hd (split_byte (CHR ''#'') raw_line))"

fun apply_lines :: "string \<Rightarrow> nat \<Rightarrow> server_config \<Rightarrow> string list \<Rightarrow> config_error + server_config" where
  "apply_lines path line_no c [] = Inr c"
| "apply_lines path line_no c (l # ls) =
     (case apply_options path line_no c (line_options l) of
        Inl e \<Rightarrow> Inl e
      | Inr c' \<Rightarrow> apply_lines path (Suc line_no) c' ls)"

definition apply_config_file ::
  "(string \<Rightarrow> string option) \<Rightarrow> server_config \<Rightarrow> string \<Rightarrow> config_error + server_config" where
  "apply_config_file fs_read c path =
     (case fs_read path of
        None \<Rightarrow> Inl (CfgUnreadable path)
      | Some contents \<Rightarrow> apply_lines path 1 c (lines_of contents))"

section \<open>Overriding by the command line\<close>

definition set_opt :: "'a option \<Rightarrow> ('a \<Rightarrow> 'b \<Rightarrow> 'b) \<Rightarrow> 'b \<Rightarrow> 'b" where
  "set_opt v upd c = (case v of Some x \<Rightarrow> upd x c | None \<Rightarrow> c)"

definition set_if :: "bool \<Rightarrow> ('b \<Rightarrow> 'b) \<Rightarrow> 'b \<Rightarrow> 'b" where
  "set_if b upd c = (if b then upd c else c)"

definition apply_cli :: "cli \<Rightarrow> server_config \<Rightarrow> server_config" where
  "apply_cli a c =
     (let c = set_opt (cl_port a) (\<lambda>x c. c\<lparr>sc_port := x\<rparr>) c;
          c = set_opt (cl_dir a) (\<lambda>x c. c\<lparr>sc_dir := x\<rparr>) c;
          c = set_if (cl_chroot a) (\<lambda>c. c\<lparr>sc_do_chroot := True, sc_no_symlink_check := True\<rparr>) c;
          c = set_if (cl_no_chroot a) (\<lambda>c. c\<lparr>sc_do_chroot := False, sc_no_symlink_check := False\<rparr>) c;
          c = set_opt (cl_data_dir a) (\<lambda>x c. c\<lparr>sc_data_dir := Some x\<rparr>) c;
          c = set_if (cl_symlinks a) (\<lambda>c. c\<lparr>sc_no_symlink_check := False\<rparr>) c;
          c = set_if (cl_no_symlinks a) (\<lambda>c. c\<lparr>sc_no_symlink_check := True\<rparr>) c;
          c = set_opt (cl_user a) (\<lambda>x c. c\<lparr>sc_user := Some x\<rparr>) c;
          c = set_opt (cl_logfile a) (\<lambda>x c. c\<lparr>sc_logfile := Some x\<rparr>) c;
          c = set_opt (cl_cgipat a) (\<lambda>x c. c\<lparr>sc_cgi_pattern := Some x\<rparr>) c;
          c = set_opt (cl_cgi_limit a) (\<lambda>x c. c\<lparr>sc_cgi_limit := Some x\<rparr>) c;
          c = set_opt (cl_charset a) (\<lambda>x c. c\<lparr>sc_charset := x\<rparr>) c;
          c = set_opt (cl_p3p a) (\<lambda>x c. c\<lparr>sc_p3p := Some x\<rparr>) c;
          c = set_opt (cl_max_age a) (\<lambda>x c. c\<lparr>sc_max_age := x\<rparr>) c;
          c = set_if (cl_vhost a) (\<lambda>c. c\<lparr>sc_vhost := True\<rparr>) c;
          c = set_if (cl_no_vhost a) (\<lambda>c. c\<lparr>sc_vhost := False\<rparr>) c;
          c = set_if (cl_global_passwd a) (\<lambda>c. c\<lparr>sc_global_passwd := True\<rparr>) c;
          c = set_if (cl_no_global_passwd a) (\<lambda>c. c\<lparr>sc_global_passwd := False\<rparr>) c;
          c = set_opt (cl_hostname a) (\<lambda>x c. c\<lparr>sc_hostname := Some x\<rparr>) c;
          c = set_opt (cl_throttle_file a) (\<lambda>x c. c\<lparr>sc_throttle_file := Some x\<rparr>) c;
          c = set_opt (cl_pidfile a) (\<lambda>x c. c\<lparr>sc_pidfile := Some x\<rparr>) c
      in set_if (cl_debug a) (\<lambda>c. c\<lparr>sc_daemonize := False\<rparr>) c)"

definition from_cli :: "(string \<Rightarrow> string option) \<Rightarrow> cli \<Rightarrow> config_error + server_config" where
  "from_cli fs_read a =
     (case cl_config_file a of
        None \<Rightarrow> Inr (apply_cli a server_config_default)
      | Some path \<Rightarrow>
          (case apply_config_file fs_read server_config_default path of
             Inl e \<Rightarrow> Inl e
           | Inr c \<Rightarrow> Inr (apply_cli a c)))"

section \<open>The order of the toggles decides\<close>

fun skips_symlink_check :: "legacy_toggle \<Rightarrow> bool option" where
  "skips_symlink_check (TgChroot b) = Some b"
| "skips_symlink_check (TgSymlinkCheck b) = Some (\<not> b)"
| "skips_symlink_check _ = None"

fun chroots :: "legacy_toggle \<Rightarrow> bool option" where
  "chroots (TgChroot b) = Some b"
| "chroots _ = None"

text \<open>The last entry of a list of decisions, or the default.\<close>

definition last_decision :: "('a \<Rightarrow> bool option) \<Rightarrow> bool \<Rightarrow> 'a list \<Rightarrow> bool" where
  "last_decision f dflt xs =
     (let ds = List.map_filter f xs in if ds = [] then dflt else last ds)"

lemma last_decision_simps [simp]:
  "last_decision f d [] = d"
  "last_decision f d (x # xs) = last_decision f (case f x of Some b \<Rightarrow> b | None \<Rightarrow> d) xs"
  by (auto simp: last_decision_def Let_def List.map_filter_simps split: option.splits)

lemma apply_toggle_fields:
  "sc_do_chroot (apply_toggle c t) = (case chroots t of Some b \<Rightarrow> b | None \<Rightarrow> sc_do_chroot c)"
  "sc_no_symlink_check (apply_toggle c t) =
     (case skips_symlink_check t of Some b \<Rightarrow> b | None \<Rightarrow> sc_no_symlink_check c)"
  by (induction c t rule: apply_toggle.induct) simp_all

lemma toggle_chroot: "sc_do_chroot (apply_legacy_toggle_order c events) =
    last_decision chroots (sc_do_chroot c) events"
  unfolding apply_legacy_toggle_order_def
  by (induction events arbitrary: c) (simp_all add: apply_toggle_fields)

lemma toggle_symlink: "sc_no_symlink_check (apply_legacy_toggle_order c events) =
    last_decision skips_symlink_check (sc_no_symlink_check c) events"
  unfolding apply_legacy_toggle_order_def
  by (induction events arbitrary: c) (simp_all add: apply_toggle_fields)

lemma toggle_scan_value:
  assumes "flag \<in> set value_flags"
  shows "toggle_scan False (flag # v # args) = toggle_scan False args"
proof -
  have "list_all (\<lambda>f. toggle_of f = None) value_flags" by code_simp
  with assms show ?thesis by (simp add: list_all_iff)
qed

text \<open>What the legacy spellings mean.\<close>

definition legacy_chroot :: "string \<Rightarrow> bool option" where
  "legacy_chroot flag = (if flag = ''-r'' then Some True else if flag = ''-nor'' then Some False else None)"

definition legacy_skip_check :: "string \<Rightarrow> bool option" where
  "legacy_skip_check flag =
     (if flag = ''-r'' \<or> flag = ''-nos'' then Some True
      else if flag = ''-nor'' \<or> flag = ''-s'' then Some False else None)"

definition legacy_flags :: "string list" where
  "legacy_flags = [''-r'', ''-nor'', ''-s'', ''-nos'', ''-v'', ''-nov'', ''-g'', ''-nog'', ''-noP'']"

lemma legacy_flag_events:
  assumes "flag \<in> set legacy_flags"
  shows "\<exists>t. toggle_scan False (normalize_legacy_args (flag # args)) =
      t # toggle_scan False (normalize_legacy_args args) \<and>
    chroots t = legacy_chroot flag \<and> skips_symlink_check t = legacy_skip_check flag"
proof -
  have "flag = ''-r'' \<or> flag = ''-nor'' \<or> flag = ''-s'' \<or> flag = ''-nos'' \<or> flag = ''-v'' \<or>
      flag = ''-nov'' \<or> flag = ''-g'' \<or> flag = ''-nog'' \<or> flag = ''-noP''"
    using assms by (simp add: legacy_flags_def)
  then show ?thesis
    by (elim disjE) (simp_all add: toggle_of_def legacy_chroot_def legacy_skip_check_def)
qed

text \<open>
  On the command line the order of the legacy toggles decides, through the rewriting of the
  arguments and the extraction of the toggle events: the server changes its root iff the last of
  the -r and -nor arguments says so, and it skips the symbolic-link check iff the last of the -r,
  -nor, -s and -nos arguments says so; with none of them the configuration file decides.
\<close>

theorem legacy_toggles_last_wins:
  assumes "set flags \<subseteq> set legacy_flags" "c' = apply_legacy_toggle_order c
      (legacy_toggle_events (normalize_legacy_args (''thttpd'' # flags)))"
  shows "sc_do_chroot c' = last_decision legacy_chroot (sc_do_chroot c) flags \<and>
    sc_no_symlink_check c' = last_decision legacy_skip_check (sc_no_symlink_check c) flags"
proof -
  have "last_decision chroots d (toggle_scan False (normalize_legacy_args flags)) =
        last_decision legacy_chroot d flags \<and>
      last_decision skips_symlink_check d (toggle_scan False (normalize_legacy_args flags)) =
        last_decision legacy_skip_check d flags" for d
    using assms(1)
  proof (induction flags arbitrary: d)
    case (Cons f fs)
    then obtain t where "toggle_scan False (normalize_legacy_args (f # fs)) =
        t # toggle_scan False (normalize_legacy_args fs)" "chroots t = legacy_chroot f"
        "skips_symlink_check t = legacy_skip_check f"
      using legacy_flag_events[of f fs] by auto
    with Cons show ?case by simp
  qed simp
  then show ?thesis
    by (simp add: assms(2) toggle_chroot toggle_symlink legacy_toggle_events_def)
qed

theorem legacy_toggles_last_wins_witness:
  "sc_no_symlink_check (apply_legacy_toggle_order server_config_default
     (legacy_toggle_events (normalize_legacy_args [''thttpd'', ''-nos'', ''-r'', ''-s'']))) = False \<and>
   sc_do_chroot (apply_legacy_toggle_order server_config_default
     (legacy_toggle_events (normalize_legacy_args [''thttpd'', ''-nos'', ''-r'', ''-s'']))) = True"
  using legacy_toggles_last_wins[of "[''-nos'', ''-r'', ''-s'']" _ server_config_default, OF _ refl]
  by (simp add: legacy_flags_def legacy_chroot_def legacy_skip_check_def)

end
