(* ===== verification/Access_Log.thy ===== *)
theory Access_Log
  imports Http_Date Server_Config
begin

text \<open>
  The access log of \<open>crates/thttpd-core/src/logging.rs\<close>: its targets, the reopening at SIGHUP, the
  remapping of its path after a change of root, and the lines in combined log format. A log file is
  its path and descriptor; opening a file and setting its owner and mode are arguments, and so is
  the broken-down local time that libc gives.
\<close>

section \<open>Targets\<close>

datatype log_target = LogSyslog | LogStdout | LogFile string nat | LogDisabled

record log_entry =
  le_remote_addr :: string
  le_remote_user :: string
  le_method :: string
  le_url :: string
  le_protocol :: string
  le_status :: nat
  le_bytes_sent :: int
  le_referer :: string
  le_user_agent :: string

text \<open>\<open>lookup_user\<close>: an error of the user database is \<open>None\<close>, an unknown user is \<open>Some None\<close>.\<close>

definition configured_owner :: "(string \<Rightarrow> (nat \<times> nat) option option) \<Rightarrow> server_config \<Rightarrow>
    (nat \<times> nat) option option" where
  "configured_owner lookup_user c =
     (case sc_user c of
        None \<Rightarrow> Some None
      | Some username \<Rightarrow>
          (case lookup_user username of
             Some (Some owner) \<Rightarrow> Some (Some owner)
           | _ \<Rightarrow> None))"

definition configure_logfile :: "(nat \<Rightarrow> bool) \<Rightarrow> (nat \<Rightarrow> nat \<times> nat \<Rightarrow> bool) \<Rightarrow> bool \<Rightarrow>
    (string \<Rightarrow> (nat \<times> nat) option option) \<Rightarrow> nat \<Rightarrow> server_config \<Rightarrow> bool" where
  "configure_logfile set_mode_600 fchown is_root lookup_user fd c \<longleftrightarrow>
     set_mode_600 fd \<and>
     (is_root \<longrightarrow>
        (case configured_owner lookup_user c of
           None \<Rightarrow> False
         | Some None \<Rightarrow> True
         | Some (Some owner) \<Rightarrow> fchown fd owner))"

definition log_open :: "(string \<Rightarrow> nat option) \<Rightarrow> (nat \<Rightarrow> server_config \<Rightarrow> bool) \<Rightarrow> server_config \<Rightarrow>
    log_target option" where
  "log_open open_append configure c =
     (case sc_logfile c of
        None \<Rightarrow> Some LogSyslog
      | Some path \<Rightarrow>
          if path_eq path ''-'' then Some LogStdout
          else if path_eq path ''/dev/null'' then Some LogDisabled
          else (case open_append path of
                  None \<Rightarrow> None
                | Some fd \<Rightarrow> if configure fd c then Some (LogFile path fd) else None))"

definition path_after_chroot :: "string \<Rightarrow> string \<Rightarrow> string option" where
  "path_after_chroot path jail_dir =
     (if \<not> path_is_absolute path then None
      else case path_strip_prefix path jail_dir of
             None \<Rightarrow> None
           | Some suffix \<Rightarrow> if suffix = [] then Some ''/'' else Some (path_join ''/'' suffix))"

fun remap_after_chroot :: "log_target \<Rightarrow> string \<Rightarrow> log_target" where
  "remap_after_chroot (LogFile path fd) jail_dir =
     (case path_after_chroot path jail_dir of
        Some in_jail_path \<Rightarrow> LogFile in_jail_path fd
      | None \<Rightarrow> LogFile path fd)"
| "remap_after_chroot t jail_dir = t"

definition is_file_backed :: "log_target \<Rightarrow> bool" where
  "is_file_backed t \<longleftrightarrow> (case t of LogFile _ _ \<Rightarrow> True | _ \<Rightarrow> False)"

definition is_stdout :: "log_target \<Rightarrow> bool" where
  "is_stdout t \<longleftrightarrow> t = LogStdout"

text \<open>The new target and whether reopening succeeded; on failure the old descriptor stays.\<close>

fun log_reopen :: "(string \<Rightarrow> nat option) \<Rightarrow> log_target \<Rightarrow> log_target \<times> bool" where
  "log_reopen open_append (LogFile path fd) =
     (case open_append path of
        Some fd' \<Rightarrow> (LogFile path fd', True)
      | None \<Rightarrow> (LogFile path fd, False))"
| "log_reopen open_append t = (t, True)"

section \<open>Lines\<close>

function truncate_chars :: "string \<Rightarrow> nat \<Rightarrow> string" where
  "truncate_chars s n =
     (if n = 0 \<or> s = [] then []
      else take (snd (utf8_step s)) s @ truncate_chars (drop (snd (utf8_step s)) s) (n - 1))"
  by pat_completeness auto
termination
  by (relation "measure snd") auto

declare truncate_chars.simps [simp del]

record local_time =
  lt_mday :: nat
  lt_mon :: nat
  lt_year :: int
  lt_hour :: nat
  lt_min :: nat
  lt_sec :: nat
  lt_gmtoff :: int

definition cern_localtime :: "local_time \<Rightarrow> string" where
  "cern_localtime t =
     (let zone = div_trunc (lt_gmtoff t) 60;
          z = nat \<bar>zone\<bar>;
          hhmm = z div 60 * 100 + z mod 60
      in two_digits (lt_mday t) @ ''/'' @ month_names ! min (lt_mon t) 11 @ ''/'' @
         pad_left (CHR ''0'') 4 (dec_int (lt_year t + 1900)) @ '':'' @ two_digits (lt_hour t) @ '':'' @
         two_digits (lt_min t) @ '':'' @ two_digits (lt_sec t) @ '' '' @
         (if 0 \<le> zone then ''+'' else ''-'') @ pad_left (CHR ''0'') 4 (dec_nat hhmm))"

definition format_cern_line :: "local_time \<Rightarrow> log_entry \<Rightarrow> string" where
  "format_cern_line now e =
     truncate_chars (le_remote_addr e) 80 @ '' - '' @
     truncate_chars (if le_remote_user e = [] then ''-'' else le_remote_user e) 80 @ '' ['' @
     cern_localtime now @ ''] '' @ [DQUOTE] @ truncate_chars (le_method e) 80 @ '' '' @
     truncate_chars (le_url e) 300 @ '' '' @ truncate_chars (le_protocol e) 80 @ [DQUOTE] @ '' '' @
     dec_nat (le_status e) @ '' '' @
     (if 0 \<le> le_bytes_sent e then dec_int (le_bytes_sent e) else ''-'') @ '' '' @
     [DQUOTE] @ truncate_chars (le_referer e) 200 @ [DQUOTE] @ '' '' @
     [DQUOTE] @ truncate_chars (le_user_agent e) 200 @ [DQUOTE] @ [LF]"

datatype log_write = ToFile nat string | ToStdout string

definition log_request :: "local_time \<Rightarrow> log_target \<Rightarrow> log_entry \<Rightarrow> log_write option" where
  "log_request now t e =
     (case t of
        LogFile _ fd \<Rightarrow> Some (ToFile fd (format_cern_line now e))
      | LogStdout \<Rightarrow> Some (ToStdout (format_cern_line now e))
      | LogSyslog \<Rightarrow> None
      | LogDisabled \<Rightarrow> None)"

section \<open>One request, one line\<close>

lemma set_truncate_chars: "set (truncate_chars s n) \<subseteq> set s"
proof (induction s n rule: truncate_chars.induct)
  case (1 s n)
  show ?case
    using 1 by (subst truncate_chars.simps) (auto dest: in_set_takeD in_set_dropD)
qed

lemma utf8_step_le_4: "snd (utf8_step s) \<le> 4"
  by (simp add: utf8_step_def Let_def)

lemma length_truncate_chars: "length (truncate_chars s n) \<le> 4 * n"
proof (induction s n rule: truncate_chars.induct)
  case (1 s n)
  show ?case
  proof (cases "n = 0 \<or> s = []")
    case True
    then show ?thesis by (simp add: truncate_chars.simps)
  next
    case False
    then have "length (truncate_chars (drop (snd (utf8_step s)) s) (n - 1)) \<le> 4 * (n - 1)"
      using 1 by blast
    with False utf8_step_le_4[of s] show ?thesis by (subst truncate_chars.simps) auto
  qed
qed

lemma digits_no_LF: "LF \<notin> set (dec_nat n)" "LF \<notin> set (dec_int i)"
  "LF \<notin> set (pad_left (CHR ''0'') w (dec_nat n))" "LF \<notin> set (two_digits n)"
  "LF \<notin> set (pad_left (CHR ''0'') w (dec_int i))"
proof -
  have n: "LF \<notin> set (dec_nat m)" for m
    using dec_nat_digits[of m] by (auto simp: list_all_iff is_ascii_digit_def byte_val_def)
  then show "LF \<notin> set (dec_nat n)" "LF \<notin> set (dec_int i)"
    "LF \<notin> set (pad_left (CHR ''0'') w (dec_nat n))" "LF \<notin> set (two_digits n)"
    "LF \<notin> set (pad_left (CHR ''0'') w (dec_int i))"
    by (auto simp: dec_int_def pad_left_def two_digits_def)
qed

lemma cern_localtime_no_LF: "LF \<notin> set (cern_localtime t)"
proof -
  have "list_all is_graph (month_names ! min (lt_mon t) 11)" using graph_names(1) by simp
  then have "LF \<notin> set (month_names ! min (lt_mon t) 11)"
    by (auto simp: list_all_iff is_graph_def byte_val_def)
  then show ?thesis by (simp add: cern_localtime_def Let_def digits_no_LF)
qed

text \<open>
  One request makes one line of the access log: when no field contains a line feed, the only
  line feed of the record is its last byte, whatever the other bytes; and the three fields that a
  client controls at length are capped, at four bytes for each of the 300, 200 and 200 characters.
\<close>

theorem log_line_is_one_line:
  assumes "LF \<notin> set (le_remote_addr e @ le_remote_user e @ le_method e @ le_url e @
      le_protocol e @ le_referer e @ le_user_agent e)"
  shows "\<exists>l. format_cern_line now e = l @ [LF] \<and> LF \<notin> set l \<and>
    length (truncate_chars (le_url e) 300) \<le> 1200 \<and>
    length (truncate_chars (le_referer e) 200) \<le> 800 \<and>
    length (truncate_chars (le_user_agent e) 200) \<le> 800"
proof -
  have "LF \<notin> set s \<Longrightarrow> LF \<notin> set (truncate_chars s n)" for s n using set_truncate_chars by blast
  moreover have "LF \<notin> set ''-''" by simp
  ultimately show ?thesis
    using assms length_truncate_chars[of "le_url e" 300] length_truncate_chars[of "le_referer e" 200]
      length_truncate_chars[of "le_user_agent e" 200] digits_no_LF cern_localtime_no_LF
    unfolding format_cern_line_def append_assoc[symmetric]
    by (intro exI conjI) (rule refl, simp_all)
qed

theorem log_line_is_one_line_witness:
  "\<exists>l. format_cern_line \<lparr>lt_mday = 3, lt_mon = 9, lt_year = 114, lt_hour = 1, lt_min = 2, lt_sec = 3,
          lt_gmtoff = -3600\<rparr>
        \<lparr>le_remote_addr = ''10.0.0.1'', le_remote_user = [], le_method = ''GET'', le_url = ''/a'',
         le_protocol = ''HTTP/1.0'', le_status = 200, le_bytes_sent = 5, le_referer = [],
         le_user_agent = ''curl''\<rparr> = l @ [LF] \<and> LF \<notin> set l"
  using log_line_is_one_line[of "\<lparr>le_remote_addr = ''10.0.0.1'', le_remote_user = [],
      le_method = ''GET'', le_url = ''/a'', le_protocol = ''HTTP/1.0'', le_status = 200,
      le_bytes_sent = 5, le_referer = [], le_user_agent = ''curl''\<rparr>"]
  by auto

end
