(* ===== verification/Daemon.thy ===== *)
theory Daemon
  imports Rust_Prelude
begin

text \<open>
  \<open>daemonize\<close>, \<open>daemonize_with_handshake\<close> and \<open>DaemonHandshake\<close> of
  \<open>crates/thttpd-core/src/startup.rs\<close>. A fork returns in two processes: a definition here is what
  one process does, and the record \<open>daemon_env\<close> has what each call returns in it, the results of
  the forks included. So the process that was started, the one in the middle and the daemon are the
  same function at three environments (\<open>in_process\<close>). The processes running side by side, and the
  pipe between them, are in the theory Launch.
\<close>

section \<open>Calls and results\<close>

datatype fork_result = ForkParent | ForkChild

datatype daemon_call =
  DPipe | DFork | DDropWrite | DRead | DDropRead | DSetsid | DOpenNull | DDupStdin | DDupStdout | DDupStderr

text \<open>An error is the text of the errno; a read gives the bytes it got, none at the end of the pipe.\<close>

record daemon_env =
  de_pipe :: "string + unit"
  de_fork1 :: "string + fork_result"
  de_read :: "string + 8 word list"
  de_setsid :: "string + unit"
  de_fork2 :: "string + fork_result"
  de_null :: "string + unit"
  de_dup_in :: "string + unit"
  de_dup_out :: "string + unit"
  de_dup_err :: "string + unit"

datatype 'a proc_result = Returns 'a | Proc_exit int

type_synonym 'a proc = "daemon_call list \<times> (string + 'a) proc_result"

text \<open>A call with \<open>map_err(|e| format!("label: {e}"))?\<close>.\<close>

definition try_call :: "daemon_call \<Rightarrow> string \<Rightarrow> string + 'a \<Rightarrow> ('a \<Rightarrow> 'b proc) \<Rightarrow> 'b proc" where
  "try_call c label r k =
     (case r of
        Inl e \<Rightarrow> ([c], Returns (Inl (label @ '': '' @ e)))
      | Inr a \<Rightarrow> (case k a of (t, x) \<Rightarrow> (c # t, x)))"

definition after_call :: "daemon_call \<Rightarrow> 'b proc \<Rightarrow> 'b proc" where
  "after_call c m = (case m of (t, x) \<Rightarrow> (c # t, x))"

section \<open>The handshake\<close>

text \<open>
  \<open>write_fd\<close> is the write end of the pipe; an operation returns the bytes that got into it. A failed
  write is ignored by the source.
\<close>

record daemon_handshake =
  dh_reported :: bool

definition handshake_new :: daemon_handshake where
  "handshake_new = \<lparr>dh_reported = False\<rparr>"

definition report :: "bool \<Rightarrow> 8 word \<Rightarrow> daemon_handshake \<Rightarrow> 8 word list \<times> daemon_handshake" where
  "report write_ok code hs =
     (if \<not> dh_reported hs then (if write_ok then [code] else [], hs\<lparr>dh_reported := True\<rparr>)
      else ([], hs))"

definition report_success :: "bool \<Rightarrow> daemon_handshake \<Rightarrow> 8 word list \<times> daemon_handshake" where
  "report_success write_ok hs = report write_ok 0 hs"

definition handshake_drop :: "bool \<Rightarrow> daemon_handshake \<Rightarrow> 8 word list" where
  "handshake_drop write_ok hs = (if \<not> dh_reported hs \<and> write_ok then [1] else [])"

section \<open>Detaching\<close>

definition reopen_stdio :: "daemon_env \<Rightarrow> bool \<Rightarrow> 'a \<Rightarrow> 'a proc" where
  "reopen_stdio d keep_stdout x =
     try_call DOpenNull ''opening /dev/null'' (de_null d) (\<lambda>_.
     try_call DDupStdin ''dup2 stdin'' (de_dup_in d) (\<lambda>_.
     (let stderr = try_call DDupStderr ''dup2 stderr'' (de_dup_err d) (\<lambda>_. ([], Returns (Inr x)))
      in if \<not> keep_stdout
         then try_call DDupStdout ''dup2 stdout'' (de_dup_out d) (\<lambda>_. stderr)
         else stderr)))"

definition daemonize :: "daemon_env \<Rightarrow> bool \<Rightarrow> unit proc" where
  "daemonize d keep_stdout =
     try_call DFork ''first fork'' (de_fork1 d) (\<lambda>f.
     (case f of
        ForkParent \<Rightarrow> ([], Proc_exit 0)
      | ForkChild \<Rightarrow>
          try_call DSetsid ''setsid'' (de_setsid d) (\<lambda>_.
          try_call DFork ''second fork'' (de_fork2 d) (\<lambda>g.
          (case g of
             ForkParent \<Rightarrow> ([], Proc_exit 0)
           | ForkChild \<Rightarrow> reopen_stdio d keep_stdout ())))))"

definition launcher_status :: "string + 8 word list \<Rightarrow> int" where
  "launcher_status r = (case r of Inr [b] \<Rightarrow> uint b | _ \<Rightarrow> 1)"

definition daemonize_with_handshake :: "daemon_env \<Rightarrow> bool \<Rightarrow> daemon_handshake proc" where
  "daemonize_with_handshake d keep_stdout =
     try_call DPipe ''pipe'' (de_pipe d) (\<lambda>_.
     try_call DFork ''first fork'' (de_fork1 d) (\<lambda>f.
     (case f of
        ForkParent \<Rightarrow>
          after_call DDropWrite (after_call DRead ([], Proc_exit (launcher_status (de_read d))))
      | ForkChild \<Rightarrow>
          after_call DDropRead
            (try_call DSetsid ''setsid'' (de_setsid d) (\<lambda>_.
             try_call DFork ''second fork'' (de_fork2 d) (\<lambda>g.
             (case g of
                ForkParent \<Rightarrow> ([], Proc_exit 0)
              | ForkChild \<Rightarrow> reopen_stdio d keep_stdout handshake_new)))))))"

text \<open>The environment as the process sees it whose forks return these results, if they succeed.\<close>

definition in_process :: "fork_result \<Rightarrow> fork_result \<Rightarrow> daemon_env \<Rightarrow> daemon_env" where
  "in_process f g d =
     d\<lparr>de_fork1 := map_sum id (\<lambda>_. f) (de_fork1 d), de_fork2 := map_sum id (\<lambda>_. g) (de_fork2 d)\<rparr>"

section \<open>Lemmas\<close>

named_theorems daemon_defs \<open>unfolding of the calls that detach\<close>

lemmas daemon_call_defs [daemon_defs] =
  daemonize_with_handshake_def daemonize_def reopen_stdio_def try_call_def after_call_def

text \<open>What any calls of \<open>report\<close> and then the drop put into the pipe: one byte, that of the first call.\<close>

fun run_reports :: "8 word list \<Rightarrow> daemon_handshake \<Rightarrow> 8 word list" where
  "run_reports [] hs = handshake_drop True hs"
| "run_reports (c # cs) hs = (case report True c hs of (out, hs') \<Rightarrow> out @ run_reports cs hs')"

lemma run_reports_done: "dh_reported hs \<Longrightarrow> run_reports cs hs = []"
  by (induction cs) (simp_all add: report_def handshake_drop_def)

lemma run_reports_first:
  "run_reports cs handshake_new = [case cs of [] \<Rightarrow> 1 | c # _ \<Rightarrow> c]"
  by (cases cs) (simp_all add: report_def handshake_drop_def handshake_new_def run_reports_done)

text \<open>
  Standard output is given up exactly when the log does not go there; standard input and standard
  error always.
\<close>

lemma daemonize_with_handshake_ok:
  assumes "daemonize_with_handshake d keep = (t, Returns (Inr hs))"
  shows "t = [DPipe, DFork, DDropRead, DSetsid, DFork, DOpenNull, DDupStdin] @
           (if keep then [] else [DDupStdout]) @ [DDupStderr] \<and> hs = handshake_new \<and>
         de_fork1 d = Inr ForkChild \<and> de_fork2 d = Inr ForkChild"
  using assms
  by (auto simp: daemon_defs Let_def split: sum.splits fork_result.splits if_splits)

text \<open>Only the started process and the one in the middle end in \<open>daemonize_with_handshake\<close> itself.\<close>

lemma daemonize_with_handshake_exit:
  assumes "daemonize_with_handshake d keep = (t, Proc_exit s)"
  shows "t = [DPipe, DFork, DDropWrite, DRead] \<and> s = launcher_status (de_read d) \<or>
         t = [DPipe, DFork, DDropRead, DSetsid, DFork] \<and> s = 0"
  using assms
  by (auto simp: daemon_defs Let_def split: sum.splits fork_result.splits if_splits)

text \<open>The plain \<open>daemonize\<close> detaches with the same calls, without the pipe.\<close>

lemma daemonize_same_calls:
  assumes "daemonize_with_handshake d keep = (t, Returns (Inr hs))"
  shows "daemonize d keep = (filter (\<lambda>c. c \<noteq> DPipe \<and> c \<noteq> DDropRead) t, Returns (Inr ()))"
  using assms
  by (auto simp: daemon_defs Let_def split: sum.splits fork_result.splits if_splits)

end
