(* ===== verification/Startup.thy ===== *)
theory Startup
  imports Access_Log Throttle_Table Fd_Watch Daemon
begin

text \<open>
  The startup sequence of \<open>crates/thttpd-core/src/startup.rs\<close> and of \<open>main.rs\<close>. The system is the
  record \<open>boot_env\<close>: what each call returns. A step returns the trace of the system calls it makes
  and a result, \<open>Inl\<close> with the exit status when the process ends in it. With \<open>sc_daemonize\<close> there are
  three processes, and a definition is what one of them does (see the theory Daemon).
\<close>

section \<open>System calls and the boot monad\<close>

datatype sock_addr = V4 string nat | V6 string nat

datatype syscall =
  SysOpenLog string | SysWritePid string | SysReadThrottles string | SysD daemon_call
  | SysChroot string | SysChdir string | SysBind sock_addr
  | SysSetgid nat | SysInitgroups string nat | SysSetuid nat
  | SysSignals | SysServerNew | SysReport | SysRun

record boot_env =
  be_open_log :: "string \<Rightarrow> nat option"
  be_configure_log :: "nat \<Rightarrow> server_config \<Rightarrow> bool"
  be_write_pid :: "string \<Rightarrow> bool"
  be_rewrite_pid :: "string \<Rightarrow> bool"
  be_read_throttles :: "string \<Rightarrow> string option"
  be_daemon :: daemon_env
  be_chroot :: "string \<Rightarrow> bool"
  be_chdir :: "string \<Rightarrow> bool"
  be_resolve :: "string \<Rightarrow> nat \<Rightarrow> sock_addr list option"
  be_bind :: "sock_addr \<Rightarrow> int + nat"
  be_user :: "string \<Rightarrow> (nat \<times> nat) option option"
  be_setgid :: bool
  be_initgroups :: bool
  be_setuid :: bool
  be_signals :: bool
  be_server_new :: bool

type_synonym 'a boot = "syscall list \<times> (int + 'a)"

definition boot_return :: "'a \<Rightarrow> 'a boot" where
  "boot_return x = ([], Inr x)"

definition boot_exit :: "int \<Rightarrow> 'a boot" where
  "boot_exit status = ([], Inl status)"

definition and_then :: "'a boot \<Rightarrow> ('a \<Rightarrow> 'b boot) \<Rightarrow> 'b boot" where
  "and_then m k =
     (case m of
        (t, Inl status) \<Rightarrow> (t, Inl status)
      | (t, Inr a) \<Rightarrow> (case k a of (t', r) \<Rightarrow> (t @ t', r)))"

definition call :: "syscall \<Rightarrow> bool \<Rightarrow> unit boot" where
  "call s ok = ([s], if ok then Inr () else Inl 1)"

section \<open>Binding\<close>

definition EAFNOSUPPORT :: int where "EAFNOSUPPORT = 97"

definition EPFNOSUPPORT :: int where "EPFNOSUPPORT = 96"

definition is_ignorable_bind_error :: "int \<Rightarrow> bool" where
  "is_ignorable_bind_error e \<longleftrightarrow> e = EAFNOSUPPORT \<or> e = EPFNOSUPPORT"

definition resolve_hostname :: "boot_env \<Rightarrow> string \<Rightarrow> nat \<Rightarrow> sock_addr list" where
  "resolve_hostname env host port =
     (case be_resolve env host port of
        Some addrs \<Rightarrow> rev (remdups (rev addrs))
      | None \<Rightarrow> [])"

text \<open>The listeners so far and whether a fatal error was seen.\<close>

definition try_bind :: "boot_env \<Rightarrow> sock_addr \<Rightarrow> nat list \<times> bool \<Rightarrow> nat list \<times> bool" where
  "try_bind env addr st =
     (case st of
        (listeners, fatal) \<Rightarrow>
          (case be_bind env addr of
             Inr l \<Rightarrow> (listeners @ [l], fatal)
           | Inl e \<Rightarrow> (listeners, if is_ignorable_bind_error e then fatal else True)))"

fun bind_resolved :: "boot_env \<Rightarrow> sock_addr list \<Rightarrow> nat list \<Rightarrow> syscall list \<times> nat list \<times> bool" where
  "bind_resolved env [] listeners = ([], listeners, False)"
| "bind_resolved env (addr # addrs) listeners =
     (case try_bind env addr (listeners, False) of
        (ls, True) \<Rightarrow> ([SysBind addr], ls, True)
      | (ls, False) \<Rightarrow>
          (case bind_resolved env addrs ls of
             (t, r) \<Rightarrow> (SysBind addr # t, r)))"

definition bind_listeners :: "boot_env \<Rightarrow> server_config \<Rightarrow> nat list boot" where
  "bind_listeners env c =
     (let (t, ls, fatal, unresolved) =
        (case sc_hostname c of
           None \<Rightarrow>
             (let st = try_bind env (V4 ''0.0.0.0'' (sc_port c))
                         (try_bind env (V6 ''::'' (sc_port c)) ([], False))
              in ([SysBind (V6 ''::'' (sc_port c)), SysBind (V4 ''0.0.0.0'' (sc_port c))],
                  fst st, snd st, False))
         | Some host \<Rightarrow>
             (let addrs = resolve_hostname env host (sc_port c)
              in case bind_resolved env addrs [] of
                   (t, ls, fatal) \<Rightarrow> (t, ls, fatal, ls = [] \<and> \<not> fatal \<and> addrs = [])))
      in (t, if unresolved \<or> fatal \<or> ls = [] then Inl 1 else Inr ls))"

section \<open>Root directory, data directory, privileges\<close>

definition do_chroot :: "boot_env \<Rightarrow> server_config \<Rightarrow> server_config boot" where
  "do_chroot env c =
     (if \<not> sc_do_chroot c then boot_return c
      else and_then (call (SysChroot (sc_dir c)) (be_chroot env (sc_dir c))) (\<lambda>_.
           and_then (call (SysChdir ''/'') (be_chdir env ''/'')) (\<lambda>_.
           boot_return (c\<lparr>sc_dir := ''/''\<rparr>))))"

definition data_dir_chdir_path :: "string \<Rightarrow> string \<Rightarrow> bool \<Rightarrow> string" where
  "data_dir_chdir_path config_dir data_dir chrooted =
     (if path_is_absolute data_dir then data_dir
      else if chrooted then path_join ''/'' data_dir
      else path_join config_dir data_dir)"

definition effective_dir_after_chdir :: "string \<Rightarrow> string \<Rightarrow> bool \<Rightarrow> string" where
  "effective_dir_after_chdir config_dir data_dir chrooted =
     (if path_is_absolute data_dir then data_dir
      else if chrooted then path_join ''/'' data_dir
      else if path_is_absolute config_dir then path_join config_dir data_dir
      else ''.'')"

definition apply_data_dir :: "boot_env \<Rightarrow> server_config \<Rightarrow> server_config boot" where
  "apply_data_dir env c =
     (case sc_data_dir c of
        None \<Rightarrow> boot_return c
      | Some data_dir \<Rightarrow>
          (let chdir_to = data_dir_chdir_path (sc_dir c) data_dir (sc_do_chroot c)
           in and_then (call (SysChdir chdir_to) (be_chdir env chdir_to)) (\<lambda>_.
              boot_return
                (c\<lparr>sc_dir := effective_dir_after_chdir (sc_dir c) data_dir (sc_do_chroot c)\<rparr>))))"

definition drop_privileges :: "boot_env \<Rightarrow> server_config \<Rightarrow> unit boot" where
  "drop_privileges env c =
     (case sc_user c of
        None \<Rightarrow> boot_return ()
      | Some username \<Rightarrow>
          (case be_user env username of
             Some (Some (uid, gid)) \<Rightarrow>
               and_then (call (SysSetgid gid) (be_setgid env)) (\<lambda>_.
               if CHR 0x00 \<in> set username then boot_exit 1
               else and_then (call (SysInitgroups username gid) (be_initgroups env)) (\<lambda>_.
                    call (SysSetuid uid) (be_setuid env)))
           | _ \<Rightarrow> boot_exit 1))"

definition write_pidfile :: "(string \<Rightarrow> bool) \<Rightarrow> server_config \<Rightarrow> unit boot" where
  "write_pidfile write c =
     (case sc_pidfile c of
        None \<Rightarrow> boot_return ()
      | Some path \<Rightarrow> call (SysWritePid path) (write path))"

section \<open>The main function\<close>

definition open_log_step :: "boot_env \<Rightarrow> server_config \<Rightarrow> log_target boot" where
  "open_log_step env c =
     (let t = log_open (be_open_log env) (be_configure_log env) c
      in (case sc_logfile c of Some path \<Rightarrow> [SysOpenLog path] | None \<Rightarrow> [],
          case t of Some log \<Rightarrow> Inr log | None \<Rightarrow> Inl 1))"

definition load_throttles_step :: "boot_env \<Rightarrow> server_config \<Rightarrow> throttle_table option boot" where
  "load_throttles_step env c =
     (case sc_throttle_file c of
        None \<Rightarrow> boot_return None
      | Some path \<Rightarrow>
          ([SysReadThrottles path],
           case be_read_throttles env path of
              Some content \<Rightarrow> Inr (Some (throttle_load content))
            | None \<Rightarrow> Inl 1))"

definition daemonize_step :: "boot_env \<Rightarrow> server_config \<Rightarrow> log_target \<Rightarrow> daemon_handshake option boot" where
  "daemonize_step env c log =
     (if sc_daemonize c then
        (case daemonize_with_handshake (be_daemon env) (is_stdout log) of
           (t, Returns (Inr hs)) \<Rightarrow>
             and_then (map SysD t, Inr ()) (\<lambda>_.
             and_then (write_pidfile (be_rewrite_pid env) c) (\<lambda>_.
             boot_return (Some hs)))
         | (t, Returns (Inl _)) \<Rightarrow> (map SysD t, Inl 1)
         | (t, Proc_exit status) \<Rightarrow> (map SysD t, Inl status))
      else boot_return None)"

record boot_result =
  br_config :: server_config
  br_listeners :: "nat list"
  br_log :: log_target
  br_throttles :: "throttle_table option"

definition privileged_steps :: "boot_env \<Rightarrow> server_config \<Rightarrow>
    (server_config \<times> log_target \<times> throttle_table option \<times> daemon_handshake option) boot" where
  "privileged_steps env c =
     and_then (open_log_step env c) (\<lambda>log.
     and_then (write_pidfile (be_write_pid env) c) (\<lambda>_.
     and_then (load_throttles_step env c) (\<lambda>throttles.
     and_then (daemonize_step env c log) (\<lambda>handshake.
     and_then (do_chroot env c) (\<lambda>c1.
     (let log1 = (if sc_do_chroot c then remap_after_chroot log (sc_dir c) else log)
      in and_then (apply_data_dir env c1) (\<lambda>c2.
         boot_return (c2, log1, throttles, handshake))))))))"

definition serve_steps :: "boot_env \<Rightarrow> daemon_handshake option \<Rightarrow> unit boot" where
  "serve_steps env handshake =
     and_then (call SysSignals (be_signals env)) (\<lambda>_.
     and_then (call SysServerNew (be_server_new env)) (\<lambda>_.
     and_then (if handshake \<noteq> None then call SysReport True else boot_return ()) (\<lambda>_.
     call SysRun True)))"

definition startup :: "boot_env \<Rightarrow> server_config \<Rightarrow> boot_result boot" where
  "startup env c0 =
     and_then (privileged_steps env c0) (\<lambda>(c, log, throttles, handshake).
     and_then (bind_listeners env c) (\<lambda>listeners.
     if MAX_LISTENERS < length listeners then boot_exit 1
     else and_then (drop_privileges env c) (\<lambda>_.
          and_then (serve_steps env handshake) (\<lambda>_.
          boot_return \<lparr>br_config = c, br_listeners = listeners, br_log = log,
                       br_throttles = throttles\<rparr>))))"

definition thttpd_main :: "(string \<Rightarrow> string option) \<Rightarrow> boot_env \<Rightarrow> string list \<Rightarrow> cli \<Rightarrow> boot_result boot" where
  "thttpd_main fs_read env raw_args a =
     (if cl_legacy_version a then boot_exit 0
      else case from_cli fs_read a of
        Inl _ \<Rightarrow> boot_exit 1
      | Inr config \<Rightarrow>
          startup env (apply_legacy_toggle_order config
            (legacy_toggle_events (normalize_legacy_args raw_args))))"

section \<open>The order of the privileged steps\<close>

fun is_bind :: "syscall \<Rightarrow> bool" where
  "is_bind (SysBind _) = True"
| "is_bind _ = False"

fun is_drop :: "syscall \<Rightarrow> bool" where
  "is_drop (SysSetgid _) = True"
| "is_drop (SysInitgroups _ _) = True"
| "is_drop (SysSetuid _) = True"
| "is_drop _ = False"

definition early :: "syscall \<Rightarrow> bool" where
  "early s \<longleftrightarrow> \<not> is_bind s \<and> \<not> is_drop s \<and> s \<notin> {SysReport, SysRun}"

lemma and_then_Inr:
  assumes "and_then m k = (t, Inr r)"
  obtains t1 a t2 where "m = (t1, Inr a)" "k a = (t2, Inr r)" "t = t1 @ t2"
  using assms by (auto simp: and_then_def split: prod.splits sum.splits)

text \<open>A call occurs in the trace of a sequence only if it occurs in one of the parts.\<close>

lemma and_then_mem:
  "s \<in> set (fst (and_then m k)) \<longleftrightarrow>
     s \<in> set (fst m) \<or> (\<exists>a. snd m = Inr a \<and> s \<in> set (fst (k a)))"
  by (auto simp: and_then_def split: prod.splits sum.splits)

lemma call_simps [simp]: "fst (call s ok) = [s]" "snd (call s ok) = (if ok then Inr () else Inl 1)"
  "fst (boot_return x) = []" "snd (boot_return x) = Inr x" "fst (boot_exit n) = []" "snd (boot_exit n) = Inl n"
  by (simp_all add: call_def boot_return_def boot_exit_def)

lemma bind_resolved_binds: "list_all is_bind (fst (bind_resolved env addrs ls))"
proof (induction addrs arbitrary: ls)
  case (Cons a addrs)
  obtain l b where "try_bind env a (ls, False) = (l, b)" by fastforce
  with Cons[of l] show ?case by (cases b) (auto split: prod.splits)
qed simp

lemma bind_listeners_binds: "list_all is_bind (fst (bind_listeners env c))"
  using bind_resolved_binds[of env "resolve_hostname env _ (sc_port c)" "[]"]
  by (auto simp: bind_listeners_def Let_def split: option.splits prod.splits)
    (metis fst_conv)

lemma bind_listeners_nonempty: "bind_listeners env c = (t, Inr ls) \<Longrightarrow> ls \<noteq> []"
  by (auto simp: bind_listeners_def Let_def split: prod.splits if_splits)

lemma privileged_early: "s \<in> set (fst (privileged_steps env c)) \<Longrightarrow> early s"
  by (auto simp: privileged_steps_def and_then_mem open_log_step_def write_pidfile_def
      load_throttles_step_def daemonize_step_def do_chroot_def apply_data_dir_def Let_def early_def
      split: option.splits if_splits prod.splits proc_result.splits sum.splits)

lemma do_chroot_result:
  "do_chroot env c = (t, Inr c1) \<Longrightarrow> sc_user c1 = sc_user c \<and> sc_do_chroot c1 = sc_do_chroot c \<and>
     (sc_do_chroot c \<longrightarrow> t = [SysChroot (sc_dir c), SysChdir ''/''] \<and> sc_dir c1 = ''/'')"
  by (auto simp: do_chroot_def boot_return_def call_def split: if_splits elim!: and_then_Inr)

lemma apply_data_dir_result:
  "apply_data_dir env c = (t, Inr c1) \<Longrightarrow> sc_user c1 = sc_user c \<and>
     (sc_do_chroot c \<longrightarrow> sc_dir c = ''/'' \<longrightarrow> path_is_absolute (sc_dir c1))"
  by (auto simp: apply_data_dir_def boot_return_def call_def Let_def effective_dir_after_chdir_def
      path_join_def path_is_absolute_def starts_with_def split: if_splits option.splits elim!: and_then_Inr)

lemma daemonize_step_result:
  "daemonize_step env c log = (t, Inr hs) \<Longrightarrow> (hs \<noteq> None) = sc_daemonize c"
  by (auto simp: daemonize_step_def boot_return_def split: if_splits prod.splits proc_result.splits
      sum.splits elim!: and_then_Inr)

lemma privileged_result:
  assumes "privileged_steps env c0 = (t, Inr (c, log, th, hs))"
  shows "sc_user c = sc_user c0 \<and> (hs \<noteq> None) = sc_daemonize c0 \<and>
    (sc_do_chroot c0 \<longrightarrow> SysChroot (sc_dir c0) \<in> set t \<and> path_is_absolute (sc_dir c))"
proof -
  obtain t5 c1 t6 where d: "do_chroot env c0 = (t5, Inr c1)" "set t5 \<subseteq> set t"
      "apply_data_dir env c1 = (t6, Inr c)" and hs: "(hs \<noteq> None) = sc_daemonize c0"
    using assms
    by (auto simp: privileged_steps_def Let_def boot_return_def dest!: daemonize_step_result elim!: and_then_Inr) blast+
  show ?thesis using do_chroot_result[OF d(1)] apply_data_dir_result[OF d(3)] d(2) hs by auto
qed

lemma drop_privileges_result:
  assumes "drop_privileges env c = (t, Inr x)"
  shows "case sc_user c of
       None \<Rightarrow> t = []
     | Some u \<Rightarrow> \<exists>uid gid. be_user env u = Some (Some (uid, gid)) \<and>
         t = [SysSetgid gid, SysInitgroups u gid, SysSetuid uid]"
  using assms
  by (auto simp: drop_privileges_def boot_return_def boot_exit_def call_def
      split: option.splits if_splits elim!: and_then_Inr)

lemma serve_steps_result:
  "serve_steps env hs = (t, Inr x) \<Longrightarrow>
     t = [SysSignals, SysServerNew] @ (if hs \<noteq> None then [SysReport] else []) @ [SysRun]"
  by (auto simp: serve_steps_def boot_return_def call_def split: if_splits elim!: and_then_Inr)

lemma run_only_on_success:
  assumes "SysRun \<in> set (fst (startup env c0))"
  shows "\<exists>r. snd (startup env c0) = Inr r"
proof -
  have b: "SysRun \<notin> set (fst (bind_listeners env c))" for c
    using bind_listeners_binds[of env c] by (auto simp: list_all_iff)
  have p: "SysRun \<notin> set (fst (privileged_steps env c0))"
    using privileged_early by (auto simp: early_def)
  have d: "SysRun \<notin> set (fst (drop_privileges env c))" for c
    by (auto simp: drop_privileges_def and_then_mem split: option.splits)
  obtain c log th hs ls where k: "snd (privileged_steps env c0) = Inr (c, log, th, hs)"
      "snd (bind_listeners env c) = Inr ls" "\<not> MAX_LISTENERS < length ls"
      "snd (drop_privileges env c) = Inr ()" "SysRun \<in> set (fst (serve_steps env hs))"
    using assms b p d by (fastforce simp: startup_def and_then_mem split: if_splits)
  then have "snd (serve_steps env hs) = Inr ()"
    by (auto simp: serve_steps_def and_then_mem and_then_def call_def boot_return_def split: if_splits)
  with k show ?thesis
    by (auto simp: startup_def and_then_def boot_return_def split: prod.splits option.splits)
qed

text \<open>A run that enters the event loop has gone through all parts of the startup.\<close>

lemma startup_run_parts:
  assumes "SysRun \<in> set (fst (startup env c0))"
  obtains pre c log th hs binds ls drops where
    "privileged_steps env c0 = (pre, Inr (c, log, th, hs))"
    "bind_listeners env c = (binds, Inr ls)" "length ls \<le> MAX_LISTENERS"
    "drop_privileges env c = (drops, Inr ())" "(hs \<noteq> None) = sc_daemonize c0"
    "startup env c0 = (pre @ binds @ drops @
       [SysSignals, SysServerNew] @ (if sc_daemonize c0 then [SysReport] else []) @ [SysRun],
       Inr \<lparr>br_config = c, br_listeners = ls, br_log = log, br_throttles = th\<rparr>)"
proof -
  obtain tr r where run: "startup env c0 = (tr, Inr r)"
    using run_only_on_success[OF assms] by (metis prod.collapse)
  then obtain pre c log th hs binds ls t3 where
      pre: "privileged_steps env c0 = (pre, Inr (c, log, th, hs))"
    and binds: "bind_listeners env c = (binds, Inr ls)"
    and rest: "(if MAX_LISTENERS < length ls then boot_exit 1
       else and_then (drop_privileges env c) (\<lambda>_. and_then (serve_steps env hs) (\<lambda>_.
         boot_return \<lparr>br_config = c, br_listeners = ls, br_log = log, br_throttles = th\<rparr>))) = (t3, Inr r)"
    and tr: "tr = pre @ binds @ t3"
    by (auto simp: startup_def elim!: and_then_Inr)
  then obtain drops t4 where "drop_privileges env c = (drops, Inr ())"
      "serve_steps env hs = (t4, Inr ())" "t3 = drops @ t4" "length ls \<le> MAX_LISTENERS"
      "r = \<lparr>br_config = c, br_listeners = ls, br_log = log, br_throttles = th\<rparr>"
    by (auto simp: boot_return_def boot_exit_def split: if_splits elim!: and_then_Inr)
  with run tr pre binds show thesis
    using privileged_result[OF pre] serve_steps_result[of env hs t4 "()"] by (intro that) auto
qed

text \<open>
  C40. When the server gets to serve requests, its startup made the privileged calls in this order:
  first the log, the pid file and the rule file were opened, the process detached and, if
  configured, the root was changed; then the sockets were bound; then, if a user is configured, the
  group, the supplementary groups and the user were set, to the identity of that user; then the
  signal handlers were installed and the success was reported to the launcher, if there is one;
  and none of these calls comes after. At least one and at most 16 sockets are bound, and after a
  change of root the served directory is absolute inside the new root.
\<close>

theorem startup_order:
  assumes "SysRun \<in> set (fst (startup env c0))"
  shows "\<exists>pre binds drops r. startup env c0 = (pre @ binds @ drops @
       [SysSignals, SysServerNew] @ (if sc_daemonize c0 then [SysReport] else []) @ [SysRun], Inr r) \<and>
     list_all early pre \<and> list_all is_bind binds \<and>
     br_listeners r \<noteq> [] \<and> length (br_listeners r) \<le> 16 \<and>
     (sc_do_chroot c0 \<longrightarrow> SysChroot (sc_dir c0) \<in> set pre \<and> path_is_absolute (sc_dir (br_config r))) \<and>
     (case sc_user c0 of
        None \<Rightarrow> drops = []
      | Some u \<Rightarrow> \<exists>uid gid. be_user env u = Some (Some (uid, gid)) \<and>
          drops = [SysSetgid gid, SysInitgroups u gid, SysSetuid uid])"
proof -
  from assms obtain pre c log th hs binds ls drops where
    pre: "privileged_steps env c0 = (pre, Inr (c, log, th, hs))" and
    binds: "bind_listeners env c = (binds, Inr ls)" and
    rest: "length ls \<le> MAX_LISTENERS" "drop_privileges env c = (drops, Inr ())"
    "startup env c0 = (pre @ binds @ drops @
       [SysSignals, SysServerNew] @ (if sc_daemonize c0 then [SysReport] else []) @ [SysRun],
       Inr \<lparr>br_config = c, br_listeners = ls, br_log = log, br_throttles = th\<rparr>)"
    by (rule startup_run_parts)
  have "list_all early pre" using privileged_early[of _ env c0] pre by (auto simp: list_all_iff)
  moreover have "list_all is_bind binds" using bind_listeners_binds[of env c] binds by simp
  ultimately show ?thesis
    using rest privileged_result[OF pre] bind_listeners_nonempty[OF binds] drop_privileges_result[OF rest(2)]
    by (intro exI[of _ pre] exI[of _ binds] exI[of _ drops] exI) (auto simp: MAX_LISTENERS_def)
qed

definition daemon_ok :: daemon_env where
  "daemon_ok = \<lparr>de_pipe = Inr (), de_fork1 = Inr ForkChild, de_read = Inl ''EINTR'', de_setsid = Inr (),
     de_fork2 = Inr ForkChild, de_null = Inr (), de_dup_in = Inr (), de_dup_out = Inr (),
     de_dup_err = Inr ()\<rparr>"

definition example_env :: boot_env where
  "example_env = \<lparr>be_open_log = (\<lambda>_. Some 3), be_configure_log = (\<lambda>_ _. True), be_write_pid = (\<lambda>_. True),
     be_rewrite_pid = (\<lambda>_. True), be_read_throttles = (\<lambda>_. None), be_daemon = daemon_ok,
     be_chroot = (\<lambda>_. True), be_chdir = (\<lambda>_. True), be_resolve = (\<lambda>_ _. None),
     be_bind = (\<lambda>a. case a of V6 _ _ \<Rightarrow> Inl 97 | V4 _ _ \<Rightarrow> Inr 5), be_user = (\<lambda>_. Some (Some (33, 34))),
     be_setgid = True, be_initgroups = True, be_setuid = True, be_signals = True,
     be_server_new = True\<rparr>"

definition example_config :: server_config where
  "example_config = server_config_default\<lparr>sc_dir := ''/srv'', sc_do_chroot := True, sc_daemonize := True,
     sc_user := Some ''www'',
     sc_logfile := Some ''/var/log/thttpd''\<rparr>"

theorem startup_order_witness:
  "\<exists>pre binds r. startup example_env example_config = (pre @ binds @
       [SysSetgid 34, SysInitgroups ''www'' 34, SysSetuid 33] @
       [SysSignals, SysServerNew] @ [SysReport] @ [SysRun], Inr r) \<and>
     SysChroot ''/srv'' \<in> set pre \<and> list_all is_bind binds"
proof -
  have run: "SysRun \<in> set (fst (startup example_env example_config))" by code_simp
  have u: "sc_user example_config = Some ''www''" and ch: "sc_do_chroot example_config = True"
    and dm: "sc_daemonize example_config = True" and d: "sc_dir example_config = ''/srv''"
    and own: "be_user example_env ''www'' = Some (Some (33, 34))"
    by (simp_all add: example_config_def example_env_def)
  from startup_order[OF run, unfolded u ch d own dm option.case if_True] obtain pre binds drops r uid gid where
    r: "startup example_env example_config = (pre @ binds @ drops @
       [SysSignals, SysServerNew] @ [SysReport] @ [SysRun], Inr r)"
      "list_all is_bind binds" "SysChroot ''/srv'' \<in> set pre"
      "Some (Some (33, 34)) = Some (Some (uid, gid))"
      "drops = [SysSetgid gid, SysInitgroups ''www'' gid, SysSetuid uid]"
    by blast
  then have "drops = [SysSetgid 34, SysInitgroups ''www'' 34, SysSetuid 33]" by simp
  with r(1-3) show ?thesis by blast
qed

end
