(* ===== verification/Launch.thy ===== *)
theory Launch
  imports Startup
begin

text \<open>
  The three processes of a daemon start side by side: the launcher (the process that was started,
  which waits for the status), the process in the middle (between the two forks) and the daemon.
  They share only the pipe. The calls of each process are those of \<open>startup\<close> in it
  (\<open>crates/thttpd-core/src/main.rs\<close> and \<open>startup.rs\<close>); a step of \<open>launch_step\<close> is one call, or the
  end of a process, which may come at any moment, by a signal or a panic. The steps that the
  processes take by their programs are \<open>launch_own\<close>.
\<close>

section \<open>Programs of the processes\<close>

definition seen_by :: "fork_result \<Rightarrow> fork_result \<Rightarrow> boot_env \<Rightarrow> boot_env" where
  "seen_by f g env = env\<lparr>be_daemon := in_process f g (be_daemon env)\<rparr>"

fun after_forks :: "nat \<Rightarrow> syscall list \<Rightarrow> syscall list" where
  "after_forks 0 t = t"
| "after_forks (Suc n) [] = []"
| "after_forks (Suc n) (a # t) = (if a = SysD DFork then after_forks n t else after_forks (Suc n) t)"

definition middle_calls :: "boot_env \<Rightarrow> server_config \<Rightarrow> syscall list" where
  "middle_calls env c = after_forks 1 (fst (startup (seen_by ForkChild ForkParent env) c))"

definition daemon_calls :: "boot_env \<Rightarrow> server_config \<Rightarrow> syscall list" where
  "daemon_calls env c = after_forks 2 (fst (startup (seen_by ForkChild ForkChild env) c))"

section \<open>Steps\<close>

datatype launcher_proc = LForked | LReading | LExited int

datatype daemon_proc = DUnborn | DAlive "syscall list" "daemon_handshake option" | DEnded

text \<open>
  The bytes in the pipe, the processes with the calls they have still to make (\<open>None\<close>: the process
  in the middle has ended), the calls the daemon has made, and whether a read failed.
\<close>

record launch =
  la_pipe :: "8 word list"
  la_launcher :: launcher_proc
  la_middle :: "syscall list option"
  la_daemon :: daemon_proc
  la_done :: "syscall list"
  la_read_failed :: bool

definition launch_init :: "boot_env \<Rightarrow> server_config \<Rightarrow> launch" where
  "launch_init env c = \<lparr>la_pipe = [], la_launcher = LForked, la_middle = Some (middle_calls env c),
     la_daemon = DUnborn, la_done = [], la_read_failed = False\<rparr>"

fun is_alive :: "daemon_proc \<Rightarrow> bool" where
  "is_alive (DAlive _ _) = True"
| "is_alive _ = False"

fun has_exited :: "launcher_proc \<Rightarrow> bool" where
  "has_exited (LExited _) = True"
| "has_exited _ = False"

text \<open>Who holds the write end, apart from the launcher before it closes its own.\<close>

definition writers :: "launch \<Rightarrow> bool" where
  "writers w \<longleftrightarrow> la_middle w \<noteq> None \<or> is_alive (la_daemon w)"

text \<open>
  What a call of the daemon does to the pipe and to its handshake, which exists once
  \<open>daemonize_with_handshake\<close> has returned. The only read end is that of the launcher.
\<close>

definition daemon_effect :: "daemon_env \<Rightarrow> bool \<Rightarrow> syscall \<Rightarrow> daemon_handshake option \<Rightarrow>
    8 word list \<times> daemon_handshake option" where
  "daemon_effect d write_ok a hs =
     (if a = SysD DDupStderr \<and> de_dup_err d = Inr () then ([], Some handshake_new)
      else if a = SysReport then
        (case hs of
           Some h \<Rightarrow> (case report_success write_ok h of (out, h') \<Rightarrow> (out, Some h'))
         | None \<Rightarrow> ([], None))
      else ([], hs))"

definition unwind :: "bool \<Rightarrow> daemon_handshake option \<Rightarrow> 8 word list" where
  "unwind write_ok hs = (case hs of Some h \<Rightarrow> handshake_drop write_ok h | None \<Rightarrow> [])"

definition second_fork_ok :: "boot_env \<Rightarrow> bool" where
  "second_fork_ok env \<longleftrightarrow> (case de_fork2 (be_daemon env) of Inr _ \<Rightarrow> True | Inl _ \<Rightarrow> False)"

inductive launch_step :: "boot_env \<Rightarrow> server_config \<Rightarrow> launch \<Rightarrow> launch \<Rightarrow> bool"
  for env :: boot_env and c :: server_config where
  launcher_closes:
    "launch_step env c w (w\<lparr>la_launcher := LReading\<rparr>)"
    if "la_launcher w = LForked"
| launcher_reads:
    "launch_step env c w (w\<lparr>la_launcher := LExited (launcher_status (Inr [b])), la_pipe := bs\<rparr>)"
    if "la_launcher w = LReading" "la_pipe w = b # bs"
| launcher_eof:
    "launch_step env c w (w\<lparr>la_launcher := LExited (launcher_status (Inr []))\<rparr>)"
    if "la_launcher w = LReading" "la_pipe w = []" "\<not> writers w"
| launcher_fails:
    "launch_step env c w (w\<lparr>la_launcher := LExited (launcher_status (Inl e)), la_read_failed := True\<rparr>)"
    if "la_launcher w = LReading"
| middle_forks:
    "launch_step env c w (w\<lparr>la_middle := Some as, la_daemon := DAlive (daemon_calls env c) None\<rparr>)"
    if "la_middle w = Some (SysD DFork # as)" "second_fork_ok env" "la_daemon w = DUnborn"
| middle_calls:
    "launch_step env c w (w\<lparr>la_middle := Some as\<rparr>)"
    if "la_middle w = Some (a # as)" "a = SysD DFork \<longrightarrow> \<not> second_fork_ok env"
| middle_ends:
    "launch_step env c w (w\<lparr>la_middle := None\<rparr>)"
    if "la_middle w = Some as"
| daemon_calls:
    "launch_step env c w (w\<lparr>la_pipe := la_pipe w @ out, la_daemon := DAlive as hs', la_done := la_done w @ [a]\<rparr>)"
    if "la_daemon w = DAlive (a # as) hs"
       "daemon_effect (be_daemon env) (\<not> has_exited (la_launcher w)) a hs = (out, hs')"
| daemon_ends:
    "launch_step env c w (w\<lparr>la_daemon := DEnded\<rparr>)"
    if "la_daemon w = DAlive as hs"
| daemon_unwinds:
    "launch_step env c w
       (w\<lparr>la_pipe := la_pipe w @ unwind (\<not> has_exited (la_launcher w)) hs, la_daemon := DEnded\<rparr>)"
    if "la_daemon w = DAlive as hs"

text \<open>
  A step by the program of a process: no read is interrupted, the process in the middle ends after its
  last call, and the daemon does so only when its startup has failed; one that has entered the event
  loop goes on serving.
\<close>

definition launch_own :: "boot_env \<Rightarrow> server_config \<Rightarrow> launch \<Rightarrow> launch \<Rightarrow> bool" where
  "launch_own env c w w' \<longleftrightarrow> launch_step env c w w' \<and> la_read_failed w' = la_read_failed w \<and>
     (la_middle w' = None \<longrightarrow> la_middle w \<in> {None, Some []}) \<and>
     (la_daemon w' = DEnded \<longrightarrow> la_daemon w = DEnded \<or> (\<exists>hs. la_daemon w = DAlive [] hs) \<and> SysRun \<notin> set (la_done w))"

text \<open>The states of a start in which the pipe and the first fork succeeded.\<close>

definition first_fork_done :: "boot_env \<Rightarrow> server_config \<Rightarrow> bool" where
  "first_fork_done env c \<longleftrightarrow>
     SysD DDropRead \<in> set (fst (startup (seen_by ForkChild ForkParent env) c))"

inductive launch_reach :: "boot_env \<Rightarrow> server_config \<Rightarrow> launch \<Rightarrow> bool"
  for env :: boot_env and c :: server_config where
  start: "launch_reach env c (launch_init env c)" if "first_fork_done env c"
| step: "launch_reach env c w'" if "launch_reach env c w" "launch_step env c w w'"

section \<open>The order of the daemon's calls\<close>

lemma after_forks_none: "SysD DFork \<notin> set t \<Longrightarrow> after_forks (Suc n) (t @ u) = after_forks (Suc n) u"
  by (induction t) auto

lemma set_after_forks: "set (after_forks n t) \<subseteq> set t"
  by (induction n t rule: after_forks.induct) auto

text \<open>Apart from \<open>daemonize_with_handshake\<close> no step of the startup makes one of its calls.\<close>

lemma boot_calls_not_daemon:
  "SysD d \<notin> set (fst (open_log_step env c))" "SysD d \<notin> set (fst (write_pidfile f c))"
  "SysD d \<notin> set (fst (load_throttles_step env c))" "SysD d \<notin> set (fst (do_chroot env c))"
  "SysD d \<notin> set (fst (apply_data_dir env c))" "SysD d \<notin> set (fst (drop_privileges env c))"
  "SysD d \<notin> set (fst (serve_steps env h))" "SysD d \<notin> set (fst (bind_listeners env c))"
  using bind_listeners_binds[of env c]
  by (auto simp: open_log_step_def write_pidfile_def load_throttles_step_def do_chroot_def
      apply_data_dir_def drop_privileges_def serve_steps_def and_then_mem Let_def list_all_iff
      split: option.splits)

lemma and_then_assoc: "and_then (and_then m k) l = and_then m (\<lambda>a. and_then (k a) l)"
  by (auto simp: and_then_def split: prod.splits sum.splits)

lemma fst_and_then: "fst (and_then m k) = fst m @ (case snd m of Inr a \<Rightarrow> fst (k a) | Inl _ \<Rightarrow> [])"
  by (auto simp: and_then_def split: prod.splits sum.splits)

text \<open>The startup before \<open>daemonize_with_handshake\<close>, and after it.\<close>

definition boot_front :: "boot_env \<Rightarrow> server_config \<Rightarrow> (log_target \<times> throttle_table option) boot" where
  "boot_front env c =
     and_then (open_log_step env c) (\<lambda>log.
     and_then (write_pidfile (be_write_pid env) c) (\<lambda>_.
     and_then (load_throttles_step env c) (\<lambda>throttles.
     boot_return (log, throttles))))"

definition boot_back :: "boot_env \<Rightarrow> server_config \<Rightarrow> log_target \<Rightarrow> throttle_table option \<Rightarrow>
    daemon_handshake option \<Rightarrow> boot_result boot" where
  "boot_back env c log throttles handshake =
     and_then (do_chroot env c) (\<lambda>c1. and_then (apply_data_dir env c1) (\<lambda>c2.
     and_then (bind_listeners env c2) (\<lambda>listeners.
     if MAX_LISTENERS < length listeners then boot_exit 1
     else and_then (drop_privileges env c2) (\<lambda>_. and_then (serve_steps env handshake) (\<lambda>_.
          boot_return \<lparr>br_config = c2, br_listeners = listeners,
            br_log = (if sc_do_chroot c then remap_after_chroot log (sc_dir c) else log),
            br_throttles = throttles\<rparr>)))))"

lemma boot_return_and_then [simp]: "and_then (boot_return x) k = k x"
  by (simp add: and_then_def boot_return_def split: prod.splits)

lemma startup_parts:
  "startup env c =
     and_then (boot_front env c) (\<lambda>(log, throttles).
     and_then (daemonize_step env c log) (boot_back env c log throttles))"
  by (simp add: startup_def privileged_steps_def boot_front_def boot_back_def [abs_def] and_then_assoc
      Let_def cong del: if_weak_cong)

lemma front_calls: "SysD d \<notin> set (fst (boot_front env c))" "SysReport \<notin> set (fst (boot_front env c))"
  by (auto simp: boot_front_def and_then_mem boot_calls_not_daemon)
    (auto simp: open_log_step_def write_pidfile_def load_throttles_step_def split: option.splits)

lemma back_calls: "SysD d \<notin> set (fst (boot_back env c log th hs))"
  by (auto simp: boot_back_def and_then_mem boot_calls_not_daemon)

text \<open>
  If the daemon reports, its handshake came before, with the last of the three redirections, and
  what follows that redirection makes none of these calls.
\<close>

lemma after_forks_absent: "SysD DFork \<notin> set t \<Longrightarrow> after_forks (Suc n) t = []"
  using after_forks_none[of t n "[]"] by simp

lemma daemonize_step_calls:
  assumes "SysReport \<in> set (after_forks 2 (fst (and_then (daemonize_step env c log) (boot_back env c log th))))"
  obtains A B where
    "after_forks 2 (fst (and_then (daemonize_step env c log) (boot_back env c log th))) = A @ SysD DDupStderr # B"
    "set A \<subseteq> {SysD DOpenNull, SysD DDupStdin, SysD DDupStdout}" "\<And>d. SysD d \<notin> set B"
    "\<exists>t hs. daemonize_with_handshake (be_daemon env) (is_stdout log) = (t, Returns (Inr hs))"
proof (cases "sc_daemonize c")
  case False
  have "SysD DFork \<notin> set (fst (boot_back env c log th None))" by (rule back_calls)
  with False assms show thesis
    by (simp add: daemonize_step_def numeral_2_eq_2 after_forks_absent)
next
  case True
  obtain t x where dx: "daemonize_with_handshake (be_daemon env) (is_stdout log) = (t, x)" by fastforce
  show thesis
  proof (cases "\<exists>hs. x = Returns (Inr hs)")
    case True': True
    then obtain hs where x: "x = Returns (Inr hs)" by blast
    define P where "P = fst (and_then (write_pidfile (be_rewrite_pid env) c) (\<lambda>_. boot_back env c log th (Some hs)))"
    have P: "SysD d \<notin> set P" for d
      by (simp add: P_def and_then_mem boot_calls_not_daemon back_calls)
    have "fst (and_then (daemonize_step env c log) (boot_back env c log th)) = map SysD t @ P"
      using True dx x by (simp add: daemonize_step_def and_then_assoc P_def)
        (simp add: fst_and_then)
    moreover have "t = [DPipe, DFork, DDropRead, DSetsid, DFork, DOpenNull, DDupStdin] @
        (if is_stdout log then [] else [DDupStdout]) @ [DDupStderr]"
      using daemonize_with_handshake_ok[of "be_daemon env" "is_stdout log" t hs] dx x by simp
    ultimately have "after_forks 2 (fst (and_then (daemonize_step env c log) (boot_back env c log th))) =
        ([SysD DOpenNull, SysD DDupStdin] @ (if is_stdout log then [] else [SysD DDupStdout])) @ SysD DDupStderr # P"
      by (simp add: numeral_2_eq_2)
    then show thesis by (rule that) (use P dx x in auto)
  next
    case False
    then have "fst (and_then (daemonize_step env c log) (boot_back env c log th)) = map SysD t"
      using True dx by (auto simp: daemonize_step_def fst_and_then split: proc_result.splits sum.splits)
    then show thesis using assms set_after_forks[of 2 "map SysD t"] by auto
  qed
qed

lemma dup_err_ok:
  "daemonize_with_handshake d keep = (t, Returns (Inr hs)) \<Longrightarrow> de_dup_err d = Inr ()"
  by (auto simp: daemon_defs Let_def split: sum.splits fork_result.splits if_splits)

lemma daemon_calls_report:
  assumes "SysReport \<in> set (daemon_calls env c)"
  obtains A B where "daemon_calls env c = A @ SysD DDupStderr # B"
    "set A \<subseteq> {SysD DOpenNull, SysD DDupStdin, SysD DDupStdout}" "\<And>d. SysD d \<notin> set B"
    "de_dup_err (be_daemon env) = Inr ()"
proof (cases "snd (boot_front (seen_by ForkChild ForkChild env) c)")
  case (Inl s)
  then have "daemon_calls env c = []"
    using front_calls(1)[of DFork "seen_by ForkChild ForkChild env" c]
    by (simp add: daemon_calls_def startup_parts fst_and_then numeral_2_eq_2 after_forks_absent)
  with assms show thesis by simp
next
  case (Inr p)
  obtain log th where p: "p = (log, th)" by fastforce
  let ?e = "seen_by ForkChild ForkChild env"
  have D: "daemon_calls env c =
      after_forks 2 (fst (and_then (daemonize_step ?e c log) (boot_back ?e c log th)))"
    using Inr p front_calls(1)[of DFork ?e c]
    by (simp add: daemon_calls_def startup_parts fst_and_then[of "boot_front ?e c"] numeral_2_eq_2 after_forks_none)
  have e: "de_dup_err (be_daemon ?e) = de_dup_err (be_daemon env)"
    by (simp add: seen_by_def in_process_def)
  show thesis
    using assms unfolding D by (rule daemonize_step_calls) (metis that D dup_err_ok e)
qed

text \<open>The handshake after the calls \<open>made\<close>, and what one more call does.\<close>

definition handshake_at :: "boot_env \<Rightarrow> syscall list \<Rightarrow> daemon_handshake option" where
  "handshake_at env made =
     (if SysD DDupStderr \<in> set made \<and> de_dup_err (be_daemon env) = Inr ()
      then Some \<lparr>dh_reported = (SysReport \<in> set made)\<rparr> else None)"

lemma report_after_redirect:
  assumes "daemon_calls env c = xs @ SysReport # ys"
  shows "SysD DDupStderr \<in> set xs \<and> de_dup_err (be_daemon env) = Inr ()"
proof -
  have "SysReport \<in> set (daemon_calls env c)" using assms by simp
  then obtain A B where AB: "daemon_calls env c = A @ SysD DDupStderr # B" "SysReport \<notin> set A"
      "de_dup_err (be_daemon env) = Inr ()"
    by (rule daemon_calls_report) blast
  from AB(1,2) assms show ?thesis using AB(3) by (auto simp: append_eq_append_conv2 append_eq_Cons_conv Cons_eq_append_conv)
qed

lemma redirect_before_report:
  assumes "daemon_calls env c = xs @ SysD DDupStderr # ys"
  shows "SysReport \<notin> set xs"
proof
  assume "SysReport \<in> set xs"
  then have "SysReport \<in> set (daemon_calls env c)" using assms by simp
  then obtain A B where AB: "daemon_calls env c = A @ SysD DDupStderr # B" "SysReport \<notin> set A"
      "SysD DDupStderr \<notin> set B"
    by (rule daemon_calls_report) blast
  with assms \<open>SysReport \<in> set xs\<close> show False by (auto simp: append_eq_append_conv2 Cons_eq_append_conv)
qed

lemma daemon_effect_next:
  assumes D: "daemon_calls env c = made @ a # as"
    and e: "daemon_effect (be_daemon env) ok a (handshake_at env made) = (out, hs')"
  shows "hs' = handshake_at env (made @ [a]) \<and>
         out = (if a = SysReport \<and> SysReport \<notin> set made \<and> ok then [0] else [])"
proof -
  have "a = SysReport \<Longrightarrow> SysD DDupStderr \<in> set made \<and> de_dup_err (be_daemon env) = Inr ()"
    using D report_after_redirect by blast
  moreover have "a = SysD DDupStderr \<Longrightarrow> SysReport \<notin> set made"
    using D redirect_before_report by blast
  ultimately show ?thesis
    using e by (auto simp: daemon_effect_def handshake_at_def report_success_def report_def handshake_new_def
        split: if_splits)
qed

section \<open>Invariant\<close>

fun daemon_inv :: "boot_env \<Rightarrow> server_config \<Rightarrow> syscall list \<Rightarrow> daemon_proc \<Rightarrow> bool" where
  "daemon_inv env c made DUnborn \<longleftrightarrow> made = []"
| "daemon_inv env c made (DAlive as hs) \<longleftrightarrow> daemon_calls env c = made @ as \<and> hs = handshake_at env made"
| "daemon_inv env c made DEnded \<longleftrightarrow> (\<exists>as. daemon_calls env c = made @ as)"

fun launcher_inv :: "launch \<Rightarrow> launcher_proc \<Rightarrow> bool" where
  "launcher_inv w (LExited s) \<longleftrightarrow> la_read_failed w \<or>
     (if SysReport \<in> set (la_done w) then s = 0 else s = 1 \<and> (la_daemon w = DEnded \<or> \<not> writers w))"
| "launcher_inv w _ \<longleftrightarrow> \<not> la_read_failed w \<and>
     (if SysReport \<in> set (la_done w) then la_pipe w = [0]
      else la_pipe w = [] \<or> la_daemon w = DEnded \<and> la_pipe w = [1])"

definition launch_inv :: "boot_env \<Rightarrow> server_config \<Rightarrow> launch \<Rightarrow> bool" where
  "launch_inv env c w \<longleftrightarrow> daemon_inv env c (la_done w) (la_daemon w) \<and> launcher_inv w (la_launcher w)"

lemma unwind_out: "unwind ok (handshake_at env made) =
    (if ok \<and> SysD DDupStderr \<in> set made \<and> de_dup_err (be_daemon env) = Inr () \<and> SysReport \<notin> set made then [1] else [])"
  by (simp add: unwind_def handshake_at_def handshake_drop_def)

lemma launch_step_inv:
  assumes "launch_step env c w w'" "launch_inv env c w"
  shows "launch_inv env c w'"
  using assms
proof cases
  case (launcher_reads b bs)
  then show ?thesis using assms(2) by (auto simp: launch_inv_def launcher_status_def split: if_splits)
next
  case launcher_eof
  then show ?thesis using assms(2) by (auto simp: launch_inv_def launcher_status_def writers_def split: if_splits)
next
  case (daemon_calls a as hs out hs')
  then have D: "daemon_calls env c = la_done w @ a # as" "hs = handshake_at env (la_done w)"
    using assms(2) by (auto simp: launch_inv_def)
  show ?thesis
    using daemon_calls daemon_effect_next[OF D(1) daemon_calls(3)[unfolded D(2)]] assms(2)
    by (cases "la_launcher w") (auto simp: launch_inv_def D writers_def split: if_splits)
next
  case (daemon_ends as hs)
  then show ?thesis using assms(2)
    by (cases "la_launcher w") (auto simp: launch_inv_def writers_def split: if_splits)
next
  case (daemon_unwinds as hs)
  then show ?thesis using assms(2)
    by (cases "la_launcher w") (auto simp: launch_inv_def writers_def unwind_out split: if_splits)
next
  case (middle_forks as)
  then show ?thesis using assms(2)
    by (cases "la_launcher w") (auto simp: launch_inv_def writers_def handshake_at_def split: if_splits)
next
  case (middle_calls a as)
  then show ?thesis using assms(2)
    by (cases "la_launcher w") (auto simp: launch_inv_def writers_def split: if_splits)
next
  case (middle_ends as)
  then show ?thesis using assms(2)
    by (cases "la_launcher w") (auto simp: launch_inv_def writers_def split: if_splits)
qed (auto simp: launch_inv_def split: if_splits)

lemma launch_reach_inv: "launch_reach env c w \<Longrightarrow> launch_inv env c w"
proof (induction rule: launch_reach.induct)
  case start
  show ?case by (simp add: launch_inv_def launch_init_def)
next
  case (step w w')
  then show ?case by (blast intro: launch_step_inv)
qed

section \<open>The status the launcher returns\<close>

lemma after_forks_suffix: "\<exists>u. t = u @ after_forks n t"
proof (induction n t rule: after_forks.induct)
  case (3 n a t)
  then show ?case by (cases "a = SysD DFork") (auto intro: exI[of _ "a # _"])
qed auto

lemma report_then_run:
  assumes "SysReport \<in> set (fst (startup env c))"
  shows "SysRun \<in> set (fst (startup env c))"
proof -
  have b: "SysReport \<notin> set (fst (bind_listeners env c'))" for c'
    using bind_listeners_binds[of env c'] by (auto simp: list_all_iff)
  have p: "SysReport \<notin> set (fst (privileged_steps env c))"
    using privileged_early by (auto simp: early_def)
  have d: "SysReport \<notin> set (fst (drop_privileges env c'))" for c'
    by (auto simp: drop_privileges_def and_then_mem split: option.splits)
  have s: "SysReport \<in> set (fst (serve_steps env h)) \<Longrightarrow> SysRun \<in> set (fst (serve_steps env h))" for h
    by (auto simp: serve_steps_def and_then_mem split: if_splits)
  show ?thesis
    using assms b p d s by (fastforce simp: startup_def and_then_mem split: if_splits)
qed

lemma startup_serve_parts:
  assumes "SysRun \<in> set (fst (startup env c))"
  obtains v x where "startup env c = (v @ (if sc_daemonize c then [SysReport] else []) @ [SysRun], Inr x)"
    "SysReport \<notin> set v" "SysRun \<notin> set v"
proof -
  obtain pre c' log th hs binds ls drops where k:
    "privileged_steps env c = (pre, Inr (c', log, th, hs))" "bind_listeners env c' = (binds, Inr ls)"
    "drop_privileges env c' = (drops, Inr ())"
    "startup env c = (pre @ binds @ drops @
       [SysSignals, SysServerNew] @ (if sc_daemonize c then [SysReport] else []) @ [SysRun],
       Inr \<lparr>br_config = c', br_listeners = ls, br_log = log, br_throttles = th\<rparr>)"
    by (rule startup_run_parts[OF assms])
  have "a \<notin> set (pre @ binds @ drops)" if "a = SysReport \<or> a = SysRun" for a
    using k(1-3) that privileged_early[of a env c] bind_listeners_binds[of env c'] drop_privileges_result[OF k(3)]
    by (auto simp: early_def list_all_iff split: option.splits)
  from this[of SysReport] this[of SysRun] k(4) show thesis
    by (intro that[of "pre @ binds @ drops @ [SysSignals, SysServerNew]"]) auto
qed

lemma reported_all_done:
  assumes D: "daemon_calls env c = made @ rest" and r: "SysReport \<in> set made"
  shows "\<exists>r. snd (startup (seen_by ForkChild ForkChild env) c) = Inr r \<and> set rest \<subseteq> {SysRun}"
proof -
  let ?e = "seen_by ForkChild ForkChild env"
  obtain u where u: "fst (startup ?e c) = u @ made @ rest"
    using after_forks_suffix[of "fst (startup ?e c)" 2] D by (auto simp: daemon_calls_def)
  then have run: "SysRun \<in> set (fst (startup ?e c))" using r by (intro report_then_run) simp
  obtain v x where t: "startup ?e c = (v @ (if sc_daemonize c then [SysReport] else []) @ [SysRun], Inr x)"
    and no: "SysReport \<notin> set v" by (rule startup_serve_parts[OF run])
  have "u @ made @ rest = v @ (if sc_daemonize c then [SysReport] else []) @ [SysRun]"
    using t u by simp
  then have "set rest \<subseteq> {SysRun}"
    using r no by (auto simp: append_eq_append_conv2 append_eq_Cons_conv Cons_eq_append_conv split: if_splits)
  with t show ?thesis by simp
qed

text \<open>
  C10. The exit status of the process that was started tells how the start went, whatever the order
  in which the processes run and whichever of them is killed or panics on the way: unless its read
  of the pipe is interrupted, it is 0 exactly when the daemon has made all calls of its startup, at
  most the entry into the event loop is left, and otherwise it is 1 and the daemon is gone.
\<close>

theorem launcher_status_tells_startup:
  assumes "launch_reach env c w" "la_launcher w = LExited s" "\<not> la_read_failed w"
  shows "s = 0 \<and> (\<exists>r rest. snd (startup (seen_by ForkChild ForkChild env) c) = Inr r \<and>
             daemon_calls env c = la_done w @ rest \<and> set rest \<subseteq> {SysRun}) \<or>
         s = 1 \<and> SysReport \<notin> set (la_done w) \<and> \<not> is_alive (la_daemon w)"
proof -
  have inv: "daemon_inv env c (la_done w) (la_daemon w)" "launcher_inv w (LExited s)"
    using launch_reach_inv[OF assms(1)] assms(2) by (simp_all add: launch_inv_def)
  show ?thesis
  proof (cases "SysReport \<in> set (la_done w)")
    case True
    then obtain rest where D: "daemon_calls env c = la_done w @ rest"
      using inv(1) by (cases "la_daemon w") auto
    with True show ?thesis using reported_all_done[OF D] inv(2) assms(3) by auto
  next
    case False
    with inv(2) assms(3) show ?thesis by (cases "la_daemon w") (auto simp: writers_def)
  qed
qed

section \<open>The launcher does not hang\<close>

fun launcher_size :: "launcher_proc \<Rightarrow> nat" where
  "launcher_size LForked = 2" | "launcher_size LReading = 1" | "launcher_size (LExited _) = 0"

fun daemon_size :: "nat \<Rightarrow> daemon_proc \<Rightarrow> nat" where
  "daemon_size n DUnborn = n + 2" | "daemon_size n (DAlive as _) = Suc (length as)" | "daemon_size n DEnded = 0"

definition launch_size :: "boot_env \<Rightarrow> server_config \<Rightarrow> launch \<Rightarrow> nat" where
  "launch_size env c w = launcher_size (la_launcher w) +
     (case la_middle w of None \<Rightarrow> 0 | Some as \<Rightarrow> Suc (length as)) +
     daemon_size (length (daemon_calls env c)) (la_daemon w)"

lemma launch_step_size: "launch_step env c w w' \<Longrightarrow> launch_size env c w' < launch_size env c w"
  by (induction rule: launch_step.induct) (simp_all add: launch_size_def)

lemma launch_run_size: "(launch_step env c ^^ n) w w' \<Longrightarrow> n + launch_size env c w' \<le> launch_size env c w"
proof (induction n arbitrary: w')
  case (Suc n)
  then obtain v where "(launch_step env c ^^ n) w v" "launch_step env c v w'" by auto
  with Suc.IH[of v] launch_step_size[of env c v w'] show ?case by simp
qed simp

lemma launch_run_reach:
  "(launch_step env c ^^ n) (launch_init env c) w \<Longrightarrow> first_fork_done env c \<Longrightarrow> launch_reach env c w"
  by (induction n arbitrary: w) (auto intro: launch_reach.intros)

text \<open>The process in the middle forks at most once, so that it is not kept from its call.\<close>

lemma after_forks_count: "count_list (after_forks n t) (SysD DFork) = count_list t (SysD DFork) - n"
  by (induction n t rule: after_forks.induct) auto

lemma count_SysD: "count_list (map SysD t) (SysD d) = count_list t d"
  by (induction t) auto

lemma daemonize_forks: "count_list (fst (daemonize_with_handshake d keep)) DFork \<le> 2"
  by (auto simp: daemon_defs Let_def split: sum.splits fork_result.splits if_splits prod.splits)

lemma startup_forks: "count_list (fst (startup env c)) (SysD DFork) \<le> 2"
proof -
  have none: "count_list (fst (boot_front env c)) (SysD DFork) = 0"
    "count_list (fst (write_pidfile f c)) (SysD DFork) = 0" "count_list (fst (boot_back env c log th hs)) (SysD DFork) = 0" for log th hs f
    by (simp_all add: count_list_0_iff front_calls boot_calls_not_daemon back_calls)
  have "count_list (fst (daemonize_step env c log)) (SysD DFork) \<le> 2" for log
    using daemonize_forks[of "be_daemon env" "is_stdout log"]
    by (auto simp: daemonize_step_def fst_and_then count_SysD none split: prod.splits proc_result.splits sum.splits)
  then show ?thesis
    by (auto simp: startup_parts fst_and_then none split: sum.splits prod.splits)
qed

definition middle_inv :: "boot_env \<Rightarrow> server_config \<Rightarrow> launch \<Rightarrow> bool" where
  "middle_inv env c w \<longleftrightarrow> (\<forall>as. la_middle w = Some as \<longrightarrow>
     (\<exists>ys. middle_calls env c = ys @ as \<and> (la_daemon w \<noteq> DUnborn \<longrightarrow> SysD DFork \<in> set ys)))"

lemma middle_step_inv: "launch_step env c w w' \<Longrightarrow> middle_inv env c w \<Longrightarrow> middle_inv env c w'"
proof (induction rule: launch_step.induct)
  case (middle_forks w as)
  then obtain ys where "middle_calls env c = ys @ SysD DFork # as" by (auto simp: middle_inv_def)
  then show ?case by (auto simp: middle_inv_def intro!: exI[of _ "ys @ [SysD DFork]"])
next
  case (middle_calls w a as)
  then obtain ys where "middle_calls env c = ys @ a # as" "la_daemon w \<noteq> DUnborn \<longrightarrow> SysD DFork \<in> set ys" by (auto simp: middle_inv_def)
  then show ?case by (auto simp: middle_inv_def intro!: exI[of _ "ys @ [a]"])
qed (auto simp: middle_inv_def)

lemma middle_reach_inv: "launch_reach env c w \<Longrightarrow> middle_inv env c w"
proof (induction rule: launch_reach.induct)
  case start
  show ?case by (auto simp: middle_inv_def launch_init_def)
qed (blast intro: middle_step_inv)

lemma middle_not_kept:
  assumes "middle_inv env c w" "la_middle w = Some (SysD DFork # as)"
  shows "la_daemon w = DUnborn"
proof (rule ccontr)
  assume "la_daemon w \<noteq> DUnborn"
  then obtain ys where y: "middle_calls env c = ys @ SysD DFork # as" "SysD DFork \<in> set ys" using assms by (auto simp: middle_inv_def)
  have "count_list (middle_calls env c) (SysD DFork) \<le> 1"
    using startup_forks[of "seen_by ForkChild ForkParent env" c] unfolding middle_calls_def after_forks_count by simp
  moreover have "0 < count_list ys (SysD DFork)" using y(2) by (simp add: count_list_0_iff flip: neq0_conv)
  ultimately show False by (simp add: y(1))
qed

text \<open>The daemon reports before it enters the event loop.\<close>

lemma after_forks_last: "after_forks (Suc n) t \<noteq> [] \<Longrightarrow> \<exists>u. t = u @ SysD DFork # after_forks (Suc n) t"
proof (induction "Suc n" t arbitrary: n rule: after_forks.induct)
  case (3 n a t)
  show ?case
  proof (cases "a = SysD DFork")
    case True
    show ?thesis
    proof (cases n)
      case 0
      then show ?thesis using True by (intro exI[of _ "[]"]) simp
    next
      case (Suc m)
      then obtain u where "t = u @ SysD DFork # after_forks n t" using 3(1)[OF True Suc] 3(3) True by auto
      then show ?thesis using True by (intro exI[of _ "a # u"]) simp
    qed
  next
    case False
    then obtain u where "t = u @ SysD DFork # after_forks (Suc n) t" using 3 by auto
    then show ?thesis using False by (intro exI[of _ "a # u"]) simp
  qed
qed simp

lemma report_before_run:
  assumes "daemon_calls env c = made @ rest" "SysRun \<in> set made"
  shows "SysReport \<in> set made"
proof -
  let ?e = "seen_by ForkChild ForkChild env" and ?t = "fst (startup (seen_by ForkChild ForkChild env) c)"
  have af: "after_forks (Suc 1) ?t = made @ rest" using assms(1) by (simp add: daemon_calls_def numeral_2_eq_2)
  moreover have "made @ rest \<noteq> []" using assms(2) by auto
  ultimately obtain u where u: "?t = u @ SysD DFork # made @ rest" using after_forks_last[of 1 ?t] by auto
  then have run: "SysRun \<in> set ?t" using assms(2) by simp
  have dm: "sc_daemonize c"
  proof (rule ccontr)
    assume "\<not> sc_daemonize c"
    then have "SysD DFork \<notin> set ?t"
      by (auto simp: startup_parts and_then_mem front_calls back_calls daemonize_step_def split: prod.splits)
    then show False using u by simp
  qed
  obtain v x where "startup ?e c = (v @ (if sc_daemonize c then [SysReport] else []) @ [SysRun], Inr x)" "SysRun \<notin> set v"
    by (rule startup_serve_parts[OF run])
  then have t: "u @ SysD DFork # made @ rest = (v @ [SysReport]) @ [SysRun]" "SysRun \<notin> set v" using u dm by simp_all
  have "rest = []"
  proof (rule ccontr)
    assume "rest \<noteq> []"
    then have "butlast (u @ SysD DFork # made @ rest) = u @ SysD DFork # made @ butlast rest" by (simp add: butlast_append)
    then have "v @ [SysReport] = u @ SysD DFork # made @ butlast rest" using t(1) by (metis butlast_snoc)
    then have "SysRun \<in> set (v @ [SysReport])" using assms(2) by simp
    then show False using t(2) by simp
  qed
  moreover have "made \<noteq> []" using assms(2) by auto
  ultimately have "u @ SysD DFork # butlast made = v @ [SysReport]" using t(1) by (metis append_Nil2 append_butlast_last_id append_Cons append.assoc butlast_snoc)
  then have "last (SysD DFork # butlast made) = SysReport" by (metis last_appendR last_snoc list.distinct(1))
  then have "butlast made \<noteq> [] \<and> last (butlast made) = SysReport" by (auto split: if_splits)
  then show ?thesis using last_in_set in_set_butlastD by metis
qed

text \<open>As long as the launcher has not ended, some process has a step to take by its program.\<close>

lemma daemon_goes_on:
  assumes "launch_inv env c w" "la_launcher w = LReading" "la_pipe w = []" "la_daemon w = DAlive as hs"
  shows "\<exists>w'. launch_own env c w w'"
proof (cases as)
  case (Cons a xs)
  obtain out hs' where "daemon_effect (be_daemon env) (\<not> has_exited (la_launcher w)) a hs = (out, hs')" by fastforce
  from launch_step.daemon_calls[OF _ this] assms(4) Cons show ?thesis unfolding launch_own_def by fastforce
next
  case Nil
  have "SysRun \<notin> set (la_done w)"
  proof
    assume "SysRun \<in> set (la_done w)"
    then have "SysReport \<in> set (la_done w)" using report_before_run assms(1,4) by (auto simp: launch_inv_def)
    then show False using assms(1-3) by (simp add: launch_inv_def)
  qed
  then show ?thesis using daemon_ends[OF assms(4), of env c] assms(4) Nil unfolding launch_own_def by fastforce
qed

lemma launch_can_go_on:
  assumes "launch_inv env c w" "middle_inv env c w" "\<not> has_exited (la_launcher w)"
  shows "\<exists>w'. launch_own env c w w'"
proof (cases "la_launcher w")
  case LForked
  then show ?thesis using launcher_closes[of w env c] unfolding launch_own_def by fastforce
next
  case LReading
  consider (read) b bs where "la_pipe w = b # bs" | (eof) "la_pipe w = []" "\<not> writers w"
    | (middle) as where "la_middle w = Some as" | (daemon) as hs where "la_pipe w = []" "la_daemon w = DAlive as hs"
    by (cases "la_pipe w"; cases "la_daemon w") (auto simp: writers_def)
  then show ?thesis
  proof cases
    case read
    then show ?thesis using launcher_reads[OF LReading read, of env c] unfolding launch_own_def by fastforce
  next
    case eof
    then show ?thesis using launcher_eof[OF LReading eof, of env c] unfolding launch_own_def by fastforce
  next
    case middle
    show ?thesis
    proof (cases as)
      case Nil
      then show ?thesis using middle middle_ends[OF middle, of env c] unfolding launch_own_def by fastforce
    next
      case (Cons a xs)
      show ?thesis
      proof (cases "a = SysD DFork \<and> second_fork_ok env")
        case True
        then have "la_daemon w = DUnborn" using middle_not_kept[OF assms(2)] middle Cons by simp
        then show ?thesis using True middle Cons middle_forks[of w xs env c] unfolding launch_own_def by fastforce
      next
        case False
        then show ?thesis using middle Cons middle_calls[of w a xs env c] unfolding launch_own_def by fastforce
      qed
    qed
  next
    case daemon
    then show ?thesis using daemon_goes_on[OF assms(1) LReading] by blast
  qed
qed (use assms(3) in simp)

text \<open>
  C36. The process that was started does not hang. A start takes at most as many steps as its three
  programs have calls and five more. Whatever happened before, processes that were killed included:
  as long as the process that was started has not ended, some process has a step to take by its own
  program (the end of a daemon that serves is none), so that once no such step is left it has
  ended; and it never waits for a daemon that has entered the event loop without a report in the pipe.
\<close>

theorem launcher_does_not_hang:
  assumes "first_fork_done env c" "(launch_step env c ^^ n) (launch_init env c) w"
  shows "n \<le> length (middle_calls env c) + length (daemon_calls env c) + 5 \<and>
    ((\<forall>w'. \<not> launch_own env c w w') \<longrightarrow> has_exited (la_launcher w)) \<and>
    (\<not> has_exited (la_launcher w) \<and> SysRun \<in> set (la_done w) \<longrightarrow> la_pipe w \<noteq> [])"
proof -
  have reach: "launch_reach env c w" using launch_run_reach assms by blast
  have inv: "launch_inv env c w" "middle_inv env c w" using launch_reach_inv[OF reach] middle_reach_inv[OF reach] .
  have "n \<le> length (middle_calls env c) + length (daemon_calls env c) + 5"
    using launch_run_size[OF assms(2)] by (simp add: launch_size_def launch_init_def)
  moreover have "la_pipe w \<noteq> []" if "\<not> has_exited (la_launcher w)" "SysRun \<in> set (la_done w)"
  proof -
    have "SysReport \<in> set (la_done w)"
      using inv(1) that(2) report_before_run by (cases "la_daemon w") (auto simp: launch_inv_def)
    then show ?thesis using inv(1) that(1) by (cases "la_launcher w") (auto simp: launch_inv_def)
  qed
  ultimately show ?thesis using launch_can_go_on[OF inv] by blast
qed

section \<open>A start that succeeds\<close>

text \<open>The daemon may make its calls one after the other, and the launcher then reads their result.\<close>

lemma daemon_can_run:
  assumes "launch_reach env c w" "la_daemon w = DAlive (as @ bs) hs"
  shows "\<exists>w' hs'. launch_reach env c w' \<and> la_done w' = la_done w @ as \<and> la_daemon w' = DAlive bs hs' \<and>
    la_launcher w' = la_launcher w"
  using assms
proof (induction as arbitrary: w hs)
  case (Cons a as)
  obtain out hs' where e: "daemon_effect (be_daemon env) (\<not> has_exited (la_launcher w)) a hs = (out, hs')"
    by fastforce
  let ?w = "w\<lparr>la_pipe := la_pipe w @ out, la_daemon := DAlive (as @ bs) hs', la_done := la_done w @ [a]\<rparr>"
  have "launch_reach env c ?w"
    using launch_reach.step[OF Cons.prems(1) launch_step.daemon_calls[OF _ e]] Cons.prems(2) by simp
  from Cons.IH[OF this, of hs'] show ?case by simp
qed (use assms in auto)

lemma middle_can_call:
  assumes "launch_reach env c w" "la_middle w = Some (a # as)" "a \<noteq> SysD DFork"
  shows "launch_reach env c (w\<lparr>la_middle := Some as\<rparr>)"
  using launch_reach.step[OF assms(1) launch_step.middle_calls[OF assms(2)]] assms(3) by simp

lemma launch_can_succeed:
  assumes "first_fork_done env c" "second_fork_ok env"
    and m: "middle_calls env c = [SysD DDropRead, SysD DSetsid, SysD DFork]"
    and r: "SysReport \<in> set (daemon_calls env c)"
  shows "\<exists>w. launch_reach env c w \<and> la_launcher w = LExited 0 \<and> \<not> la_read_failed w"
proof -
  have r0: "launch_reach env c (launch_init env c)" using assms(1) by (rule launch_reach.start)
  let ?w1 = "(launch_init env c)\<lparr>la_launcher := LReading\<rparr>"
  have r1: "launch_reach env c ?w1"
    by (rule launch_reach.step[OF r0 launcher_closes]) (simp add: launch_init_def)
  let ?w2 = "?w1\<lparr>la_middle := Some [SysD DSetsid, SysD DFork]\<rparr>"
  have r2: "launch_reach env c ?w2"
    by (rule middle_can_call[OF r1, of "SysD DDropRead"]) (simp_all add: launch_init_def m)
  let ?w3 = "?w2\<lparr>la_middle := Some [SysD DFork]\<rparr>"
  have r3: "launch_reach env c ?w3"
    by (rule middle_can_call[OF r2, of "SysD DSetsid"]) simp_all
  let ?w4 = "?w3\<lparr>la_middle := Some [], la_daemon := DAlive (daemon_calls env c) None\<rparr>"
  have r4: "launch_reach env c ?w4"
    by (rule launch_reach.step[OF r3 middle_forks]) (simp_all add: launch_init_def assms(2))
  obtain w hs where w: "launch_reach env c w" "la_done w = daemon_calls env c" "la_launcher w = LReading"
    using daemon_can_run[OF r4, of "daemon_calls env c" "[]"] by (auto simp: launch_init_def)
  have p: "la_pipe w = [0]" "\<not> la_read_failed w"
    using launch_reach_inv[OF w(1)] w(2,3) r by (auto simp: launch_inv_def)
  show ?thesis
    using launch_reach.step[OF w(1) launcher_reads[OF w(3) p(1)]] p(2)
    by (intro exI conjI) (assumption, simp_all add: launcher_status_def)
qed

theorem launcher_status_tells_startup_witness:
  "\<exists>w r rest. launch_reach example_env example_config w \<and> la_launcher w = LExited 0 \<and>
     snd (startup (seen_by ForkChild ForkChild example_env) example_config) = Inr r \<and>
     daemon_calls example_env example_config = la_done w @ rest \<and> set rest \<subseteq> {SysRun}"
proof -
  have "first_fork_done example_env example_config" "second_fork_ok example_env"
    "middle_calls example_env example_config = [SysD DDropRead, SysD DSetsid, SysD DFork]"
    "SysReport \<in> set (daemon_calls example_env example_config)"
    by code_simp+
  from launch_can_succeed[OF this] obtain w where
    w: "launch_reach example_env example_config w" "la_launcher w = LExited 0" "\<not> la_read_failed w" by blast
  from launcher_status_tells_startup[OF this] w(1,2) show ?thesis by auto
qed

theorem launcher_does_not_hang_witness:
  "first_fork_done example_env example_config \<and>
   (launch_step example_env example_config ^^ 0) (launch_init example_env example_config)
      (launch_init example_env example_config) \<and>
   (\<exists>w'. launch_own example_env example_config (launch_init example_env example_config) w')"
proof -
  have f: "first_fork_done example_env example_config" by code_simp
  have z: "(launch_step example_env example_config ^^ 0) (launch_init example_env example_config)
      (launch_init example_env example_config)" by simp
  have "\<not> has_exited (la_launcher (launch_init example_env example_config))" by (simp add: launch_init_def)
  with f z launcher_does_not_hang[OF f z] show ?thesis by blast
qed

end
