(* ===== verification/Conn_Table.thy ===== *)
theory Conn_Table
  imports Http_Response Throttle_Table Timer_Wheel Mmap_Cache Access_Log Fd_Watch Basic_Auth
    Dir_Listing Cgi_Env "HOL-Library.AList"
begin

text \<open>
  The connection table and the server state of \<open>crates/thttpd-core/src/connection.rs\<close> and
  \<open>server.rs\<close>, and the transitions of a connection in \<open>eventloop.rs\<close> that the request handlers end
  in: \<open>transition_to_sending\<close>, \<open>transition_to_lingering\<close> and \<open>close_connection\<close>.

  The slab is an association list from its keys. A stream is present or absent; what the kernel
  does on it is part of the environment \<open>env\<close> of a handler call, with the clocks, the file system
  and the other services. The registry of mio is the map from tokens to interests that the
  successful calls leave: \<open>register\<close> fails on a token that is registered, \<open>reregister\<close> and
  \<open>deregister\<close> on one that is not, and any of them when the system refuses (\<open>ev_reg_ok\<close>).
\<close>

section \<open>State\<close>

record conn_throttle =
  ct_tnums :: "nat list"
  ct_max_limit :: int
  ct_min_limit :: int
  ct_header_len :: nat
  ct_body_bytes :: int
  ct_started_at :: "int option"
  ct_active_at :: "int option"
  ct_pause_until :: "int option"
  ct_checked :: bool

definition conn_throttle_new :: conn_throttle where
  "conn_throttle_new =
     \<lparr>ct_tnums = [], ct_max_limit = -1, ct_min_limit = -1, ct_header_len = 0, ct_body_bytes = 0,
      ct_started_at = None, ct_active_at = None, ct_pause_until = None, ct_checked = False\<rparr>"

definition is_throttled :: "conn_throttle \<Rightarrow> bool" where
  "is_throttled t \<longleftrightarrow> ct_tnums t \<noteq> []"

definition conn_throttle_reset :: "conn_throttle \<Rightarrow> conn_throttle" where
  "conn_throttle_reset t =
     t\<lparr>ct_tnums := [], ct_max_limit := -1, ct_min_limit := -1, ct_header_len := 0, ct_body_bytes := 0,
       ct_started_at := None, ct_active_at := None, ct_pause_until := None, ct_checked := False\<rparr>"

text \<open>A peer address is its text with the port and the text of its IP address.\<close>

record peer =
  pa_text :: string
  pa_ip :: string

record conn_slot =
  cs_state :: conn_state
  cs_stream :: bool
  cs_http :: http_conn
  cs_peer_addr :: "peer option"
  cs_throttle :: conn_throttle
  cs_is_cgi :: bool
  cs_pending_cgi_body :: bool

definition conn_slot_new :: conn_slot where
  "conn_slot_new =
     \<lparr>cs_state = Free, cs_stream = False, cs_http = http_conn_new, cs_peer_addr = None,
      cs_throttle = conn_throttle_new, cs_is_cgi = False, cs_pending_cgi_body = False\<rparr>"

definition slot_is_free :: "conn_slot \<Rightarrow> bool" where
  "slot_is_free c \<longleftrightarrow> cs_state c = Free"

record server_stats =
  ss_connections :: nat
  ss_requests :: nat
  ss_bytes_sent :: nat

datatype interest = Readable | Writable

record server =
  sv_config :: server_config
  sv_registry :: "(nat \<times> interest) list"
  sv_timers :: "string timer_wheel"
  sv_mmc :: mmap_cache
  sv_stats :: server_stats
  sv_conns :: "(nat \<times> conn_slot) list"
  sv_listeners :: nat
  sv_throttles :: "throttle_table option"
  sv_access_log :: log_target
  sv_log_out :: "log_write list"
  sv_active_cgis :: int
  sv_draining :: bool

definition server_new :: "server_config \<Rightarrow> nat \<Rightarrow> log_target \<Rightarrow> server" where
  "server_new config listeners access_log =
     \<lparr>sv_config = config, sv_registry = [], sv_timers = wheel_new, sv_mmc = mmc_new,
      sv_stats = \<lparr>ss_connections = 0, ss_requests = 0, ss_bytes_sent = 0\<rparr>, sv_conns = [],
      sv_listeners = listeners, sv_throttles = None, sv_access_log = access_log, sv_log_out = [],
      sv_active_cgis = 0, sv_draining = False\<rparr>"

definition cgi_limit :: "server \<Rightarrow> int" where
  "cgi_limit s = (case sc_cgi_limit (sv_config s) of Some n \<Rightarrow> n | None \<Rightarrow> 50)"

section \<open>The environment of a handler call\<close>

datatype read_result = ReadOk string | ReadWouldBlock | ReadErr
datatype write_result = WriteOk nat | WriteWouldBlock | WriteErr
datatype fs_error = FsNotFound | FsOther

record env =
  ev_now :: int
  ev_unix :: int
  ev_local :: local_time
  ev_reg_ok :: bool
  ev_read :: read_result
  ev_write :: write_result
  ev_exists :: "string \<Rightarrow> bool"
  ev_is_dir :: "string \<Rightarrow> bool"
  ev_canonicalize :: "string \<Rightarrow> string option"
  ev_metadata :: "string \<Rightarrow> fs_error + file_stat"
  ev_open :: "string \<Rightarrow> open_file option"
  ev_dir :: "string \<Rightarrow> dir_item option list option"
  ev_read_file :: "string \<Rightarrow> string option"
  ev_b64 :: "string \<Rightarrow> string option"
  ev_crypt :: "string \<Rightarrow> string \<Rightarrow> string option"
  ev_lower :: "string \<Rightarrow> string"
  ev_hostname :: "string option"
  ev_cwd :: "string option"
  ev_spawn :: "cgi_command \<Rightarrow> (string \<times> string) option"

section \<open>Access to the table\<close>

definition conn_at :: "server \<Rightarrow> nat \<Rightarrow> conn_slot option" where
  "conn_at s k = map_of (sv_conns s) k"

definition upd_conn :: "nat \<Rightarrow> (conn_slot \<Rightarrow> conn_slot) \<Rightarrow> server \<Rightarrow> server" where
  "upd_conn k f s = s\<lparr>sv_conns := AList.map_entry k f (sv_conns s)\<rparr>"

abbreviation upd_http :: "nat \<Rightarrow> (http_conn \<Rightarrow> http_conn) \<Rightarrow> server \<Rightarrow> server" where
  "upd_http k f \<equiv> upd_conn k (\<lambda>c. c\<lparr>cs_http := f (cs_http c)\<rparr>)"

abbreviation upd_throttle :: "nat \<Rightarrow> (conn_throttle \<Rightarrow> conn_throttle) \<Rightarrow> server \<Rightarrow> server" where
  "upd_throttle k f \<equiv> upd_conn k (\<lambda>c. c\<lparr>cs_throttle := f (cs_throttle c)\<rparr>)"

definition reg_register :: "env \<Rightarrow> nat \<Rightarrow> interest \<Rightarrow> server \<Rightarrow> server \<times> bool" where
  "reg_register e k i s =
     (if ev_reg_ok e \<and> map_of (sv_registry s) (conn_token k) = None
      then (s\<lparr>sv_registry := AList.update (conn_token k) i (sv_registry s)\<rparr>, True)
      else (s, False))"

definition reg_reregister :: "env \<Rightarrow> nat \<Rightarrow> interest \<Rightarrow> server \<Rightarrow> server" where
  "reg_reregister e k i s =
     (if ev_reg_ok e \<and> map_of (sv_registry s) (conn_token k) \<noteq> None
      then s\<lparr>sv_registry := AList.update (conn_token k) i (sv_registry s)\<rparr>
      else s)"

definition reg_deregister :: "env \<Rightarrow> nat \<Rightarrow> server \<Rightarrow> server" where
  "reg_deregister e k s =
     (if ev_reg_ok e then s\<lparr>sv_registry := AList.delete (conn_token k) (sv_registry s)\<rparr> else s)"

text \<open>Dropping a stream closes its descriptor, which leaves the poll with it.\<close>

definition drop_stream :: "nat \<Rightarrow> server \<Rightarrow> server" where
  "drop_stream k s = s\<lparr>sv_registry := AList.delete (conn_token k) (sv_registry s)\<rparr>"

section \<open>Responses\<close>

definition url_form :: "string \<Rightarrow> string \<Rightarrow> string" where
  "url_form before after = before @ [CHR 0x27] @ ''%.80s'' @ [CHR 0x27] @ after @ [LF]"

definition bad_syntax_form :: string where
  "bad_syntax_form = ''Your request has bad syntax or is inherently impossible to satisfy.'' @ [LF]"

definition not_found_form :: string where
  "not_found_form = url_form ''The requested URL '' '' was not found on this server.''"

definition internal_form :: string where
  "internal_form = url_form ''There was an unusual problem serving the requested URL '' ''.''"

definition bandwidth_form :: string where
  "bandwidth_form = url_form ''The requested URL '' '' is temporarily over its bandwidth limit.''"

definition build_error_response :: "nat \<Rightarrow> string \<Rightarrow> string \<Rightarrow> string option \<Rightarrow> string" where
  "build_error_response status_code status_text extra user_agent =
     (let body = error_page status_code status_text bad_syntax_form extra user_agent
      in rb_build (rb_set_body body
           (rb_header ''Content-Length'' (dec_nat (length body))
             (rb_header ''Content-Type'' ''text/html''
               (rb_status status_code status_text rb_new)))))"

text \<open>A header block and an entity body; HTTP/0.9 gets the body alone.\<close>

definition with_body :: "http_conn \<Rightarrow> string \<Rightarrow> string \<Rightarrow> string" where
  "with_body http response body = (if h_mime_flag http then response @ body else body)"

definition full_error :: "env \<Rightarrow> http_conn \<Rightarrow> nat \<Rightarrow> string \<Rightarrow> string \<Rightarrow> string \<Rightarrow> header_list \<Rightarrow> string" where
  "full_error e http status title form arg extra_headers =
     with_body http (build_full_response (ev_unix e) http status title ''text/html'' (-1) 0 extra_headers)
       (error_page status title form arg (Some (h_user_agent http)))"

definition set_response :: "string \<Rightarrow> http_conn \<Rightarrow> http_conn" where
  "set_response r http = http\<lparr>h_response := r, h_response_len := length r\<rparr>"

section \<open>Transitions\<close>

definition throttle_match_path :: "string \<Rightarrow> string" where
  "throttle_match_path path = (case strip_prefix ''/'' path of Some p \<Rightarrow> p | None \<Rightarrow> path)"

text \<open>The admission check against the table of the server, if it has one.\<close>

definition admit_request :: "server \<Rightarrow> string \<Rightarrow> server \<times> throttle_decision" where
  "admit_request s path =
     (case sv_throttles s of
        None \<Rightarrow> (s, Unlimited)
      | Some es \<Rightarrow>
          (case check_request es (throttle_match_path path) of
             (es', d) \<Rightarrow> (s\<lparr>sv_throttles := Some es'\<rparr>, d)))"

definition fill_header_len :: "conn_slot \<Rightarrow> conn_slot" where
  "fill_header_len c =
     (if \<not> cs_is_cgi c \<and> h_mime_flag (cs_http c) \<and> h_response_header_len (cs_http c) = 0
      then (case header_end_offset (h_response (cs_http c)) of
              Some n \<Rightarrow> c\<lparr>cs_http := (cs_http c)\<lparr>h_response_header_len := n\<rparr>\<rparr>
            | None \<Rightarrow> c)
      else c)"

definition start_clock :: "env \<Rightarrow> conn_slot \<Rightarrow> conn_slot" where
  "start_clock e c =
     c\<lparr>cs_throttle := (cs_throttle c)\<lparr>ct_header_len := h_response_header_len (cs_http c),
        ct_started_at := Some (ev_now e), ct_active_at := Some (ev_now e)\<rparr>\<rparr>"

definition apply_decision :: "env \<Rightarrow> string \<Rightarrow> throttle_decision \<Rightarrow> conn_slot \<Rightarrow> conn_slot" where
  "apply_decision e filename d c =
     (case d of
        Unlimited \<Rightarrow> c
      | Allow tnums max_limit min_limit \<Rightarrow>
          start_clock e (c\<lparr>cs_throttle := (cs_throttle c)\<lparr>ct_tnums := tnums,
             ct_max_limit := max_limit, ct_min_limit := min_limit\<rparr>\<rparr>)
      | Reject \<Rightarrow>
          (let http = cs_http c;
               r = full_error e http 503 ''Service Unavailable'' bandwidth_form filename []
           in c\<lparr>cs_http := (set_response r http)\<lparr>h_status_code := 503,
                  h_response_header_len :=
                    (case header_end_offset r of Some n \<Rightarrow> n | None \<Rightarrow> 0)\<rparr>\<rparr>))"

definition begin_sending :: "conn_slot \<Rightarrow> conn_slot" where
  "begin_sending c = c\<lparr>cs_state := Sending, cs_http := (cs_http c)\<lparr>h_bytes_sent := 0\<rparr>\<rparr>"

definition transition_to_sending :: "env \<Rightarrow> server \<Rightarrow> nat \<Rightarrow> server" where
  "transition_to_sending e s k =
     (case conn_at s k of
        None \<Rightarrow> s
      | Some c \<Rightarrow>
          (let filename = h_orig_filename (cs_http c);
               already_checked = ct_checked (cs_throttle c);
               s1 = upd_conn k fill_header_len s;
               (s2, d) = (if \<not> cs_is_cgi c \<and> \<not> already_checked
                          then admit_request s1 filename else (s1, Unlimited));
               s3 = upd_conn k begin_sending s2;
               s4 = (if already_checked \<and> is_throttled (cs_throttle c)
                     then upd_conn k (start_clock e) s3 else s3);
               s5 = upd_conn k (apply_decision e filename d) s4;
               s6 = (if cs_stream c then reg_reregister e k Writable s5 else s5)
           in s6\<lparr>sv_stats := (sv_stats s6)\<lparr>ss_requests := ss_requests (sv_stats s6) + 1\<rparr>\<rparr>))"

definition transition_to_lingering :: "env \<Rightarrow> server \<Rightarrow> nat \<Rightarrow> server" where
  "transition_to_lingering e s k =
     (case conn_at s k of
        None \<Rightarrow> s
      | Some c \<Rightarrow>
          (let s1 = upd_conn k (\<lambda>c. c\<lparr>cs_state := Lingering,
                      cs_http := (cs_http c)\<lparr>h_file_address := None\<rparr>\<rparr>) s;
               s2 = (case h_file_address (cs_http c) of
                       Some m \<Rightarrow> s1\<lparr>sv_mmc := mmc_unmap (sv_mmc s1) m\<rparr>
                     | None \<Rightarrow> s1)
           in if cs_stream c then reg_reregister e k Readable s2 else s2))"

definition status_code_from_response :: "string \<Rightarrow> nat option" where
  "status_code_from_response response =
     (case find_str crlf response of
        None \<Rightarrow> None
      | Some first_line_end \<Rightarrow>
          (let first_line = take first_line_end response in
           if \<not> valid_utf8 first_line then None
           else case split_whitespace first_line of
                  [] \<Rightarrow> None
                | protocol # parts \<Rightarrow>
                    if \<not> starts_with ''HTTP/'' protocol then None
                    else case parts of [] \<Rightarrow> None | code # _ \<Rightarrow> parse_u16 code))"

definition logged_status_code :: "http_conn \<Rightarrow> nat" where
  "logged_status_code http =
     (if 0 < h_status_code http then h_status_code http
      else case status_code_from_response (h_response http) of Some n \<Rightarrow> n | None \<Rightarrow> 0)"

definition conn_log_entry :: "conn_slot \<Rightarrow> log_entry" where
  "conn_log_entry c =
     (let http = cs_http c in
      \<lparr>le_remote_addr =
         (if h_x_forwarded_for http \<noteq> [] then h_x_forwarded_for http
          else case cs_peer_addr c of Some a \<Rightarrow> pa_ip a | None \<Rightarrow> ''-''),
       le_remote_user = ''-'', le_method = method_str (h_method http), le_url = h_encoded_url http,
       le_protocol = (if h_mime_flag http then h_http_version http else []),
       le_status = logged_status_code http,
       le_bytes_sent = entity_bytes_sent (h_bytes_sent http) (h_response_header_len http),
       le_referer = h_referer http, le_user_agent = h_user_agent http\<rparr>)"

definition close_connection :: "env \<Rightarrow> server \<Rightarrow> nat \<Rightarrow> server" where
  "close_connection e s k =
     (case conn_at s k of
        None \<Rightarrow> s
      | Some c \<Rightarrow>
          (let s1 = (if 0 < logged_status_code (cs_http c)
                     then (case log_request (ev_local e) (sv_access_log s) (conn_log_entry c) of
                             Some w \<Rightarrow> s\<lparr>sv_log_out := sv_log_out s @ [w]\<rparr>
                           | None \<Rightarrow> s)
                     else s);
               s2 = (if is_throttled (cs_throttle c)
                     then s1\<lparr>sv_throttles :=
                            map_option (\<lambda>es. throttle_clear es (ct_tnums (cs_throttle c)))
                              (sv_throttles s1)\<rparr>
                     else s1);
               s3 = (if cs_stream c then drop_stream k (reg_deregister e k s2) else s2)
           in s3\<lparr>sv_conns := AList.delete k (sv_conns s3)\<rparr>))"

end
