(* ===== verification/Request_Handling.thy ===== *)
theory Request_Handling
  imports Conn_Table Url_Path
begin

text \<open>
  The analysis of a complete request: \<open>extract_header\<close> and the phases of \<open>process_request\<close> in
  \<open>crates/thttpd-core/src/eventloop.rs\<close>, from the request line to the decision between an error
  response, a CGI script and a static file. Up to that decision the source only updates the
  \<open>HttpConn\<close> of the connection, so the phases are functions on it, and \<open>request_outcome\<close> composes
  them in the order of the source.
\<close>

section \<open>Headers\<close>

text \<open>
  \<open>line.to_lowercase().starts_with(p)\<close> for a lower-case ASCII \<open>p\<close> that ends in a colon. Beside the
  ASCII letters, the one character whose lower case is an ASCII letter alone is the Kelvin sign
  U+212A (a k).
\<close>

definition kelvin_sign :: string where
  "kelvin_sign = [CHR 0xE2, CHR 0x84, CHR 0xAA]"

fun lower_prefix :: "string \<Rightarrow> string \<Rightarrow> bool" where
  "lower_prefix [] l = True"
| "lower_prefix (c # cs) [] = False"
| "lower_prefix (c # cs) (x # xs) =
     (if ascii_lower x = c then lower_prefix cs xs
      else if c = CHR ''k'' \<and> starts_with kelvin_sign (x # xs) then lower_prefix cs (drop 2 xs)
      else False)"

definition extract_header :: "string \<Rightarrow> string \<Rightarrow> string option" where
  "extract_header headers name =
     (let search = name @ '':'' in
      map_option (\<lambda>line. trim (drop (length search) line))
        (List.find (lower_prefix (to_ascii_lowercase search)) (lines_of (from_utf8_lossy headers))))"

definition header_bytes :: "string \<Rightarrow> string" where
  "header_bytes buf = (case find_byte LF buf of Some p \<Rightarrow> drop (p + 1) buf | None \<Rightarrow> buf)"

section \<open>The request line\<close>

definition request_words :: "string \<Rightarrow> string list" where
  "request_words buf =
     (let request_line_end = (case find_byte CR buf of Some p \<Rightarrow> p | None \<Rightarrow> length buf)
      in split_whitespace (from_utf8_lossy (take request_line_end buf)))"

definition split_query :: "http_conn \<Rightarrow> http_conn" where
  "split_query http =
     (case find_byte (CHR ''?'') (h_decoded_url http) of
        Some qpos \<Rightarrow> http\<lparr>h_query := drop (qpos + 1) (h_decoded_url http),
                         h_decoded_url := take qpos (h_decoded_url http)\<rparr>
      | None \<Rightarrow> http)"

definition request_line_fields :: "string \<Rightarrow> http_method \<Rightarrow> http_conn \<Rightarrow> http_conn" where
  "request_line_fields buf m http =
     (let ws = request_words buf;
          url = (if 1 < length ws then ws ! 1 else ''/'');
          has_version = 2 < length ws;
          version = (if has_version then ws ! 2 else ''HTTP/0.9'');
          host = (case extract_header (header_bytes buf) ''Host'' of Some h \<Rightarrow> h | None \<Rightarrow> [])
      in split_query
           (http\<lparr>h_method := m, h_http_version := version,
             h_one_one := (has_version \<and> version \<noteq> [] \<and>
               \<not> eq_ignore_ascii_case version ''HTTP/1.0''),
             h_encoded_url := url, h_host := host, h_mime_flag := has_version,
             h_decoded_url := percent_decode url\<rparr>))"

definition request_line_error :: "env \<Rightarrow> string \<Rightarrow> http_conn \<Rightarrow> string option" where
  "request_line_error e buf http =
     (if h_one_one http \<and> h_host http = [] then
        Some (full_error e http 400 ''Bad Request'' bad_syntax_form (h_http_version http) [])
      else if h_method http = Unknown then
        (let ws = request_words buf;
             method_text = (if ws = [] then ''UNKNOWN'' else hd ws)
         in Some (full_error e http 501 ''Not Implemented''
              (url_form ''The requested method '' '' is not implemented by this server.'')
              method_text []))
      else None)"

section \<open>The request headers\<close>

definition parse_range :: "string \<Rightarrow> http_conn \<Rightarrow> http_conn" where
  "parse_range range_str http =
     (if contains_byte (CHR '','') range_str then http
      else case split_once (CHR ''='') range_str of
             None \<Rightarrow> http
           | Some (_, range_spec) \<Rightarrow>
               (case split_once (CHR ''-'') range_spec of
                  None \<Rightarrow> http
                | Some (first_str, rest) \<Rightarrow>
                    if first_str = [] then http
                    else case parse_i64 first_str of
                           None \<Rightarrow> http
                         | Some first \<Rightarrow>
                             (let http' = http\<lparr>h_got_range := True,
                                    h_first_byte_index := (if first < 0 then 0 else first)\<rparr>
                              in if rest = [] then http'
                                 else case parse_i64 rest of
                                        Some lst \<Rightarrow> http'\<lparr>h_last_byte_index :=
                                                       (if lst < 0 then -1 else lst)\<rparr>
                                      | None \<Rightarrow> http')))"

definition parse_forwarded :: "string \<Rightarrow> http_conn \<Rightarrow> http_conn" where
  "parse_forwarded xff http =
     (let first = trim (hd (split_byte (CHR '','') xff))
      in if first \<noteq> [] then http\<lparr>h_x_forwarded_for := first\<rparr> else http)"

definition parse_content_length :: "string \<Rightarrow> int option" where
  "parse_content_length cl_str =
     (case parse_i64 (trim cl_str) of Some v \<Rightarrow> if 0 \<le> v then Some v else None | None \<Rightarrow> None)"

definition request_header_fields :: "string \<Rightarrow> http_conn \<Rightarrow> http_conn" where
  "request_header_fields buf http =
     (let hdr = extract_header (header_bytes buf);
          http = set_opt (hdr ''If-Modified-Since'') (\<lambda>v h. h\<lparr>h_if_modified_since := parse_http_date v\<rparr>) http;
          http = set_opt (hdr ''Range'') parse_range http;
          http = set_opt (hdr ''Content-Type'') (\<lambda>v h. h\<lparr>h_content_type := v\<rparr>) http;
          http = set_opt (hdr ''Content-Length'')
                   (\<lambda>v h. h\<lparr>h_content_length := parse_content_length v\<rparr>) http;
          http = set_opt (hdr ''User-Agent'') (\<lambda>v h. h\<lparr>h_user_agent := v\<rparr>) http;
          http = set_opt (hdr ''Referer'') (\<lambda>v h. h\<lparr>h_referer := v\<rparr>) http;
          http = set_opt (hdr ''Accept'') (\<lambda>v h. h\<lparr>h_accept := v\<rparr>) http;
          http = set_opt (hdr ''Accept-Encoding'') (\<lambda>v h. h\<lparr>h_accept_encoding := v\<rparr>) http;
          http = set_opt (hdr ''Accept-Language'') (\<lambda>v h. h\<lparr>h_accept_language := v\<rparr>) http;
          http = set_opt (hdr ''Cookie'') (\<lambda>v h. h\<lparr>h_cookie := v\<rparr>) http;
          http = set_opt (hdr ''Authorization'') (\<lambda>v h. h\<lparr>h_authorization := v\<rparr>) http
      in set_opt (hdr ''X-Forwarded-For'') parse_forwarded http)"

section \<open>The file of a request\<close>

definition MAX_URL_LENGTH :: nat where
  "MAX_URL_LENGTH = 10000"

definition disk_path :: "server_config \<Rightarrow> string \<Rightarrow> string" where
  "disk_path c p = (if p = ''/'' then path_join (sc_dir c) ''index.html'' else path_join (sc_dir c) (drop 1 p))"

definition resolve_file :: "env \<Rightarrow> server_config \<Rightarrow> http_conn \<Rightarrow> string + http_conn \<times> string" where
  "resolve_file e c http =
     (case normalize_path (h_decoded_url http) of
        Some normalized \<Rightarrow> Inr (http\<lparr>h_orig_filename := normalized\<rparr>, disk_path c normalized)
      | None \<Rightarrow>
          if contains_str ''//'' (h_decoded_url http)
          then Inl (full_error e http 400 ''Bad Request'' bad_syntax_form (h_decoded_url http) [])
          else Inl (full_error e http 404 ''Not Found'' not_found_form (h_decoded_url http) []))"

definition apply_vhost :: "env \<Rightarrow> server_config \<Rightarrow> http_conn \<times> string \<Rightarrow> http_conn \<times> string" where
  "apply_vhost e c hp =
     (case hp of
        (http, file_path) \<Rightarrow>
          if sc_vhost c \<and> h_host http \<noteq> [] then
            (let hostdir = ev_lower e (h_host http);
                 new_orig = ''/'' @ hostdir @ h_orig_filename http
             in (http\<lparr>h_orig_filename := new_orig, h_vhost_dir := hostdir\<rparr>, disk_path c new_orig))
          else (http, file_path))"

lemma find_byte_lt: "find_byte c s = Some i \<Longrightarrow> i < length s \<and> s ! i = c"
  by (induction s arbitrary: i) (auto split: if_splits)

lemma rfind_byte_lt: "rfind_byte c s = Some i \<Longrightarrow> i < length s \<and> s ! i = c"
proof -
  assume "rfind_byte c s = Some i"
  then obtain j where j: "find_byte c (rev s) = Some j" "i = length s - 1 - j"
    by (auto simp: rfind_byte_def)
  from find_byte_lt[OF j(1)] j(2) show ?thesis by (auto simp: rev_nth)
qed

function path_info_loop :: "(string \<Rightarrow> bool) \<Rightarrow> string \<Rightarrow> string \<Rightarrow> string \<times> string" where
  "path_info_loop present test_path info =
     (if present test_path then (test_path, info)
      else case rfind_byte (CHR ''/'') test_path of
             None \<Rightarrow> (test_path, info)
           | Some last_slash \<Rightarrow>
               if last_slash = 0 then (test_path, info)
               else path_info_loop present (take last_slash test_path)
                      (''/'' @ drop (last_slash + 1) test_path @ info))"
  by pat_completeness auto
termination
  by (relation "measure (\<lambda>(_, t, _). length t)") (auto dest: rfind_byte_lt)

declare path_info_loop.simps [simp del]

definition extract_path_info :: "env \<Rightarrow> server_config \<Rightarrow> http_conn \<Rightarrow> http_conn" where
  "extract_path_info e c http =
     (if sc_vhost c \<and> h_vhost_dir http \<noteq> [] then http
      else case path_info_loop (\<lambda>p. ev_exists e (disk_path c p)) (h_orig_filename http) [] of
             (test_path, info) \<Rightarrow>
               if info \<noteq> [] then http\<lparr>h_path_info := info, h_orig_filename := test_path\<rparr> else http)"

function cgi_prefix_loop :: "string \<Rightarrow> string \<Rightarrow> bool" where
  "cgi_prefix_loop pattern test =
     (case rfind_byte (CHR ''/'') test of
        None \<Rightarrow> False
      | Some last_slash \<Rightarrow>
          if last_slash = 0 then False
          else if match_pattern pattern (take last_slash test) then True
          else cgi_prefix_loop pattern (take last_slash test))"
  by pat_completeness auto
termination
  by (relation "measure (\<lambda>(_, t). length t)") (auto dest: rfind_byte_lt)

declare cgi_prefix_loop.simps [simp del]

definition is_cgi_request :: "server_config \<Rightarrow> http_conn \<Rightarrow> bool" where
  "is_cgi_request c http =
     (case sc_cgi_pattern c of
        Some pattern \<Rightarrow> match_pattern pattern (h_orig_filename http) \<or>
                        cgi_prefix_loop pattern (h_orig_filename http)
      | None \<Rightarrow> False)"

section \<open>The outcome of a request\<close>

datatype outcome =
  OutRespond http_conn string | OutCgi http_conn | OutStatic http_conn string

definition pathinfo_form :: string where
  "pathinfo_form = url_form ''The requested URL ''
     '' resolves to a file plus CGI-style pathinfo, but the file is not a valid CGI file.''"

definition dispatch_outcome :: "env \<Rightarrow> server_config \<Rightarrow> http_conn \<times> string \<Rightarrow> outcome" where
  "dispatch_outcome e c hp =
     (case hp of
        (http, file_path) \<Rightarrow>
          (let http' = extract_path_info e c http in
           if is_cgi_request c http' then OutCgi http'
           else if h_path_info http' \<noteq> [] then
             OutRespond http' (full_error e http' 403 ''Forbidden'' pathinfo_form (h_encoded_url http') [])
           else OutStatic http' file_path))"

definition request_outcome :: "env \<Rightarrow> server_config \<Rightarrow> string \<Rightarrow> http_method \<Rightarrow> http_conn \<Rightarrow> outcome"
  where
  "request_outcome e c buf m http =
     (let http1 = request_line_fields buf m http in
      case request_line_error e buf http1 of
        Some r \<Rightarrow> OutRespond http1 r
      | None \<Rightarrow>
          (let http2 = request_header_fields buf http1 in
           if MAX_URL_LENGTH < length (h_encoded_url http2) then
             OutRespond http2
               (full_error e http2 500 ''Internal Error'' internal_form (h_encoded_url http2) [])
           else case resolve_file e c http2 of
                  Inl r \<Rightarrow> OutRespond http2 r
                | Inr hp \<Rightarrow> dispatch_outcome e c (apply_vhost e c hp)))"

end
