(* ===== verification/Static_Files.thy ===== *)
theory Static_Files
  imports Request_Handling Mime_Types
begin

text \<open>
  Serving a static file: \<open>serve_static\<close> of \<open>crates/thttpd-core/src/eventloop.rs\<close>, phase by phase.
  The phases up to the throttle admission decide on an error response or a file
  (\<open>static_decision\<close>); the rest admits the request, answers HEAD and conditional requests, maps the
  file and cuts the requested range. \<open>None\<close> is a panic: a slice whose start is past its end.
\<close>

section \<open>Boundary, existence, access\<close>

text \<open>An error response (the updated connection is unchanged but for it) or a file to serve.\<close>

definition symlink_check :: "env \<Rightarrow> server_config \<Rightarrow> http_conn \<Rightarrow> string \<Rightarrow> string + string" where
  "symlink_check e c http file_path =
     (if sc_no_symlink_check c then Inr file_path
      else case ev_canonicalize e (sc_dir c) of
             None \<Rightarrow> Inl (full_error e http 500 ''Internal Error'' internal_form
                         (from_utf8_lossy (sc_dir c)) [])
           | Some canonical_root \<Rightarrow>
               (case ev_canonicalize e file_path of
                  Some canonical \<Rightarrow>
                    if \<not> path_starts_with canonical canonical_root then
                      Inl (full_error e http 403 ''Forbidden''
                        (url_form ''The requested URL ''
                          '' resolves to a file outside the permitted web server directory tree.'')
                        (h_encoded_url http) [])
                    else Inr canonical
                | None \<Rightarrow> Inr file_path))"

definition has_long_component :: "string \<Rightarrow> bool" where
  "has_long_component p \<longleftrightarrow>
     list_ex (\<lambda>c. case c of NormalComp n \<Rightarrow> 255 < length n | _ \<Rightarrow> False) (path_components p)"

definition metadata_error :: "env \<Rightarrow> http_conn \<Rightarrow> string \<Rightarrow> fs_error \<Rightarrow> string" where
  "metadata_error e http file_path err =
     (if err = FsNotFound then full_error e http 404 ''Not Found'' not_found_form (h_encoded_url http) []
      else if has_long_component file_path then
        full_error e http 500 ''Internal Error'' internal_form (h_encoded_url http) []
      else full_error e http 403 ''Forbidden''
             (url_form ''The requested URL '' '' is not accessible.'') (h_encoded_url http) [])"

definition auth_realm :: "string \<Rightarrow> string" where
  "auth_realm encoded_url =
     (case rsplit_once (CHR ''/'') encoded_url of
        Some (dir, _) \<Rightarrow> trim_start_matches (\<lambda>c. c = CHR ''/'') dir
      | None \<Rightarrow> [])"

definition auth_error :: "env \<Rightarrow> http_conn \<Rightarrow> string \<Rightarrow> string option" where
  "auth_error e http file_path =
     (case auth_check2 (ev_exists e) (ev_read_file e) (ev_b64 e) (ev_crypt e) file_path
             (h_authorization http) of
        NoAuthFile \<Rightarrow> None
      | AuthOk \<Rightarrow> None
      | AuthUnauthorized \<Rightarrow>
          Some (full_error e http 401 ERR_401_TITLE ERR_401_FORM (h_encoded_url http)
            [(''WWW-Authenticate'',
              ''Basic realm='' @ [DQUOTE] @ auth_realm (h_encoded_url http) @ [DQUOTE])])
      | AuthForbidden \<Rightarrow>
          Some (full_error e http 403 ''Forbidden''
            (url_form ''The requested URL '' '' is not accessible.'') (h_encoded_url http) []))"

text \<open>Modification times before the epoch count as 0.\<close>

definition stat_mtime :: "file_stat \<Rightarrow> int" where
  "stat_mtime st = max (st_mtime st) 0"

definition listing_response :: "env \<Rightarrow> http_conn \<Rightarrow> string \<Rightarrow> file_stat \<Rightarrow> string" where
  "listing_response e http file_path st =
     (case generate_listing (ev_lower e) (nat (ev_unix e)) (ev_dir e file_path) (h_orig_filename http) of
        Some body \<Rightarrow>
          with_body http
            (build_full_response (ev_unix e) http 200 ''OK'' ''text/html'' (-1) (stat_mtime st) []) body
      | None \<Rightarrow>
          full_error e http 500 ''Internal Error'' internal_form (from_utf8_lossy file_path) [])"

definition mode_error :: "env \<Rightarrow> http_conn \<Rightarrow> file_stat \<Rightarrow> string option" where
  "mode_error e http st =
     (if \<not> mode_has (st_mode st) 4 then
        Some (full_error e http 403 ''Forbidden''
          (url_form ''The requested URL '' '' resolves to a file that is not world-readable.'')
          (h_encoded_url http) [])
      else if mode_has (st_mode st) 1 then
        Some (full_error e http 403 ''Forbidden''
          (url_form ''The requested URL ''
            '' resolves to a file which is marked executable but is not a CGI file; retrieving it is forbidden.'')
          (h_encoded_url http) [])
      else if h_path_info http \<noteq> [] then
        Some (full_error e http 403 ''Forbidden'' pathinfo_form (h_encoded_url http) [])
      else None)"

definition static_decision :: "env \<Rightarrow> server_config \<Rightarrow> http_conn \<Rightarrow> string \<Rightarrow> string + string \<times> file_stat" where
  "static_decision e c http path =
     (case symlink_check e c http path of
        Inl r \<Rightarrow> Inl r
      | Inr file_path \<Rightarrow>
          (case ev_metadata e file_path of
             Inl err \<Rightarrow> Inl (metadata_error e http file_path err)
           | Inr st \<Rightarrow>
               (case auth_error e http file_path of
                  Some r \<Rightarrow> Inl r
                | None \<Rightarrow>
                    if st_is_dir st then Inl (listing_response e http file_path st)
                    else (case mode_error e http st of
                            Some r \<Rightarrow> Inl r
                          | None \<Rightarrow> Inr (file_path, st)))))"

section \<open>Ranges and bodies\<close>

definition fill_last_byte :: "int \<Rightarrow> http_conn \<Rightarrow> http_conn" where
  "fill_last_byte file_size http =
     (if h_got_range http \<and> (h_last_byte_index http = -1 \<or> file_size \<le> h_last_byte_index http)
      then http\<lparr>h_last_byte_index := file_size - 1\<rparr> else http)"

text \<open>\<open>usize\<close> arithmetic: the index -1 of an empty file wraps around.\<close>

definition as_usize :: "int \<Rightarrow> nat" where
  "as_usize x = nat (x mod 2 ^ 64)"

definition range_end :: "int \<Rightarrow> nat" where
  "range_end last_byte = (as_usize last_byte + 1) mod 2 ^ 64"

definition file_body :: "http_conn \<Rightarrow> string \<Rightarrow> string option" where
  "file_body http data =
     (if h_got_range http then
        (let start = as_usize (h_first_byte_index http);
             stop = range_end (h_last_byte_index http)
         in if start < length data \<and> stop \<le> length data then
              (if start \<le> stop then Some (take (stop - start) (drop start data)) else None)
            else Some data)
      else Some data)"

definition encoding_headers :: "mime_info \<Rightarrow> header_list" where
  "encoding_headers mi = (case mi_encoding mi of Some enc \<Rightarrow> [(''Content-Encoding'', enc)] | None \<Rightarrow> [])"

definition finish_response :: "env \<Rightarrow> nat \<Rightarrow> (http_conn \<Rightarrow> http_conn) \<Rightarrow> server \<Rightarrow> server" where
  "finish_response e k f s = transition_to_sending e (upd_http k f s) k"

definition head_response :: "env \<Rightarrow> http_conn \<Rightarrow> string \<Rightarrow> file_stat \<Rightarrow> string" where
  "head_response e http file_path st =
     (let mi = figure_mime (from_utf8_lossy file_path)
      in if h_mime_flag http
         then build_full_response (ev_unix e) http 200 ''OK'' (mi_type mi) (wrap_i64 (int (st_len st)))
                (stat_mtime st) (encoding_headers mi)
         else [])"

definition not_modified_response :: "env \<Rightarrow> http_conn \<Rightarrow> string \<Rightarrow> file_stat \<Rightarrow> string" where
  "not_modified_response e http file_path st =
     (let mi = figure_mime (from_utf8_lossy file_path)
      in if h_mime_flag http
         then build_full_response (ev_unix e) http 304 ''Not Modified'' (mi_type mi) (-1)
                (stat_mtime st) (encoding_headers mi)
         else [])"

definition send_file :: "env \<Rightarrow> server \<Rightarrow> nat \<Rightarrow> http_conn \<Rightarrow> string \<Rightarrow> file_stat \<Rightarrow> server option" where
  "send_file e s k http file_path st =
     (case mmc_map (ev_open e) (ev_now e) (sv_mmc s) file_path of
        (mmc', Inr m) \<Rightarrow>
          (let s1 = s\<lparr>sv_mmc := mmc'\<rparr>;
               mi = figure_mime (from_utf8_lossy file_path)
           in case file_body http (mm_data m) of
                None \<Rightarrow> None
              | Some body \<Rightarrow>
                  (let response = build_full_response (ev_unix e) http 200 ''OK'' (mi_type mi)
                         (wrap_i64 (int (st_len st))) (stat_mtime st) (encoding_headers mi)
                   in Some (finish_response e k (\<lambda>h. (set_response (with_body http response body) h)
                        \<lparr>h_file_address := Some m,
                         h_response_header_len := (if h_mime_flag http then length response else 0),
                         h_bytes_sent := 0,
                         h_status_code := (if h_got_range http then 206 else 200)\<rparr>) s1)))
      | (mmc', Inl _) \<Rightarrow>
          Some (finish_response e k (set_response
            (full_error e http 404 ''Not Found'' not_found_form (h_encoded_url http) []))
            (s\<lparr>sv_mmc := mmc'\<rparr>)))"

section \<open>Admission and answer\<close>

definition static_admitted :: "env \<Rightarrow> server \<Rightarrow> nat \<Rightarrow> http_conn \<Rightarrow> string \<Rightarrow> file_stat \<Rightarrow> server option" where
  "static_admitted e s k http file_path st =
     (if h_method http = Head then
        Some (finish_response e k (\<lambda>h. (set_response (head_response e http file_path st) h)
          \<lparr>h_status_code := 200\<rparr>) s)
      else if (case h_if_modified_since http of Some ims \<Rightarrow> stat_mtime st \<le> ims | None \<Rightarrow> False) then
        Some (finish_response e k (\<lambda>h. (set_response (not_modified_response e http file_path st) h)
          \<lparr>h_status_code := 304\<rparr>) s)
      else send_file e s k http file_path st)"

definition serve_static :: "env \<Rightarrow> server \<Rightarrow> nat \<Rightarrow> http_conn \<Rightarrow> string \<Rightarrow> server option" where
  "serve_static e s k http0 path =
     (let http = http0\<lparr>h_charset := sc_charset (sv_config s)\<rparr> in
      case static_decision e (sv_config s) http path of
        Inl r \<Rightarrow> Some (finish_response e k (\<lambda>_. set_response r http) s)
      | Inr (file_path, st) \<Rightarrow>
          (let http1 = fill_last_byte (wrap_i64 (int (st_len st))) http;
               s1 = upd_http k (\<lambda>_. http1) s
           in case admit_request s1 (h_orig_filename http1) of
                (s2, Reject) \<Rightarrow>
                  Some (finish_response e k (\<lambda>h. (set_response (full_error e http1 503
                      ''Service Unavailable'' bandwidth_form (h_orig_filename http1) []) h)
                      \<lparr>h_status_code := 503\<rparr>)
                    (upd_throttle k (\<lambda>t. t\<lparr>ct_checked := True\<rparr>) s2))
              | (s2, Allow tnums max_limit min_limit) \<Rightarrow>
                  static_admitted e (upd_throttle k (\<lambda>t. t\<lparr>ct_tnums := tnums, ct_max_limit := max_limit,
                      ct_min_limit := min_limit, ct_checked := True\<rparr>) s2) k http1 file_path st
              | (s2, Unlimited) \<Rightarrow>
                  static_admitted e (upd_throttle k (\<lambda>t. t\<lparr>ct_checked := True\<rparr>) s2) k http1 file_path st))"

end
