(* ===== verification/Cgi_Dispatch.thy ===== *)
theory Cgi_Dispatch
  imports Request_Handling
begin

text \<open>
  Running a CGI script: \<open>dispatch_cgi\<close> and \<open>extract_cgi_status\<close> of
  \<open>crates/thttpd-core/src/eventloop.rs\<close>. The script runs to completion inside the call; its output
  and error streams are what \<open>ev_spawn\<close> returns. \<open>None\<close> is the panic of slicing an empty path.
\<close>

section \<open>The script's status\<close>

definition cgi_header_end :: "string \<Rightarrow> nat option" where
  "cgi_header_end output =
     (case find_str (crlf @ crlf) output of Some p \<Rightarrow> Some p | None \<Rightarrow> find_str [LF, LF] output)"

fun cgi_status_scan :: "string list \<Rightarrow> nat \<Rightarrow> bool \<Rightarrow> nat" where
  "cgi_status_scan [] status status_set = status"
| "cgi_status_scan (line # lines) status status_set =
     (case split_once (CHR '':'') line of
        None \<Rightarrow> cgi_status_scan lines status status_set
      | Some (name, rest) \<Rightarrow>
          if eq_ignore_ascii_case (trim name) ''status'' then
            (case parse_u16 (takeWhile is_ascii_digit (trim rest)) of
               Some code \<Rightarrow> cgi_status_scan lines code True
             | None \<Rightarrow> cgi_status_scan lines status status_set)
          else if \<not> status_set \<and> eq_ignore_ascii_case (trim name) ''location'' then
            cgi_status_scan lines 302 True
          else cgi_status_scan lines status status_set)"

definition cgi_status_title :: "nat \<Rightarrow> string" where
  "cgi_status_title status =
     (if status = 200 then ''OK'' else if status = 302 then ''Found''
      else if status = 304 then ''Not Modified'' else if status = 400 then ''Bad Request''
      else if status = 401 then ''Unauthorized'' else if status = 403 then ''Forbidden''
      else if status = 404 then ''Not Found'' else if status = 408 then ''Request Timeout''
      else if status = 500 then ''Internal Error'' else if status = 501 then ''Not Implemented''
      else if status = 503 then ''Service Unavailable'' else ''Something'')"

definition extract_cgi_status :: "string \<Rightarrow> nat \<times> string" where
  "extract_cgi_status output =
     (case cgi_header_end output of
        None \<Rightarrow> (200, ''OK'')
      | Some header_end \<Rightarrow>
          (let status = cgi_status_scan (lines_of (from_utf8_lossy (take header_end output))) 200 False
           in (status, cgi_status_title status)))"

section \<open>The script and its environment\<close>

definition body_missing :: "http_conn \<Rightarrow> bool" where
  "body_missing http \<longleftrightarrow>
     (case h_content_length http of
        Some cl \<Rightarrow> 0 < cl \<and> h_read_idx http < h_checked_idx http + nat cl
      | None \<Rightarrow> False)"

function cgi_path_loop :: "(string \<Rightarrow> bool) \<Rightarrow> string \<Rightarrow> string \<Rightarrow> string \<Rightarrow> string \<times> string" where
  "cgi_path_loop present orig test_path info =
     (if present test_path then (test_path, info)
      else case rfind_byte (CHR ''/'') test_path of
             None \<Rightarrow> (orig, [])
           | Some last_slash \<Rightarrow>
               if last_slash = 0 then (orig, [])
               else cgi_path_loop present orig (take last_slash test_path)
                      (''/'' @ drop (last_slash + 1) test_path @ info))"
  by pat_completeness auto
termination
  by (relation "measure (\<lambda>(_, _, t, _). length t)") (auto dest: rfind_byte_lt)

declare cgi_path_loop.simps [simp del]

definition resolve_script :: "env \<Rightarrow> server_config \<Rightarrow> http_conn \<Rightarrow> string \<times> string" where
  "resolve_script e c http =
     (if h_path_info http = [] then
        cgi_path_loop (\<lambda>p. ev_exists e (path_join (sc_dir c) (drop 1 p)))
          (h_orig_filename http) (h_orig_filename http) []
      else (h_orig_filename http, h_path_info http))"

definition strip_port :: "string \<Rightarrow> string" where
  "strip_port a = (case rsplit_once (CHR '':'') a of Some (ip, _) \<Rightarrow> ip | None \<Rightarrow> a)"

definition non_empty :: "string \<Rightarrow> string option" where
  "non_empty v = (if v = [] then None else Some v)"

definition cgi_headers :: "http_conn \<Rightarrow> string \<rightharpoonup> string" where
  "cgi_headers http =
     (\<lambda>h. if h = ''Host'' then map_option strip_port (non_empty (h_host http))
          else if h = ''User-Agent'' then non_empty (h_user_agent http)
          else if h = ''Referer'' then non_empty (h_referer http)
          else if h = ''Accept'' then non_empty (h_accept http)
          else if h = ''Accept-Encoding'' then non_empty (h_accept_encoding http)
          else if h = ''Accept-Language'' then non_empty (h_accept_language http)
          else if h = ''Cookie'' then non_empty (h_cookie http)
          else None)"

definition cgi_remote_addr :: "conn_slot \<Rightarrow> string" where
  "cgi_remote_addr c =
     (if h_x_forwarded_for (cs_http c) \<noteq> [] then h_x_forwarded_for (cs_http c)
      else (let peer_addr = (case cs_peer_addr c of Some a \<Rightarrow> pa_text a | None \<Rightarrow> []);
                without_port = trim_end_matches (\<lambda>x. x = CHR '']'')
                  (trim_start_matches (\<lambda>x. x = CHR ''['') (strip_port peer_addr))
            in case strip_prefix ''::ffff:'' without_port of
                 Some stripped \<Rightarrow> stripped
               | None \<Rightarrow> without_port))"

definition make_cgi_context ::
  "env \<Rightarrow> server_config \<Rightarrow> conn_slot \<Rightarrow> string \<Rightarrow> string \<Rightarrow> cgi_context" where
  "make_cgi_context e c slot script info =
     (let http = cs_http slot in
      \<lparr>cx_server_software = ''sthttpd/2.27.0 03oct2014'',
       cx_server_name = (case ev_hostname e of Some h \<Rightarrow> h | None \<Rightarrow> ''localhost''),
       cx_gateway_interface = ''CGI/1.1'', cx_server_protocol = ''HTTP/1.0'',
       cx_server_port = sc_port c, cx_request_method = method_str (h_method http),
       cx_script_name = script, cx_query_string = h_query http,
       cx_remote_addr = cgi_remote_addr slot, cx_content_type = non_empty (h_content_type http),
       cx_content_length = h_content_length http, cx_http_headers = cgi_headers http,
       cx_path_info = non_empty info,
       cx_path_translated = (if info = [] then None
          else Some (from_utf8_lossy (path_join (sc_dir c) (drop 1 info)))),
       cx_remote_user = None, cx_auth_type = None\<rparr>)"

definition cgi_post_body :: "http_conn \<Rightarrow> string option" where
  "cgi_post_body http =
     (case h_content_length http of
        Some len \<Rightarrow>
          if h_checked_idx http + nat len \<le> h_read_idx http
          then Some (drop (h_checked_idx http) (take (h_read_idx http) (h_read_buf http)))
          else None
      | None \<Rightarrow> None)"

definition cgi_working_dir :: "server_config \<Rightarrow> string \<Rightarrow> string" where
  "cgi_working_dir c resolved_path =
     (case path_parent resolved_path of Some p \<Rightarrow> p | None \<Rightarrow> sc_dir c)"

definition run_script :: "env \<Rightarrow> server_config \<Rightarrow> conn_slot \<Rightarrow> string \<Rightarrow> string \<Rightarrow>
    ((string \<times> string) \<times> bool) option" where
  "run_script e c slot script info =
     (let resolved_path = path_join (sc_dir c) (drop 1 script);
          ctx = make_cgi_context e c slot script info;
          envp = build_envp ctx script (case sc_cgi_pattern c of Some p \<Rightarrow> p | None \<Rightarrow> [])
      in execute_cgi (ev_cwd e) (ev_spawn e) resolved_path (Some (cgi_working_dir c resolved_path))
           envp (cgi_post_body (cs_http slot)))"

definition cgi_response :: "(string \<times> string) \<Rightarrow> bool \<Rightarrow> string" where
  "cgi_response streams is_nph =
     (let output = (if fst streams = [] then snd streams else fst streams)
      in if is_nph then output
         else (case extract_cgi_status output of
                 (code, text) \<Rightarrow>
                   ''HTTP/1.0 '' @ dec_nat code @ '' '' @ text @ crlf @ output))"

section \<open>The dispatcher\<close>

definition set_cgis :: "(int \<Rightarrow> int) \<Rightarrow> server \<Rightarrow> server" where
  "set_cgis f s = s\<lparr>sv_active_cgis := f (sv_active_cgis s)\<rparr>"

text \<open>Completion: the flat charge (only if the script ran) and the release of the rules.\<close>

definition cgi_complete :: "bool \<Rightarrow> nat \<Rightarrow> nat list \<Rightarrow> server \<Rightarrow> server" where
  "cgi_complete charged k tnums s =
     (let s1 = set_cgis (\<lambda>n. n - 1) s in
      if tnums = [] then s1
      else upd_throttle k conn_throttle_reset
             (s1\<lparr>sv_throttles := map_option (\<lambda>es. throttle_clear
                 (if charged then throttle_add_bytes es tnums CGI_BYTECOUNT else es) tnums)
                (sv_throttles s1)\<rparr>))"

definition cgi_run_phase :: "env \<Rightarrow> server \<Rightarrow> nat \<Rightarrow> conn_slot \<Rightarrow> string \<Rightarrow> string \<Rightarrow> nat list \<Rightarrow> server" where
  "cgi_run_phase e s k slot script info tnums =
     (let s1 = upd_conn k (\<lambda>c. c\<lparr>cs_is_cgi := True\<rparr>) s;
          http = cs_http slot
      in case run_script e (sv_config s) slot script info of
           Some (streams, is_nph) \<Rightarrow>
             transition_to_sending e (upd_http k (set_response (cgi_response streams is_nph))
               (cgi_complete True k tnums s1)) k
         | None \<Rightarrow>
             transition_to_sending e (upd_http k (set_response
                 (full_error e http 500 ''Internal Error'' internal_form (h_encoded_url http) []))
               (cgi_complete False k tnums s1)) k)"

definition cgi_error :: "env \<Rightarrow> server \<Rightarrow> nat \<Rightarrow> http_conn \<Rightarrow> nat \<Rightarrow> string \<Rightarrow> string \<Rightarrow> server" where
  "cgi_error e s k http status title form =
     transition_to_sending e
       (upd_http k (\<lambda>_. set_response (full_error e http status title form (h_encoded_url http) []) http) s) k"

definition cgi_throttle_check :: "env \<Rightarrow> server \<Rightarrow> nat \<Rightarrow> conn_slot \<Rightarrow> string \<Rightarrow> string \<Rightarrow> server" where
  "cgi_throttle_check e s k slot script info =
     (case admit_request s script of
        (s1, Reject) \<Rightarrow>
          cgi_error e (set_cgis (\<lambda>n. n - 1) s1) k (cs_http slot) 503 ''Service Unavailable'' bandwidth_form
      | (s1, Allow tnums _ _) \<Rightarrow>
          cgi_run_phase e (upd_throttle k (\<lambda>t. t\<lparr>ct_tnums := tnums\<rparr>) s1) k slot script info tnums
      | (s1, Unlimited) \<Rightarrow> cgi_run_phase e s1 k slot script info (ct_tnums (cs_throttle slot)))"

definition dispatch_cgi :: "env \<Rightarrow> server \<Rightarrow> nat \<Rightarrow> server option" where
  "dispatch_cgi e s0 k =
     (case conn_at s0 k of
        None \<Rightarrow> None
      | Some slot0 \<Rightarrow>
          (let http = (cs_http slot0)\<lparr>h_charset := sc_charset (sv_config s0)\<rparr>;
               s = upd_http k (\<lambda>_. http) s0
           in if body_missing http then Some (upd_conn k (\<lambda>c. c\<lparr>cs_pending_cgi_body := True\<rparr>) s)
              else if 0 < cgi_limit s \<and> cgi_limit s \<le> sv_active_cgis s then
                Some (cgi_error e s k http 503 ''Service Unavailable''
                  (''Too many concurrent CGI requests. Please try again later.'' @ [LF]))
              else if h_orig_filename http = [] then None
              else
                (let s1 = set_cgis (\<lambda>n. n + 1) s;
                     (script, info) = resolve_script e (sv_config s) http;
                     http1 = http\<lparr>h_path_info := info\<rparr>;
                     s2 = upd_http k (\<lambda>_. http1) s1;
                     resolved_path = path_join (sc_dir (sv_config s)) (drop 1 script)
                 in if \<not> ev_exists e resolved_path \<or> ev_is_dir e resolved_path then
                      Some (cgi_error e (set_cgis (\<lambda>n. n - 1) s2) k http1 404 ''Not Found'' not_found_form)
                    else
                      Some (cgi_throttle_check e s2 k (slot0\<lparr>cs_http := http1\<rparr>) script info))))"

end
