(* ===== verification/Event_Loop.thy ===== *)
theory Event_Loop
  imports Static_Files Cgi_Dispatch
begin

text \<open>
  The event loop of \<open>crates/thttpd-core/src/eventloop.rs\<close>: the handlers of a connection in each of
  its states, accepting, pausing and resuming, and one iteration of \<open>run\<close>. A handler returns
  \<open>None\<close> when it panics. What one iteration observes (signals, the events of the poll with the
  environment of each, the accepted peers, the clock) is the record \<open>tick\<close>.
\<close>

section \<open>Processing a request\<close>

definition process_request :: "env \<Rightarrow> server \<Rightarrow> nat \<Rightarrow> server option" where
  "process_request e s k =
     (case conn_at s k of
        None \<Rightarrow> None
      | Some c \<Rightarrow>
          (let http = cs_http c in
           case parse_method (h_read_buf http) (h_checked_idx http) of
             None \<Rightarrow> None
           | Some m \<Rightarrow>
               (case request_outcome e (sv_config s) (take (h_checked_idx http) (h_read_buf http)) m http of
                  OutRespond http' r \<Rightarrow>
                    Some (transition_to_sending e (upd_http k (\<lambda>_. set_response r http') s) k)
                | OutCgi http' \<Rightarrow> dispatch_cgi e (upd_http k (\<lambda>_. http') s) k
                | OutStatic http' path \<Rightarrow> serve_static e (upd_http k (\<lambda>_. http') s) k http' path)))"

section \<open>Reading\<close>

definition bad_request :: "env \<Rightarrow> server \<Rightarrow> nat \<Rightarrow> http_conn \<Rightarrow> server" where
  "bad_request e s k http =
     transition_to_sending e
       (upd_http k (set_response (build_error_response 400 ''Bad Request'' [] (Some (h_user_agent http)))) s) k"

definition receive :: "string \<Rightarrow> http_conn \<Rightarrow> http_conn" where
  "receive d http =
     http\<lparr>h_read_buf := take (h_read_idx http) (h_read_buf http) @ d @
             drop (h_read_idx http + length d) (h_read_buf http),
          h_read_idx := h_read_idx http + length d\<rparr>"

definition scan_request :: "env \<Rightarrow> server \<Rightarrow> nat \<Rightarrow> http_conn \<Rightarrow> server option" where
  "scan_request e s k http =
     (case got_request (h_read_buf http) (h_checked_idx http) (h_read_idx http) (h_parse_state http) of
        None \<Rightarrow> None
      | Some (r, new_checked, new_state) \<Rightarrow>
          (let s1 = upd_http k (\<lambda>h. h\<lparr>h_checked_idx := new_checked, h_parse_state := new_state\<rparr>) s
           in case r of
                NoRequest \<Rightarrow> Some s1
              | BadRequest \<Rightarrow> Some (bad_request e s1 k http)
              | GotRequest \<Rightarrow> process_request e s1 k))"

definition handle_data :: "env \<Rightarrow> server \<Rightarrow> nat \<Rightarrow> conn_slot \<Rightarrow> string \<Rightarrow> server option" where
  "handle_data e s k c d =
     (let http = receive d (cs_http c);
          s1 = upd_http k (\<lambda>_. http) s
      in if cs_pending_cgi_body c then
           (if body_missing http then Some s1
            else dispatch_cgi e (upd_conn k (\<lambda>c. c\<lparr>cs_pending_cgi_body := False\<rparr>) s1) k)
         else scan_request e s1 k http)"

definition handle_read :: "env \<Rightarrow> server \<Rightarrow> nat \<Rightarrow> server option" where
  "handle_read e s k =
     (case conn_at s k of
        None \<Rightarrow> None
      | Some c \<Rightarrow>
          (let http = cs_http c in
           if READ_BUF_SIZE < h_read_idx http then None
           else if h_read_idx http = READ_BUF_SIZE then Some (bad_request e s k http)
           else if \<not> cs_stream c then Some (close_connection e s k)
           else case ev_read e of
                  ReadWouldBlock \<Rightarrow> Some s
                | ReadErr \<Rightarrow> Some (close_connection e s k)
                | ReadOk data \<Rightarrow>
                    (let d = take (length (h_read_buf http) - h_read_idx http) data
                     in if d = [] then Some (close_connection e s k)
                        else handle_data e s k c d)))"

section \<open>Sending\<close>

definition elapsed_secs :: "env \<Rightarrow> conn_throttle \<Rightarrow> int" where
  "elapsed_secs e t =
     (case ct_started_at t of
        Some t0 \<Rightarrow> max ((ev_now e - t0) div SECOND) 1
      | None \<Rightarrow> 1)"

definition write_limit :: "env \<Rightarrow> conn_slot \<Rightarrow> nat" where
  "write_limit e c =
     (let t = cs_throttle c; sent = h_bytes_sent (cs_http c) in
      if is_throttled t \<and> 0 < ct_max_limit t then
        nat (max (int (ct_header_len t) - sent) 0) +
        nat (max (wrap_i64 (wrap_i64 (ct_max_limit t * elapsed_secs e t) - ct_body_bytes t)) 0)
      else nat (int (h_response_len (cs_http c)) - sent))"

definition pause_sending :: "env \<Rightarrow> server \<Rightarrow> nat \<Rightarrow> conn_slot \<Rightarrow> server" where
  "pause_sending e s k c =
     (let s1 = upd_conn k (\<lambda>c. c\<lparr>cs_state := Pausing,
                 cs_throttle := (cs_throttle c)\<lparr>ct_pause_until := Some (ev_now e + SECOND)\<rparr>\<rparr>) s
      in if cs_stream c then reg_deregister e k s1 else s1)"

definition body_delta :: "conn_slot \<Rightarrow> nat \<Rightarrow> int" where
  "body_delta c n =
     (let hl = int (ct_header_len (cs_throttle c)); before = h_bytes_sent (cs_http c) in
      max (before + int n - hl) 0 - max (before - hl) 0)"

definition account_body :: "env \<Rightarrow> nat \<Rightarrow> conn_slot \<Rightarrow> nat \<Rightarrow> server \<Rightarrow> server" where
  "account_body e k c n s =
     (if is_throttled (cs_throttle c) \<and> 0 < body_delta c n then
        upd_throttle k (\<lambda>t. t\<lparr>ct_body_bytes := ct_body_bytes t + body_delta c n,
                             ct_active_at := Some (ev_now e)\<rparr>)
          (s\<lparr>sv_throttles := map_option
               (\<lambda>es. throttle_add_bytes es (ct_tnums (cs_throttle c)) (body_delta c n)) (sv_throttles s)\<rparr>)
      else s)"

definition after_write :: "env \<Rightarrow> server \<Rightarrow> nat \<Rightarrow> conn_slot \<Rightarrow> nat \<Rightarrow> server" where
  "after_write e s k c n =
     (let sent = h_bytes_sent (cs_http c) + int n;
          s1 = upd_http k (\<lambda>h. h\<lparr>h_bytes_sent := sent\<rparr>) s;
          s2 = s1\<lparr>sv_stats := (sv_stats s1)\<lparr>ss_bytes_sent := ss_bytes_sent (sv_stats s1) + n\<rparr>\<rparr>;
          s3 = account_body e k c n s2
      in if int (h_response_len (cs_http c)) \<le> sent then transition_to_lingering e s3 k
         else if cs_stream c then reg_reregister e k Writable s3 else s3)"

definition handle_send :: "env \<Rightarrow> server \<Rightarrow> nat \<Rightarrow> server option" where
  "handle_send e s k =
     (case conn_at s k of
        None \<Rightarrow> None
      | Some c \<Rightarrow>
          (let http = cs_http c; sent = h_bytes_sent http; limit0 = write_limit e c in
           if int (h_response_len http) \<le> sent then Some (transition_to_lingering e s k)
           else if limit0 = 0 then Some (pause_sending e s k c)
           else if \<not> cs_stream c then Some (close_connection e s k)
           else if length (h_response http) < nat sent then None
           else (let limit = min limit0 (length (h_response http) - nat sent) in
                 case ev_write e of
                   WriteWouldBlock \<Rightarrow> Some s
                 | WriteErr \<Rightarrow> Some (close_connection e s k)
                 | WriteOk n \<Rightarrow> Some (after_write e s k c (min n limit)))))"

text \<open>The bytes that a call of \<open>handle_send\<close> hands over to the kernel.\<close>

definition sent_chunk :: "env \<Rightarrow> conn_slot \<Rightarrow> string" where
  "sent_chunk e c =
     (let sent = nat (h_bytes_sent (cs_http c));
          limit = min (write_limit e c) (length (h_response (cs_http c)) - sent)
      in case ev_write e of
           WriteOk n \<Rightarrow> take (min n limit) (drop sent (h_response (cs_http c)))
         | _ \<Rightarrow> [])"

section \<open>Pausing, resuming, lingering\<close>

definition resume_sending :: "env \<Rightarrow> server \<Rightarrow> nat \<Rightarrow> conn_slot \<Rightarrow> server" where
  "resume_sending e s k c =
     upd_conn k (\<lambda>c. c\<lparr>cs_state := Sending, cs_throttle := (cs_throttle c)\<lparr>ct_pause_until := None\<rparr>\<rparr>)
       (case sv_throttles s of
          Some es \<Rightarrow> upd_throttle k (\<lambda>t. t\<lparr>ct_max_limit := fair_share_for es (ct_tnums (cs_throttle c))\<rparr>) s
        | None \<Rightarrow> s)"

definition handle_pause :: "env \<Rightarrow> server \<Rightarrow> nat \<Rightarrow> server option" where
  "handle_pause e s k =
     (case conn_at s k of
        None \<Rightarrow> None
      | Some c \<Rightarrow>
          if (case ct_pause_until (cs_throttle c) of Some deadline \<Rightarrow> ev_now e < deadline | None \<Rightarrow> False)
          then Some s
          else
            (let s1 = resume_sending e s k c in
             if cs_stream c then handle_send e (fst (reg_register e k Writable s1)) k
             else Some (close_connection e s1 k)))"

definition handle_linger :: "env \<Rightarrow> server \<Rightarrow> nat \<Rightarrow> server option" where
  "handle_linger e s k =
     (case conn_at s k of
        None \<Rightarrow> None
      | Some c \<Rightarrow> Some (close_connection e s k))"

definition handle_connection_event :: "env \<Rightarrow> server \<Rightarrow> nat \<Rightarrow> server option" where
  "handle_connection_event e s k =
     (case conn_at s k of
        None \<Rightarrow> Some s
      | Some c \<Rightarrow>
          (case cs_state c of
             Reading \<Rightarrow> handle_read e s k
           | Sending \<Rightarrow> handle_send e s k
           | Lingering \<Rightarrow> handle_linger e s k
           | Pausing \<Rightarrow> handle_pause e s k
           | Free \<Rightarrow> Some s))"

section \<open>Accepting\<close>

definition MAX_CONNECTIONS :: nat where
  "MAX_CONNECTIONS = 4096"

definition fresh_slot :: "peer \<Rightarrow> conn_slot" where
  "fresh_slot p = conn_slot_new\<lparr>cs_state := Reading, cs_stream := True, cs_http := http_conn_new,
     cs_peer_addr := Some p\<rparr>"

text \<open>
  \<open>vacant\<close> is the slab's choice of a key. The list of a listener is the peers that \<open>accept\<close> returns
  before it would block or fails, each with the environment of its registration.
\<close>

definition accept_one :: "(nat list \<Rightarrow> nat) \<Rightarrow> env \<Rightarrow> peer \<Rightarrow> server \<Rightarrow> server" where
  "accept_one vacant e p s =
     (if MAX_CONNECTIONS \<le> length (sv_conns s) then s
      else
        (let k = vacant (map fst (sv_conns s));
             s1 = s\<lparr>sv_conns := (k, fresh_slot p) # sv_conns s\<rparr>
         in case reg_register e k Readable s1 of
              (s2, True) \<Rightarrow>
                s2\<lparr>sv_stats := (sv_stats s2)\<lparr>ss_connections := ss_connections (sv_stats s2) + 1\<rparr>\<rparr>
            | (s2, False) \<Rightarrow> drop_stream k (s2\<lparr>sv_conns := AList.delete k (sv_conns s2)\<rparr>)))"

definition handle_accept :: "(nat list \<Rightarrow> nat) \<Rightarrow> (peer \<times> env) list \<Rightarrow> server \<Rightarrow> server" where
  "handle_accept vacant peers s =
     (if sv_draining s then s else foldl (\<lambda>s (p, e). accept_one vacant e p s) s peers)"

section \<open>Deadlines and periodic work\<close>

definition opt_min :: "int option \<Rightarrow> int option \<Rightarrow> int option" where
  "opt_min a b = (case (a, b) of (Some x, Some y) \<Rightarrow> Some (min x y) | (Some x, None) \<Rightarrow> Some x | (None, y) \<Rightarrow> y)"

definition next_pause_deadline :: "int \<Rightarrow> server \<Rightarrow> int option" where
  "next_pause_deadline now s =
     foldr (\<lambda>(k, c) m. opt_min
         (if cs_state c = Pausing then map_option (\<lambda>d. max (d - now) 0) (ct_pause_until (cs_throttle c))
          else None) m) (sv_conns s) None"

definition next_throttle_deadline :: "int \<Rightarrow> server \<Rightarrow> int \<Rightarrow> int option" where
  "next_throttle_deadline now s last_update =
     (case sv_throttles s of
        Some _ \<Rightarrow> Some (max (THROTTLE_TIME * SECOND - max (now - last_update) 0) 0)
      | None \<Rightarrow> None)"

definition poll_timeout :: "int \<Rightarrow> server \<Rightarrow> int \<Rightarrow> int" where
  "poll_timeout now s last_update =
     (case opt_min (next_deadline now (sv_timers s))
             (opt_min (next_pause_deadline now s) (next_throttle_deadline now s last_update)) of
        Some d \<Rightarrow> d
      | None \<Rightarrow> 60 * SECOND)"

definition pause_expired :: "int \<Rightarrow> conn_slot \<Rightarrow> bool" where
  "pause_expired now c \<longleftrightarrow> cs_state c = Pausing \<and>
     (case ct_pause_until (cs_throttle c) of Some d \<Rightarrow> d \<le> now | None \<Rightarrow> True)"

definition ready_paused :: "int \<Rightarrow> server \<Rightarrow> nat list" where
  "ready_paused now s = sort (map fst (filter (\<lambda>(k, c). pause_expired now c) (sv_conns s)))"

fun resume_keys :: "(nat \<Rightarrow> env) \<Rightarrow> nat list \<Rightarrow> server \<Rightarrow> server option" where
  "resume_keys envs [] s = Some s"
| "resume_keys envs (k # ks) s =
     (case conn_at s k of
        Some c \<Rightarrow>
          if cs_state c = Pausing
          then (case handle_pause (envs k) s k of None \<Rightarrow> None | Some s' \<Rightarrow> resume_keys envs ks s')
          else resume_keys envs ks s
      | None \<Rightarrow> resume_keys envs ks s)"

definition wake_slot :: "int \<Rightarrow> throttle_table option \<Rightarrow> conn_slot \<Rightarrow> conn_slot" where
  "wake_slot now throttles c =
     c\<lparr>cs_state := Sending,
       cs_throttle := (case throttles of
            Some es \<Rightarrow> (cs_throttle c)\<lparr>ct_max_limit := fair_share_for es (ct_tnums (cs_throttle c))\<rparr>
          | None \<Rightarrow> cs_throttle c)\<lparr>ct_pause_until := None\<rparr>\<rparr>"

definition wakes :: "int \<Rightarrow> conn_slot \<Rightarrow> bool" where
  "wakes now c \<longleftrightarrow> cs_state c = Pausing \<and> is_throttled (cs_throttle c) \<and>
     (case ct_pause_until (cs_throttle c) of Some d \<Rightarrow> d \<le> now | None \<Rightarrow> False)"

fun wake_keys :: "env \<Rightarrow> nat list \<Rightarrow> server \<Rightarrow> server" where
  "wake_keys e [] s = s"
| "wake_keys e (k # ks) s =
     (case conn_at s k of
        Some c \<Rightarrow>
          if wakes (ev_now e) c
          then (let s1 = upd_conn k (wake_slot (ev_now e) (sv_throttles s)) s
                in wake_keys e ks (if cs_stream c then fst (reg_register e k Writable s1) else s1))
          else wake_keys e ks s
      | None \<Rightarrow> wake_keys e ks s)"

definition throttle_update :: "env \<Rightarrow> server \<times> int \<Rightarrow> server \<times> int" where
  "throttle_update e st =
     (case st of
        (s, last_update) \<Rightarrow>
          if THROTTLE_TIME * SECOND \<le> ev_now e - last_update then
            (wake_keys e (map fst (sv_conns s))
               (s\<lparr>sv_throttles := map_option update_averages (sv_throttles s)\<rparr>), ev_now e)
          else st)"

text \<open>How many connections hold a mapping: the handles outside the cache.\<close>

definition mmap_refs :: "server \<Rightarrow> nat \<Rightarrow> nat" where
  "mmap_refs s i =
     length (filter (\<lambda>(k, c). case h_file_address (cs_http c) of Some m \<Rightarrow> mm_id m = i | None \<Rightarrow> False)
       (sv_conns s))"

section \<open>One iteration\<close>

datatype listener_error = TooManyListeners | RegistryRefused

text \<open>The listeners from \<open>i\<close> on; \<open>ok\<close> is the system's answer for each.\<close>

fun register_listeners :: "(nat \<Rightarrow> bool) \<Rightarrow> nat list \<Rightarrow> server \<Rightarrow> listener_error + server" where
  "register_listeners ok [] s = Inr s"
| "register_listeners ok (i # is) s =
     (case listen_token i of
        None \<Rightarrow> Inl TooManyListeners
      | Some t \<Rightarrow>
          if ok i \<and> map_of (sv_registry s) t = None
          then register_listeners ok is (s\<lparr>sv_registry := AList.update t Readable (sv_registry s)\<rparr>)
          else Inl RegistryRefused)"

datatype poll_result = PollOk | PollInterrupted | PollErr

record tick =
  tk_terminate :: bool
  tk_usr1 :: bool
  tk_hup :: bool
  tk_poll :: poll_result
  tk_events :: "(nat \<times> env) list"
  tk_accepted :: "nat \<Rightarrow> (peer \<times> env) list"
  tk_env :: env
  tk_pause_env :: "nat \<Rightarrow> env"
  tk_reopen :: "string \<Rightarrow> nat option"
  tk_clock :: "nat \<Rightarrow> int"

datatype loop_result = Running server int | Exited server | Failed | Panicked | Stuck_timers

fun accept_phase :: "(nat list \<Rightarrow> nat) \<Rightarrow> (nat \<Rightarrow> (peer \<times> env) list) \<Rightarrow> (nat \<times> env) list \<Rightarrow> server \<Rightarrow> server" where
  "accept_phase vacant accepted [] s = s"
| "accept_phase vacant accepted ((t, e) # evs) s =
     accept_phase vacant accepted evs
       (if is_listen_token t \<and> t < sv_listeners s then handle_accept vacant (accepted t) s else s)"

fun event_phase :: "(nat \<times> env) list \<Rightarrow> server \<Rightarrow> server option" where
  "event_phase [] s = Some s"
| "event_phase ((t, e) # evs) s =
     (if is_listen_token t then event_phase evs s
      else case slab_key_from_token t of
             None \<Rightarrow> event_phase evs s
           | Some k \<Rightarrow>
               (case handle_connection_event e s k of
                  None \<Rightarrow> None
                | Some s' \<Rightarrow> event_phase evs s'))"

definition periodic_phase :: "tick \<Rightarrow> server \<Rightarrow> int \<Rightarrow> loop_result" where
  "periodic_phase t s last_update =
     (case wheel_run (ev_now (tk_env t)) (tk_clock t) (sv_timers s) of
        None \<Rightarrow> Stuck_timers
      | Some (wheel, _) \<Rightarrow>
          (let s1 = s\<lparr>sv_timers := wheel\<rparr>;
               s2 = s1\<lparr>sv_mmc := mmc_cleanup (ev_now (tk_env t)) (mmap_refs s1) (sv_mmc s1)\<rparr>;
               (s3, l) = throttle_update (tk_env t) (s2, last_update);
               s4 = (if tk_hup t then s3\<lparr>sv_access_log := fst (log_reopen (tk_reopen t) (sv_access_log s3))\<rparr>
                     else s3)
           in if sv_draining s4 \<and> sv_conns s4 = [] then Exited s4 else Running s4 l))"

definition start_drain :: "env \<Rightarrow> server \<Rightarrow> server" where
  "start_drain e s =
     s\<lparr>sv_draining := True,
       sv_registry := filter (\<lambda>(t, i). \<not> is_listen_token t) (sv_registry s)\<rparr>"

definition run_iteration :: "(nat list \<Rightarrow> nat) \<Rightarrow> tick \<Rightarrow> server \<Rightarrow> int \<Rightarrow> loop_result" where
  "run_iteration vacant t s0 last_update =
     (if tk_terminate t then Exited s0
      else
        (let s = (if \<not> sv_draining s0 \<and> tk_usr1 t then start_drain (tk_env t) s0 else s0) in
         if \<not> sv_draining s0 \<and> tk_usr1 t \<and> sv_conns s = [] then Exited s
         else case tk_poll t of
                PollInterrupted \<Rightarrow> Running s last_update
              | PollErr \<Rightarrow> Failed
              | PollOk \<Rightarrow>
                  (case event_phase (tk_events t) (accept_phase vacant (tk_accepted t) (tk_events t) s) of
                     None \<Rightarrow> Panicked
                   | Some s1 \<Rightarrow>
                       (case resume_keys (tk_pause_env t) (ready_paused (ev_now (tk_env t)) s1) s1 of
                          None \<Rightarrow> Panicked
                        | Some s2 \<Rightarrow> periodic_phase t s2 last_update))))"

text \<open>
  \<open>run\<close> for a sequence of ticks: it registers the listeners and iterates. The result is the state
  in which the sequence leaves the loop, or the state it ends in.
\<close>

fun run_ticks :: "(nat list \<Rightarrow> nat) \<Rightarrow> tick list \<Rightarrow> server \<Rightarrow> int \<Rightarrow> loop_result" where
  "run_ticks vacant [] s last_update = Running s last_update"
| "run_ticks vacant (t # ts) s last_update =
     (case run_iteration vacant t s last_update of
        Running s' l \<Rightarrow> run_ticks vacant ts s' l
      | r \<Rightarrow> r)"

definition run_server :: "(nat \<Rightarrow> bool) \<Rightarrow> (nat list \<Rightarrow> nat) \<Rightarrow> int \<Rightarrow> tick list \<Rightarrow> server \<Rightarrow>
    listener_error + loop_result" where
  "run_server ok vacant now ts s =
     (case register_listeners ok [0..<sv_listeners s] s of
        Inl err \<Rightarrow> Inl err
      | Inr s' \<Rightarrow> Inr (run_ticks vacant ts s' now))"

end
