(* ===== verification/Server_Frame.thy ===== *)
theory Server_Frame
  imports Event_Loop
begin

text \<open>
  What the handlers of the event loop leave alone: the configuration, the number of listeners, the
  access log and the drain flag, and that only accepting adds a connection. One equation per
  operation, collected in \<open>frame\<close>.
\<close>

named_theorems frame \<open>what an operation leaves of the fixed part and of the connection keys\<close>

definition fixed_part :: "server \<Rightarrow> server_config \<times> nat \<times> log_target \<times> bool" where
  "fixed_part s = (sv_config s, sv_listeners s, sv_access_log s, sv_draining s)"

definition keys_of :: "server \<Rightarrow> nat set" where
  "keys_of s = fst ` set (sv_conns s)"

definition stays :: "server \<Rightarrow> server \<Rightarrow> bool" where
  "stays s s' \<longleftrightarrow> fixed_part s' = fixed_part s \<and> keys_of s' \<subseteq> keys_of s"

lemma stays_refl [simp]: "stays s s"
  by (simp add: stays_def)

lemma stays_trans: "stays s s' \<Longrightarrow> stays s' s'' \<Longrightarrow> stays s s''"
  by (auto simp: stays_def)

lemma frame_updates [frame]:
  "fixed_part (s\<lparr>sv_stats := a\<rparr>) = fixed_part s" "keys_of (s\<lparr>sv_stats := a\<rparr>) = keys_of s"
  "fixed_part (s\<lparr>sv_throttles := th\<rparr>) = fixed_part s" "keys_of (s\<lparr>sv_throttles := th\<rparr>) = keys_of s"
  "fixed_part (s\<lparr>sv_registry := rg\<rparr>) = fixed_part s" "keys_of (s\<lparr>sv_registry := rg\<rparr>) = keys_of s"
  "fixed_part (s\<lparr>sv_mmc := m\<rparr>) = fixed_part s" "keys_of (s\<lparr>sv_mmc := m\<rparr>) = keys_of s"
  "fixed_part (s\<lparr>sv_timers := ti\<rparr>) = fixed_part s" "keys_of (s\<lparr>sv_timers := ti\<rparr>) = keys_of s"
  "fixed_part (s\<lparr>sv_log_out := lo\<rparr>) = fixed_part s" "keys_of (s\<lparr>sv_log_out := lo\<rparr>) = keys_of s"
  "fixed_part (s\<lparr>sv_active_cgis := n\<rparr>) = fixed_part s" "keys_of (s\<lparr>sv_active_cgis := n\<rparr>) = keys_of s"
  "fixed_part (s\<lparr>sv_conns := cs\<rparr>) = fixed_part s"
  by (simp_all add: fixed_part_def keys_of_def)

lemma fst_set_map_entry: "fst ` set (AList.map_entry k f cs) = fst ` set cs"
  by (induction cs) auto

lemma frame_upd_conn [frame]: "fixed_part (upd_conn k f s) = fixed_part s" "keys_of (upd_conn k f s) = keys_of s"
  by (simp_all add: upd_conn_def fixed_part_def keys_of_def fst_set_map_entry)

lemma frame_registry [frame]:
  "fixed_part (fst (reg_register e k i s)) = fixed_part s" "keys_of (fst (reg_register e k i s)) = keys_of s"
  "fixed_part (reg_reregister e k i s) = fixed_part s" "keys_of (reg_reregister e k i s) = keys_of s"
  "fixed_part (reg_deregister e k s) = fixed_part s" "keys_of (reg_deregister e k s) = keys_of s"
  "fixed_part (drop_stream k s) = fixed_part s" "keys_of (drop_stream k s) = keys_of s"
  by (simp_all add: reg_register_def reg_reregister_def reg_deregister_def drop_stream_def frame)

lemma frame_admit [frame]:
  "fixed_part (fst (admit_request s p)) = fixed_part s" "keys_of (fst (admit_request s p)) = keys_of s"
  by (simp_all add: admit_request_def frame split: option.splits prod.splits)

lemma frame_sending [frame]:
  "fixed_part (transition_to_sending e s k) = fixed_part s" "keys_of (transition_to_sending e s k) = keys_of s"
  by (simp_all add: transition_to_sending_def Let_def split_beta frame split: option.splits)

lemma frame_lingering [frame]:
  "fixed_part (transition_to_lingering e s k) = fixed_part s" "keys_of (transition_to_lingering e s k) = keys_of s"
  by (simp_all add: transition_to_lingering_def Let_def frame split: option.splits)

lemma close_stays: "stays s (close_connection e s k)"
  by (auto simp: stays_def close_connection_def Let_def frame split: option.splits)
    (auto simp: keys_of_def AList.delete_eq drop_stream_def reg_deregister_def split: if_splits option.splits)

lemma stays_same: "fixed_part s' = fixed_part s \<Longrightarrow> keys_of s' = keys_of s \<Longrightarrow> stays s s'"
  by (simp add: stays_def)

lemma stays_Some: "Some x = Some s' \<Longrightarrow> stays s x \<Longrightarrow> stays s s'"
  by simp

section \<open>Requests\<close>

lemma frame_finish [frame]:
  "fixed_part (finish_response e k f s) = fixed_part s" "keys_of (finish_response e k f s) = keys_of s"
  by (simp_all add: finish_response_def frame)

lemma send_file_stays: "send_file e s k http p st = Some s' \<Longrightarrow> stays s s'"
  by (auto simp: send_file_def Let_def stays_def frame split: prod.splits sum.splits option.splits)

lemma static_admitted_stays: "static_admitted e s k http p st = Some s' \<Longrightarrow> stays s s'"
  by (auto simp: static_admitted_def stays_def frame dest!: send_file_stays[unfolded stays_def] split: if_splits)

lemma serve_static_stays:
  assumes "serve_static e s k http path = Some s'"
  shows "stays s s'"
proof (cases "static_decision e (sv_config s) (http\<lparr>h_charset := sc_charset (sv_config s)\<rparr>) path")
  case (Inl r)
  with assms show ?thesis by (auto simp: serve_static_def stays_def frame)
next
  case (Inr q)
  obtain p st where q: "q = (p, st)" by fastforce
  define http1 where "http1 = fill_last_byte (wrap_i64 (int (st_len st))) (http\<lparr>h_charset := sc_charset (sv_config s)\<rparr>)"
  define s1 where "s1 = upd_http k (\<lambda>_. http1) s"
  obtain s2 d where a: "admit_request s1 (h_orig_filename http1) = (s2, d)" by fastforce
  have f: "fixed_part s2 = fixed_part s" "keys_of s2 = keys_of s"
    using frame_admit[of s1 "h_orig_filename http1", unfolded a] by (simp_all add: s1_def frame)
  note assms' = assms[unfolded serve_static_def Let_def Inr sum.case q prod.case, folded http1_def, folded s1_def, unfolded a]
  show ?thesis
  proof (cases d)
    case (Allow ts mx mn)
    with assms' have "static_admitted e (upd_throttle k (\<lambda>t. t\<lparr>ct_tnums := ts, ct_max_limit := mx,
        ct_min_limit := mn, ct_checked := True\<rparr>) s2) k http1 p st = Some s'" by simp
    from static_admitted_stays[OF this] f show ?thesis by (simp add: stays_def frame)
  next
    case Unlimited
    with assms' have "static_admitted e (upd_throttle k (\<lambda>t. t\<lparr>ct_checked := True\<rparr>) s2) k http1 p st = Some s'" by simp
    from static_admitted_stays[OF this] f show ?thesis by (simp add: stays_def frame)
  next
    case Reject
    from assms'[unfolded Reject prod.case throttle_decision.case] show ?thesis
      by (rule stays_Some) (simp add: stays_same frame f)
  qed
qed

lemma frame_cgi [frame]:
  "fixed_part (set_cgis f s) = fixed_part s" "keys_of (set_cgis f s) = keys_of s"
  "fixed_part (cgi_complete b k ts s) = fixed_part s" "keys_of (cgi_complete b k ts s) = keys_of s"
  "fixed_part (cgi_error e s k http n t fm) = fixed_part s" "keys_of (cgi_error e s k http n t fm) = keys_of s"
  by (simp_all add: set_cgis_def cgi_complete_def cgi_error_def Let_def frame)

lemma frame_cgi_run [frame]:
  "fixed_part (cgi_run_phase e s k c sc i ts) = fixed_part s" "keys_of (cgi_run_phase e s k c sc i ts) = keys_of s"
  by (simp_all add: cgi_run_phase_def Let_def frame split: option.splits)

lemma frame_cgi_check [frame]:
  "fixed_part (cgi_throttle_check e s k c sc i) = fixed_part s" "keys_of (cgi_throttle_check e s k c sc i) = keys_of s"
  by (simp_all add: cgi_throttle_check_def split_beta frame split: throttle_decision.split)

lemma dispatch_cgi_stays: "dispatch_cgi e s k = Some s' \<Longrightarrow> stays s s'"
  by (auto simp: dispatch_cgi_def Let_def split_beta frame stays_def split: option.splits if_splits)

section \<open>Events\<close>

lemma process_request_stays:
  assumes "process_request e s k = Some s'"
  shows "stays s s'"
  using assms
  by (auto simp: process_request_def Let_def frame stays_def split: option.splits outcome.splits
      dest!: serve_static_stays[unfolded stays_def] dispatch_cgi_stays[unfolded stays_def])

lemma frame_bad_request [frame]:
  "fixed_part (bad_request e s k http) = fixed_part s" "keys_of (bad_request e s k http) = keys_of s"
  by (simp_all add: bad_request_def frame)

lemma scan_request_stays: "scan_request e s k http = Some s' \<Longrightarrow> stays s s'"
  by (auto simp: scan_request_def Let_def frame stays_def split: option.splits got_result.splits
      dest!: process_request_stays[unfolded stays_def]) blast

lemma handle_data_stays: "handle_data e s k c d = Some s' \<Longrightarrow> stays s s'"
  by (auto simp: handle_data_def Let_def frame stays_def split: if_splits
      dest!: dispatch_cgi_stays[unfolded stays_def] scan_request_stays[unfolded stays_def])

lemma handle_read_stays: "handle_read e s k = Some s' \<Longrightarrow> stays s s'"
  by (auto simp: handle_read_def Let_def close_stays stays_same frame
      split: option.splits if_splits read_result.splits dest!: handle_data_stays)

lemma frame_sending_steps [frame]:
  "fixed_part (pause_sending e s k c) = fixed_part s" "keys_of (pause_sending e s k c) = keys_of s"
  "fixed_part (account_body e k c n s) = fixed_part s" "keys_of (account_body e k c n s) = keys_of s"
  "fixed_part (resume_sending e s k c) = fixed_part s" "keys_of (resume_sending e s k c) = keys_of s"
  by (simp_all add: pause_sending_def account_body_def resume_sending_def Let_def frame split: option.splits)

lemma frame_after_write [frame]:
  "fixed_part (after_write e s k c n) = fixed_part s" "keys_of (after_write e s k c n) = keys_of s"
  by (simp_all add: after_write_def Let_def frame)

lemma handle_send_stays: "handle_send e s k = Some s' \<Longrightarrow> stays s s'"
  by (auto simp: handle_send_def Let_def close_stays stays_same frame
      split: option.splits if_splits write_result.splits)

lemma handle_pause_stays: "handle_pause e s k = Some s' \<Longrightarrow> stays s s'"
  using close_stays[of "resume_sending e s k (the (conn_at s k))" e k]
  by (auto simp: handle_pause_def Let_def frame stays_def split: option.splits if_splits
      dest!: handle_send_stays[unfolded stays_def] dest: subsetD)

lemma handle_connection_event_stays: "handle_connection_event e s k = Some s' \<Longrightarrow> stays s s'"
  by (auto simp: handle_connection_event_def handle_linger_def close_stays split: option.splits conn_state.splits
      dest!: handle_read_stays handle_send_stays handle_pause_stays)

lemma event_phase_stays: "event_phase evs s = Some s' \<Longrightarrow> stays s s'"
proof (induction evs s rule: event_phase.induct)
  case (2 t e evs s)
  then show ?case
    by (simp split: if_splits option.splits) (metis stays_trans handle_connection_event_stays)
qed simp

lemma resume_keys_stays: "resume_keys envs ks s = Some s' \<Longrightarrow> stays s s'"
proof (induction envs ks s rule: resume_keys.induct)
  case (2 envs k ks s)
  then show ?case
    by (simp split: if_splits option.splits) (metis stays_trans handle_pause_stays)
qed simp

lemma frame_wake_keys [frame]:
  "fixed_part (wake_keys e ks s) = fixed_part s" "keys_of (wake_keys e ks s) = keys_of s"
  by (induction e ks s rule: wake_keys.induct) (simp_all add: Let_def frame split: option.splits)

lemma frame_throttle_update [frame]:
  "fixed_part (fst (throttle_update e (s, l))) = fixed_part s" "keys_of (fst (throttle_update e (s, l))) = keys_of s"
  by (simp_all add: throttle_update_def frame)

section \<open>Accepting\<close>

lemma accept_one_fixed: "fixed_part (accept_one vacant e p s) = fixed_part s"
  by (simp add: accept_one_def reg_register_def Let_def frame)

lemma handle_accept_fixed: "fixed_part (handle_accept vacant peers s) = fixed_part s"
proof -
  have "fixed_part (foldl (\<lambda>s (p, e). accept_one vacant e p s) s peers) = fixed_part s"
    by (induction peers arbitrary: s) (auto simp: accept_one_fixed)
  then show ?thesis by (simp add: handle_accept_def)
qed

lemma accept_phase_fixed: "fixed_part (accept_phase vacant acc evs s) = fixed_part s"
  by (induction vacant acc evs s rule: accept_phase.induct) (simp_all add: handle_accept_fixed)

lemma accept_phase_draining: "sv_draining s \<Longrightarrow> accept_phase vacant acc evs s = s"
  by (induction vacant acc evs s rule: accept_phase.induct) (simp_all add: handle_accept_def)


section \<open>An iteration\<close>

text \<open>The last phase of an iteration that goes on: it may reopen the log, and no more.\<close>

lemma periodic_phase_running:
  assumes "periodic_phase t s l = Running s' l'"
  shows "keys_of s' = keys_of s \<and> (sv_draining s' \<longrightarrow> sv_conns s' \<noteq> []) \<and>
    fixed_part s' = (sv_config s, sv_listeners s,
      if tk_hup t then fst (log_reopen (tk_reopen t) (sv_access_log s)) else sv_access_log s, sv_draining s)"
proof -
  obtain wheel fired where w: "wheel_run (ev_now (tk_env t)) (tk_clock t) (sv_timers s) = Some (wheel, fired)"
    using assms by (auto simp: periodic_phase_def split: option.splits)
  define s1 where "s1 = s\<lparr>sv_timers := wheel\<rparr>"
  define s2 where "s2 = s1\<lparr>sv_mmc := mmc_cleanup (ev_now (tk_env t)) (mmap_refs s1) (sv_mmc s1)\<rparr>"
  obtain s3 l3 where s3: "throttle_update (tk_env t) (s2, l) = (s3, l3)" by fastforce
  have f: "fixed_part s3 = fixed_part s" "keys_of s3 = keys_of s"
    using frame_throttle_update[of "tk_env t" s2 l, unfolded s3] by (simp_all add: s2_def s1_def frame)
  have s': "s' = (if tk_hup t then s3\<lparr>sv_access_log := fst (log_reopen (tk_reopen t) (sv_access_log s3))\<rparr> else s3)"
    and d: "\<not> (sv_draining s' \<and> sv_conns s' = [])"
    using assms w s3 by (auto simp: periodic_phase_def Let_def s1_def s2_def split: if_splits)
  show ?thesis using f d by (auto simp: s' fixed_part_def keys_of_def)
qed

text \<open>
  An iteration that goes on: the server drains if it did before or saw the signal, and then no
  connection is new and at least one is left.
\<close>

lemma run_iteration_running:
  assumes "run_iteration vacant t s l = Running s' l'"
  shows "\<not> tk_terminate t \<and> sv_draining s' = (sv_draining s \<or> tk_usr1 t) \<and>
    (sv_draining s' \<longrightarrow> keys_of s' \<subseteq> keys_of s \<and> (sv_conns s' = [] \<longrightarrow> sv_draining s \<and> sv_conns s = [])) \<and>
    sv_access_log s' = (if tk_poll t = PollOk \<and> tk_hup t
      then fst (log_reopen (tk_reopen t) (sv_access_log s)) else sv_access_log s)"
proof -
  define s0 where "s0 = (if \<not> sv_draining s \<and> tk_usr1 t then start_drain (tk_env t) s else s)"
  have f0: "sv_draining s0 = (sv_draining s \<or> tk_usr1 t)" "keys_of s0 = keys_of s" "sv_access_log s0 = sv_access_log s"
    "sv_conns s0 = sv_conns s"
    by (auto simp: s0_def start_drain_def keys_of_def)
  note res = assms[unfolded run_iteration_def Let_def, folded s0_def]
  have nt: "\<not> tk_terminate t" "\<not> (\<not> sv_draining s \<and> tk_usr1 t \<and> sv_conns s0 = [])"
    using res by (auto split: if_splits)
  show ?thesis
  proof (cases "tk_poll t")
    case PollOk
    then obtain s1 s2 where p: "event_phase (tk_events t) (accept_phase vacant (tk_accepted t) (tk_events t) s0) = Some s1"
      "resume_keys (tk_pause_env t) (ready_paused (ev_now (tk_env t)) s1) s1 = Some s2"
      "periodic_phase t s2 l = Running s' l'"
      using res by (auto split: if_splits option.splits)
    have fx: "fixed_part s2 = fixed_part s0"
      using event_phase_stays[OF p(1)] resume_keys_stays[OF p(2)] accept_phase_fixed by (simp add: stays_def)
    have ks: "sv_draining s0 \<Longrightarrow> keys_of s2 \<subseteq> keys_of s0"
      using event_phase_stays[OF p(1)] resume_keys_stays[OF p(2)] by (auto simp: stays_def accept_phase_draining)
    show ?thesis using periodic_phase_running[OF p(3)] fx ks f0 nt PollOk by (auto simp: fixed_part_def)
  qed (use res f0 nt in \<open>auto split: if_splits\<close>)
qed

end
