(* ===== verification/Server_Invariant.thy ===== *)
theory Server_Invariant
  imports Event_Loop
begin

text \<open>
  The invariant of the server between two handler calls, and that every handler and every
  iteration of the loop keeps it. A handler works on one connection: \<open>inv_except\<close> is what holds of
  the rest of the server meanwhile, with the rules that the connection holds as a parameter.
\<close>

section \<open>The invariant\<close>

abbreviation tnums_of :: "conn_slot \<Rightarrow> nat list" where
  "tnums_of c \<equiv> ct_tnums (cs_throttle c)"

definition ledger_ok :: "throttle_table option \<Rightarrow> nat list list \<Rightarrow> bool" where
  "ledger_ok th held \<longleftrightarrow>
     (case th of
        None \<Rightarrow> \<forall>ts \<in> set held. ts = []
      | Some es \<Rightarrow> throttle_ledger.exact (es, held))"

text \<open>The buffer bounds of a connection.\<close>

definition frame :: "http_conn \<Rightarrow> string \<times> nat \<times> nat" where
  "frame h = (h_read_buf h, h_read_idx h, h_checked_idx h)"

definition frame_ok :: "string \<times> nat \<times> nat \<Rightarrow> bool" where
  "frame_ok f = (case f of (buf, read_idx, checked_idx) \<Rightarrow>
     length buf = READ_BUF_SIZE \<and> checked_idx \<le> read_idx \<and> read_idx \<le> READ_BUF_SIZE)"

definition response_ok :: "http_conn \<Rightarrow> bool" where
  "response_ok h \<longleftrightarrow> h_response_len h = length (h_response h) \<and> 0 \<le> h_bytes_sent h \<and>
     h_bytes_sent h \<le> int (length (h_response h))"

fun phase_ok :: "conn_state \<Rightarrow> conn_slot \<Rightarrow> bool" where
  "phase_ok Free c = False"
| "phase_ok Reading c = (tnums_of c = [] \<and> \<not> ct_checked (cs_throttle c) \<and> \<not> cs_is_cgi c \<and>
     (cs_pending_cgi_body c \<longrightarrow> h_orig_filename (cs_http c) \<noteq> []))"
| "phase_ok Sending c = response_ok (cs_http c)"
| "phase_ok Pausing c = (response_ok (cs_http c) \<and> ct_pause_until (cs_throttle c) \<noteq> None)"
| "phase_ok Lingering c = True"

definition slot_ok :: "conn_slot \<Rightarrow> bool" where
  "slot_ok c \<longleftrightarrow> cs_stream c \<and> frame_ok (frame (cs_http c)) \<and> phase_ok (cs_state c) c"

fun wanted :: "conn_state \<Rightarrow> interest option" where
  "wanted Reading = Some Readable"
| "wanted Sending = Some Writable"
| "wanted Lingering = Some Readable"
| "wanted _ = None"

definition interest_at :: "server \<Rightarrow> nat \<Rightarrow> interest option" where
  "interest_at s k = map_of (sv_registry s) (conn_token k)"

text \<open>With \<open>r\<close> the registry has the interest that the state of each connection needs.\<close>

fun slot_entry_ok :: "bool \<Rightarrow> interest option \<Rightarrow> conn_slot option \<Rightarrow> bool" where
  "slot_entry_ok r i (Some c) \<longleftrightarrow> slot_ok c \<and> (r \<longrightarrow> i = wanted (cs_state c))"
| "slot_entry_ok r i None \<longleftrightarrow> (r \<longrightarrow> i = None)"

definition entry_ok :: "bool \<Rightarrow> server \<Rightarrow> nat \<Rightarrow> bool" where
  "entry_ok r s k = slot_entry_ok r (interest_at s k) (conn_at s k)"

definition table_ok :: "server \<Rightarrow> bool" where
  "table_ok s \<longleftrightarrow> distinct (map fst (sv_conns s)) \<and> length (sv_conns s) \<le> MAX_CONNECTIONS"

definition held :: "server \<Rightarrow> nat list list" where
  "held s = map (\<lambda>(k, c). tnums_of c) (sv_conns s)"

definition server_inv :: "bool \<Rightarrow> server \<Rightarrow> bool" where
  "server_inv r s \<longleftrightarrow> table_ok s \<and> sv_active_cgis s = 0 \<and> ledger_ok (sv_throttles s) (held s) \<and>
     (\<forall>k. entry_ok r s k)"

definition held_with :: "nat \<Rightarrow> nat list \<Rightarrow> (nat \<times> conn_slot) list \<Rightarrow> nat list list" where
  "held_with k ts cs = map (\<lambda>(j, c). if j = k then ts else tnums_of c) cs"

definition inv_except :: "bool \<Rightarrow> int \<Rightarrow> nat \<Rightarrow> nat list \<Rightarrow> server \<Rightarrow> bool" where
  "inv_except r n k ts s \<longleftrightarrow> table_ok s \<and> sv_active_cgis s = n \<and>
     ledger_ok (sv_throttles s) (held_with k ts (sv_conns s)) \<and> (\<forall>j. j \<noteq> k \<longrightarrow> entry_ok r s j)"

section \<open>Updates of one connection\<close>

lemma keys_map_entry [simp]: "map fst (AList.map_entry k f al) = map fst al"
  by (induction al) auto

lemma length_map_entry_al [simp]: "length (AList.map_entry k f al) = length al"
  by (induction al) auto

lemma map_of_entry: "map_of (AList.map_entry k f al) j =
    (if j = k then map_option f (map_of al k) else map_of al j)"
  by (induction al) auto

lemma map_entry_map_entry [simp]:
  "AList.map_entry k g (AList.map_entry k f al) = AList.map_entry k (\<lambda>x. g (f x)) al"
  by (induction al) auto

lemma held_with_map_entry [simp]: "held_with k ts (AList.map_entry k f cs) = held_with k ts cs"
  by (induction cs) (auto simp: held_with_def)

lemma conn_at_upd [simp]: "conn_at (upd_conn k f s) j =
    (if j = k then map_option f (conn_at s k) else conn_at s j)"
  by (simp add: conn_at_def upd_conn_def map_of_entry)

lemma upd_conn_simps [simp]:
  "sv_throttles (upd_conn k f s) = sv_throttles s" "sv_registry (upd_conn k f s) = sv_registry s"
  "sv_config (upd_conn k f s) = sv_config s" "sv_active_cgis (upd_conn k f s) = sv_active_cgis s"
  "sv_mmc (upd_conn k f s) = sv_mmc s" "interest_at (upd_conn k f s) j = interest_at s j"
  "sv_stats (upd_conn k f s) = sv_stats s" "sv_access_log (upd_conn k f s) = sv_access_log s"
  "table_ok (upd_conn k f s) = table_ok s"
  by (simp_all add: upd_conn_def interest_at_def table_ok_def)

lemma inv_except_upd [simp]: "inv_except r n k ts (upd_conn k f s) = inv_except r n k ts s"
  by (simp add: inv_except_def entry_ok_def) (simp add: upd_conn_def)

lemma conn_at_simps [simp]:
  "conn_at (s\<lparr>sv_stats := a\<rparr>) j = conn_at s j" "conn_at (s\<lparr>sv_throttles := th\<rparr>) j = conn_at s j"
  "conn_at (s\<lparr>sv_registry := rg\<rparr>) j = conn_at s j" "conn_at (s\<lparr>sv_mmc := m\<rparr>) j = conn_at s j"
  "conn_at (s\<lparr>sv_active_cgis := x\<rparr>) j = conn_at s j" "conn_at (s\<lparr>sv_log_out := lo\<rparr>) j = conn_at s j"
  "conn_at (s\<lparr>sv_timers := ti\<rparr>) j = conn_at s j" "conn_at (s\<lparr>sv_access_log := al\<rparr>) j = conn_at s j"
  "conn_at (s\<lparr>sv_draining := d\<rparr>) j = conn_at s j"
  by (simp_all add: conn_at_def)

lemma interest_simps [simp]:
  "interest_at (s\<lparr>sv_stats := a\<rparr>) j = interest_at s j" "interest_at (s\<lparr>sv_throttles := th\<rparr>) j = interest_at s j"
  "interest_at (s\<lparr>sv_conns := rg\<rparr>) j = interest_at s j" "interest_at (s\<lparr>sv_mmc := m\<rparr>) j = interest_at s j"
  "interest_at (s\<lparr>sv_active_cgis := x\<rparr>) j = interest_at s j" "interest_at (s\<lparr>sv_log_out := lo\<rparr>) j = interest_at s j"
  "interest_at (s\<lparr>sv_timers := ti\<rparr>) j = interest_at s j" "interest_at (s\<lparr>sv_access_log := al\<rparr>) j = interest_at s j"
  "interest_at (s\<lparr>sv_draining := d\<rparr>) j = interest_at s j"
  by (simp_all add: interest_at_def)

lemma inv_except_simps [simp]:
  "inv_except r n k ts (s\<lparr>sv_stats := a\<rparr>) = inv_except r n k ts s"
  "inv_except r n k ts (s\<lparr>sv_mmc := m\<rparr>) = inv_except r n k ts s"
  "inv_except r n k ts (s\<lparr>sv_log_out := lo\<rparr>) = inv_except r n k ts s"
  by (simp_all add: inv_except_def entry_ok_def table_ok_def)

lemma server_inv_simps [simp]:
  "server_inv r (s\<lparr>sv_stats := a\<rparr>) = server_inv r s" "server_inv r (s\<lparr>sv_mmc := m\<rparr>) = server_inv r s"
  "server_inv r (s\<lparr>sv_timers := ti\<rparr>) = server_inv r s"
  "server_inv r (s\<lparr>sv_access_log := al\<rparr>) = server_inv r s"
  "server_inv r (s\<lparr>sv_draining := d\<rparr>) = server_inv r s"
  by (simp_all add: server_inv_def entry_ok_def table_ok_def held_def)

lemma held_with_self:
  "map_of cs k = Some c \<Longrightarrow> distinct (map fst cs) \<Longrightarrow> held_with k (tnums_of c) cs = map (\<lambda>(k, c). tnums_of c) cs"
  by (force simp: held_with_def dest: eq_key_imp_eq_value map_of_SomeD)

lemma inv_except_start:
  "server_inv r s \<Longrightarrow> conn_at s k = Some c \<Longrightarrow> inv_except r 0 k (tnums_of c) s"
  by (auto simp: server_inv_def inv_except_def table_ok_def held_def conn_at_def held_with_self)

lemma inv_except_finish:
  assumes "inv_except r 0 k (tnums_of c) s" "conn_at s k = Some c" "slot_ok c"
    "r \<Longrightarrow> interest_at s k = wanted (cs_state c)"
  shows "server_inv r s"
proof -
  have "entry_ok r s j" for j using assms by (cases "j = k") (auto simp: inv_except_def entry_ok_def)
  then show ?thesis
    using assms by (auto simp: server_inv_def inv_except_def table_ok_def held_def conn_at_def held_with_self)
qed

section \<open>The registry\<close>

lemma conn_token_inj [simp]: "conn_token j = conn_token k \<longleftrightarrow> j = k"
  by (simp add: conn_token_def)

lemma interest_update [simp]:
  "interest_at (s\<lparr>sv_registry := AList.update (conn_token k) i (sv_registry s)\<rparr>) j =
     (if j = k then Some i else interest_at s j)"
  "interest_at (s\<lparr>sv_registry := AList.delete (conn_token k) (sv_registry s)\<rparr>) j =
     (if j = k then None else interest_at s j)"
  by (simp_all add: interest_at_def update_conv' delete_conv')

lemma inv_except_registry [simp]:
  "inv_except r n k ts (s\<lparr>sv_registry := AList.update (conn_token k) i (sv_registry s)\<rparr>) =
     inv_except r n k ts s"
  "inv_except r n k ts (s\<lparr>sv_registry := AList.delete (conn_token k) (sv_registry s)\<rparr>) =
     inv_except r n k ts s"
  by (simp_all add: inv_except_def entry_ok_def table_ok_def)

lemma registry_ops [simp]:
  "inv_except r n k ts (fst (reg_register e k i s)) = inv_except r n k ts s"
  "inv_except r n k ts (reg_reregister e k i s) = inv_except r n k ts s"
  "inv_except r n k ts (reg_deregister e k s) = inv_except r n k ts s"
  "inv_except r n k ts (drop_stream k s) = inv_except r n k ts s"
  "conn_at (fst (reg_register e k i s)) j = conn_at s j" "conn_at (reg_reregister e k i s) j = conn_at s j"
  "conn_at (reg_deregister e k s) j = conn_at s j" "conn_at (drop_stream k s) j = conn_at s j"
  by (simp_all add: reg_register_def reg_reregister_def reg_deregister_def drop_stream_def)

lemma registry_interest:
  "ev_reg_ok e \<Longrightarrow> interest_at s k = None \<Longrightarrow> interest_at (fst (reg_register e k i s)) k = Some i"
  "ev_reg_ok e \<Longrightarrow> interest_at s k = Some j \<Longrightarrow> interest_at (reg_reregister e k i s) k = Some i"
  "ev_reg_ok e \<Longrightarrow> interest_at (reg_deregister e k s) k = None"
  "interest_at (drop_stream k s) k = None"
  by (simp_all add: reg_register_def reg_reregister_def reg_deregister_def drop_stream_def)
    (simp_all add: interest_at_def update_conv')

section \<open>The ledger\<close>

lemma ledger_nonneg: "ledger_ok (Some es) hs \<Longrightarrow> 0 \<le> throttle_usage es i"
  by (simp add: ledger_ok_def throttle_ledger.exact_def held_count_nonneg)

lemma held_with_Cons [simp]:
  "held_with k ts ((j, c) # cs) = (if j = k then ts else tnums_of c) # held_with k ts cs"
  by (simp add: held_with_def)

lemma held_with_Nil [simp]: "held_with k ts [] = []"
  by (simp add: held_with_def)

lemma held_with_other: "k \<notin> fst ` set cs \<Longrightarrow> held_with k ts' cs = held_with k ts cs"
  by (force simp: held_with_def)

lemma held_count_with:
  assumes "k \<in> fst ` set cs" "distinct (map fst cs)"
  shows "held_count (held_with k ts' cs) i =
    held_count (held_with k ts cs) i - int (count_list ts i) + int (count_list ts' i)"
  using assms
proof (induction cs)
  case (Cons x cs)
  obtain j c where x: "x = (j, c)" by (cases x)
  show ?case
  proof (cases "j = k")
    case True
    then show ?thesis using Cons.prems x held_with_other[of k cs ts' ts] by simp
  next
    case False
    then have "k \<in> fst ` set cs" using Cons.prems x by auto
    with Cons.IH Cons.prems x False show ?thesis by simp
  qed
qed simp

lemma held_with_member:
  "x \<in> set (held_with k ts' cs) \<Longrightarrow> x = ts' \<or> x \<in> set (held_with k ts cs)"
  by (induction cs) (auto split: if_splits)

lemma held_with_here: "k \<in> fst ` set cs \<Longrightarrow> ts \<in> set (held_with k ts cs)"
  by (force simp: held_with_def)

lemma ledger_exchange:
  assumes "ledger_ok (Some es) (held_with k ts cs)" "k \<in> fst ` set cs" "distinct (map fst cs)"
    "length es' = length es" "\<And>t. t \<in> set ts' \<Longrightarrow> t < length es"
    "\<And>i. throttle_usage es' i = throttle_usage es i - int (count_list ts i) + int (count_list ts' i)"
  shows "ledger_ok (Some es') (held_with k ts' cs)"
proof -
  have "t < length es" if "x \<in> set (held_with k ts' cs)" "t \<in> set x" for x t
    using held_with_member[OF that(1), of ts] that(2) assms(1,5)
    by (auto simp: ledger_ok_def throttle_ledger.exact_def)
  then show ?thesis using assms held_count_with[OF assms(2,3), of ts' _ ts]
    by (simp add: ledger_ok_def throttle_ledger.exact_def)
qed

fun granted :: "throttle_decision \<Rightarrow> nat list" where
  "granted (Allow ts mx mn) = ts"
| "granted _ = []"

lemma conn_at_key: "conn_at s k = Some c \<Longrightarrow> k \<in> fst ` set (sv_conns s)"
  by (force simp: conn_at_def dest: map_of_SomeD)

lemma admit_frame:
  assumes "admit_request s path = (s', d)"
  shows "conn_at s' j = conn_at s j" "interest_at s' j = interest_at s j" "sv_config s' = sv_config s"
    "sv_active_cgis s' = sv_active_cgis s" "sv_conns s' = sv_conns s" "sv_mmc s' = sv_mmc s"
  using assms by (auto simp: admit_request_def split: option.splits prod.splits)

lemma admit_inv:
  assumes inv: "inv_except r n k [] s" and c: "conn_at s k = Some c" and a: "admit_request s path = (s', d)"
  shows "inv_except r n k (granted d) s'"
proof -
  note f = admit_frame[OF a]
  have tab: "table_ok s' = table_ok s" using f by (simp add: table_ok_def)
  have "ledger_ok (sv_throttles s') (held_with k (granted d) (sv_conns s))"
  proof (cases "sv_throttles s")
    case None
    then show ?thesis using a inv by (auto simp: admit_request_def inv_except_def)
  next
    case (Some es)
    let ?r = "check_request es (throttle_match_path path)"
    have L: "ledger_ok (Some es) (held_with k [] (sv_conns s))" using inv Some by (simp add: inv_except_def)
    have s': "sv_throttles s' = Some (fst ?r)" "d = snd ?r"
      using a Some by (auto simp: admit_request_def split: prod.splits)
    have post: "check_post [] es ?r" using check_request_post ledger_nonneg[OF L] by blast
    have len: "length (fst ?r) = length es" by (simp add: check_request_def length_check_loop)
    have "ledger_ok (Some (fst ?r)) (held_with k (granted (snd ?r)) (sv_conns s))"
      by (rule ledger_exchange[OF L conn_at_key[OF c] _ len])
        (use post inv in \<open>auto simp: check_post_def inv_except_def table_ok_def split: throttle_decision.splits\<close>)
    then show ?thesis using s' by simp
  qed
  then show ?thesis using inv tab f by (simp add: inv_except_def entry_ok_def)
qed

lemma release_inv:
  assumes "inv_except r n k ts s" "conn_at s k = Some c"
  shows "inv_except r n k [] (s\<lparr>sv_throttles := map_option (\<lambda>es. throttle_clear es ts) (sv_throttles s)\<rparr>)"
proof -
  have "ledger_ok (map_option (\<lambda>es. throttle_clear es ts) (sv_throttles s)) (held_with k [] (sv_conns s))"
  proof (cases "sv_throttles s")
    case None
    then show ?thesis using assms(1) held_with_member[of _ k "[]" "sv_conns s" ts]
      by (auto simp: inv_except_def ledger_ok_def)
  next
    case (Some es)
    then have L: "ledger_ok (Some es) (held_with k ts (sv_conns s))" using assms by (simp add: inv_except_def)
    have rng: "t < length es" if "t \<in> set ts" for t
      using L that held_with_here[OF conn_at_key[OF assms(2)], of ts]
      by (auto simp: ledger_ok_def throttle_ledger.exact_def)
    show ?thesis
      using ledger_exchange[OF L conn_at_key[OF assms(2)], of "throttle_clear es ts" "[]"] assms(1) Some
      by (simp add: inv_except_def table_ok_def throttle_clear_usage rng)
  qed
  then show ?thesis using assms by (simp add: inv_except_def entry_ok_def table_ok_def)
qed

text \<open>Updates of the table that leave the counts of open transfers alone.\<close>

lemma ledger_neutral:
  assumes "\<And>es. length (f es) = length es" "\<And>es i. throttle_usage (f es) i = throttle_usage es i"
  shows "ledger_ok (map_option f th) hs = ledger_ok th hs"
  by (cases th) (auto simp: ledger_ok_def throttle_ledger.exact_def assms)

lemma neutral_inv:
  assumes "\<And>es. length (f es) = length es" "\<And>es i. throttle_usage (f es) i = throttle_usage es i"
  shows "inv_except r n k ts (s\<lparr>sv_throttles := map_option f (sv_throttles s)\<rparr>) = inv_except r n k ts s"
    "server_inv r (s\<lparr>sv_throttles := map_option f (sv_throttles s)\<rparr>) = server_inv r s"
  by (simp_all add: inv_except_def server_inv_def entry_ok_def table_ok_def held_def ledger_neutral[OF assms])

section \<open>Transitions\<close>

lemma frame_simps [simp]:
  "frame (set_response x h) = frame h" "frame (h\<lparr>h_response_header_len := m\<rparr>) = frame h"
  "frame (h\<lparr>h_bytes_sent := b\<rparr>) = frame h" "frame (h\<lparr>h_status_code := m\<rparr>) = frame h"
  "frame (h\<lparr>h_file_address := a\<rparr>) = frame h" "frame (h\<lparr>h_charset := x\<rparr>) = frame h"
  "frame (h\<lparr>h_path_info := x\<rparr>) = frame h" "frame (fill_last_byte z h) = frame h"
  by (simp_all add: frame_def set_response_def fill_last_byte_def)

lemma set_response_simps [simp]:
  "h_response (set_response x h) = x" "h_response_len (set_response x h) = length x"
  "h_orig_filename (set_response x h) = h_orig_filename h"
  by (simp_all add: set_response_def)

lemma fill_header_len_slot [simp]:
  "cs_throttle (fill_header_len c) = cs_throttle c" "cs_stream (fill_header_len c) = cs_stream c"
  "frame (cs_http (fill_header_len c)) = frame (cs_http c)"
  "h_response (cs_http (fill_header_len c)) = h_response (cs_http c)"
  "h_response_len (cs_http (fill_header_len c)) = h_response_len (cs_http c)"
  by (auto simp: fill_header_len_def split: option.splits)

lemma start_clock_slot [simp]:
  "tnums_of (start_clock e c) = tnums_of c" "cs_stream (start_clock e c) = cs_stream c"
  "cs_http (start_clock e c) = cs_http c" "cs_state (start_clock e c) = cs_state c"
  by (simp_all add: start_clock_def)

lemma apply_decision_slot [simp]:
  "tnums_of (apply_decision e f d c) = (case d of Allow ts _ _ \<Rightarrow> ts | _ \<Rightarrow> tnums_of c)"
  "cs_stream (apply_decision e f d c) = cs_stream c" "cs_state (apply_decision e f d c) = cs_state c"
  "frame (cs_http (apply_decision e f d c)) = frame (cs_http c)"
  by (simp_all add: apply_decision_def Let_def split: throttle_decision.splits)

lemma begin_sending_slot [simp]:
  "tnums_of (begin_sending c) = tnums_of c" "cs_stream (begin_sending c) = cs_stream c"
  "cs_state (begin_sending c) = Sending" "frame (cs_http (begin_sending c)) = frame (cs_http c)"
  "h_bytes_sent (cs_http (begin_sending c)) = 0" "h_response (cs_http (begin_sending c)) = h_response (cs_http c)"
  "h_response_len (cs_http (begin_sending c)) = h_response_len (cs_http c)"
  by (simp_all add: begin_sending_def)

lemma apply_decision_response:
  "response_ok (cs_http c) \<Longrightarrow> h_bytes_sent (cs_http c) = 0 \<Longrightarrow> response_ok (cs_http (apply_decision e f d c))"
  by (auto simp: apply_decision_def response_ok_def Let_def set_response_def split: throttle_decision.splits)

definition flight :: "bool \<Rightarrow> int \<Rightarrow> nat \<Rightarrow> conn_slot \<Rightarrow> server \<Rightarrow> bool" where
  "flight r n k c s \<longleftrightarrow> inv_except r n k (tnums_of c) s \<and> conn_at s k = Some c \<and>
     (r \<longrightarrow> interest_at s k \<noteq> None)"

lemma flight_upd: "flight r n k c s \<Longrightarrow> tnums_of (f c) = tnums_of c \<Longrightarrow> flight r n k (f c) (upd_conn k f s)"
  by (simp add: flight_def)


text \<open>The admission on the way to sending: the rules it grants are those the connection will hold.\<close>

lemma sending_admission:
  assumes "inv_except r 0 k (tnums_of c) s" "conn_at s k = Some c'"
    and "tnums_of c = [] \<or> ct_checked (cs_throttle c) \<or> cs_is_cgi c"
    and "(if \<not> cs_is_cgi c \<and> \<not> ct_checked (cs_throttle c)
      then admit_request s (h_orig_filename (cs_http c)) else (s, Unlimited)) = (s', d)"
  shows "inv_except r 0 k (case d of Allow ts _ _ \<Rightarrow> ts | _ \<Rightarrow> tnums_of c) s'"
proof (cases "\<not> cs_is_cgi c \<and> \<not> ct_checked (cs_throttle c)")
  case True
  then have "inv_except r 0 k (granted d) s'" using assms by (intro admit_inv[OF _ assms(2)]) auto
  moreover have "granted d = (case d of Allow ts _ _ \<Rightarrow> ts | _ \<Rightarrow> tnums_of c)"
    using True assms(3) by (cases d) auto
  ultimately show ?thesis by simp
next
  case False
  then show ?thesis using assms(1,4) by auto
qed

lemma sending_inv:
  assumes fl: "flight r 0 k c s" and c: "cs_stream c" "frame_ok (frame (cs_http c))"
    "h_response_len (cs_http c) = length (h_response (cs_http c))"
    and adm: "tnums_of c = [] \<or> ct_checked (cs_throttle c) \<or> cs_is_cgi c"
    and reg: "r \<longrightarrow> ev_reg_ok e"
  shows "server_inv r (transition_to_sending e s k)"
proof -
  have k: "conn_at s k = Some c" and inv: "inv_except r 0 k (tnums_of c) s"
    and i: "r \<longrightarrow> interest_at s k \<noteq> None" using fl by (auto simp: flight_def)
  define s1 where "s1 = upd_conn k fill_header_len s"
  obtain s2 d where sd: "(if \<not> cs_is_cgi c \<and> \<not> ct_checked (cs_throttle c)
      then admit_request s1 (h_orig_filename (cs_http c)) else (s1, Unlimited)) = (s2, d)"
    by (metis surj_pair)
  have k1: "conn_at s1 k = Some (fill_header_len c)" using k by (simp add: s1_def)
  have fr: "conn_at s2 j = conn_at s1 j \<and> interest_at s2 j = interest_at s1 j" for j
    using sd by (auto simp: admit_frame split: if_splits)
  have i2: "inv_except r 0 k (case d of Allow ts _ _ \<Rightarrow> ts | _ \<Rightarrow> tnums_of c) s2"
    by (rule sending_admission[OF _ k1 adm sd]) (use inv in \<open>simp add: s1_def\<close>)
  define f where "f x = apply_decision e (h_orig_filename (cs_http c)) d
      ((if ct_checked (cs_throttle c) \<and> is_throttled (cs_throttle c) then start_clock e else id) (begin_sending x))" for x
  define s5 where "s5 = upd_conn k f s2"
  define s6 where "s6 = (if cs_stream c then reg_reregister e k Writable s5 else s5)"
  have eq: "transition_to_sending e s k = s6\<lparr>sv_stats := (sv_stats s6)\<lparr>ss_requests := ss_requests (sv_stats s6) + 1\<rparr>\<rparr>"
    using k sd unfolding transition_to_sending_def s6_def s5_def s1_def f_def
    by (simp add: Let_def) (simp add: upd_conn_def comp_def)
  let ?c = "f (fill_header_len c)"
  have k6: "conn_at s6 k = Some ?c" using fr[of k] k1 by (simp add: s6_def s5_def)
  have tn: "tnums_of ?c = (case d of Allow ts _ _ \<Rightarrow> ts | _ \<Rightarrow> tnums_of c)"
    by (simp add: f_def split: throttle_decision.splits)
  have inv6: "inv_except r 0 k (tnums_of ?c) s6" using i2 tn by (simp add: s6_def s5_def)
  have resp: "response_ok (cs_http ?c)"
    unfolding f_def by (rule apply_decision_response) (use c in \<open>simp_all add: response_ok_def\<close>)
  have st: "cs_state ?c = Sending" by (simp add: f_def)
  have ok: "slot_ok ?c" using c resp st by (simp add: slot_ok_def) (simp add: f_def)
  have "server_inv r s6"
    by (rule inv_except_finish[OF inv6 k6 ok])
      (use reg i fr[of k] c st in \<open>auto simp: s6_def registry_interest s5_def s1_def\<close>)
  then show ?thesis using eq by simp
qed

lemma finish_response_inv:
  assumes "flight r 0 k c s" "cs_stream c" "frame_ok (frame (f (cs_http c)))"
    "h_response_len (f (cs_http c)) = length (h_response (f (cs_http c)))"
    "tnums_of c = [] \<or> ct_checked (cs_throttle c) \<or> cs_is_cgi c" "r \<longrightarrow> ev_reg_ok e"
  shows "server_inv r (transition_to_sending e (upd_http k f s) k)"
  by (rule sending_inv[OF flight_upd[OF assms(1)]]) (use assms in auto)

lemma lingering_inv:
  assumes "flight r 0 k c s" "cs_stream c" "frame_ok (frame (cs_http c))" "r \<longrightarrow> ev_reg_ok e"
  shows "server_inv r (transition_to_lingering e s k)"
proof -
  let ?f = "\<lambda>c. c\<lparr>cs_state := Lingering, cs_http := (cs_http c)\<lparr>h_file_address := None\<rparr>\<rparr>"
  let ?s = "upd_conn k ?f s"
  let ?s2 = "case h_file_address (cs_http c) of Some m \<Rightarrow> ?s\<lparr>sv_mmc := mmc_unmap (sv_mmc ?s) m\<rparr> | None \<Rightarrow> ?s"
  have eq: "transition_to_lingering e s k = reg_reregister e k Readable ?s2"
    using assms by (simp add: transition_to_lingering_def flight_def Let_def)
  have s2: "inv_except r 0 k (tnums_of (?f c)) ?s2" "conn_at ?s2 k = Some (?f c)"
    "interest_at ?s2 k = interest_at s k"
    using assms by (simp_all add: flight_def split: option.splits)
  obtain s2 where s2_def: "?s2 = s2" by blast
  show ?thesis unfolding eq s2_def
    by (rule inv_except_finish[where c = "?f c"])
      (use assms s2[unfolded s2_def] in \<open>auto simp: slot_ok_def flight_def registry_interest\<close>)
qed

lemma delete_inv:
  assumes "inv_except r 0 k [] s" "r \<longrightarrow> interest_at s k = None"
  shows "server_inv r (s\<lparr>sv_conns := AList.delete k (sv_conns s)\<rparr>)"
proof -
  let ?s = "s\<lparr>sv_conns := AList.delete k (sv_conns s)\<rparr>"
  have "sublist_held": "held_count (map (\<lambda>(k, c). tnums_of c) (AList.delete k cs)) i = held_count (held_with k [] cs) i"
    "set (map (\<lambda>(k, c). tnums_of c) (AList.delete k cs)) \<subseteq> set (held_with k [] cs)" for cs i
    by (induction cs) (auto simp: held_with_def)
  then have "ledger_ok (sv_throttles s) (map (\<lambda>(k, c). tnums_of c) (AList.delete k (sv_conns s)))"
    using assms(1) by (force simp: inv_except_def ledger_ok_def throttle_ledger.exact_def split: option.splits)
  moreover have "table_ok ?s"
    using assms(1) le_trans[OF length_delete_le[of k "sv_conns s"]]
    by (simp add: inv_except_def table_ok_def distinct_delete)
  moreover have "entry_ok r ?s j" for j
    using assms by (cases "j = k") (auto simp: inv_except_def entry_ok_def conn_at_def delete_conv')
  ultimately show ?thesis using assms by (simp add: server_inv_def inv_except_def held_def)
qed

lemma close_inv:
  assumes "inv_except r 0 k (tnums_of c) s" "conn_at s k = Some c" "cs_stream c"
  shows "server_inv r (close_connection e s k)"
proof -
  define s1 where "s1 = (if 0 < logged_status_code (cs_http c)
      then (case log_request (ev_local e) (sv_access_log s) (conn_log_entry c) of
              Some w \<Rightarrow> s\<lparr>sv_log_out := sv_log_out s @ [w]\<rparr> | None \<Rightarrow> s) else s)"
  define s2 where "s2 = (if is_throttled (cs_throttle c)
      then s1\<lparr>sv_throttles := map_option (\<lambda>es. throttle_clear es (tnums_of c)) (sv_throttles s1)\<rparr> else s1)"
  have "inv_except r 0 k (tnums_of c) s1" "conn_at s1 k = Some c"
    using assms by (auto simp: s1_def split: option.splits)
  then have "inv_except r 0 k [] s2"
    using release_inv[of r 0 k "tnums_of c" s1 c] by (auto simp: s2_def is_throttled_def)
  then have "server_inv r ((drop_stream k (reg_deregister e k s2))
      \<lparr>sv_conns := AList.delete k (sv_conns (drop_stream k (reg_deregister e k s2)))\<rparr>)"
    by (intro delete_inv) (simp_all add: registry_interest)
  then show ?thesis
    by (simp only: close_connection_def Let_def s2_def s1_def assms option.case if_True)
qed

section \<open>What the analysis of a request keeps\<close>

lemma frame_set_opt: "(\<And>v h. frame (f v h) = frame h) \<Longrightarrow> frame (set_opt o' f h) = frame h"
  by (cases o') (simp_all add: set_opt_def)

lemma frame_fields [simp]:
  "frame (split_query h) = frame h" "frame (request_line_fields buf m h) = frame h"
  "frame (parse_range v h) = frame h" "frame (parse_forwarded v h) = frame h"
  by (simp_all add: frame_def split_query_def request_line_fields_def parse_range_def parse_forwarded_def
      Let_def split: option.splits prod.splits)

lemma frame_header_updates [simp]:
  "frame (h_if_modified_since_update gi h) = frame h"
  "frame (h_content_type_update g h) = frame h"
  "frame (h_content_length_update gi h) = frame h"
  "frame (h_user_agent_update g h) = frame h"
  "frame (h_referer_update g h) = frame h"
  "frame (h_accept_update g h) = frame h"
  "frame (h_accept_encoding_update g h) = frame h"
  "frame (h_accept_language_update g h) = frame h"
  "frame (h_cookie_update g h) = frame h"
  "frame (h_authorization_update g h) = frame h"
  "frame (h_x_forwarded_for_update g h) = frame h"
  by (simp_all add: frame_def)

lemma frame_request_header_fields [simp]: "frame (request_header_fields buf h) = frame h"
  by (simp add: request_header_fields_def Let_def frame_set_opt)

lemma frame_extract_path_info [simp]: "frame (extract_path_info e c h) = frame h"
  by (simp add: extract_path_info_def frame_def split: prod.splits)

lemma resolve_file_frame:
  "resolve_file e c h = Inr hp \<Longrightarrow> frame (fst hp) = frame h \<and> h_orig_filename (fst hp) \<noteq> []"
  using normalize_path_safe
  by (force simp: resolve_file_def frame_def safe_path_def split: option.splits if_splits)

lemma apply_vhost_frame [simp]: "frame (fst (apply_vhost e c hp)) = frame (fst hp)"
  by (cases hp) (simp add: apply_vhost_def frame_def Let_def)

lemma apply_vhost_named: "h_orig_filename (fst hp) \<noteq> [] \<Longrightarrow> h_orig_filename (fst (apply_vhost e c hp)) \<noteq> []"
  by (cases hp) (simp add: apply_vhost_def Let_def)

lemma path_info_loop_nonempty: "t \<noteq> [] \<Longrightarrow> fst (path_info_loop present t info) \<noteq> []"
proof (induction present t info rule: path_info_loop.induct)
  case (1 present t info)
  then show ?case
    by (subst path_info_loop.simps) (auto split: option.splits dest: rfind_byte_lt)
qed

lemma extract_path_info_named:
  assumes "h_orig_filename h \<noteq> []"
  shows "h_orig_filename (extract_path_info e c h) \<noteq> []"
  using path_info_loop_nonempty[OF assms, of "\<lambda>p. ev_exists e (disk_path c p)" "[]"] assms
  by (auto simp: extract_path_info_def split: prod.splits)

fun outcome_http :: "outcome \<Rightarrow> http_conn" where
  "outcome_http (OutRespond h r) = h"
| "outcome_http (OutCgi h) = h"
| "outcome_http (OutStatic h p) = h"

lemma dispatch_outcome_frame [simp]: "frame (outcome_http (dispatch_outcome e c hp)) = frame (fst hp)"
  by (cases hp) (simp add: dispatch_outcome_def Let_def)

lemma dispatch_outcome_named:
  "h_orig_filename (fst hp) \<noteq> [] \<Longrightarrow> dispatch_outcome e c hp = OutCgi h' \<Longrightarrow> h_orig_filename h' \<noteq> []"
  by (cases hp) (auto simp: dispatch_outcome_def Let_def extract_path_info_named split: if_splits)

lemma request_outcome_frame:
  "frame (outcome_http (request_outcome e c buf m h)) = frame h"
  by (auto simp: request_outcome_def Let_def resolve_file_frame split: option.splits sum.splits)

lemma request_outcome_named:
  assumes "request_outcome e c buf m h = OutCgi h'"
  shows "h_orig_filename h' \<noteq> []"
proof -
  obtain hp where "resolve_file e c (request_header_fields buf (request_line_fields buf m h)) = Inr hp"
    "dispatch_outcome e c (apply_vhost e c hp) = OutCgi h'"
    using assms by (auto simp: request_outcome_def Let_def split: option.splits sum.splits if_splits)
  then show ?thesis using resolve_file_frame apply_vhost_named dispatch_outcome_named by blast
qed

section \<open>Static files\<close>

lemma send_file_inv:
  assumes "flight r 0 k c s" "cs_stream c" "frame_ok (frame (cs_http c))" "ct_checked (cs_throttle c)"
    "r \<longrightarrow> ev_reg_ok e" "send_file e s k http p st = Some s'"
  shows "server_inv r s'"
proof -
  have fl: "flight r 0 k c (s\<lparr>sv_mmc := m\<rparr>)" for m using assms(1) by (simp add: flight_def)
  show ?thesis using assms
    by (auto simp: send_file_def finish_response_def Let_def split: prod.splits sum.splits option.splits
        intro!: finish_response_inv[OF fl])
qed

lemma static_admitted_inv:
  assumes "flight r 0 k c s" "cs_stream c" "frame_ok (frame (cs_http c))" "ct_checked (cs_throttle c)"
    "r \<longrightarrow> ev_reg_ok e" "static_admitted e s k http p st = Some s'"
  shows "server_inv r s'"
  using assms(6) send_file_inv[OF assms(1-5)] assms(2-5)
  by (auto simp: static_admitted_def finish_response_def split: if_splits
      intro!: finish_response_inv[OF assms(1)])

lemma flight_admit:
  assumes "flight r n k c s" "tnums_of c = []" "admit_request s path = (s', d)" "tnums_of (f c) = granted d"
  shows "flight r n k (f c) (upd_conn k f s')"
  using assms admit_inv[of r n k s c path s' d] admit_frame[OF assms(3)] by (simp add: flight_def)

lemma serve_static_inv:
  assumes fl: "flight r 0 k c s" and c: "cs_stream c" "frame_ok (frame http)" "tnums_of c = []"
    and reg: "r \<longrightarrow> ev_reg_ok e" and res: "serve_static e s k http p = Some s'"
  shows "server_inv r s'"
proof -
  define h where "h = http\<lparr>h_charset := sc_charset (sv_config s)\<rparr>"
  have fh: "frame h = frame http" by (simp add: h_def)
  show ?thesis
  proof (cases "static_decision e (sv_config s) h p")
    case (Inl x)
    then show ?thesis using res c fh reg
      by (auto simp: serve_static_def Let_def finish_response_def simp flip: h_def intro!: finish_response_inv[OF fl])
  next
    case (Inr q)
    obtain fp st where q: "q = (fp, st)" by (cases q)
    define h1 where "h1 = fill_last_byte (wrap_i64 (int (st_len st))) h"
    define c1 where "c1 = c\<lparr>cs_http := h1\<rparr>"
    define s1 where "s1 = upd_http k (\<lambda>_. h1) s"
    have c1: "cs_stream c1" "frame_ok (frame (cs_http c1))" "tnums_of c1 = []"
      using c fh by (simp_all add: c1_def h1_def)
    have fl1: "flight r 0 k c1 s1" unfolding s1_def c1_def by (rule flight_upd[OF fl]) simp
    obtain s2 d where a: "admit_request s1 (h_orig_filename h1) = (s2, d)" by (cases "admit_request s1 (h_orig_filename h1)")
    note res' = res[unfolded serve_static_def Let_def, folded h_def, unfolded Inr q sum.case prod.case,
        folded h1_def, folded s1_def, unfolded a prod.case]
    note go = flight_admit[OF fl1 c1(3) a]
    show ?thesis
    proof (cases d)
      case Unlimited
      let ?f = "\<lambda>c. c\<lparr>cs_throttle := (cs_throttle c)\<lparr>ct_checked := True\<rparr>\<rparr>"
      have "flight r 0 k (?f c1) (upd_conn k ?f s2)" by (rule go) (simp add: Unlimited c1)
      then show ?thesis by (rule static_admitted_inv) (use res' Unlimited c1 reg in auto)
    next
      case (Allow ts mx mn)
      let ?f = "\<lambda>c. c\<lparr>cs_throttle := (cs_throttle c)\<lparr>ct_tnums := ts, ct_max_limit := mx, ct_min_limit := mn,
          ct_checked := True\<rparr>\<rparr>"
      have "flight r 0 k (?f c1) (upd_conn k ?f s2)" by (rule go) (simp add: Allow c1)
      then show ?thesis by (rule static_admitted_inv) (use res' Allow c1 reg in auto)
    next
      case Reject
      let ?f = "\<lambda>c. c\<lparr>cs_throttle := (cs_throttle c)\<lparr>ct_checked := True\<rparr>\<rparr>"
      have "flight r 0 k (?f c1) (upd_conn k ?f s2)" by (rule go) (simp add: Reject c1)
      then show ?thesis using res' Reject c1 reg
        by (auto simp: finish_response_def intro!: finish_response_inv)
    qed
  qed
qed

section \<open>Scripts\<close>

lemma flight_set_cgis: "flight r n k c s \<Longrightarrow> flight r (f n) k c (set_cgis f s)"
  by (simp add: flight_def set_cgis_def inv_except_def entry_ok_def table_ok_def)

lemma add_bytes_neutral:
  "length (throttle_add_bytes es ts n) = length es"
  "throttle_usage (throttle_add_bytes es ts n) i = throttle_usage es i"
  by (simp_all add: throttle_add_bytes_usage)

lemma cgi_complete_flight:
  assumes fl: "flight r 1 k c s"
  obtains c' where "flight r 0 k c' (cgi_complete charged k (tnums_of c) s)" "cs_stream c' = cs_stream c"
    "cs_http c' = cs_http c" "tnums_of c' = []"
proof (cases "tnums_of c = []")
  case True
  then have "cgi_complete charged k (tnums_of c) s = set_cgis (\<lambda>n. n - 1) s" by (simp add: cgi_complete_def)
  then show ?thesis using that[of c] True flight_set_cgis[OF fl, of "\<lambda>n. n - 1"] by simp
next
  case False
  define s1 where "s1 = set_cgis (\<lambda>n. n - 1) s"
  define g where "g es = (if charged then throttle_add_bytes es (tnums_of c) CGI_BYTECOUNT else es)" for es
  let ?s2 = "s1\<lparr>sv_throttles := map_option g (sv_throttles s1)\<rparr>"
  have fl1: "flight r 0 k c s1" using flight_set_cgis[OF fl, of "\<lambda>n. n - 1"] by (simp add: s1_def)
  have "inv_except r 0 k (tnums_of c) ?s2"
    using fl1 by (subst neutral_inv(1)) (auto simp: g_def add_bytes_neutral flight_def)
  then have "inv_except r 0 k [] (s1\<lparr>sv_throttles :=
      map_option (\<lambda>es. throttle_clear (g es) (tnums_of c)) (sv_throttles s1)\<rparr>)"
    using release_inv[of r 0 k "tnums_of c" ?s2 c] fl1 by (simp add: flight_def option.map_comp comp_def)
  then have "flight r 0 k (c\<lparr>cs_throttle := conn_throttle_reset (cs_throttle c)\<rparr>)
      (cgi_complete charged k (tnums_of c) s)"
    using fl1 False by (simp add: cgi_complete_def flight_def conn_throttle_reset_def g_def flip: s1_def)
  then show ?thesis by (rule that) (simp_all add: conn_throttle_reset_def)
qed

lemma cgi_run_phase_inv:
  assumes fl: "flight r 1 k c s" and c: "cs_stream c" "frame_ok (frame (cs_http c))" and reg: "r \<longrightarrow> ev_reg_ok e"
  shows "server_inv r (cgi_run_phase e s k slot script info (tnums_of c))"
proof -
  let ?c = "c\<lparr>cs_is_cgi := True\<rparr>"
  have "flight r 1 k ?c (upd_conn k (\<lambda>c. c\<lparr>cs_is_cgi := True\<rparr>) s)" by (rule flight_upd[OF fl]) simp
  then have "server_inv r (transition_to_sending e (upd_http k (set_response x)
      (cgi_complete ch k (tnums_of ?c) (upd_conn k (\<lambda>c. c\<lparr>cs_is_cgi := True\<rparr>) s))) k)" for ch x
  proof -
    assume "flight r 1 k ?c (upd_conn k (\<lambda>c. c\<lparr>cs_is_cgi := True\<rparr>) s)"
    then obtain c' where "flight r 0 k c' (cgi_complete ch k (tnums_of ?c) (upd_conn k (\<lambda>c. c\<lparr>cs_is_cgi := True\<rparr>) s))"
      "cs_stream c' = cs_stream ?c" "cs_http c' = cs_http ?c" "tnums_of c' = []"
      using cgi_complete_flight by blast
    then show ?thesis using c reg by (intro finish_response_inv[where c = c']) auto
  qed
  then show ?thesis unfolding cgi_run_phase_def Let_def by (auto split: option.splits prod.splits)
qed

lemma cgi_error_inv:
  assumes "flight r 0 k c s" "cs_stream c" "frame_ok (frame http)" "tnums_of c = []" "r \<longrightarrow> ev_reg_ok e"
  shows "server_inv r (cgi_error e s k http status title form)"
  unfolding cgi_error_def using assms by (auto intro!: finish_response_inv)

definition reading :: "bool \<Rightarrow> conn_slot \<Rightarrow> nat \<Rightarrow> server \<Rightarrow> bool" where
  "reading r c k s \<longleftrightarrow> flight r 0 k c s \<and> (r \<longrightarrow> interest_at s k = Some Readable) \<and> cs_stream c \<and>
     cs_state c = Reading \<and> tnums_of c = [] \<and> \<not> ct_checked (cs_throttle c) \<and> \<not> cs_is_cgi c"

lemma reading_start:
  assumes "server_inv r s" "conn_at s k = Some c" "cs_state c = Reading"
  shows "reading r c k s"
proof -
  have "entry_ok r s k" using assms by (simp add: server_inv_def)
  then show ?thesis using assms inv_except_start[OF assms(1,2)]
    by (simp add: reading_def flight_def entry_ok_def slot_ok_def)
qed

lemma reading_finish:
  assumes "reading r c k s" "frame_ok (frame (cs_http c))" "cs_pending_cgi_body c \<longrightarrow> h_orig_filename (cs_http c) \<noteq> []"
  shows "server_inv r s"
  using assms by (intro inv_except_finish[of r k c]) (auto simp: reading_def flight_def slot_ok_def)

lemma reading_upd:
  assumes "reading r c k s" "cs_throttle (f c) = cs_throttle c" "cs_stream (f c) = cs_stream c"
    "cs_state (f c) = cs_state c" "cs_is_cgi (f c) = cs_is_cgi c"
  shows "reading r (f c) k (upd_conn k f s)"
  using assms flight_upd[of r 0 k c s f] by (simp add: reading_def)

lemma cgi_refusal_inv:
  assumes "flight r 1 k c s" "cs_stream c" "tnums_of c = []" "frame_ok (frame h)" "r \<longrightarrow> ev_reg_ok e"
  shows "server_inv r (cgi_error e (set_cgis (\<lambda>n. n - 1) s) k h status title form)"
  using flight_set_cgis[of r 1 k c s "\<lambda>n. n - 1"] assms by (intro cgi_error_inv) auto

lemma cgi_throttle_check_inv:
  assumes f: "flight r 1 k c s" and c: "cs_stream c" "frame_ok (frame (cs_http c))" "tnums_of c = []"
    and slot: "frame_ok (frame (cs_http slot))" "tnums_of slot = []" and reg: "r \<longrightarrow> ev_reg_ok e"
  shows "server_inv r (cgi_throttle_check e s k slot script info)"
proof -
  obtain s1 d where a: "admit_request s script = (s1, d)" by (cases "admit_request s script")
  have "conn_at s1 k = Some c" using f admit_frame[OF a] by (simp add: flight_def)
  then have f1: "flight r 1 k c s1" if "granted d = []"
    using flight_admit[OF f c(3) a, of id] that c admit_frame[OF a] admit_inv[OF _ _ a] f by (simp add: flight_def)
  show ?thesis
  proof (cases d)
    case Unlimited
    then show ?thesis using a slot cgi_run_phase_inv[OF f1 c(1,2) reg] c(3) by (simp add: cgi_throttle_check_def)
  next
    case (Allow ts mx mn)
    let ?f = "\<lambda>c. c\<lparr>cs_throttle := (cs_throttle c)\<lparr>ct_tnums := ts\<rparr>\<rparr>"
    have "flight r 1 k (?f c) (upd_conn k ?f s1)" by (rule flight_admit[OF f c(3) a]) (simp add: Allow)
    from cgi_run_phase_inv[OF this _ _ reg] show ?thesis using a c slot Allow by (simp add: cgi_throttle_check_def)
  next
    case Reject
    then show ?thesis using a cgi_refusal_inv[OF f1 c(1,3) slot(1) reg] by (simp add: cgi_throttle_check_def)
  qed
qed

lemma dispatch_cgi_inv:
  assumes rd: "reading r c0 k s0" and c: "frame_ok (frame (cs_http c0))" "h_orig_filename (cs_http c0) \<noteq> []"
    and reg: "r \<longrightarrow> ev_reg_ok e" and res: "dispatch_cgi e s0 k = Some s'"
  shows "server_inv r s'"
proof -
  define h where "h = (cs_http c0)\<lparr>h_charset := sc_charset (sv_config s0)\<rparr>"
  define s where "s = upd_http k (\<lambda>_. h) s0"
  define c where "c = c0\<lparr>cs_http := h\<rparr>"
  have k: "conn_at s0 k = Some c0" using rd by (simp add: reading_def flight_def)
  have rc: "reading r c k s" unfolding s_def c_def by (rule reading_upd[OF rd]) simp_all
  have h: "frame_ok (frame h)" "h_orig_filename h \<noteq> []" using assms(2,3) by (simp_all add: h_def)
  note res1 = res[unfolded dispatch_cgi_def k option.case Let_def, folded h_def, folded s_def]
  consider (wait) "body_missing h" | (limit) "\<not> body_missing h" "0 < cgi_limit s \<and> cgi_limit s \<le> sv_active_cgis s"
    | (go) "\<not> body_missing h" "\<not> (0 < cgi_limit s \<and> cgi_limit s \<le> sv_active_cgis s)" by blast
  then show ?thesis
  proof cases
    case wait
    let ?f = "\<lambda>c. c\<lparr>cs_pending_cgi_body := True\<rparr>"
    have "reading r (?f c) k (upd_conn k ?f s)" by (rule reading_upd[OF rc]) simp_all
    then have "server_inv r (upd_conn k ?f s)" by (rule reading_finish) (use h in \<open>simp_all add: c_def\<close>)
    then show ?thesis using res1 wait by simp
  next
    case limit
    then show ?thesis using res1 rc h reg by (auto simp: reading_def intro!: cgi_error_inv)
  next
    case go
    obtain script info where si: "resolve_script e (sv_config s) h = (script, info)" by (cases "resolve_script e (sv_config s) h")
    define h1 where "h1 = h\<lparr>h_path_info := info\<rparr>"
    define s2 where "s2 = upd_http k (\<lambda>_. h1) (set_cgis (\<lambda>n. n + 1) s)"
    define c2 where "c2 = c\<lparr>cs_http := h1\<rparr>"
    have "flight r (0 + 1) k c (set_cgis (\<lambda>n. n + 1) s)" using rc by (intro flight_set_cgis) (simp add: reading_def)
    then have f2: "flight r 1 k c2 s2" unfolding s2_def c2_def by (intro flight_upd) simp_all
    have c2: "cs_stream c2" "frame_ok (frame (cs_http c2))" "tnums_of c2 = []" "frame_ok (frame h1)" "tnums_of c0 = []"
      using rc rd h by (simp_all add: c2_def h1_def reading_def)
    show ?thesis
      using res1[unfolded si prod.case, folded h1_def, folded s2_def] go h
        cgi_refusal_inv[OF f2 c2(1,3,4) reg] cgi_throttle_check_inv[OF f2 c2(1,2,3) _ _ reg] c2(4,5)
      by (auto split: if_splits)
  qed
qed

section \<open>Reading\<close>

lemma bad_request_inv:
  assumes "reading r c k s" "frame_ok (frame (cs_http c))" "r \<longrightarrow> ev_reg_ok e"
  shows "server_inv r (bad_request e s k http)"
  unfolding bad_request_def using assms by (auto simp: reading_def intro!: finish_response_inv)

lemma process_request_inv:
  assumes rd: "reading r c k s" and f: "frame_ok (frame (cs_http c))" and reg: "r \<longrightarrow> ev_reg_ok e"
    and res: "process_request e s k = Some s'"
  shows "server_inv r s'"
proof -
  have k: "conn_at s k = Some c" using rd by (simp add: reading_def flight_def)
  then obtain m where m: "parse_method (h_read_buf (cs_http c)) (h_checked_idx (cs_http c)) = Some m"
    using res by (auto simp: process_request_def Let_def split: option.splits)
  define o' where "o' = request_outcome e (sv_config s) (take (h_checked_idx (cs_http c)) (h_read_buf (cs_http c))) m (cs_http c)"
  have fr: "frame_ok (frame (outcome_http o'))" using f by (simp add: o'_def request_outcome_frame)
  have upd: "reading r (c\<lparr>cs_http := h\<rparr>) k (upd_http k (\<lambda>_. h) s)" for h by (rule reading_upd[OF rd]) simp_all
  note res' = res[unfolded process_request_def k option.case Let_def m, folded o'_def]
  show ?thesis
  proof (cases o')
    case (OutRespond h x)
    then have "s' = transition_to_sending e (upd_http k (\<lambda>_. set_response x h) s) k" using res' by simp
    then show ?thesis using rd reg fr OutRespond by (auto simp: reading_def intro!: finish_response_inv[where c = c])
  next
    case (OutCgi h)
    have "h_orig_filename h \<noteq> []" using OutCgi request_outcome_named unfolding o'_def by blast
    then show ?thesis using dispatch_cgi_inv[OF upd[of h] _ _ reg] res' OutCgi fr by simp
  next
    case (OutStatic h p)
    then have "serve_static e (upd_http k (\<lambda>_. h) s) k h p = Some s'" using res' by simp
    then show ?thesis
      by (rule serve_static_inv[where c = "c\<lparr>cs_http := h\<rparr>", rotated 5]) (use upd[of h] reg fr OutStatic in \<open>auto simp: reading_def\<close>)
  qed
qed

lemma receive_frame:
  assumes "frame_ok (frame h)" "length d \<le> READ_BUF_SIZE - h_read_idx h"
  shows "frame_ok (frame (receive d h))"
  using assms by (auto simp: frame_ok_def frame_def receive_def)

lemma cgi_body_inv:
  assumes rd: "reading r c k s" and ok: "frame_ok (frame (cs_http c))" "h_orig_filename (cs_http c) \<noteq> []" and reg: "r \<longrightarrow> ev_reg_ok e"
    and res: "(if body_missing (cs_http c) then Some s
       else dispatch_cgi e (upd_conn k (\<lambda>c. c\<lparr>cs_pending_cgi_body := False\<rparr>) s) k) = Some s'"
  shows "server_inv r s'"
proof (cases "body_missing (cs_http c)")
  case True
  then show ?thesis using reading_finish[OF rd] ok res by simp
next
  case False
  have "reading r (c\<lparr>cs_pending_cgi_body := False\<rparr>) k (upd_conn k (\<lambda>c. c\<lparr>cs_pending_cgi_body := False\<rparr>) s)"
    by (rule reading_upd[OF rd]) simp_all
  then show ?thesis using False dispatch_cgi_inv[OF _ _ _ reg] ok res by auto
qed

lemma scan_request_inv:
  assumes rd: "reading r c k s" and ok: "frame_ok (frame (cs_http c))" "\<not> cs_pending_cgi_body c" and reg: "r \<longrightarrow> ev_reg_ok e"
    and res: "scan_request e s k (cs_http c) = Some s'"
  shows "server_inv r s'"
proof -
  let ?h = "cs_http c"
  obtain x j st where g: "got_request (h_read_buf ?h) (h_checked_idx ?h) (h_read_idx ?h) (h_parse_state ?h) = Some (x, j, st)"
    using res by (auto simp: scan_request_def split: option.splits)
  let ?f = "\<lambda>h. h\<lparr>h_checked_idx := j, h_parse_state := st\<rparr>"
  have f2: "frame_ok (frame (?f ?h))" using got_request_bounds[OF g] ok by (simp add: frame_ok_def frame_def)
  have rd2: "reading r (c\<lparr>cs_http := ?f ?h\<rparr>) k (upd_http k ?f s)"
    using reading_upd[OF rd, of "\<lambda>c. c\<lparr>cs_http := ?f (cs_http c)\<rparr>"] by simp
  show ?thesis
  proof (cases x)
    case NoRequest
    then show ?thesis using res g reading_finish[OF rd2] f2 ok by (simp add: scan_request_def Let_def)
  next
    case GotRequest
    then show ?thesis using res g process_request_inv[OF rd2 _ reg] f2 by (simp add: scan_request_def Let_def)
  next
    case BadRequest
    then show ?thesis using res g bad_request_inv[OF rd2 _ reg] f2 by (auto simp: scan_request_def Let_def)
  qed
qed

lemma handle_data_inv:
  assumes inv: "server_inv r s" and k: "conn_at s k = Some c" "cs_state c = Reading" and reg: "r \<longrightarrow> ev_reg_ok e"
    and d: "length d \<le> READ_BUF_SIZE - h_read_idx (cs_http c)" and res: "handle_data e s k c d = Some s'"
  shows "server_inv r s'"
proof -
  have ok: "slot_ok c" using inv k(1) by (auto simp: server_inv_def entry_ok_def dest: spec[of _ k])
  define h where "h = receive d (cs_http c)"
  have h: "frame_ok (frame h)" "h_orig_filename h = h_orig_filename (cs_http c)"
    using receive_frame[OF _ d] ok by (simp_all add: h_def slot_ok_def) (simp add: receive_def)
  have rd: "reading r (c\<lparr>cs_http := h\<rparr>) k (upd_http k (\<lambda>_. h) s)" by (rule reading_upd[OF reading_start[OF inv k]]) simp_all
  note res' = res[unfolded handle_data_def Let_def, folded h_def]
  show ?thesis
  proof (cases "cs_pending_cgi_body c")
    case True
    then have "h_orig_filename h \<noteq> []" using ok k(2) h by (simp add: slot_ok_def)
    then show ?thesis using cgi_body_inv[OF rd _ _ reg] h res' True by simp
  next
    case False
    then show ?thesis using scan_request_inv[OF rd _ _ reg] h res' by simp
  qed
qed

lemma handle_read_inv:
  assumes inv: "server_inv r s" and k: "conn_at s k = Some c" "cs_state c = Reading" and reg: "r \<longrightarrow> ev_reg_ok e"
    and res: "handle_read e s k = Some s'"
  shows "server_inv r s'"
proof -
  have ok: "slot_ok c" using inv k(1) by (auto simp: server_inv_def entry_ok_def dest: spec[of _ k])
  have len: "length (h_read_buf (cs_http c)) = READ_BUF_SIZE" using ok by (simp add: slot_ok_def frame_ok_def frame_def)
  have "server_inv r (bad_request e s k (cs_http c))"
    using bad_request_inv[OF reading_start[OF inv k] _ reg] ok by (simp add: slot_ok_def)
  moreover have "server_inv r (close_connection e s k)"
    using close_inv[OF inv_except_start[OF inv k(1)] k(1)] ok by (simp add: slot_ok_def)
  moreover have "handle_data e s k c (take (READ_BUF_SIZE - h_read_idx (cs_http c)) d) = Some s' \<Longrightarrow> server_inv r s'" for d
    by (rule handle_data_inv[OF inv k reg]) simp_all
  ultimately show ?thesis using res k(1) len inv
    by (auto simp: handle_read_def Let_def split: if_splits read_result.splits)
qed

section \<open>Sending\<close>

lemma flight_start:
  assumes "server_inv r s" "conn_at s k = Some c"
  shows "slot_ok c" "inv_except r 0 k (tnums_of c) s" "r \<Longrightarrow> interest_at s k = wanted (cs_state c)"
  using assms inv_except_start[OF assms] by (auto simp: server_inv_def entry_ok_def dest: spec[of _ k])

lemma account_body_flight:
  assumes fl: "flight r 0 k c' s" and c: "tnums_of c' = tnums_of c" "cs_state c' = Sending"
  shows "\<exists>c3. flight r 0 k c3 (account_body e k c n s) \<and> cs_stream c3 = cs_stream c' \<and> cs_http c3 = cs_http c' \<and> cs_state c3 = Sending"
proof (cases "is_throttled (cs_throttle c) \<and> 0 < body_delta c n")
  case True
  let ?f = "\<lambda>c'. c'\<lparr>cs_throttle := (cs_throttle c')\<lparr>ct_body_bytes := ct_body_bytes (cs_throttle c') + body_delta c n,
      ct_active_at := Some (ev_now e)\<rparr>\<rparr>"
  let ?s = "s\<lparr>sv_throttles := map_option (\<lambda>es. throttle_add_bytes es (tnums_of c) (body_delta c n)) (sv_throttles s)\<rparr>"
  have "inv_except r 0 k (tnums_of c') ?s"
    using fl by (subst neutral_inv(1)) (simp_all add: flight_def add_bytes_neutral)
  then have "flight r 0 k c' ?s" using fl by (simp add: flight_def)
  from flight_upd[OF this, of ?f] have "flight r 0 k (?f c') (account_body e k c n s)"
    using True c by (simp add: account_body_def)
  then show ?thesis by (rule exI[of _ "?f c'", OF conjI]) (use c in simp)
next
  case False
  then have "account_body e k c n s = s" unfolding account_body_def by (rule if_not_P)
  then show ?thesis using fl c by auto
qed

lemma after_write_inv:
  assumes fl: "flight r 0 k c s" and c: "cs_stream c" "frame_ok (frame (cs_http c))" "cs_state c = Sending"
    "response_ok (cs_http c)" "int n \<le> int (length (h_response (cs_http c))) - h_bytes_sent (cs_http c)"
    and reg: "r \<longrightarrow> ev_reg_ok e"
  shows "server_inv r (after_write e s k c n)"
proof -
  define sent where "sent = h_bytes_sent (cs_http c) + int n"
  define s1 where "s1 = upd_http k (\<lambda>h. h\<lparr>h_bytes_sent := sent\<rparr>) s"
  define c1 where "c1 = c\<lparr>cs_http := (cs_http c)\<lparr>h_bytes_sent := sent\<rparr>\<rparr>"
  define s2 where "s2 = s1\<lparr>sv_stats := (sv_stats s1)\<lparr>ss_bytes_sent := ss_bytes_sent (sv_stats s1) + n\<rparr>\<rparr>"
  have f1: "flight r 0 k c1 s1" unfolding s1_def c1_def by (rule flight_upd[OF fl]) simp
  then have f2: "flight r 0 k c1 s2" by (simp add: s2_def flight_def)
  obtain c3 where c3: "flight r 0 k c3 (account_body e k c n s2)" "cs_stream c3" "cs_http c3 = cs_http c1" "cs_state c3 = Sending"
    using account_body_flight[OF f2, of c] c by (auto simp: c1_def)
  define s3 where "s3 = account_body e k c n s2"
  have fr: "frame_ok (frame (cs_http c3))" using c3 c by (simp add: c1_def)
  have aw: "after_write e s k c n = (if int (h_response_len (cs_http c)) \<le> sent then transition_to_lingering e s3 k
      else reg_reregister e k Writable s3)"
    using c(1) by (simp add: after_write_def Let_def s3_def s2_def s1_def sent_def)
  have "server_inv r (transition_to_lingering e s3 k)"
    using lingering_inv[OF c3(1,2) fr reg] by (simp add: s3_def)
  moreover have "server_inv r (reg_reregister e k Writable s3)"
    by (rule inv_except_finish[where c = c3])
      (use c3 fr reg c in \<open>auto simp: s3_def flight_def slot_ok_def response_ok_def c1_def sent_def registry_interest\<close>)
  ultimately show ?thesis using aw by simp
qed

lemma pause_inv:
  assumes "flight r 0 k c s" "cs_stream c" "frame_ok (frame (cs_http c))" "response_ok (cs_http c)" "r \<longrightarrow> ev_reg_ok e"
  shows "server_inv r (pause_sending e s k c)"
proof -
  let ?f = "\<lambda>c. c\<lparr>cs_state := Pausing, cs_throttle := (cs_throttle c)\<lparr>ct_pause_until := Some (ev_now e + SECOND)\<rparr>\<rparr>"
  have fl: "flight r 0 k (?f c) (upd_conn k ?f s)" by (rule flight_upd[OF assms(1)]) simp
  have "server_inv r (reg_deregister e k (upd_conn k ?f s))"
    by (rule inv_except_finish[where c = "?f c"])
      (use fl assms in \<open>auto simp: flight_def slot_ok_def registry_interest\<close>)
  then show ?thesis using assms by (simp add: pause_sending_def Let_def)
qed

lemma handle_send_flight:
  assumes fl: "flight r 0 k c s" and c: "cs_stream c" "frame_ok (frame (cs_http c))" "cs_state c = Sending"
    "response_ok (cs_http c)" and reg: "r \<longrightarrow> ev_reg_ok e" and i: "r \<longrightarrow> interest_at s k = Some Writable"
    and res: "handle_send e s k = Some s'"
  shows "server_inv r s'"
proof -
  have k: "conn_at s k = Some c" and inv: "inv_except r 0 k (tnums_of c) s" using fl by (simp_all add: flight_def)
  let ?h = "cs_http c"
  have h: "h_response_len ?h = length (h_response ?h)" "0 \<le> h_bytes_sent ?h" "h_bytes_sent ?h \<le> int (length (h_response ?h))"
    using c(4) by (simp_all add: response_ok_def)
  have "server_inv r s" by (rule inv_except_finish[OF inv k]) (use c i in \<open>simp_all add: slot_ok_def\<close>)
  moreover have "server_inv r (transition_to_lingering e s k)" by (rule lingering_inv[OF fl c(1,2) reg])
  moreover have "server_inv r (pause_sending e s k c)" by (rule pause_inv[OF fl c(1,2,4) reg])
  moreover have "server_inv r (close_connection e s k)" by (rule close_inv[OF inv k c(1)])
  moreover have "server_inv r (after_write e s k c (min n (min m (length (h_response ?h) - nat (h_bytes_sent ?h)))))" for n m
    by (rule after_write_inv[OF fl c]) (use h reg in auto)
  ultimately show ?thesis using res k
    by (auto simp: handle_send_def Let_def split: if_splits write_result.splits)
qed

lemma handle_send_inv:
  assumes "server_inv r s" "conn_at s k = Some c" "cs_state c = Sending" "r \<longrightarrow> ev_reg_ok e"
    "handle_send e s k = Some s'"
  shows "server_inv r s'"
  by (rule handle_send_flight[of r k c s])
    (use assms flight_start[OF assms(1,2)] in \<open>auto simp: flight_def slot_ok_def\<close>)

lemma paused_register:
  assumes inv: "server_inv r s" and c: "conn_at s k = Some c" "cs_state c = Pausing"
    and f: "tnums_of (f c) = tnums_of c" "cs_stream (f c)" "cs_http (f c) = cs_http c" "cs_state (f c) = Sending"
    and reg: "r \<longrightarrow> ev_reg_ok e"
  defines "s' \<equiv> fst (reg_register e k Writable (upd_conn k f s))"
  shows "flight r 0 k (f c) s'" "r \<longrightarrow> interest_at s' k = Some Writable" "response_ok (cs_http (f c))"
    "frame_ok (frame (cs_http (f c)))" "server_inv r s'"
proof -
  note st = flight_start[OF inv c(1)]
  show i: "r \<longrightarrow> interest_at s' k = Some Writable"
    using st(3) c(2) reg by (auto simp: s'_def registry_interest)
  show fl: "flight r 0 k (f c) s'" using st(2) c(1) f i by (simp add: flight_def) (simp add: s'_def)
  show ok: "response_ok (cs_http (f c))" "frame_ok (frame (cs_http (f c)))"
    using st(1) c(2) f by (simp_all add: slot_ok_def)
  show "server_inv r s'"
    by (rule inv_except_finish[where c = "f c"]) (use fl i ok f in \<open>simp_all add: flight_def slot_ok_def\<close>)
qed

definition resumed :: "throttle_table option \<Rightarrow> nat list \<Rightarrow> conn_slot \<Rightarrow> conn_slot" where
  "resumed th ts x = x\<lparr>cs_state := Sending, cs_throttle :=
     (case th of Some es \<Rightarrow> (cs_throttle x)\<lparr>ct_max_limit := fair_share_for es ts\<rparr>
      | None \<Rightarrow> cs_throttle x)\<lparr>ct_pause_until := None\<rparr>\<rparr>"

lemma resumed_slot [simp]:
  "tnums_of (resumed th ts c) = tnums_of c" "cs_stream (resumed th ts c) = cs_stream c"
  "cs_http (resumed th ts c) = cs_http c" "cs_state (resumed th ts c) = Sending"
  by (simp_all add: resumed_def split: option.splits)

lemma resume_sending_upd: "resume_sending e s k c = upd_conn k (resumed (sv_throttles s) (tnums_of c)) s"
  by (auto simp: resume_sending_def upd_conn_def resumed_def[abs_def] split: option.splits)

lemma handle_pause_inv:
  assumes inv: "server_inv r s" and c: "conn_at s k = Some c" "cs_state c = Pausing" and reg: "r \<longrightarrow> ev_reg_ok e"
    and res: "handle_pause e s k = Some s'"
  shows "server_inv r s'"
proof (cases "case ct_pause_until (cs_throttle c) of Some d \<Rightarrow> ev_now e < d | None \<Rightarrow> False")
  case True
  then show ?thesis using inv res c by (simp add: handle_pause_def)
next
  case False
  have st: "cs_stream c" using flight_start(1)[OF inv c(1)] by (simp add: slot_ok_def)
  let ?f = "resumed (sv_throttles s) (tnums_of c)"
  note p = paused_register[OF inv c, of ?f e]
  have "handle_send e (fst (reg_register e k Writable (upd_conn k ?f s))) k = Some s'"
    using res c st False by (simp add: handle_pause_def Let_def resume_sending_upd)
  then show ?thesis
    by (intro handle_send_flight[OF p(1) _ p(4) _ p(3) reg p(2)]) (use st reg in simp_all)
qed

lemma handle_linger_inv:
  assumes "server_inv r s" "handle_linger e s k = Some s'"
  shows "server_inv r s'"
proof -
  obtain c where c: "conn_at s k = Some c" "s' = close_connection e s k"
    using assms(2) by (auto simp: handle_linger_def split: option.splits)
  show ?thesis using close_inv[OF flight_start(2)[OF assms(1) c(1)] c(1)] flight_start(1)[OF assms(1) c(1)] c(2)
    by (simp add: slot_ok_def)
qed

lemma handle_connection_event_inv:
  assumes "server_inv r s" "r \<longrightarrow> ev_reg_ok e" "handle_connection_event e s k = Some s'"
  shows "server_inv r s'"
  using assms handle_read_inv[of r s k _ e s'] handle_send_inv[of r s k _ e s'] handle_pause_inv[of r s k _ e s']
    handle_linger_inv[of r s e k s']
  by (auto simp: handle_connection_event_def split: option.splits conn_state.splits)

section \<open>Accepting\<close>

lemma fresh_slot_ok: "slot_ok (fresh_slot p)" "tnums_of (fresh_slot p) = []" "cs_state (fresh_slot p) = Reading"
  by (simp_all add: fresh_slot_def slot_ok_def frame_ok_def frame_def http_conn_new_def conn_slot_new_def
      conn_throttle_new_def READ_BUF_SIZE_def)

lemma insert_inv:
  assumes inv: "server_inv r s" and k: "k \<notin> set (map fst (sv_conns s))" and len: "length (sv_conns s) < MAX_CONNECTIONS"
    and c: "tnums_of c = []"
  defines "s1 \<equiv> s\<lparr>sv_conns := (k, c) # sv_conns s\<rparr>"
  shows "inv_except r 0 k [] s1" "conn_at s1 k = Some c" "r \<longrightarrow> interest_at s1 k = None"
proof -
  have kn: "conn_at s k = None" using k by (simp add: conn_at_def map_of_eq_None_iff)
  have "map (\<lambda>(k, c). tnums_of c) cs = held_with k [] cs" if "k \<notin> fst ` set cs" for cs
    using that by (induction cs) (auto simp: image_iff)
  then have "held_with k [] (sv_conns s1) = [] # held s" using k by (simp add: s1_def held_def)
  then have "ledger_ok (sv_throttles s1) (held_with k [] (sv_conns s1))"
    using inv by (simp add: s1_def server_inv_def ledger_ok_def throttle_ledger.exact_def split: option.splits)
  moreover have "entry_ok r s1 j" if "j \<noteq> k" for j
    using inv that by (simp add: s1_def server_inv_def entry_ok_def conn_at_def)
  ultimately show "inv_except r 0 k [] s1"
    using inv k len by (simp add: inv_except_def table_ok_def server_inv_def) (simp add: s1_def)
  show "conn_at s1 k = Some c" by (simp add: s1_def conn_at_def)
  show "r \<longrightarrow> interest_at s1 k = None"
    using inv kn by (auto simp: s1_def server_inv_def entry_ok_def dest: spec[of _ k])
qed

lemma drop_stream_conns: "drop_stream k (s\<lparr>sv_conns := x\<rparr>) = (drop_stream k s)\<lparr>sv_conns := x\<rparr>"
  by (cases s) (simp add: drop_stream_def)

lemma accept_one_inv:
  assumes inv: "server_inv r s" and v: "vacant (map fst (sv_conns s)) \<notin> set (map fst (sv_conns s))"
  shows "server_inv r (accept_one vacant e p s)"
proof (cases "MAX_CONNECTIONS \<le> length (sv_conns s)")
  case True
  then show ?thesis using inv by (simp add: accept_one_def)
next
  case False
  define k where "k = vacant (map fst (sv_conns s))"
  define s1 where "s1 = s\<lparr>sv_conns := (k, fresh_slot p) # sv_conns s\<rparr>"
  note i = insert_inv[OF inv v[folded k_def], of "fresh_slot p", folded s1_def]
  obtain s2 b where sb: "reg_register e k Readable s1 = (s2, b)" by (cases "reg_register e k Readable s1")
  have s2: "s2 = fst (reg_register e k Readable s1)" using sb by simp
  have len: "length (sv_conns s) < MAX_CONNECTIONS" using False by simp
  have i2: "inv_except r 0 k [] s2" "conn_at s2 k = Some (fresh_slot p)"
    using i len fresh_slot_ok(2) by (simp_all add: s2)
  show ?thesis
  proof (cases b)
    case True
    then have "r \<longrightarrow> interest_at s2 k = Some Readable"
      using sb by (auto simp: reg_register_def split: if_splits)
    then have "server_inv r s2"
      using i2 fresh_slot_ok by (intro inv_except_finish[where c = "fresh_slot p"]) auto
    then show ?thesis using False sb True by (simp add: accept_one_def Let_def flip: k_def s1_def)
  next
    case f: False
    have "server_inv r ((drop_stream k s2)\<lparr>sv_conns := AList.delete k (sv_conns (drop_stream k s2))\<rparr>)"
      by (rule delete_inv) (simp_all add: i2 registry_interest)
    then show ?thesis using False sb f
      by (simp add: accept_one_def Let_def drop_stream_conns flip: k_def s1_def) (simp add: drop_stream_def)
  qed
qed

lemma handle_accept_inv:
  assumes v: "\<And>ks. vacant ks \<notin> set ks" and inv: "server_inv r s"
  shows "server_inv r (handle_accept vacant ps s)"
proof -
  have "server_inv r (foldl (\<lambda>s (p, e). accept_one vacant e p s) s ps)"
    using inv by (induction ps arbitrary: s) (auto intro!: accept_one_inv v)
  then show ?thesis using inv by (simp add: handle_accept_def)
qed

lemma accept_phase_inv:
  assumes "\<And>ks. vacant ks \<notin> set ks" "server_inv r s"
  shows "server_inv r (accept_phase vacant accepted evs s)"
  using assms(2) by (induction evs arbitrary: s) (auto simp: handle_accept_inv[of vacant, OF assms(1)])

section \<open>The phases of an iteration\<close>

definition env_ok :: "bool \<Rightarrow> env \<Rightarrow> bool" where
  "env_ok r e \<longleftrightarrow> (r \<longrightarrow> ev_reg_ok e)"

lemma event_phase_inv:
  assumes "server_inv r s" "list_all (\<lambda>(t, e). env_ok r e) evs" "event_phase evs s = Some s'"
  shows "server_inv r s'"
  using assms
proof (induction evs s rule: event_phase.induct)
  case (2 t e evs s)
  show ?case
  proof (cases "is_listen_token t \<or> slab_key_from_token t = None")
    case True
    then show ?thesis using 2 by (auto split: if_splits)
  next
    case False
    then obtain k s1 where k: "slab_key_from_token t = Some k" "handle_connection_event e s k = Some s1"
      "event_phase evs s1 = Some s'"
      using "2.prems"(3) by (auto split: option.splits)
    have "server_inv r s1" using handle_connection_event_inv[OF "2.prems"(1) _ k(2)] "2.prems"(2) by (simp add: env_ok_def)
    with k 2 False show ?thesis by auto
  qed
qed simp

lemma resume_keys_inv:
  assumes "server_inv r s" "\<And>k. env_ok r (envs k)" "resume_keys envs ks s = Some s'"
  shows "server_inv r s'"
  using assms
proof (induction envs ks s rule: resume_keys.induct)
  case (2 envs k ks s)
  then show ?case
    using handle_pause_inv[OF 2(4), of k _ "envs k"]
    by (auto simp: env_ok_def split: option.splits if_splits)
qed simp

lemma wake_slot_resumed: "wake_slot now th c = resumed th (tnums_of c) c"
  by (simp add: wake_slot_def resumed_def)

lemma wake_upd: "conn_at s k = Some c \<Longrightarrow> upd_conn k (wake_slot now th) s = upd_conn k (resumed th (tnums_of c)) s"
proof -
  have "map_of cs k = Some c \<Longrightarrow> AList.map_entry k (wake_slot now th) cs = AList.map_entry k (resumed th (tnums_of c)) cs" for cs
    by (induction cs) (auto simp: wake_slot_resumed split: if_splits)
  then show "conn_at s k = Some c \<Longrightarrow> ?thesis" by (simp add: upd_conn_def conn_at_def)
qed

lemma wake_keys_inv:
  assumes "server_inv r s" "env_ok r e"
  shows "server_inv r (wake_keys e ks s)"
  using assms(1)
proof (induction ks arbitrary: s)
  case (Cons k ks)
  show ?case
  proof (cases "conn_at s k")
    case None
    then show ?thesis using Cons by simp
  next
    case (Some c)
    show ?thesis
    proof (cases "wakes (ev_now e) c")
      case True
      then have st: "cs_stream c" "cs_state c = Pausing"
        using flight_start(1)[OF Cons.prems Some] by (auto simp: slot_ok_def wakes_def)
      have "server_inv r (fst (reg_register e k Writable (upd_conn k (resumed (sv_throttles s) (tnums_of c)) s)))"
        by (rule paused_register(5)[OF Cons.prems Some st(2)]) (use st assms(2) in \<open>simp_all add: env_ok_def\<close>)
      then show ?thesis using Cons.IH Some True st by (simp add: Let_def wake_upd)
    qed (use Cons Some in simp)
  qed
qed simp

lemma throttle_update_inv:
  assumes "server_inv r s" "env_ok r e"
  shows "server_inv r (fst (throttle_update e (s, l)))"
proof -
  have "server_inv r (s\<lparr>sv_throttles := map_option update_averages (sv_throttles s)\<rparr>)"
    using assms by (subst neutral_inv(2)) (simp_all add: update_averages_usage, simp add: update_averages_def)
  then show ?thesis using assms by (simp add: throttle_update_def wake_keys_inv)
qed

lemma map_of_filter_key: "map_of (filter (\<lambda>(t, i). P t) al) x = (if P x then map_of al x else None)"
  by (induction al) auto

lemma conn_token_no_listener [simp]: "\<not> is_listen_token (conn_token k)"
  by (simp add: is_listen_token_def conn_token_def CONN_BASE_def MAX_LISTENERS_def)

lemma start_drain_inv: "server_inv r (start_drain e s) = server_inv r s"
proof -
  have i: "interest_at (start_drain e s) k = interest_at s k" for k
    by (simp add: interest_at_def start_drain_def map_of_filter_key)
  have k: "conn_at (start_drain e s) k = conn_at s k" for k by (simp add: conn_at_def start_drain_def)
  show ?thesis by (simp add: server_inv_def entry_ok_def i k) (simp add: start_drain_def table_ok_def held_def)
qed

lemma periodic_phase_inv:
  assumes "server_inv r s" "env_ok r (tk_env t)" "periodic_phase t s l = Running s' l'"
  shows "server_inv r s'"
proof -
  obtain w x where w: "wheel_run (ev_now (tk_env t)) (tk_clock t) (sv_timers s) = Some (w, x)"
    using assms(3) by (auto simp: periodic_phase_def split: option.splits)
  define s2 where "s2 = s\<lparr>sv_timers := w, sv_mmc := mmc_cleanup (ev_now (tk_env t)) (mmap_refs (s\<lparr>sv_timers := w\<rparr>)) (sv_mmc s)\<rparr>"
  obtain s3 l3 where s3: "throttle_update (tk_env t) (s2, l) = (s3, l3)" by (cases "throttle_update (tk_env t) (s2, l)")
  have "server_inv r s2" using assms(1) by (simp add: s2_def)
  from throttle_update_inv[OF this assms(2), of l] have "server_inv r s3" by (simp add: s3)
  then show ?thesis using assms(3) w s3 by (auto simp: periodic_phase_def Let_def s2_def split: if_splits)
qed

definition tick_ok :: "bool \<Rightarrow> tick \<Rightarrow> bool" where
  "tick_ok r t \<longleftrightarrow> list_all (\<lambda>(n, e). env_ok r e) (tk_events t) \<and> env_ok r (tk_env t) \<and>
     (\<forall>k. env_ok r (tk_pause_env t k))"

lemma run_iteration_inv:
  assumes v: "\<And>ks. vacant ks \<notin> set ks" and inv: "server_inv r s" and t: "tick_ok r t"
    and res: "run_iteration vacant t s l = Running s' l'"
  shows "server_inv r s'"
proof -
  define s0 where "s0 = (if \<not> sv_draining s \<and> tk_usr1 t then start_drain (tk_env t) s else s)"
  have i0: "server_inv r s0" using inv by (simp add: s0_def start_drain_inv)
  note res' = res[unfolded run_iteration_def Let_def, folded s0_def]
  show ?thesis
  proof (cases "tk_poll t")
    case PollOk
    then obtain s1 s2 where p: "event_phase (tk_events t) (accept_phase vacant (tk_accepted t) (tk_events t) s0) = Some s1"
      "resume_keys (tk_pause_env t) (ready_paused (ev_now (tk_env t)) s1) s1 = Some s2"
      "periodic_phase t s2 l = Running s' l'"
      using res' by (auto split: if_splits option.splits)
    have "server_inv r s1"
      by (rule event_phase_inv[OF accept_phase_inv[OF v i0] _ p(1)]) (use t in \<open>simp add: tick_ok_def\<close>)
    from resume_keys_inv[OF this _ p(2)] have "server_inv r s2" using t by (simp add: tick_ok_def)
    from periodic_phase_inv[OF this _ p(3)] show ?thesis using t by (simp add: tick_ok_def)
  qed (use res' i0 in \<open>auto split: if_splits\<close>)
qed

lemma run_ticks_inv:
  assumes v: "\<And>ks. vacant ks \<notin> set ks"
  shows "server_inv r s \<Longrightarrow> list_all (tick_ok r) ts \<Longrightarrow> run_ticks vacant ts s l = Running s' l' \<Longrightarrow> server_inv r s'"
proof (induction ts arbitrary: s l)
  case (Cons t ts)
  then obtain s1 l1 where s1: "run_iteration vacant t s l = Running s1 l1" "run_ticks vacant ts s1 l1 = Running s' l'"
    by (cases "run_iteration vacant t s l") auto
  have "server_inv r s1" using run_iteration_inv[OF v Cons.prems(1) _ s1(1)] Cons.prems(2) by simp
  then show ?case using Cons.IH s1(2) Cons.prems(2) by simp
qed simp

lemma register_listeners_inv:
  "register_listeners ok is s = Inr s' \<Longrightarrow> server_inv r s \<Longrightarrow> server_inv r s'"
proof (induction ok "is" s rule: register_listeners.induct)
  case (2 ok i "is" s)
  then obtain t where t: "listen_token i = Some t" "ok i \<and> map_of (sv_registry s) t = None"
    by (auto split: option.splits if_splits)
  let ?s = "s\<lparr>sv_registry := AList.update t Readable (sv_registry s)\<rparr>"
  have "t < MAX_LISTENERS" using t(1) by (auto simp: listen_token_def split: if_splits)
  then have "conn_token k \<noteq> t" for k by (auto simp: conn_token_def CONN_BASE_def MAX_LISTENERS_def)
  then have "interest_at ?s k = interest_at s k" for k by (simp add: interest_at_def update_conv')
  then have "server_inv r ?s" using 2(3) by (simp add: server_inv_def entry_ok_def table_ok_def held_def)
  then show ?case using 2 t by simp
qed simp

text \<open>The state that \<open>main\<close> hands to the loop.\<close>

definition initial_server :: "server_config \<Rightarrow> nat \<Rightarrow> log_target \<Rightarrow> string option \<Rightarrow> server" where
  "initial_server c n l throttlefile =
     (server_new c n l)\<lparr>sv_throttles := map_option throttle_load throttlefile\<rparr>"

lemma initial_server_inv: "server_inv r (initial_server c n l tf)"
  by (auto simp: server_inv_def initial_server_def server_new_def table_ok_def ledger_ok_def held_def
      throttle_ledger.exact_def entry_ok_def conn_at_def interest_at_def split: option.splits)

lemma run_server_inv:
  assumes "\<And>ks. vacant ks \<notin> set ks" "list_all (tick_ok r) ts"
    "run_server ok vacant now ts (initial_server c n l tf) = Inr (Running s lu)"
  shows "server_inv r s"
proof -
  obtain s0 where s0: "register_listeners ok [0..<sv_listeners (initial_server c n l tf)] (initial_server c n l tf) = Inr s0"
    "run_ticks vacant ts s0 now = Running s lu"
    using assms(3) by (auto simp: run_server_def split: sum.splits)
  show ?thesis
    by (rule run_ticks_inv[OF assms(1) register_listeners_inv[OF s0(1) initial_server_inv] assms(2) s0(2)])
qed

lemma tick_ok_weak [simp]: "tick_ok False t"
  by (simp add: tick_ok_def env_ok_def list_all_iff)

end
