(* ===== verification/Server_Properties.thy ===== *)
theory Server_Properties
  imports Server_Invariant
begin

text \<open>
  What the invariant gives for every state that the event loop reaches: exact transfer counts,
  no stranded connection, a script limit that never binds, and the only way to panic.
\<close>

section \<open>Deadlines\<close>

lemma opt_min_le:
  "a = Some x \<Longrightarrow> \<exists>m. opt_min a b = Some m \<and> m \<le> x"
  "b = Some y \<Longrightarrow> \<exists>m. opt_min a b = Some m \<and> m \<le> y"
  by (auto simp: opt_min_def split: option.splits)

lemma fold_opt_min:
  assumes "x \<in> set xs" "f x = Some d"
  shows "\<exists>m. foldr (\<lambda>x m. opt_min (f x) m) xs None = Some m \<and> m \<le> d"
  using assms
proof (induction xs)
  case (Cons y ys)
  show ?case
  proof (cases "x = y")
    case True
    then show ?thesis using Cons.prems opt_min_le(1) by simp
  next
    case False
    then obtain m where "foldr (\<lambda>x m. opt_min (f x) m) ys None = Some m" "m \<le> d" using Cons by auto
    then show ?thesis using opt_min_le(2)[of _ m "f y"] by fastforce
  qed
qed simp

lemma poll_before_pause_end:
  assumes "conn_at s k = Some c" "cs_state c = Pausing" "ct_pause_until (cs_throttle c) = Some d"
  shows "poll_timeout now s lu \<le> max (d - now) 0"
proof -
  let ?f = "\<lambda>(k, c). if cs_state c = Pausing then map_option (\<lambda>d. max (d - now) 0) (ct_pause_until (cs_throttle c)) else None"
  have "(k, c) \<in> set (sv_conns s)" using assms(1) by (auto simp: conn_at_def dest: map_of_SomeD)
  from fold_opt_min[OF this, of ?f "max (d - now) 0"] assms
  obtain m where m: "next_pause_deadline now s = Some m" "m \<le> max (d - now) 0"
    by (auto simp: next_pause_deadline_def case_prod_unfold)
  obtain y where y: "opt_min (next_pause_deadline now s) (next_throttle_deadline now s lu) = Some y" "y \<le> m"
    using opt_min_le(1)[OF m(1)] by blast
  obtain x where "opt_min (next_deadline now (sv_timers s))
      (opt_min (next_pause_deadline now s) (next_throttle_deadline now s lu)) = Some x" "x \<le> y"
    using opt_min_le(2)[OF y(1)] by blast
  then show ?thesis using m(2) y(2) by (simp add: poll_timeout_def)
qed

section \<open>Panics\<close>

lemma handle_send_total:
  assumes "conn_at s k = Some c" "response_ok (cs_http c)"
  shows "\<exists>s'. handle_send e s k = Some s'"
  using assms by (auto simp: handle_send_def Let_def response_ok_def split: write_result.splits)

lemma dispatch_cgi_total:
  "conn_at s k = Some c \<Longrightarrow> h_orig_filename (cs_http c) \<noteq> [] \<Longrightarrow> \<exists>s'. dispatch_cgi e s k = Some s'"
  by (auto simp: dispatch_cgi_def Let_def split: prod.splits throttle_decision.splits)

text \<open>
  The slice of the body that panics: the request is for the bytes of a file that passes the checks
  and is not refused by the throttle table (not HEAD, and modified since the date of the request);
  the range, with its end filled in from the size of this file, starts inside the bytes of the
  mapping that the cache gives for it, and ends before it starts.
\<close>

definition inverted_slice :: "env \<Rightarrow> server \<Rightarrow> http_conn \<Rightarrow> string \<Rightarrow> bool" where
  "inverted_slice e s http path \<longleftrightarrow>
     (\<exists>file st mmc m. static_decision e (sv_config s) (http\<lparr>h_charset := sc_charset (sv_config s)\<rparr>) path = Inr (file, st) \<and>
        snd (admit_request s (h_orig_filename http)) \<noteq> Reject \<and> h_method http \<noteq> Head \<and>
        (\<forall>ims. h_if_modified_since http = Some ims \<longrightarrow> ims < stat_mtime st) \<and>
        mmc_map (ev_open e) (ev_now e) (sv_mmc s) file = (mmc, Inr m) \<and> h_got_range http \<and>
        as_usize (h_first_byte_index http) < length (mm_data m) \<and>
        range_end (h_last_byte_index (fill_last_byte (wrap_i64 (int (st_len st))) http)) < as_usize (h_first_byte_index http))"

lemma file_body_None:
  "file_body h d = None \<longleftrightarrow> h_got_range h \<and> as_usize (h_first_byte_index h) < length d \<and>
     range_end (h_last_byte_index h) < as_usize (h_first_byte_index h)"
  by (auto simp: file_body_def Let_def)

lemma fill_last_byte_keeps [simp]:
  "h_got_range (fill_last_byte n h) = h_got_range h" "h_first_byte_index (fill_last_byte n h) = h_first_byte_index h"
  "h_method (fill_last_byte n h) = h_method h" "h_if_modified_since (fill_last_byte n h) = h_if_modified_since h"
  "h_orig_filename (fill_last_byte n h) = h_orig_filename h"
  "h_last_byte_index (fill_last_byte n (h\<lparr>h_charset := x\<rparr>)) = h_last_byte_index (fill_last_byte n h)"
  by (auto simp: fill_last_byte_def)

lemma static_admitted_None:
  "static_admitted e s k h file st = None \<longleftrightarrow> h_method h \<noteq> Head \<and>
     (\<forall>ims. h_if_modified_since h = Some ims \<longrightarrow> ims < stat_mtime st) \<and>
     (\<exists>mmc m. mmc_map (ev_open e) (ev_now e) (sv_mmc s) file = (mmc, Inr m) \<and> file_body h (mm_data m) = None)"
  by (auto simp: static_admitted_def send_file_def Let_def split: option.splits prod.splits sum.splits)

lemma admit_request_decision: "snd (admit_request (upd_conn k f s) path) = snd (admit_request s path)"
  "sv_mmc (fst (admit_request s path)) = sv_mmc s"
  by (auto simp: admit_request_def upd_conn_def split: option.splits prod.splits)

lemma inverted_slice_upd [simp]: "inverted_slice e (upd_conn k f s) h p = inverted_slice e s h p"
  by (simp add: inverted_slice_def admit_request_decision)

lemma serve_static_panic: "serve_static e s k h p = None \<longleftrightarrow> inverted_slice e s h p"
proof (cases "static_decision e (sv_config s) (h\<lparr>h_charset := sc_charset (sv_config s)\<rparr>) p")
  case (Inl r)
  then show ?thesis by (simp add: serve_static_def inverted_slice_def)
next
  case (Inr q)
  obtain "file" st where q: "q = (file, st)" by fastforce
  define h1 where "h1 = fill_last_byte (wrap_i64 (int (st_len st))) (h\<lparr>h_charset := sc_charset (sv_config s)\<rparr>)"
  obtain s2 d where a: "admit_request (upd_http k (\<lambda>_. h1) s) (h_orig_filename h) = (s2, d)" by fastforce
  have d: "snd (admit_request s (h_orig_filename h)) = d" "sv_mmc s2 = sv_mmc s"
    using admit_request_decision(1)[of k "\<lambda>c. c\<lparr>cs_http := h1\<rparr>" s "h_orig_filename h"]
      admit_request_decision(2)[of "upd_http k (\<lambda>_. h1) s" "h_orig_filename h"] by (simp_all add: a)
  have "serve_static e s k h p = None \<longleftrightarrow> d \<noteq> Reject \<and> (\<exists>t. static_admitted e (upd_throttle k t s2) k h1 file st = None)"
    using a by (cases d) (auto simp: serve_static_def Let_def Inr q h1_def[symmetric] static_admitted_None)
  then show ?thesis by (auto simp: inverted_slice_def Inr q d static_admitted_None file_body_None h1_def)
qed

text \<open>The static request that the bytes of a read complete, if they do.\<close>

definition static_request :: "env \<Rightarrow> server \<Rightarrow> conn_slot \<Rightarrow> (http_conn \<times> string) option" where
  "static_request e s c =
     (case ev_read e of
        ReadOk data \<Rightarrow>
          (let d = take (length (h_read_buf (cs_http c)) - h_read_idx (cs_http c)) data; h = receive d (cs_http c) in
           if d = [] \<or> cs_pending_cgi_body c then None
           else case got_request (h_read_buf h) (h_checked_idx h) (h_read_idx h) (h_parse_state h) of
             Some (GotRequest, j, st) \<Rightarrow>
               (let h' = h\<lparr>h_checked_idx := j, h_parse_state := st\<rparr> in
                case parse_method (h_read_buf h') j of
                  Some m \<Rightarrow>
                    (case request_outcome e (sv_config s) (take j (h_read_buf h')) m h' of
                       OutStatic http path \<Rightarrow> Some (http, path)
                     | _ \<Rightarrow> None)
                | None \<Rightarrow> None)
           | _ \<Rightarrow> None)
      | _ \<Rightarrow> None)"

lemma process_request_panic:
  assumes "conn_at s k = Some c" "h_checked_idx (cs_http c) \<le> length (h_read_buf (cs_http c))"
  shows "process_request e s k = None \<longleftrightarrow>
    (\<exists>m http path. parse_method (h_read_buf (cs_http c)) (h_checked_idx (cs_http c)) = Some m \<and>
      request_outcome e (sv_config s) (take (h_checked_idx (cs_http c)) (h_read_buf (cs_http c))) m (cs_http c) = OutStatic http path \<and>
      inverted_slice e s http path)"
proof -
  let ?h = "cs_http c"
  obtain m where m: "parse_method (h_read_buf ?h) (h_checked_idx ?h) = Some m" using assms(2) by (auto simp: parse_method_def)
  define oc where "oc = request_outcome e (sv_config s) (take (h_checked_idx ?h) (h_read_buf ?h)) m ?h"
  have n: "process_request e s k = (case oc of OutRespond http' r \<Rightarrow> Some (transition_to_sending e (upd_http k (\<lambda>_. set_response r http') s) k)
      | OutCgi http' \<Rightarrow> dispatch_cgi e (upd_http k (\<lambda>_. http') s) k
      | OutStatic http' path \<Rightarrow> serve_static e (upd_http k (\<lambda>_. http') s) k http' path)"
    using assms m by (simp add: process_request_def Let_def oc_def)
  have "\<exists>s'. dispatch_cgi e (upd_http k (\<lambda>_. http) s) k = Some s'" if "oc = OutCgi http" for http
    using assms(1) that request_outcome_named[of e "sv_config s"] oc_def
    by (intro dispatch_cgi_total[where c = "c\<lparr>cs_http := http\<rparr>"]) auto
  then show ?thesis using m unfolding n oc_def[symmetric]
    by (cases oc) (auto simp: serve_static_panic oc_def[symmetric])
qed

lemma scan_request_panic:
  assumes k: "conn_at s k = Some c" and f: "frame_ok (frame (cs_http c))"
  shows "scan_request e s k (cs_http c) = None \<longleftrightarrow>
    (\<exists>j st m http path. got_request (h_read_buf (cs_http c)) (h_checked_idx (cs_http c)) (h_read_idx (cs_http c)) (h_parse_state (cs_http c)) = Some (GotRequest, j, st) \<and>
      parse_method (h_read_buf (cs_http c)) j = Some m \<and>
      request_outcome e (sv_config s) (take j (h_read_buf (cs_http c))) m ((cs_http c)\<lparr>h_checked_idx := j, h_parse_state := st\<rparr>) = OutStatic http path \<and>
      inverted_slice e s http path)"
proof -
  let ?h = "cs_http c"
  obtain x j st where g: "got_request (h_read_buf ?h) (h_checked_idx ?h) (h_read_idx ?h) (h_parse_state ?h) = Some (x, j, st)"
    using got_request_total[of "h_read_idx ?h" "h_read_buf ?h" "h_checked_idx ?h" "h_parse_state ?h"] f
    by (auto simp: frame_ok_def frame_def)
  let ?g = "\<lambda>h. h\<lparr>h_checked_idx := j, h_parse_state := st\<rparr>"
  have k': "conn_at (upd_http k ?g s) k = Some (c\<lparr>cs_http := ?g ?h\<rparr>)" using k by simp
  have "j \<le> length (h_read_buf ?h)" using got_request_bounds[OF g] f by (simp add: frame_ok_def frame_def)
  then show ?thesis using process_request_panic[OF k', of e] g by (cases x) (auto simp: scan_request_def Let_def)
qed

lemma handle_data_panic:
  assumes ok: "slot_ok c" "cs_state c = Reading" and k: "conn_at s k = Some c" and e: "ev_read e = ReadOk d0"
    and d: "d = take (length (h_read_buf (cs_http c)) - h_read_idx (cs_http c)) d0" "d \<noteq> []"
  shows "handle_data e s k c d = None \<longleftrightarrow> (\<exists>h p. static_request e s c = Some (h, p) \<and> inverted_slice e s h p)"
proof (cases "cs_pending_cgi_body c")
  case True
  let ?s = "upd_conn k (\<lambda>c. c\<lparr>cs_pending_cgi_body := False\<rparr>) (upd_http k (\<lambda>_. receive d (cs_http c)) s)"
  have "h_orig_filename (receive d (cs_http c)) = h_orig_filename (cs_http c)" by (simp add: receive_def)
  then have "\<exists>s'. dispatch_cgi e ?s k = Some s'"
    by (intro dispatch_cgi_total) (use ok k True in \<open>auto simp: slot_ok_def\<close>)
  then show ?thesis using True by (auto simp: handle_data_def static_request_def Let_def split: read_result.split)
next
  case False
  define h where "h = receive d (cs_http c)"
  have len: "length d \<le> READ_BUF_SIZE - h_read_idx (cs_http c)"
    using ok by (simp add: d slot_ok_def frame_ok_def frame_def)
  then have f: "frame_ok (frame h)" using ok receive_frame by (simp add: h_def slot_ok_def)
  have k1: "conn_at (upd_http k (\<lambda>_. h) s) k = Some (c\<lparr>cs_http := h\<rparr>)" using k by simp
  have r: "static_request e s c = Some (http, path) \<longleftrightarrow>
      (\<exists>j st m. got_request (h_read_buf h) (h_checked_idx h) (h_read_idx h) (h_parse_state h) = Some (GotRequest, j, st) \<and>
        parse_method (h_read_buf h) j = Some m \<and>
        request_outcome e (sv_config s) (take j (h_read_buf h)) m (h\<lparr>h_checked_idx := j, h_parse_state := st\<rparr>) = OutStatic http path)" for http path
    using False d(2) by (auto simp: static_request_def e d(1)[symmetric] h_def[symmetric] Let_def split: option.splits got_result.splits outcome.splits)
  have "handle_data e s k c d = scan_request e (upd_http k (\<lambda>_. h) s) k h" using False by (simp add: handle_data_def Let_def h_def)
  then show ?thesis using scan_request_panic[OF k1, of e] f unfolding r by auto
qed

lemma handle_read_panic:
  assumes ok: "slot_ok c" "cs_state c = Reading" and k: "conn_at s k = Some c"
  shows "handle_read e s k = None \<longleftrightarrow> (\<exists>h p. static_request e s c = Some (h, p) \<and> inverted_slice e s h p)"
proof -
  have rd: "h_read_idx (cs_http c) \<le> READ_BUF_SIZE" "length (h_read_buf (cs_http c)) = READ_BUF_SIZE" "cs_stream c"
    using ok by (simp_all add: slot_ok_def frame_ok_def frame_def)
  show ?thesis
  proof (cases "\<exists>d0. ev_read e = ReadOk d0 \<and> take (length (h_read_buf (cs_http c)) - h_read_idx (cs_http c)) d0 \<noteq> []")
    case True
    then obtain d0 where d0: "ev_read e = ReadOk d0" "take (length (h_read_buf (cs_http c)) - h_read_idx (cs_http c)) d0 \<noteq> []" by blast
    then have "handle_read e s k = handle_data e s k c (take (length (h_read_buf (cs_http c)) - h_read_idx (cs_http c)) d0)"
      using rd k by (auto simp: handle_read_def Let_def)
    then show ?thesis using handle_data_panic[OF ok k d0(1) refl d0(2)] by simp
  next
    case False
    then have "static_request e s c = None" by (auto simp: static_request_def Let_def split: read_result.split)
    moreover have "handle_read e s k \<noteq> None"
      using False rd k by (auto simp: handle_read_def Let_def split: read_result.split)
    ultimately show ?thesis by simp
  qed
qed

lemma handle_connection_event_panic:
  assumes inv: "server_inv r s"
  shows "handle_connection_event e s k = None \<longleftrightarrow>
    (\<exists>c h p. conn_at s k = Some c \<and> cs_state c = Reading \<and> static_request e s c = Some (h, p) \<and> inverted_slice e s h p)"
proof (cases "conn_at s k")
  case None
  then show ?thesis by (simp add: handle_connection_event_def)
next
  case (Some c)
  have ok: "slot_ok c" by (rule flight_start(1)[OF inv Some])
  have "\<exists>s'. handle_pause e s k = Some s'" if "cs_state c = Pausing"
  proof -
    let ?s = "fst (reg_register e k Writable (resume_sending e s k c))"
    have "\<exists>s'. handle_send e ?s k = Some s'"
      by (rule handle_send_total[where c = "resumed (sv_throttles s) (tnums_of c) c"])
        (use Some ok that in \<open>simp_all add: resume_sending_upd slot_ok_def\<close>)
    then show ?thesis using Some by (auto simp: handle_pause_def Let_def split: option.splits)
  qed
  moreover have "\<exists>s'. handle_send e s k = Some s'" if "cs_state c = Sending"
    using handle_send_total[OF Some] ok that by (simp add: slot_ok_def)
  ultimately show ?thesis
    using handle_read_panic[OF ok _ Some, of e] Some
    by (auto simp: handle_connection_event_def handle_linger_def split: conn_state.splits)
qed

section \<open>Properties\<close>

text \<open>
  C2. In every state that the loop reaches, the keys of the connection table are distinct, there are
  at most 4096 connections, and the sender count of each throttle rule is the number of times the
  open connections hold it: admissions, refusals, pauses, finished scripts and closed connections
  leave no count behind and release none twice.
\<close>
theorem server_counts_transfers:
  assumes "\<And>ks. vacant ks \<notin> set ks"
    "run_server ok vacant now ts (initial_server c n l tf) = Inr (Running s lu)"
  shows "distinct (map fst (sv_conns s)) \<and> length (sv_conns s) \<le> 4096 \<and>
    (\<forall>es i. sv_throttles s = Some es \<and> i < length es \<longrightarrow>
       te_num_sending (es ! i) =
         (\<Sum>(k, c)\<leftarrow>sv_conns s. int (count_list (ct_tnums (cs_throttle c)) i)))"
proof -
  have inv: "server_inv False s" by (rule run_server_inv[OF assms(1) _ assms(2)]) (simp add: list_all_iff)
  have "te_num_sending (es ! i) = (\<Sum>(k, c)\<leftarrow>sv_conns s. int (count_list (ct_tnums (cs_throttle c)) i))"
    if es: "sv_throttles s = Some es" and i: "i < length es" for es i
  proof -
    have "throttle_usage es i = held_count (held s) i"
      using inv es by (simp add: server_inv_def ledger_ok_def throttle_ledger.exact_def)
    then show ?thesis using i
      by (simp add: throttle_usage_def held_count_def held_def comp_def case_prod_unfold)
  qed
  then show ?thesis using inv by (simp add: server_inv_def table_ok_def MAX_CONNECTIONS_def)
qed

text \<open>A slab that takes the next key after the largest, and a run for the witnesses.\<close>

definition next_key :: "nat list \<Rightarrow> nat" where
  "next_key ks = Suc (Max (set (0 # ks)))"

lemma next_key_fresh: "next_key ks \<notin> set ks"
proof
  assume "next_key ks \<in> set ks"
  then have "next_key ks \<le> Max (set (0 # ks))" by (intro Max_ge) simp_all
  then show False by (simp add: next_key_def)
qed

definition quiet_env :: "int \<Rightarrow> env" where
  "quiet_env now =
     \<lparr>ev_now = now, ev_unix = 0, ev_local = undefined, ev_reg_ok = True, ev_read = ReadWouldBlock,
      ev_write = WriteWouldBlock, ev_exists = (\<lambda>_. False), ev_is_dir = (\<lambda>_. False),
      ev_canonicalize = (\<lambda>_. None), ev_metadata = (\<lambda>_. Inl FsNotFound), ev_open = (\<lambda>_. None),
      ev_dir = (\<lambda>_. None), ev_read_file = (\<lambda>_. None), ev_b64 = (\<lambda>_. None), ev_crypt = (\<lambda>_ _. None),
      ev_lower = (\<lambda>x. x), ev_hostname = None, ev_cwd = None, ev_spawn = (\<lambda>_. None)\<rparr>"

definition accept_tick :: tick where
  "accept_tick =
     \<lparr>tk_terminate = False, tk_usr1 = False, tk_hup = False, tk_poll = PollOk,
      tk_events = [(0, quiet_env 5)],
      tk_accepted = (\<lambda>_. [(\<lparr>pa_text = ''127.0.0.1:4000'', pa_ip = ''127.0.0.1''\<rparr>, quiet_env 5)]),
      tk_env = quiet_env 5, tk_pause_env = (\<lambda>_. quiet_env 5), tk_reopen = (\<lambda>_. None), tk_clock = (\<lambda>_. 5)\<rparr>"

definition example_run :: "listener_error + loop_result" where
  "example_run = run_server (\<lambda>_. True) next_key 0 [accept_tick]
     (initial_server server_config_default 1 LogDisabled (Some (''**.jpg 50000'' @ [LF] @ ''img/** 20000-90000'')))"

lemma example_run_result:
  "\<exists>s. example_run = Inr (Running s 0) \<and>
     sv_conns s = [(1, fresh_slot \<lparr>pa_text = ''127.0.0.1:4000'', pa_ip = ''127.0.0.1''\<rparr>)] \<and>
     sv_throttles s = Some [throttle_entry_new ''**.jpg'' 50000 0, throttle_entry_new ''img/**'' 90000 20000]"
  unfolding example_run_def initial_server_def option.map throttle_example
  by (simp add: run_server_def server_new_def listen_token_def MAX_LISTENERS_def run_iteration_def
      accept_tick_def is_listen_token_def handle_accept_def accept_one_def MAX_CONNECTIONS_def next_key_def
      reg_register_def conn_token_def CONN_BASE_def quiet_env_def ready_paused_def pause_expired_def fresh_slot_def
      periodic_phase_def wheel_run_def wheel_new_def run_loop.simps clean_top.simps throttle_update_def
      THROTTLE_TIME_def SECOND_def Let_def)

theorem server_counts_transfers_witness:
  "\<exists>s. example_run = Inr (Running s 0) \<and> length (sv_conns s) = 1 \<and> distinct (map fst (sv_conns s)) \<and>
     te_num_sending (hd (the (sv_throttles s))) = 0"
proof -
  obtain s where s: "example_run = Inr (Running s 0)" "length (sv_conns s) = 1"
    "sv_throttles s = Some [throttle_entry_new ''**.jpg'' 50000 0, throttle_entry_new ''img/**'' 90000 20000]"
    "sv_conns s = [(1, fresh_slot \<lparr>pa_text = ''127.0.0.1:4000'', pa_ip = ''127.0.0.1''\<rparr>)]"
    using example_run_result by auto
  from server_counts_transfers[OF next_key_fresh s(1)[unfolded example_run_def]]
  have "distinct (map fst (sv_conns s))" "te_num_sending (the (sv_throttles s) ! 0) =
      (\<Sum>(k, c)\<leftarrow>sv_conns s. int (count_list (ct_tnums (cs_throttle c)) 0))"
    using s(3) by (auto dest: spec[of _ 0])
  then show ?thesis using s by (auto simp: fresh_slot_def conn_slot_new_def conn_throttle_new_def)
qed

text \<open>
  C3. No connection is stranded. As long as the system refuses no registration, in every state that
  the loop reaches a connection that reads or lingers is registered for readability and one that
  sends for writability; a paused one is not registered, but it has a deadline, and whatever the
  time the next poll returns no later than that.
\<close>
theorem no_stranded_connection:
  assumes "\<And>ks. vacant ks \<notin> set ks" "list_all (tick_ok True) ts"
    "run_server ok vacant now ts (initial_server c n l tf) = Inr (Running s lu)"
    "conn_at s k = Some slot"
  shows "case cs_state slot of
      Reading \<Rightarrow> interest_at s k = Some Readable
    | Sending \<Rightarrow> interest_at s k = Some Writable
    | Lingering \<Rightarrow> interest_at s k = Some Readable
    | Pausing \<Rightarrow> interest_at s k = None \<and>
        (\<exists>d. ct_pause_until (cs_throttle slot) = Some d \<and> poll_timeout t s lu \<le> max (d - t) 0)
    | Free \<Rightarrow> False"
proof -
  note st = flight_start[OF run_server_inv[OF assms(1-3)] assms(4)]
  have "slot_ok slot" "interest_at s k = wanted (cs_state slot)" using st by simp_all
  then show ?thesis
    using poll_before_pause_end[OF assms(4), of _ t lu] by (auto simp: slot_ok_def split: conn_state.splits)
qed

theorem no_stranded_connection_witness:
  "\<exists>s. example_run = Inr (Running s 0) \<and> interest_at s 1 = Some Readable"
proof -
  obtain s where s: "example_run = Inr (Running s 0)"
    "sv_conns s = [(1, fresh_slot \<lparr>pa_text = ''127.0.0.1:4000'', pa_ip = ''127.0.0.1''\<rparr>)]"
    using example_run_result by auto
  have "list_all (tick_ok True) [accept_tick]"
    by (simp add: tick_ok_def env_ok_def accept_tick_def quiet_env_def)
  moreover have "conn_at s 1 = Some (fresh_slot \<lparr>pa_text = ''127.0.0.1:4000'', pa_ip = ''127.0.0.1''\<rparr>)"
    using s by (simp add: conn_at_def)
  ultimately have "interest_at s 1 = Some Readable"
    using no_stranded_connection[OF next_key_fresh _ s(1)[unfolded example_run_def]]
    by (fastforce simp: fresh_slot_ok(3))
  then show ?thesis using s by blast
qed

text \<open>
  C5. Every connection in the table is well formed, in every state that the loop reaches: it has its
  socket, its read buffer has 60000 bytes of which the scanned ones are among the received ones; the
  table has no free slot; one that reads holds no bandwidth rule and is no script; one that sends
  or pauses has a response whose recorded length is its length and has sent at most that much, and
  a paused one has a deadline.
\<close>
theorem connections_well_formed:
  assumes "\<And>ks. vacant ks \<notin> set ks"
    "run_server ok vacant now ts (initial_server c n l tf) = Inr (Running s lu)"
    "conn_at s k = Some slot"
  shows "cs_stream slot \<and> length (h_read_buf (cs_http slot)) = 60000 \<and>
    h_checked_idx (cs_http slot) \<le> h_read_idx (cs_http slot) \<and> h_read_idx (cs_http slot) \<le> 60000 \<and>
    (case cs_state slot of
       Free \<Rightarrow> False
     | Reading \<Rightarrow> ct_tnums (cs_throttle slot) = [] \<and> \<not> cs_is_cgi slot
     | Sending \<Rightarrow> h_response_len (cs_http slot) = length (h_response (cs_http slot)) \<and>
         0 \<le> h_bytes_sent (cs_http slot) \<and> h_bytes_sent (cs_http slot) \<le> int (length (h_response (cs_http slot)))
     | Pausing \<Rightarrow> h_response_len (cs_http slot) = length (h_response (cs_http slot)) \<and>
         0 \<le> h_bytes_sent (cs_http slot) \<and> h_bytes_sent (cs_http slot) \<le> int (length (h_response (cs_http slot))) \<and>
         ct_pause_until (cs_throttle slot) \<noteq> None
     | Lingering \<Rightarrow> True)"
proof -
  have "server_inv False s" by (rule run_server_inv[OF assms(1) _ assms(2)]) (simp add: list_all_iff)
  then have "slot_ok slot" using flight_start[OF _ assms(3)] by blast
  then show ?thesis
    by (auto simp: slot_ok_def frame_ok_def frame_def response_ok_def READ_BUF_SIZE_def split: conn_state.splits)
qed

theorem connections_well_formed_witness:
  "\<exists>s slot. example_run = Inr (Running s 0) \<and> conn_at s 1 = Some slot \<and> length (h_read_buf (cs_http slot)) = 60000"
proof -
  obtain s where s: "example_run = Inr (Running s 0)"
    "sv_conns s = [(1, fresh_slot \<lparr>pa_text = ''127.0.0.1:4000'', pa_ip = ''127.0.0.1''\<rparr>)]"
    using example_run_result by auto
  have c: "conn_at s 1 = Some (fresh_slot \<lparr>pa_text = ''127.0.0.1:4000'', pa_ip = ''127.0.0.1''\<rparr>)"
    using s(2) by (simp add: conn_at_def)
  from connections_well_formed[OF next_key_fresh s(1)[unfolded example_run_def] c] s(1) c show ?thesis by blast
qed

text \<open>
  C31. The limit on concurrent scripts never binds: a script runs to completion inside the handler
  that starts it, so in every state that the loop reaches no script is active, and a dispatch is
  refused by the limit for no positive value of it.
\<close>
theorem cgi_limit_never_binds:
  assumes "\<And>ks. vacant ks \<notin> set ks"
    "run_server ok vacant now ts (initial_server c n l tf) = Inr (Running s lu)"
  shows "sv_active_cgis s = 0 \<and> \<not> (0 < cgi_limit s \<and> cgi_limit s \<le> sv_active_cgis s)"
proof -
  have "server_inv False s" by (rule run_server_inv[OF assms(1) _ assms(2)]) (simp add: list_all_iff)
  then show ?thesis by (simp add: server_inv_def)
qed

theorem cgi_limit_never_binds_witness: "\<exists>s. example_run = Inr (Running s 0) \<and> sv_active_cgis s = 0"
proof -
  obtain s where s: "example_run = Inr (Running s 0)" using example_run_result by auto
  from cgi_limit_never_binds[OF next_key_fresh s[unfolded example_run_def]] s show ?thesis by blast
qed

text \<open>
  C4. The one way to panic. In every state that the loop reaches, whatever the peer sends and the
  system answers, the handler of an event returns a state, except in one case, in which it panics:
  the bytes that were read complete a request for a static file (static_request) that passes the
  checks and is admitted, not with HEAD and not answered as unmodified, whose byte range, with its
  end filled in from the size of this file, starts inside the bytes mapped for this file and ends
  before it starts.
\<close>
theorem only_ranges_panic:
  assumes "\<And>ks. vacant ks \<notin> set ks"
    "run_server ok vacant now ts (initial_server c n l tf) = Inr (Running s lu)"
  shows "handle_connection_event e s k = None \<longleftrightarrow>
    (\<exists>slot http path file st mmc m. conn_at s k = Some slot \<and> cs_state slot = Reading \<and>
       static_request e s slot = Some (http, path) \<and>
       static_decision e (sv_config s) (http\<lparr>h_charset := sc_charset (sv_config s)\<rparr>) path = Inr (file, st) \<and>
       snd (admit_request s (h_orig_filename http)) \<noteq> Reject \<and> h_method http \<noteq> Head \<and>
       (\<forall>ims. h_if_modified_since http = Some ims \<longrightarrow> ims < stat_mtime st) \<and>
       mmc_map (ev_open e) (ev_now e) (sv_mmc s) file = (mmc, Inr m) \<and> h_got_range http \<and>
       as_usize (h_first_byte_index http) < length (mm_data m) \<and>
       range_end (h_last_byte_index (fill_last_byte (wrap_i64 (int (st_len st))) http)) < as_usize (h_first_byte_index http))"
proof -
  have "server_inv False s" by (rule run_server_inv[OF assms(1) _ assms(2)]) (simp add: list_all_iff)
  from handle_connection_event_panic[OF this] show ?thesis unfolding inverted_slice_def by blast
qed

theorem only_ranges_panic_witness:
  "\<exists>s. example_run = Inr (Running s 0) \<and> (\<exists>s'. handle_connection_event (quiet_env 6) s 1 = Some s')"
proof -
  obtain s where s: "example_run = Inr (Running s 0)" using example_run_result by auto
  from only_ranges_panic[OF next_key_fresh s[unfolded example_run_def], of "quiet_env 6" 1]
  have "handle_connection_event (quiet_env 6) s 1 \<noteq> None" by (auto simp: static_request_def quiet_env_def)
  with s show ?thesis by auto
qed

text \<open>
  C27. A request for the bytes from a to b of a longer file, with b + 1 < a, makes that slice: the
  range header is accepted as it is, and cutting the body panics.
\<close>
theorem inverted_range_panics:
  assumes "b + 1 < a" "a < length data" "length data < 2 ^ 63"
  shows "file_body (fill_last_byte (int (length data))
    (parse_range (''bytes='' @ dec_nat a @ ''-'' @ dec_nat b) http)) data = None"
proof -
  have dig: "c \<in> set (dec_nat n) \<Longrightarrow> is_ascii_digit c" for c n using dec_nat_digits[of n] by (auto simp: list_all_iff)
  have no: "CHR '','' \<notin> set (dec_nat n)" "CHR ''-'' \<notin> set (dec_nat n)" for n
    using dig[of "CHR '',''" n] dig[of "CHR ''-''" n] by (auto simp: is_ascii_digit_def byte_val_def)
  have find: "find_byte x (w @ x # r) = Some (length w)" if "x \<notin> set w" for x w r
    using that by (induction w) auto
  have so: "split_once (CHR ''-'') (dec_nat a @ ''-'' @ dec_nat b) = Some (dec_nat a, dec_nat b)"
    using find[OF no(2), of a "dec_nat b"] by (simp add: split_once_def)
  have eq: "split_once (CHR ''='') (''bytes='' @ w) = Some (''bytes'', w)" for w by (simp add: split_once_def)
  have lt: "a < 2 ^ 63" "b < 2 ^ 63" using assms by simp_all
  define h where "h = parse_range (''bytes='' @ dec_nat a @ ''-'' @ dec_nat b) http"
  have h: "h_got_range h" "h_first_byte_index h = int a" "h_last_byte_index h = int b"
    using no lt unfolding h_def parse_range_def
    by (simp_all add: contains_byte_def eq so del: append_Cons append.simps)
  have us: "as_usize (int n) = n" if "n < 2 ^ 64" for n using that by (simp add: as_usize_def)
  have "range_end (int b) = b + 1" using lt us[of b] by (simp add: range_end_def)
  moreover have "as_usize (int a) = a" using lt by (intro us) simp
  moreover have "fill_last_byte (int (length data)) h = h" using h assms by (simp add: fill_last_byte_def)
  ultimately show ?thesis unfolding h_def[symmetric] using h assms by (simp add: file_body_def Let_def)
qed

theorem inverted_range_panics_witness:
  "file_body (fill_last_byte (int (length ''0123456789''))
     (parse_range (''bytes='' @ dec_nat 5 @ ''-'' @ dec_nat 2) http_conn_new)) ''0123456789'' = None"
  by (rule inverted_range_panics) simp_all

end
