(* ===== verification/Signals.thy ===== *)
theory Signals
  imports Server_Frame Server_Properties "HOL-Library.Monad_Syntax"
begin

text \<open>
  Signals (\<open>crates/thttpd-core/src/signal.rs\<close>) and how the event loop obeys them. A handler that
  \<open>signal_hook\<close> registers sets its flag and does nothing else; a signal without a handler ends the
  process, the default action of the five signals here. Signals arrive at any moment: an
  iteration has four lists of arrivals, separated by its accesses to the flags.
\<close>

section \<open>Flags and handlers\<close>

datatype signal = SIGTERM | SIGINT | SIGHUP | SIGUSR1 | SIGPIPE

record signal_flags =
  sf_terminate :: bool
  sf_hup :: bool
  sf_usr1 :: bool
  sf_sigpipe_sink :: bool

definition signal_flags_new :: signal_flags where
  "signal_flags_new = \<lparr>sf_terminate = False, sf_hup = False, sf_usr1 = False, sf_sigpipe_sink = False\<rparr>"

definition got_terminate :: "signal_flags \<Rightarrow> bool" where
  "got_terminate f = sf_terminate f"

definition got_hup :: "signal_flags \<Rightarrow> bool" where
  "got_hup f = sf_hup f"

definition clear_hup :: "signal_flags \<Rightarrow> signal_flags" where
  "clear_hup f = f\<lparr>sf_hup := False\<rparr>"

definition got_usr1 :: "signal_flags \<Rightarrow> bool" where
  "got_usr1 f = sf_usr1 f"

text \<open>A handler: the flag that it stores \<open>true\<close> into.\<close>

datatype flag_ref = FlagTerminate | FlagHup | FlagUsr1 | FlagSink

fun store_true :: "flag_ref \<Rightarrow> signal_flags \<Rightarrow> signal_flags" where
  "store_true FlagTerminate f = f\<lparr>sf_terminate := True\<rparr>"
| "store_true FlagHup f = f\<lparr>sf_hup := True\<rparr>"
| "store_true FlagUsr1 f = f\<lparr>sf_usr1 := True\<rparr>"
| "store_true FlagSink f = f\<lparr>sf_sigpipe_sink := True\<rparr>"

type_synonym handlers = "signal \<Rightarrow> flag_ref list"

definition no_handlers :: handlers where
  "no_handlers = (\<lambda>_. [])"

text \<open>\<open>flag::register\<close>: \<open>ok\<close> is the system's answer; earlier handlers of the signal stay.\<close>

definition register_flag :: "(signal \<Rightarrow> bool) \<Rightarrow> signal \<Rightarrow> flag_ref \<Rightarrow> handlers \<Rightarrow> handlers option" where
  "register_flag ok sig r h = (if ok sig then Some (h(sig := h sig @ [r])) else None)"

definition install_signal_handlers :: "(signal \<Rightarrow> bool) \<Rightarrow> handlers \<Rightarrow> handlers option" where
  "install_signal_handlers ok h0 =
     do { h1 \<leftarrow> register_flag ok SIGTERM FlagTerminate h0;
          h2 \<leftarrow> register_flag ok SIGINT FlagTerminate h1;
          h3 \<leftarrow> register_flag ok SIGHUP FlagHup h2;
          h4 \<leftarrow> register_flag ok SIGUSR1 FlagUsr1 h3;
          register_flag ok SIGPIPE FlagSink h4 }"

text \<open>Delivery of a signal; \<open>None\<close> is the default action, the end of the process.\<close>

definition deliver :: "handlers \<Rightarrow> signal \<Rightarrow> signal_flags \<Rightarrow> signal_flags option" where
  "deliver h sig f = (if h sig = [] then None else Some (fold store_true (h sig) f))"

fun deliver_all :: "handlers \<Rightarrow> signal list \<Rightarrow> signal_flags \<Rightarrow> signal_flags option" where
  "deliver_all h [] f = Some f"
| "deliver_all h (sig # sigs) f = do { f' \<leftarrow> deliver h sig f; deliver_all h sigs f' }"

section \<open>An iteration of the loop with arrivals\<close>

text \<open>
  The arrivals before the loop reads the termination flag, from there to the reading of the drain
  flag, from there to the reading of the hangup flag, and from there to where it is cleared.
\<close>

record arrivals =
  ar_head :: "signal list"
  ar_usr1 :: "signal list"
  ar_poll :: "signal list"
  ar_reopen :: "signal list"

definition all_arrivals :: "arrivals \<Rightarrow> signal list" where
  "all_arrivals ar = ar_head ar @ ar_usr1 ar @ ar_poll ar @ ar_reopen ar"

text \<open>
  The iteration for the flags as it reads them. The hangup flag is cleared when it was seen set,
  which an interrupted poll prevents; after an exit the flags do not matter.
\<close>

definition signal_iteration :: "handlers \<Rightarrow> (nat list \<Rightarrow> nat) \<Rightarrow> arrivals \<Rightarrow> tick \<Rightarrow>
    signal_flags \<Rightarrow> server \<Rightarrow> int \<Rightarrow> (signal_flags \<times> loop_result) option" where
  "signal_iteration h vacant ar t f s last_update =
     do { f1 \<leftarrow> deliver_all h (ar_head ar) f;
          f2 \<leftarrow> deliver_all h (ar_usr1 ar) f1;
          f3 \<leftarrow> deliver_all h (ar_poll ar) f2;
          f4 \<leftarrow> deliver_all h (ar_reopen ar) f3;
          Some (if tk_poll t = PollOk \<and> got_hup f3 then clear_hup f4 else f4,
                run_iteration vacant
                  (t\<lparr>tk_terminate := got_terminate f1, tk_usr1 := got_usr1 f2, tk_hup := got_hup f3\<rparr>)
                  s last_update) }"

fun run_signals :: "handlers \<Rightarrow> (nat list \<Rightarrow> nat) \<Rightarrow> (arrivals \<times> tick) list \<Rightarrow>
    signal_flags \<Rightarrow> server \<Rightarrow> int \<Rightarrow> (signal_flags \<times> loop_result) option" where
  "run_signals h vacant [] f s last_update = Some (f, Running s last_update)"
| "run_signals h vacant ((ar, t) # ats) f s last_update =
     (case signal_iteration h vacant ar t f s last_update of
        None \<Rightarrow> None
      | Some (f', Running s' l) \<Rightarrow> run_signals h vacant ats f' s' l
      | Some (f', r) \<Rightarrow> Some (f', r))"

section \<open>Delivery\<close>

definition installed :: "handlers \<Rightarrow> bool" where
  "installed h \<longleftrightarrow> h SIGTERM = [FlagTerminate] \<and> h SIGINT = [FlagTerminate] \<and> h SIGHUP = [FlagHup] \<and>
     h SIGUSR1 = [FlagUsr1] \<and> h SIGPIPE = [FlagSink]"

lemma install_installed: "install_signal_handlers ok no_handlers = Some h \<Longrightarrow> installed h"
  by (auto simp: install_signal_handlers_def register_flag_def no_handlers_def installed_def bind_eq_Some_conv
      split: if_splits)

text \<open>The flags after some signals have arrived.\<close>

definition raised :: "signal list \<Rightarrow> signal_flags \<Rightarrow> signal_flags" where
  "raised sigs f = \<lparr>sf_terminate = (sf_terminate f \<or> SIGTERM \<in> set sigs \<or> SIGINT \<in> set sigs),
     sf_hup = (sf_hup f \<or> SIGHUP \<in> set sigs), sf_usr1 = (sf_usr1 f \<or> SIGUSR1 \<in> set sigs),
     sf_sigpipe_sink = (sf_sigpipe_sink f \<or> SIGPIPE \<in> set sigs)\<rparr>"

lemma deliver_all_raised: "installed h \<Longrightarrow> deliver_all h sigs f = Some (raised sigs f)"
proof (induction sigs arbitrary: f)
  case (Cons sig sigs)
  then show ?case by (cases sig) (auto simp: deliver_def raised_def installed_def)
qed (simp add: raised_def)

lemma raised_simps [simp]:
  "sf_terminate (raised sigs f) \<longleftrightarrow> sf_terminate f \<or> SIGTERM \<in> set sigs \<or> SIGINT \<in> set sigs"
  "sf_hup (raised sigs f) \<longleftrightarrow> sf_hup f \<or> SIGHUP \<in> set sigs"
  "sf_usr1 (raised sigs f) \<longleftrightarrow> sf_usr1 f \<or> SIGUSR1 \<in> set sigs"
  by (simp_all add: raised_def)

lemma raised_append [simp]: "raised ys (raised xs f) = raised (xs @ ys) f"
  by (auto simp: raised_def)

text \<open>With the handlers installed no signal ends the process, and an iteration is one of the loop.\<close>

definition seen_tick :: "arrivals \<Rightarrow> signal_flags \<Rightarrow> tick \<Rightarrow> tick" where
  "seen_tick ar f t =
     t\<lparr>tk_terminate := sf_terminate (raised (ar_head ar) f),
       tk_usr1 := sf_usr1 (raised (ar_head ar @ ar_usr1 ar) f),
       tk_hup := sf_hup (raised (ar_head ar @ ar_usr1 ar @ ar_poll ar) f)\<rparr>"

definition flags_after :: "arrivals \<Rightarrow> signal_flags \<Rightarrow> tick \<Rightarrow> signal_flags" where
  "flags_after ar f t =
     (if tk_poll t = PollOk \<and> tk_hup (seen_tick ar f t) then clear_hup (raised (all_arrivals ar) f)
      else raised (all_arrivals ar) f)"

lemma signal_iteration_seen:
  "installed h \<Longrightarrow> signal_iteration h vacant ar t f s l =
     Some (flags_after ar f t, run_iteration vacant (seen_tick ar f t) s l)"
  by (auto simp: signal_iteration_def deliver_all_raised flags_after_def seen_tick_def all_arrivals_def
      got_hup_def got_terminate_def got_usr1_def)

lemma run_signals_Cons:
  "installed h \<Longrightarrow> run_signals h vacant ((ar, t) # ats) f s l =
     (case run_iteration vacant (seen_tick ar f t) s l of
        Running s' l' \<Rightarrow> run_signals h vacant ats (flags_after ar f t) s' l'
      | r \<Rightarrow> Some (flags_after ar f t, r))"
  by (simp add: signal_iteration_seen split: loop_result.splits)

text \<open>So a run with signals is a run of the loop for ticks that differ only in what the flags say.\<close>

fun seen_ticks :: "(arrivals \<times> tick) list \<Rightarrow> signal_flags \<Rightarrow> tick list" where
  "seen_ticks [] f = []"
| "seen_ticks ((ar, t) # ats) f = seen_tick ar f t # seen_ticks ats (flags_after ar f t)"

lemma run_signals_ticks:
  "installed h \<Longrightarrow> \<exists>f'. run_signals h vacant ats f s l = Some (f', run_ticks vacant (seen_ticks ats f) s l)"
proof (induction ats arbitrary: f s l)
  case (Cons x ats)
  obtain ar t where "x = (ar, t)" by fastforce
  with Cons show ?case
    by (auto simp: run_signals_Cons simp del: run_signals.simps(2) split: loop_result.split)
qed simp


section \<open>Termination\<close>

definition arrived :: "(arrivals \<times> tick) list \<Rightarrow> signal list" where
  "arrived ats = concat (map (\<lambda>(ar, t). all_arrivals ar) ats)"

lemma flags_after_sticky:
  "sf_terminate (flags_after ar f t) \<longleftrightarrow> sf_terminate (raised (all_arrivals ar) f)"
  "sf_usr1 (flags_after ar f t) \<longleftrightarrow> sf_usr1 (raised (all_arrivals ar) f)"
  by (simp_all add: flags_after_def clear_hup_def)

text \<open>The flags for termination and drain after a run: nothing resets them.\<close>

lemma run_signals_flags:
  assumes "installed h" "run_signals h vacant ats f s l = Some (f', Running s' l')"
  shows "sf_terminate f' = sf_terminate (raised (arrived ats) f) \<and> sf_usr1 f' = sf_usr1 (raised (arrived ats) f)"
  using assms(2)
proof (induction ats arbitrary: f s l)
  case (Cons x ats)
  obtain ar t where x: "x = (ar, t)" by fastforce
  from Cons.prems obtain s1 l1 where "run_signals h vacant ats (flags_after ar f t) s1 l1 = Some (f', Running s' l')"
    unfolding x run_signals_Cons[OF assms(1)] by (auto split: loop_result.splits)
  from Cons.IH[OF this] show ?case by (auto simp: x arrived_def flags_after_sticky)
qed (simp add: arrived_def)

lemma run_signals_append:
  "run_signals h vacant (xs @ ys) f s l =
     (case run_signals h vacant xs f s l of
        Some (f', Running s' l') \<Rightarrow> run_signals h vacant ys f' s' l'
      | r \<Rightarrow> r)"
proof (induction xs arbitrary: f s l)
  case (Cons x xs)
  obtain ar t where x: "x = (ar, t)" by fastforce
  with Cons show ?case by (auto split: option.splits prod.splits loop_result.splits)
qed (simp split: option.splits)

lemma terminate_exits:
  assumes "installed h" "sf_terminate f \<or> SIGTERM \<in> set (ar_head ar) \<or> SIGINT \<in> set (ar_head ar)"
  shows "run_signals h vacant ((ar, t) # post) f s l = Some (flags_after ar f t, Exited s)"
  using assms(2) by (simp add: run_signals_Cons[OF assms(1)] run_iteration_def seen_tick_def del: run_signals.simps(2))

section \<open>Graceful drain\<close>

text \<open>A server that drains and goes on has connections left, none of them new.\<close>

lemma drain_run:
  assumes "installed h" "sv_draining s \<longrightarrow> sv_conns s \<noteq> []" "run_signals h vacant ats f s l = Some (f', Running s' l')"
  shows "(sv_draining s' \<longrightarrow> sv_conns s' \<noteq> []) \<and> (sv_draining s \<longrightarrow> sv_draining s' \<and> keys_of s' \<subseteq> keys_of s) \<and>
    (sf_usr1 f \<and> ats \<noteq> [] \<longrightarrow> sv_draining s' \<and> keys_of s' \<subseteq> keys_of s)"
  using assms(2,3)
proof (induction ats arbitrary: f s l)
  case (Cons x ats)
  obtain ar t where x: "x = (ar, t)" by fastforce
  from Cons.prems(2) obtain s1 l1 where
    it: "run_iteration vacant (seen_tick ar f t) s l = Running s1 l1" and
    rest: "run_signals h vacant ats (flags_after ar f t) s1 l1 = Some (f', Running s' l')"
    unfolding x run_signals_Cons[OF assms(1)] by (auto split: loop_result.splits)
  note r = run_iteration_running[OF it]
  have "sv_draining s1 \<longrightarrow> sv_conns s1 \<noteq> []" using r Cons.prems(1) by auto
  from Cons.IH[OF this rest] r show ?case by (auto simp: seen_tick_def)
qed simp

text \<open>
  C11. The loop obeys the signals, whenever they arrive. Once a termination signal or an interrupt
  has arrived, the next iteration leaves the loop at once, with the server as it was. Once the
  signal for a graceful stop has arrived, the server drains from the next iteration on: no
  connection is accepted any more, and it goes on only while a connection is open.
\<close>

theorem signals_obeyed:
  assumes "install_signal_handlers ok no_handlers = Some h" "\<not> sv_draining s"
    "run_signals h vacant ats signal_flags_new s l = Some (f1, Running s1 l1)"
  shows "(SIGTERM \<in> set (arrived ats) \<or> SIGINT \<in> set (arrived ats) \<longrightarrow>
      (\<forall>ar t. \<exists>f2. run_signals h vacant [(ar, t)] f1 s1 l1 = Some (f2, Exited s1))) \<and>
    (SIGUSR1 \<in> set (arrived ats) \<longrightarrow>
      (\<forall>x post f2 s2 l2. run_signals h vacant (x # post) f1 s1 l1 = Some (f2, Running s2 l2) \<longrightarrow>
         sv_draining s2 \<and> sv_conns s2 \<noteq> [] \<and> keys_of s2 \<subseteq> keys_of s1))"
proof -
  note inst = install_installed[OF assms(1)]
  have fl: "SIGTERM \<in> set (arrived ats) \<or> SIGINT \<in> set (arrived ats) \<longrightarrow> sf_terminate f1"
    "SIGUSR1 \<in> set (arrived ats) \<longrightarrow> sf_usr1 f1"
    using run_signals_flags[OF inst assms(3)] by simp_all
  have "sv_draining s1 \<longrightarrow> sv_conns s1 \<noteq> []" using drain_run[OF inst _ assms(3)] assms(2) by blast
  then show ?thesis using fl terminate_exits[OF inst] drain_run[OF inst] by blast
qed

text \<open>
  C29. What an iteration that goes on does about a hangup. One that arrived before the flag is read
  has the log reopened and the flag cleared; an interrupted poll leaves both for later. One that
  arrives after the flag is read is kept for the next iteration if the flag was clear; if it was
  set, it is cleared together with the earlier one, after the log was reopened: it is lost.
\<close>

theorem hangup_outcome:
  assumes "install_signal_handlers ok no_handlers = Some h"
    "signal_iteration h vacant ar t f s l = Some (f', Running s' l')"
  shows "if got_hup f \<or> SIGHUP \<in> set (ar_head ar @ ar_usr1 ar @ ar_poll ar)
    then (if tk_poll t = PollOk
          then sv_access_log s' = fst (log_reopen (tk_reopen t) (sv_access_log s)) \<and> \<not> got_hup f'
          else sv_access_log s' = sv_access_log s \<and> got_hup f')
    else sv_access_log s' = sv_access_log s \<and> got_hup f' = (SIGHUP \<in> set (ar_reopen ar))"
proof -
  note inst = install_installed[OF assms(1)]
  have it: "run_iteration vacant (seen_tick ar f t) s l = Running s' l'" and f': "f' = flags_after ar f t"
    using assms(2) by (simp_all add: signal_iteration_seen[OF inst])
  show ?thesis
    using run_iteration_running[OF it]
    by (auto simp: f' flags_after_def seen_tick_def clear_hup_def got_hup_def all_arrivals_def)
qed


text \<open>An iteration in which a client is accepted and every kind of signal arrives.\<close>

definition example_arrivals :: arrivals where
  "example_arrivals = \<lparr>ar_head = [SIGHUP], ar_usr1 = [], ar_poll = [SIGPIPE, SIGUSR1, SIGTERM], ar_reopen = [SIGHUP]\<rparr>"

definition rotate_tick :: tick where
  "rotate_tick = accept_tick\<lparr>tk_reopen := (\<lambda>_. Some 4)\<rparr>"

definition logging_server :: server where
  "logging_server = server_new server_config_default 1 (LogFile ''/log'' 3)"

definition all_installed :: handlers where
  "all_installed = (\<lambda>sig. case sig of SIGHUP \<Rightarrow> [FlagHup] | SIGUSR1 \<Rightarrow> [FlagUsr1] | SIGPIPE \<Rightarrow> [FlagSink]
     | _ \<Rightarrow> [FlagTerminate])"

lemma all_installed: "install_signal_handlers (\<lambda>_. True) no_handlers = Some all_installed"
  by (auto simp: install_signal_handlers_def register_flag_def no_handlers_def all_installed_def fun_eq_iff
      split: signal.splits)

lemma example_signal_iteration:
  "\<exists>f1 s1 l1. signal_iteration all_installed next_key example_arrivals rotate_tick signal_flags_new logging_server 0 =
     Some (f1, Running s1 l1)"
  by (simp add: signal_iteration_seen[OF install_installed[OF all_installed]] example_arrivals_def seen_tick_def
      signal_flags_new_def logging_server_def rotate_tick_def
      server_new_def listen_token_def MAX_LISTENERS_def run_iteration_def
      accept_tick_def is_listen_token_def handle_accept_def accept_one_def MAX_CONNECTIONS_def next_key_def
      reg_register_def conn_token_def CONN_BASE_def quiet_env_def ready_paused_def pause_expired_def fresh_slot_def
      periodic_phase_def wheel_run_def wheel_new_def run_loop.simps clean_top.simps throttle_update_def
      THROTTLE_TIME_def SECOND_def Let_def)

theorem signals_obeyed_witness:
  "\<exists>f1 s1 l1 f2. run_signals all_installed next_key [(example_arrivals, rotate_tick)] signal_flags_new logging_server 0 =
       Some (f1, Running s1 l1) \<and>
     run_signals all_installed next_key [(example_arrivals, rotate_tick)] f1 s1 l1 = Some (f2, Exited s1)"
proof -
  obtain f1 s1 l1 where r: "run_signals all_installed next_key [(example_arrivals, rotate_tick)]
      signal_flags_new logging_server 0 = Some (f1, Running s1 l1)"
    using example_signal_iteration by auto
  have "\<not> sv_draining logging_server" "SIGTERM \<in> set (arrived [(example_arrivals, rotate_tick)])"
    by (simp_all add: logging_server_def server_new_def arrived_def all_arrivals_def example_arrivals_def)
  with signals_obeyed[OF all_installed _ r] r show ?thesis by blast
qed

theorem hangup_outcome_witness:
  "\<exists>f1 s1 l1. signal_iteration all_installed next_key example_arrivals rotate_tick signal_flags_new logging_server 0 =
       Some (f1, Running s1 l1) \<and>
     SIGHUP \<in> set (ar_reopen example_arrivals) \<and> sv_access_log s1 = LogFile ''/log'' 4 \<and> \<not> got_hup f1"
proof -
  obtain f1 s1 l1 where r: "signal_iteration all_installed next_key example_arrivals rotate_tick
      signal_flags_new logging_server 0 = Some (f1, Running s1 l1)"
    using example_signal_iteration by blast
  from hangup_outcome[OF all_installed r] have "sv_access_log s1 = LogFile ''/log'' 4 \<and> \<not> got_hup f1"
    by (simp add: example_arrivals_def rotate_tick_def accept_tick_def logging_server_def server_new_def)
  with r show ?thesis by (simp add: example_arrivals_def)
qed

end
