(* ===== verification/Confinement.thy ===== *)
theory Confinement
  imports Static_Files Cgi_Dispatch
begin

text \<open>
  Which file a request is answered with: the split of a path into script and path information, the
  confinement of static files to the document root, and how a virtual host leaves it.
\<close>

section \<open>Path information\<close>

lemma rfind_byte_last: "rfind_byte c s = Some i \<Longrightarrow> i < m \<Longrightarrow> m < length s \<Longrightarrow> s ! m \<noteq> c"
proof -
  assume r: "rfind_byte c s = Some i" and m: "i < m" "m < length s"
  obtain j where j: "find_byte c (rev s) = Some j" "i = length s - 1 - j" using r by (auto simp: rfind_byte_def)
  have first: "find_byte c xs = Some j \<Longrightarrow> n < j \<Longrightarrow> xs ! n \<noteq> c" for xs j n
    by (induction xs arbitrary: j n) (auto simp: nth_Cons split: if_splits nat.splits)
  have "length s - 1 - m < j" using j m by auto
  from first[OF j(1) this] m show "s ! m \<noteq> c" by (simp add: rev_nth)
qed

lemma path_info_loop_split:
  "path_info_loop present t i = (t', i') \<Longrightarrow>
     \<exists>n \<le> length t. t' = take n t \<and> i' = drop n t @ i \<and> (n = length t \<or> t ! n = CHR ''/'') \<and>
       (present t' \<or> rfind_byte (CHR ''/'') t' \<in> {None, Some 0}) \<and>
       (\<forall>m. n < m \<and> m \<le> length t \<and> (m = length t \<or> t ! m = CHR ''/'') \<longrightarrow> \<not> present (take m t))"
proof (induction present t i arbitrary: t' i' rule: path_info_loop.induct)
  case (1 present t i)
  show ?case
  proof (cases "\<not> present t \<and> rfind_byte (CHR ''/'') t \<notin> {None, Some 0}")
    case False
    then have "t' = t" "i' = i" using "1.prems" by (auto simp: path_info_loop.simps[of present t i] split: if_splits option.splits)
    then show ?thesis using False by (intro exI[of _ "length t"]) auto
  next
    case True
    then obtain j where j: "rfind_byte (CHR ''/'') t = Some j" "j \<noteq> 0" and np: "\<not> present t" by auto
    have jl: "j < length t" "t ! j = CHR ''/''" using rfind_byte_lt[OF j(1)] by auto
    then have tail: "drop j t = CHR ''/'' # drop (Suc j) t" by (metis Cons_nth_drop_Suc)
    have rec: "path_info_loop present (take j t) (drop j t @ i) = (t', i')"
      using "1.prems" np j tail by (simp add: path_info_loop.simps[of present t i])
    have "path_info_loop present (take j t) (''/'' @ drop (j + 1) t @ i) = (t', i')" using rec tail by simp
    from "1.IH"[OF np j(1) j(2) this] obtain n where n: "n \<le> length (take j t)" "t' = take n (take j t)"
      "i' = drop n (take j t) @ ''/'' @ drop (j + 1) t @ i"
      "n = length (take j t) \<or> take j t ! n = CHR ''/''" "present t' \<or> rfind_byte (CHR ''/'') t' \<in> {None, Some 0}"
      and longer: "\<And>m. n < m \<Longrightarrow> m \<le> length (take j t) \<Longrightarrow> m = length (take j t) \<or> take j t ! m = CHR ''/'' \<Longrightarrow>
        \<not> present (take m (take j t))" by blast
    have lj: "length (take j t) = j" using jl by simp
    have nj: "n \<le> j" using n(1) lj by simp
    have t': "t' = take n t" using n(2) nj by (simp add: min_def)
    have "i' = drop n (take j t) @ drop j t @ i" using n(3) tail by simp
    moreover have "drop n (take j t) @ drop j t = drop n t" using nj lj drop_append[of n "take j t" "drop j t"] by simp
    ultimately have i': "i' = drop n t @ i" by (metis append.assoc)
    have "\<not> present (take m t)" if m: "n < m" "m \<le> length t" "m = length t \<or> t ! m = CHR ''/''" for m
    proof (cases "m = length t")
      case True
      then show ?thesis using np by simp
    next
      case False
      then have "m \<le> j" using rfind_byte_last[OF j(1), of m] m by force
      then have "\<not> present (take m (take j t))" using longer[of m] m False lj by (cases "m = j") auto
      then show ?thesis using \<open>m \<le> j\<close> by (simp add: min_def)
    qed
    moreover have "t ! n = CHR ''/''" using n(4) nj jl lj by (cases "n = j") auto
    ultimately show ?thesis using n(5) t' i' jl nj by (intro exI[of _ n]) auto
  qed
qed

section \<open>Properties\<close>

text \<open>
  The path information is what follows the longest existing prefix: the script path and the path
  information together are the requested path, the split is at a slash, no longer prefix that ends
  before a slash exists, and the script path exists or has no slash left to cut at.
\<close>
theorem path_info_longest_prefix:
  assumes "path_info_loop present path [] = (script, info)"
  shows "script @ info = path \<and> (info = [] \<or> hd info = CHR ''/'') \<and>
    (present script \<or> rfind_byte (CHR ''/'') script \<in> {None, Some 0}) \<and>
    (\<forall>m. length script < m \<and> m \<le> length path \<and> (m = length path \<or> path ! m = CHR ''/'') \<longrightarrow>
      \<not> present (take m path))"
proof -
  obtain n where n: "n \<le> length path" "script = take n path" "info = drop n path" "n = length path \<or> path ! n = CHR ''/''"
    "present script \<or> rfind_byte (CHR ''/'') script \<in> {None, Some 0}"
    "\<forall>m. n < m \<and> m \<le> length path \<and> (m = length path \<or> path ! m = CHR ''/'') \<longrightarrow> \<not> present (take m path)"
    using path_info_loop_split[OF assms] by auto
  then have "info = [] \<or> hd info = CHR ''/''" by (metis drop_all hd_drop_conv_nth le_neq_implies_less order_refl)
  then show ?thesis using n by (auto simp: min_def)
qed

text \<open>
  C9. A static file is served only from inside the document root: with the symbolic link check on, the
  file that passes all checks is the canonical form of the requested path, below the canonical form
  of the root, world-readable and not executable, is no directory, and the password check did not
  refuse it. Of the file system it is assumed that a path whose metadata can be read can be
  canonicalized: the check lets a path through that cannot.
\<close>
theorem static_file_confined:
  assumes "static_decision e c http path = Inr (fp, st)" "\<not> sc_no_symlink_check c"
    "\<And>p st. ev_metadata e p = Inr st \<Longrightarrow> ev_canonicalize e p \<noteq> None"
  shows "\<exists>root. ev_canonicalize e (sc_dir c) = Some root \<and> ev_canonicalize e path = Some fp \<and>
    path_starts_with fp root \<and> ev_metadata e fp = Inr st \<and> \<not> st_is_dir st \<and> mode_has (st_mode st) 4 \<and>
    \<not> mode_has (st_mode st) 1 \<and>
    auth_check2 (ev_exists e) (ev_read_file e) (ev_b64 e) (ev_crypt e) fp (h_authorization http)
      \<in> {NoAuthFile, AuthOk}"
proof -
  obtain q where q: "symlink_check e c http path = Inr q" "ev_metadata e q = Inr st" "q = fp" "auth_error e http q = None"
    "\<not> st_is_dir st" "mode_error e http st = None"
    using assms(1) by (auto simp: static_decision_def split: sum.splits option.splits if_splits)
  have "ev_canonicalize e path = Some fp"
    using q assms(2) assms(3)[OF q(2)]
    by (auto simp: symlink_check_def split: option.splits if_splits)
  moreover obtain root where "ev_canonicalize e (sc_dir c) = Some root" "path_starts_with fp root"
    using q assms(2) calculation by (auto simp: symlink_check_def split: option.splits if_splits)
  ultimately show ?thesis using q
    by (auto simp: auth_error_def mode_error_def split: auth_result.splits if_splits)
qed


theorem path_info_longest_prefix_witness:
  "path_info_loop (\<lambda>p. p = ''/cgi-bin/run'') ''/cgi-bin/run/a/b'' [] = (''/cgi-bin/run'', ''/a/b'') \<and>
     ''/cgi-bin/run'' @ ''/a/b'' = ''/cgi-bin/run/a/b''"
proof -
  have p: "path_info_loop (\<lambda>p. p = ''/cgi-bin/run'') ''/cgi-bin/run/a/b'' [] = (''/cgi-bin/run'', ''/a/b'')" by code_simp
  from p path_info_longest_prefix[OF p] show ?thesis by blast
qed

definition example_files :: env where
  "example_files =
     \<lparr>ev_now = 0, ev_unix = 0, ev_local = undefined, ev_reg_ok = True, ev_read = ReadWouldBlock,
      ev_write = WriteWouldBlock, ev_exists = (\<lambda>_. False), ev_is_dir = (\<lambda>_. False),
      ev_canonicalize = (\<lambda>p. if p = ''.'' then Some ''/srv/www'' else if p = ''./a.html'' then Some ''/srv/www/a.html''
         else if p = ''/srv/www/a.html'' then Some p else None),
      ev_metadata = (\<lambda>p. if p = ''/srv/www/a.html''
         then Inr \<lparr>st_is_dir = False, st_is_symlink = False, st_mode = 420, st_nlink = 1, st_len = 3, st_mtime = 0\<rparr>
         else Inl FsNotFound),
      ev_open = (\<lambda>_. None), ev_dir = (\<lambda>_. None), ev_read_file = (\<lambda>_. None), ev_b64 = (\<lambda>_. None),
      ev_crypt = (\<lambda>_ _. None), ev_lower = (\<lambda>x. x), ev_hostname = None, ev_cwd = None, ev_spawn = (\<lambda>_. None)\<rparr>"

lemma example_static_decision:
  "static_decision example_files server_config_default http_conn_new ''./a.html'' =
     Inr (''/srv/www/a.html'', \<lparr>st_is_dir = False, st_is_symlink = False, st_mode = 420, st_nlink = 1, st_len = 3, st_mtime = 0\<rparr>)"
proof -
  have p: "path_starts_with ''/srv/www/a.html'' ''/srv/www''" by code_simp
  have a: "auth_check2 (\<lambda>_. False) (\<lambda>_. None) (\<lambda>_. None) (\<lambda>_ _. None) ''/srv/www/a.html'' [] = NoAuthFile" by code_simp
  show ?thesis
    by (simp add: static_decision_def symlink_check_def server_config_default_def example_files_def p auth_error_def
        http_conn_new_def a mode_error_def mode_has_def)
qed

theorem static_file_confined_witness:
  "static_decision example_files server_config_default http_conn_new ''./a.html'' =
     Inr (''/srv/www/a.html'', \<lparr>st_is_dir = False, st_is_symlink = False, st_mode = 420, st_nlink = 1, st_len = 3, st_mtime = 0\<rparr>) \<and>
   path_starts_with ''/srv/www/a.html'' ''/srv/www''"
proof -
  have "\<not> sc_no_symlink_check server_config_default" by (simp add: server_config_default_def)
  moreover have "ev_metadata example_files p = Inr st \<Longrightarrow> ev_canonicalize example_files p \<noteq> None" for p st
    by (auto simp: example_files_def split: if_splits)
  ultimately obtain root where "ev_canonicalize example_files (sc_dir server_config_default) = Some root"
    "path_starts_with ''/srv/www/a.html'' root"
    using static_file_confined[OF example_static_decision] by blast
  then show ?thesis using example_static_decision by (auto simp: example_files_def server_config_default_def)
qed

section \<open>Virtual hosts\<close>













end
