(* ===== verification/Isolation.thy ===== *)
theory Isolation
  imports Server_Invariant
begin

text \<open>
  Connections do not disturb each other: the handlers of an event on one connection leave the slot
  and the registration of every other connection as they were. What connections share are the
  throttle table, the cache of mappings, the log and the counters. One equation per operation,
  collected in \<open>apart\<close>.
\<close>

named_theorems apart \<open>what an operation on one connection leaves of the others\<close>

definition slot_view :: "server \<Rightarrow> nat \<Rightarrow> conn_slot option \<times> interest option" where
  "slot_view s j = (conn_at s j, interest_at s j)"

lemma slot_view_updates [apart]:
  "slot_view (s\<lparr>sv_stats := a\<rparr>) j = slot_view s j" "slot_view (s\<lparr>sv_throttles := th\<rparr>) j = slot_view s j"
  "slot_view (s\<lparr>sv_mmc := m\<rparr>) j = slot_view s j" "slot_view (s\<lparr>sv_log_out := lo\<rparr>) j = slot_view s j"
  "slot_view (s\<lparr>sv_active_cgis := n\<rparr>) j = slot_view s j"
  by (simp_all add: slot_view_def)

lemma slot_view_upd_conn [apart]: "j \<noteq> k \<Longrightarrow> slot_view (upd_conn k f s) j = slot_view s j"
  by (simp add: slot_view_def)

lemma slot_view_registry [apart]:
  assumes "j \<noteq> k"
  shows "slot_view (fst (reg_register e k i s)) j = slot_view s j" "slot_view (reg_reregister e k i s) j = slot_view s j"
    "slot_view (reg_deregister e k s) j = slot_view s j" "slot_view (drop_stream k s) j = slot_view s j"
  using assms
  by (auto simp: slot_view_def interest_at_def reg_register_def reg_reregister_def reg_deregister_def drop_stream_def
      update_conv' delete_conv' conn_token_inj)

lemma slot_view_admit [apart]: "slot_view (fst (admit_request s p)) j = slot_view s j"
  by (simp add: admit_request_def apart split: option.splits prod.splits)

lemma slot_view_delete [apart]: "j \<noteq> k \<Longrightarrow> slot_view (s\<lparr>sv_conns := AList.delete k (sv_conns s)\<rparr>) j = slot_view s j"
  by (simp add: slot_view_def conn_at_def interest_at_def delete_conv')

lemma slot_view_transitions [apart]:
  assumes "j \<noteq> k"
  shows "slot_view (transition_to_sending e s k) j = slot_view s j" "slot_view (transition_to_lingering e s k) j = slot_view s j"
    "slot_view (close_connection e s k) j = slot_view s j"
  using assms
  by (simp_all add: transition_to_sending_def transition_to_lingering_def close_connection_def Let_def split_beta apart
      split: option.splits)

lemma slot_view_responses [apart]:
  "j \<noteq> k \<Longrightarrow> slot_view (finish_response e k f s) j = slot_view s j"
  "j \<noteq> k \<Longrightarrow> slot_view (bad_request e s k http) j = slot_view s j"
  by (simp_all add: finish_response_def bad_request_def apart)

section \<open>Requests\<close>

lemma send_file_apart: "send_file e s k http p st = Some s' \<Longrightarrow> j \<noteq> k \<Longrightarrow> slot_view s' j = slot_view s j"
  by (auto simp: send_file_def Let_def apart split: prod.splits sum.splits option.splits)

lemma static_admitted_apart: "static_admitted e s k http p st = Some s' \<Longrightarrow> j \<noteq> k \<Longrightarrow> slot_view s' j = slot_view s j"
  by (auto simp: static_admitted_def apart dest!: send_file_apart split: if_splits)

lemma serve_static_apart:
  assumes "serve_static e s k http path = Some s'" "j \<noteq> k"
  shows "slot_view s' j = slot_view s j"
proof (cases "static_decision e (sv_config s) (http\<lparr>h_charset := sc_charset (sv_config s)\<rparr>) path")
  case (Inl r)
  with assms show ?thesis by (auto simp: serve_static_def apart)
next
  case (Inr q)
  obtain p st where q: "q = (p, st)" by fastforce
  define http1 where "http1 = fill_last_byte (wrap_i64 (int (st_len st))) (http\<lparr>h_charset := sc_charset (sv_config s)\<rparr>)"
  obtain s2 d where a: "admit_request (upd_http k (\<lambda>_. http1) s) (h_orig_filename http1) = (s2, d)" by fastforce
  have "slot_view s2 j = slot_view s j"
    using slot_view_admit[of "upd_http k (\<lambda>_. http1) s" "h_orig_filename http1" j] assms(2) by (simp add: a apart)
  with assms(1)[unfolded serve_static_def Let_def Inr sum.case q prod.case, folded http1_def, unfolded a] assms(2)
  show ?thesis by (cases d) (auto simp: apart dest!: static_admitted_apart)
qed

lemma slot_view_cgi [apart]:
  "slot_view (set_cgis f s) j = slot_view s j"
  "j \<noteq> k \<Longrightarrow> slot_view (cgi_complete b k ts s) j = slot_view s j"
  "j \<noteq> k \<Longrightarrow> slot_view (cgi_error e s k http n t fm) j = slot_view s j"
  by (simp_all add: set_cgis_def cgi_complete_def cgi_error_def Let_def apart)

lemma slot_view_cgi_run [apart]: "j \<noteq> k \<Longrightarrow> slot_view (cgi_run_phase e s k c sc i ts) j = slot_view s j"
  by (simp add: cgi_run_phase_def Let_def apart split: option.splits)

lemma slot_view_cgi_check [apart]: "j \<noteq> k \<Longrightarrow> slot_view (cgi_throttle_check e s k c sc i) j = slot_view s j"
  by (simp add: cgi_throttle_check_def split_beta apart split: throttle_decision.split)

lemma dispatch_cgi_apart: "dispatch_cgi e s k = Some s' \<Longrightarrow> j \<noteq> k \<Longrightarrow> slot_view s' j = slot_view s j"
  by (auto simp: dispatch_cgi_def Let_def split_beta apart split: option.splits if_splits)

section \<open>Events\<close>

lemma process_request_apart: "process_request e s k = Some s' \<Longrightarrow> j \<noteq> k \<Longrightarrow> slot_view s' j = slot_view s j"
  by (auto simp: process_request_def Let_def apart split: option.splits outcome.splits
      dest!: serve_static_apart dispatch_cgi_apart)

lemma scan_request_apart: "scan_request e s k http = Some s' \<Longrightarrow> j \<noteq> k \<Longrightarrow> slot_view s' j = slot_view s j"
  by (auto simp: scan_request_def Let_def apart split: option.splits got_result.splits dest!: process_request_apart)

lemma handle_read_apart: "handle_read e s k = Some s' \<Longrightarrow> j \<noteq> k \<Longrightarrow> slot_view s' j = slot_view s j"
  by (auto simp: handle_read_def handle_data_def Let_def apart split: option.splits if_splits read_result.splits
      dest!: scan_request_apart dispatch_cgi_apart)

lemma slot_view_sending [apart]:
  assumes "j \<noteq> k"
  shows "slot_view (pause_sending e s k c) j = slot_view s j" "slot_view (account_body e k c n s) j = slot_view s j"
    "slot_view (resume_sending e s k c) j = slot_view s j" "slot_view (after_write e s k c n) j = slot_view s j"
  using assms
  by (simp_all add: pause_sending_def account_body_def resume_sending_def after_write_def Let_def apart split: option.splits)

lemma handle_send_apart: "handle_send e s k = Some s' \<Longrightarrow> j \<noteq> k \<Longrightarrow> slot_view s' j = slot_view s j"
  by (auto simp: handle_send_def Let_def apart split: option.splits if_splits write_result.splits)

lemma handle_pause_apart: "handle_pause e s k = Some s' \<Longrightarrow> j \<noteq> k \<Longrightarrow> slot_view s' j = slot_view s j"
  by (auto simp: handle_pause_def Let_def apart split: option.splits if_splits dest!: handle_send_apart)

lemma event_apart: "handle_connection_event e s k = Some s' \<Longrightarrow> j \<noteq> k \<Longrightarrow> slot_view s' j = slot_view s j"
  by (auto simp: handle_connection_event_def handle_linger_def apart split: option.splits conn_state.splits
      dest: handle_read_apart handle_send_apart handle_pause_apart)

section \<open>Properties\<close>

text \<open>
  C6. Connections are isolated. Whatever the events of a poll are and whatever their handlers do,
  requests, scripts, transfers and errors included, a connection that has no event among them has
  the same slot and the same registration afterwards.
\<close>
theorem connections_isolated:
  assumes "event_phase evs s = Some s'" "\<forall>(n, e) \<in> set evs. n \<noteq> conn_token j"
  shows "conn_at s' j = conn_at s j \<and> interest_at s' j = interest_at s j"
proof -
  have "slot_view s' j = slot_view s j" using assms
  proof (induction evs arbitrary: s)
    case (Cons x evs)
    obtain n e where x: "x = (n, e)" by fastforce
    show ?case
    proof (cases "is_listen_token n \<or> slab_key_from_token n = None")
      case True
      then show ?thesis using Cons by (auto simp: x split: if_splits)
    next
      case False
      then obtain k s1 where k: "slab_key_from_token n = Some k" "handle_connection_event e s k = Some s1" "event_phase evs s1 = Some s'"
        using Cons.prems(1) by (auto simp: x split: option.splits)
      have "j \<noteq> k" using k(1) Cons.prems(2) by (auto simp: x token_defs split: if_splits)
      with event_apart[OF k(2)] Cons.IH[OF k(3)] Cons.prems(2) show ?thesis by simp
    qed
  qed simp
  then show ?thesis by (simp add: slot_view_def)
qed

definition pair_env :: env where
  "pair_env =
     \<lparr>ev_now = 0, ev_unix = 0, ev_local = undefined, ev_reg_ok = True, ev_read = ReadWouldBlock,
      ev_write = WriteWouldBlock, ev_exists = (\<lambda>_. False), ev_is_dir = (\<lambda>_. False),
      ev_canonicalize = (\<lambda>_. None), ev_metadata = (\<lambda>_. Inl FsNotFound), ev_open = (\<lambda>_. None),
      ev_dir = (\<lambda>_. None), ev_read_file = (\<lambda>_. None), ev_b64 = (\<lambda>_. None), ev_crypt = (\<lambda>_ _. None),
      ev_lower = (\<lambda>x. x), ev_hostname = None, ev_cwd = None, ev_spawn = (\<lambda>_. None)\<rparr>"

definition pair_server :: server where
  "pair_server = (server_new server_config_default 1 LogDisabled)
     \<lparr>sv_conns := [(0, (fresh_slot \<lparr>pa_text = ''127.0.0.1:4000'', pa_ip = ''127.0.0.1''\<rparr>)\<lparr>cs_state := Lingering\<rparr>),
        (1, fresh_slot \<lparr>pa_text = ''127.0.0.1:4001'', pa_ip = ''127.0.0.1''\<rparr>)],
      sv_registry := [(conn_token 0, Readable), (conn_token 1, Readable)]\<rparr>"

lemma pair_closes: "\<exists>s'. event_phase [(conn_token 0, pair_env)] pair_server = Some s' \<and> conn_at s' 0 = None"
  by (simp add: pair_server_def pair_env_def server_new_def conn_at_def handle_connection_event_def handle_linger_def close_connection_def
      fresh_slot_def conn_slot_new_def conn_throttle_new_def is_throttled_def drop_stream_def reg_deregister_def Let_def
      split: option.split)

theorem connections_isolated_witness:
  "\<exists>s'. event_phase [(conn_token 0, pair_env)] pair_server = Some s' \<and> conn_at s' 0 = None \<and>
     conn_at s' 1 = conn_at pair_server 1 \<and> interest_at s' 1 = Some Readable"
proof -
  obtain s' where s': "event_phase [(conn_token 0, pair_env)] pair_server = Some s'" "conn_at s' 0 = None" using pair_closes by blast
  have "interest_at pair_server 1 = Some Readable" by (simp add: pair_server_def interest_at_def)
  with connections_isolated[OF s'(1), of 1] s' show ?thesis by simp
qed

end
