(* ===== verification/Cache_Invariant.thy ===== *)
theory Cache_Invariant
  imports Server_Invariant
begin

text \<open>
  The cache of mappings inside the running server: which operations of the event loop leave it
  alone (collected in \<open>cache\<close>), and that in every state the loop reaches it has the bytes of the
  files, if a file that changes gets another stamp (device, inode, length, time of change).
\<close>

named_theorems cache \<open>operations that leave the cache of mappings alone\<close>

section \<open>Operations that leave the cache alone\<close>

lemma cache_registry [cache]:
  "sv_mmc (fst (reg_register e k i s)) = sv_mmc s" "sv_mmc (reg_reregister e k i s) = sv_mmc s"
  "sv_mmc (reg_deregister e k s) = sv_mmc s" "sv_mmc (drop_stream k s) = sv_mmc s"
  by (simp_all add: reg_register_def reg_reregister_def reg_deregister_def drop_stream_def)

lemma cache_admit [cache]: "sv_mmc (fst (admit_request s p)) = sv_mmc s"
  by (simp add: admit_request_def split: option.splits prod.splits)

lemma cache_transitions [cache]:
  "sv_mmc (transition_to_sending e s k) = sv_mmc s" "sv_mmc (transition_to_lingering e s k) = sv_mmc s"
  "sv_mmc (close_connection e s k) = sv_mmc s"
  by (simp_all add: transition_to_sending_def transition_to_lingering_def close_connection_def mmc_unmap_def Let_def split_beta
      cache split: option.splits)

lemma cache_responses [cache]:
  "sv_mmc (finish_response e k f s) = sv_mmc s" "sv_mmc (bad_request e s k http) = sv_mmc s"
  by (simp_all add: finish_response_def bad_request_def cache)

lemma cache_cgi [cache]:
  "sv_mmc (set_cgis f s) = sv_mmc s" "sv_mmc (cgi_complete b k ts s) = sv_mmc s"
  "sv_mmc (cgi_error e s k http n t fm) = sv_mmc s"
  by (simp_all add: set_cgis_def cgi_complete_def cgi_error_def Let_def cache)

lemma cache_cgi_run [cache]:
  "sv_mmc (cgi_run_phase e s k c sc i ts) = sv_mmc s" "sv_mmc (cgi_throttle_check e s k c sc i) = sv_mmc s"
proof -
  have r: "sv_mmc (cgi_run_phase e s k c sc i ts) = sv_mmc s" for s ts
    by (simp add: cgi_run_phase_def Let_def cache split: option.splits)
  then show "sv_mmc (cgi_run_phase e s k c sc i ts) = sv_mmc s" "sv_mmc (cgi_throttle_check e s k c sc i) = sv_mmc s"
    by (simp_all add: cgi_throttle_check_def split_beta cache split: throttle_decision.split)
qed

lemma dispatch_cgi_cache: "dispatch_cgi e s k = Some s' \<Longrightarrow> sv_mmc s' = sv_mmc s"
  by (auto simp: dispatch_cgi_def Let_def split_beta cache split: option.splits if_splits)

lemma cache_sending [cache]:
  "sv_mmc (pause_sending e s k c) = sv_mmc s" "sv_mmc (account_body e k c n s) = sv_mmc s"
  "sv_mmc (resume_sending e s k c) = sv_mmc s" "sv_mmc (after_write e s k c n) = sv_mmc s"
  by (simp_all add: pause_sending_def account_body_def resume_sending_def after_write_def Let_def cache split: option.splits)

lemma handle_send_cache: "handle_send e s k = Some s' \<Longrightarrow> sv_mmc s' = sv_mmc s"
  by (auto simp: handle_send_def Let_def cache split: option.splits if_splits write_result.splits)

lemma handle_pause_cache: "handle_pause e s k = Some s' \<Longrightarrow> sv_mmc s' = sv_mmc s"
  by (auto simp: handle_pause_def Let_def cache split: option.splits if_splits dest!: handle_send_cache)

lemma resume_keys_cache: "resume_keys envs ks s = Some s' \<Longrightarrow> sv_mmc s' = sv_mmc s"
  by (induction envs ks s rule: resume_keys.induct)
    (auto split: if_splits option.splits dest: handle_pause_cache)

lemma cache_wake [cache]: "sv_mmc (wake_keys e ks s) = sv_mmc s"
  by (induction e ks s rule: wake_keys.induct) (simp_all add: Let_def cache split: option.splits)

lemma cache_throttle_update [cache]: "sv_mmc (fst (throttle_update e (s, l))) = sv_mmc s"
  by (simp add: throttle_update_def cache)

lemma cache_accept [cache]: "sv_mmc (accept_one vacant e p s) = sv_mmc s"
  by (simp add: accept_one_def reg_register_def Let_def cache)

lemma cache_handle_accept [cache]: "sv_mmc (handle_accept vacant peers s) = sv_mmc s"
proof -
  have "sv_mmc (foldl (\<lambda>s (p, e). accept_one vacant e p s) s peers) = sv_mmc s"
    by (induction peers arbitrary: s) (auto simp: cache)
  then show ?thesis by (simp add: handle_accept_def)
qed

lemma cache_accept_phase [cache]: "sv_mmc (accept_phase vacant acc evs s) = sv_mmc s"
  by (induction vacant acc evs s rule: accept_phase.induct) (simp_all add: cache)

section \<open>Operations that keep it faithful\<close>

definition cache_ok :: "(stamp \<Rightarrow> string) \<Rightarrow> server \<Rightarrow> bool" where
  "cache_ok contents s \<longleftrightarrow> mmc_ok contents (sv_mmc s)"

lemma send_file_cache:
  assumes "cache_ok contents s" "key_faithful (ev_open e) contents" "send_file e s k http p st = Some s'"
  shows "cache_ok contents s'"
  using assms mmc_ok_map[OF assms(1)[unfolded cache_ok_def] assms(2), of "ev_now e" p]
  by (auto simp: send_file_def cache_ok_def Let_def cache split: prod.splits sum.splits option.splits)

lemma static_admitted_cache:
  assumes "cache_ok contents s" "key_faithful (ev_open e) contents" "static_admitted e s k http p st = Some s'"
  shows "cache_ok contents s'"
  using assms send_file_cache[OF assms(1,2)] by (auto simp: static_admitted_def cache_ok_def cache split: if_splits)

lemma serve_static_cache:
  assumes "cache_ok contents s" "key_faithful (ev_open e) contents" "serve_static e s k http path = Some s'"
  shows "cache_ok contents s'"
proof (cases "static_decision e (sv_config s) (http\<lparr>h_charset := sc_charset (sv_config s)\<rparr>) path")
  case (Inl r)
  with assms show ?thesis by (auto simp: serve_static_def cache_ok_def cache)
next
  case (Inr q)
  obtain p st where q: "q = (p, st)" by fastforce
  define http1 where "http1 = fill_last_byte (wrap_i64 (int (st_len st))) (http\<lparr>h_charset := sc_charset (sv_config s)\<rparr>)"
  obtain s2 d where a: "admit_request (upd_http k (\<lambda>_. http1) s) (h_orig_filename http1) = (s2, d)" by fastforce
  have ok: "cache_ok contents (upd_throttle k f s2)" for f
    using cache_admit[of "upd_http k (\<lambda>_. http1) s" "h_orig_filename http1"] assms(1) by (simp add: a cache_ok_def)
  from assms(3)[unfolded serve_static_def Let_def Inr sum.case q prod.case, folded http1_def, unfolded a]
  show ?thesis using static_admitted_cache[OF ok assms(2)] ok by (cases d) (auto simp: cache_ok_def cache)
qed

lemma process_request_cache:
  assumes "cache_ok contents s" "key_faithful (ev_open e) contents" "process_request e s k = Some s'"
  shows "cache_ok contents s'"
proof -
  have "cache_ok contents (upd_http k f s)" for f using assms(1) by (simp add: cache_ok_def)
  from serve_static_cache[OF this assms(2)] assms(1,3) show ?thesis
    by (auto simp: process_request_def Let_def cache_ok_def cache split: option.splits outcome.splits dest: dispatch_cgi_cache)
qed

lemma scan_request_cache:
  assumes "cache_ok contents s" "key_faithful (ev_open e) contents" "scan_request e s k http = Some s'"
  shows "cache_ok contents s'"
proof -
  have "cache_ok contents (upd_http k f s)" for f using assms(1) by (simp add: cache_ok_def)
  from process_request_cache[OF this assms(2)] assms(1,3) show ?thesis
    by (auto simp: scan_request_def Let_def cache_ok_def cache split: option.splits got_result.splits)
qed

lemma handle_read_cache:
  assumes "cache_ok contents s" "key_faithful (ev_open e) contents" "handle_read e s k = Some s'"
  shows "cache_ok contents s'"
proof -
  have "cache_ok contents (upd_http k f s)" for f using assms(1) by (simp add: cache_ok_def)
  from scan_request_cache[OF this assms(2)] assms(1,3) show ?thesis
    by (auto simp: handle_read_def handle_data_def Let_def cache_ok_def cache split: option.splits if_splits read_result.splits
        dest!: dispatch_cgi_cache)
qed

lemma handle_connection_event_cache:
  assumes "cache_ok contents s" "key_faithful (ev_open e) contents" "handle_connection_event e s k = Some s'"
  shows "cache_ok contents s'"
  using assms handle_read_cache[OF assms(1,2)]
  by (auto simp: handle_connection_event_def handle_linger_def cache_ok_def cache split: option.splits conn_state.splits
      dest: handle_send_cache handle_pause_cache)

section \<open>The loop\<close>

text \<open>The keys of the files are faithful to their bytes in every event of a tick.\<close>

definition files_faithful :: "(stamp \<Rightarrow> string) \<Rightarrow> tick \<Rightarrow> bool" where
  "files_faithful contents t \<longleftrightarrow> (\<forall>(n, e) \<in> set (tk_events t). key_faithful (ev_open e) contents)"

lemma event_phase_cache:
  assumes "cache_ok contents s" "\<forall>(n, e) \<in> set evs. key_faithful (ev_open e) contents" "event_phase evs s = Some s'"
  shows "cache_ok contents s'"
  using assms
proof (induction evs s rule: event_phase.induct)
  case (2 t e evs s)
  then show ?case using handle_connection_event_cache[OF 2(4), of e] by (auto split: if_splits option.splits)
qed simp

lemma periodic_phase_cache:
  assumes "cache_ok contents s" "periodic_phase t s l = Running s' l'"
  shows "cache_ok contents s'"
proof -
  obtain w fired where w: "wheel_run (ev_now (tk_env t)) (tk_clock t) (sv_timers s) = Some (w, fired)"
    using assms(2) by (auto simp: periodic_phase_def split: option.splits)
  define s2 where "s2 = s\<lparr>sv_timers := w, sv_mmc := mmc_cleanup (ev_now (tk_env t)) (mmap_refs (s\<lparr>sv_timers := w\<rparr>)) (sv_mmc s)\<rparr>"
  obtain s3 l3 where s3: "throttle_update (tk_env t) (s2, l) = (s3, l3)" by fastforce
  have "sv_mmc s' = sv_mmc s3" using assms(2) w s3 by (auto simp: periodic_phase_def Let_def s2_def split: if_splits)
  also have "\<dots> = sv_mmc s2" using cache_throttle_update[of "tk_env t" s2 l] by (simp add: s3)
  finally show ?thesis using mmc_ok_cleanup assms(1) by (simp add: cache_ok_def s2_def)
qed

lemma run_iteration_cache:
  assumes "cache_ok contents s" "files_faithful contents t" "run_iteration vacant t s l = Running s' l'"
  shows "cache_ok contents s'"
proof -
  define s0 where "s0 = (if \<not> sv_draining s \<and> tk_usr1 t then start_drain (tk_env t) s else s)"
  have s0: "sv_mmc s0 = sv_mmc s" by (simp add: s0_def start_drain_def)
  note res = assms(3)[unfolded run_iteration_def Let_def, folded s0_def]
  show ?thesis
  proof (cases "tk_poll t")
    case PollOk
    then obtain s1 s2 where p: "event_phase (tk_events t) (accept_phase vacant (tk_accepted t) (tk_events t) s0) = Some s1"
      "resume_keys (tk_pause_env t) (ready_paused (ev_now (tk_env t)) s1) s1 = Some s2" "periodic_phase t s2 l = Running s' l'"
      using res by (auto split: if_splits option.splits)
    have "cache_ok contents (accept_phase vacant (tk_accepted t) (tk_events t) s0)" using assms(1) s0 by (simp add: cache_ok_def cache)
    from event_phase_cache[OF this _ p(1)] assms(2) have "cache_ok contents s1" by (simp add: files_faithful_def)
    then have "cache_ok contents s2" using resume_keys_cache[OF p(2)] by (simp add: cache_ok_def)
    then show ?thesis by (rule periodic_phase_cache[OF _ p(3)])
  qed (use res s0 assms(1) in \<open>auto simp: cache_ok_def split: if_splits\<close>)
qed

lemma run_ticks_cache:
  "cache_ok contents s \<Longrightarrow> list_all (files_faithful contents) ts \<Longrightarrow> run_ticks vacant ts s l = Running s' l' \<Longrightarrow> cache_ok contents s'"
proof (induction ts arbitrary: s l)
  case (Cons t ts)
  then obtain s1 l1 where s1: "run_iteration vacant t s l = Running s1 l1" "run_ticks vacant ts s1 l1 = Running s' l'"
    by (cases "run_iteration vacant t s l") auto
  then show ?case using Cons run_iteration_cache[OF Cons.prems(1) _ s1(1)] by simp
qed simp

lemma cache_register [cache]: "register_listeners ok is s = Inr s' \<Longrightarrow> sv_mmc s' = sv_mmc s"
  by (induction ok "is" s rule: register_listeners.induct) (auto split: option.splits if_splits)

lemma run_server_cache:
  assumes "list_all (files_faithful contents) ts" "run_server ok vacant now ts (initial_server c n l tf) = Inr (Running s lu)"
  shows "mmc_ok contents (sv_mmc s)"
proof -
  obtain s0 where s0: "register_listeners ok [0..<sv_listeners (initial_server c n l tf)] (initial_server c n l tf) = Inr s0"
    "run_ticks vacant ts s0 now = Running s lu"
    using assms(2) by (auto simp: run_server_def split: sum.splits)
  have "cache_ok contents s0" using cache_register[OF s0(1)] mmc_ok_new(1)
    by (simp add: cache_ok_def initial_server_def server_new_def)
  from run_ticks_cache[OF this assms(1) s0(2)] show ?thesis by (simp add: cache_ok_def)
qed

end
