(* ===== verification/Delivery.thy ===== *)
theory Delivery
  imports Isolation Cache_Invariant Server_Frame
begin

text \<open>
  What the peer of a connection receives while the loop serves all connections: the relation
  \<open>serves\<close> is the loop as one connection sees it, and every iteration is a run of it. The bytes that
  the send handler hands over, call after call, are a prefix of the response, the whole of it once
  the connection lingers, and of a throttled response never more body bytes than its share for the
  time since the start.
\<close>

section \<open>The bytes of one event\<close>

text \<open>The bytes that an event on a connection hands over to the kernel.\<close>

definition event_chunk :: "env \<Rightarrow> server \<Rightarrow> conn_slot \<Rightarrow> string" where
  "event_chunk e s c =
     (case cs_state c of
        Sending \<Rightarrow> sent_chunk e c
      | Pausing \<Rightarrow>
          if (case ct_pause_until (cs_throttle c) of Some d \<Rightarrow> ev_now e < d | None \<Rightarrow> False) then []
          else sent_chunk e (resumed (sv_throttles s) (tnums_of c) c)
      | _ \<Rightarrow> [])"

text \<open>The slot after \<open>n\<close> further bytes: response kept, count advanced, still sending or done.\<close>

definition advanced :: "conn_slot \<Rightarrow> nat \<Rightarrow> conn_slot \<Rightarrow> bool" where
  "advanced c n c' \<longleftrightarrow> h_response (cs_http c') = h_response (cs_http c) \<and>
     h_response_len (cs_http c') = h_response_len (cs_http c) \<and>
     h_bytes_sent (cs_http c') = h_bytes_sent (cs_http c) + int n \<and>
     (cs_state c' = Lingering \<and> int (h_response_len (cs_http c)) \<le> h_bytes_sent (cs_http c') \<or>
      cs_state c' \<in> {Sending, Pausing})"

lemma conn_at_lingering:
  "conn_at s k = Some c \<Longrightarrow> conn_at (transition_to_lingering e s k) k =
     Some (c\<lparr>cs_state := Lingering, cs_http := (cs_http c)\<lparr>h_file_address := None\<rparr>\<rparr>)"
  by (auto simp: transition_to_lingering_def Let_def split: option.splits)

lemma conn_at_close: "conn_at (close_connection e s k) k = None"
  by (auto simp: close_connection_def Let_def conn_at_def delete_conv' split: option.splits)

lemma conn_at_account:
  assumes "conn_at s k = Some c1"
  shows "\<exists>t. conn_at (account_body e k c n s) k = Some (c1\<lparr>cs_throttle := t\<rparr>)"
proof (cases "is_throttled (cs_throttle c) \<and> 0 < body_delta c n")
  case True
  then show ?thesis using assms by (auto simp: account_body_def)
next
  case False
  then have "account_body e k c n s = s" unfolding account_body_def by (rule if_not_P)
  then show ?thesis using assms by (intro exI[of _ "cs_throttle c1"]) simp
qed

lemma after_write_advanced:
  assumes "conn_at s k = Some c" "cs_state c = Sending"
  shows "\<exists>c'. conn_at (after_write e s k c n) k = Some c' \<and> advanced c n c'"
proof -
  let ?h = "(cs_http c)\<lparr>h_bytes_sent := h_bytes_sent (cs_http c) + int n\<rparr>"
  let ?s1 = "upd_http k (\<lambda>h. h\<lparr>h_bytes_sent := h_bytes_sent (cs_http c) + int n\<rparr>) s"
  let ?s2 = "?s1\<lparr>sv_stats := (sv_stats ?s1)\<lparr>ss_bytes_sent := ss_bytes_sent (sv_stats ?s1) + n\<rparr>\<rparr>"
  have "conn_at ?s2 k = Some (c\<lparr>cs_http := ?h\<rparr>)" using assms by simp
  from conn_at_account[OF this] obtain t where
    t: "conn_at (account_body e k c n ?s2) k = Some (c\<lparr>cs_http := ?h, cs_throttle := t\<rparr>)" by blast
  show ?thesis using t conn_at_lingering[OF t] assms by (simp add: after_write_def Let_def advanced_def)
qed

text \<open>A send that writes: the chunk goes out, nothing happens, or the connection is closed.\<close>

lemma write_advanced:
  assumes k: "conn_at s k = Some c" "cs_state c = Sending" "cs_stream c" "response_ok (cs_http c)"
    and res: "handle_send e s k = Some s'" "conn_at s' k = Some c'"
    and going: "\<not> int (h_response_len (cs_http c)) \<le> h_bytes_sent (cs_http c)" "write_limit e c \<noteq> 0"
  shows "advanced c (length (sent_chunk e c)) c'"
proof -
  let ?h = "cs_http c" and ?sent = "h_bytes_sent (cs_http c)"
  have h: "h_response_len ?h = length (h_response ?h)" "0 \<le> ?sent" "?sent \<le> int (length (h_response ?h))"
    using k(4) by (simp_all add: response_ok_def)
  show ?thesis
  proof (cases "ev_write e")
    case (WriteOk n)
    then have "length (sent_chunk e c) = min n (min (write_limit e c) (length (h_response ?h) - nat ?sent))"
      by (simp add: sent_chunk_def Let_def)
    then have "s' = after_write e s k c (length (sent_chunk e c))"
      using WriteOk res k going h by (auto simp: handle_send_def Let_def split: if_splits)
    then show ?thesis using after_write_advanced[OF k(1,2), of e "length (sent_chunk e c)"] res by auto
  next
    case WriteWouldBlock
    then have "s' = s" "sent_chunk e c = []"
      using res k going h by (auto simp: handle_send_def sent_chunk_def Let_def split: if_splits)
    then show ?thesis using res k by (simp add: advanced_def)
  next
    case WriteErr
    then have "s' = close_connection e s k"
      using res k going h by (auto simp: handle_send_def Let_def split: if_splits)
    then show ?thesis using res conn_at_close by auto
  qed
qed

lemma send_advanced:
  assumes k: "conn_at s k = Some c" "cs_state c = Sending" "cs_stream c" "response_ok (cs_http c)"
    and res: "handle_send e s k = Some s'" "conn_at s' k = Some c'"
  shows "advanced c (length (sent_chunk e c)) c'"
proof -
  let ?h = "cs_http c" and ?sent = "h_bytes_sent (cs_http c)"
  have h: "h_response_len ?h = length (h_response ?h)" "0 \<le> ?sent" "?sent \<le> int (length (h_response ?h))"
    using k(4) by (simp_all add: response_ok_def)
  consider (finished) "int (h_response_len ?h) \<le> ?sent" | (halted) "\<not> int (h_response_len ?h) \<le> ?sent" "write_limit e c = 0"
    | (going) "\<not> int (h_response_len ?h) \<le> ?sent" "write_limit e c \<noteq> 0" by blast
  then show ?thesis
  proof cases
    case finished
    then have "s' = transition_to_lingering e s k" using res k by (simp add: handle_send_def Let_def)
    moreover have "sent_chunk e c = []" using finished h by (auto simp: sent_chunk_def Let_def split: write_result.splits)
    ultimately show ?thesis using conn_at_lingering[OF k(1), of e] res finished by (auto simp: advanced_def)
  next
    case halted
    then have "s' = pause_sending e s k c" using res k by (simp add: handle_send_def Let_def)
    moreover have "sent_chunk e c = []" using halted by (simp add: sent_chunk_def split: write_result.splits)
    ultimately show ?thesis using res k by (auto simp: advanced_def pause_sending_def Let_def)
  next
    case going
    show ?thesis by (rule write_advanced[OF k res going])
  qed
qed

lemma event_advanced:
  assumes inv: "server_inv r s" and k: "conn_at s k = Some c" "cs_state c \<in> {Sending, Pausing}"
    and res: "handle_connection_event e s k = Some s'" "conn_at s' k = Some c'"
  shows "advanced c (length (event_chunk e s c)) c'"
proof -
  have ok: "slot_ok c" by (rule flight_start(1)[OF inv k(1)])
  show ?thesis
  proof (cases "cs_state c = Sending")
    case True
    then show ?thesis using send_advanced[OF k(1), of e s' c'] ok res k
      by (simp add: handle_connection_event_def event_chunk_def slot_ok_def)
  next
    case False
    then have st: "cs_state c = Pausing" using k by simp
    let ?c = "resumed (sv_throttles s) (tnums_of c) c"
    let ?s = "fst (reg_register e k Writable (resume_sending e s k c))"
    show ?thesis
    proof (cases "case ct_pause_until (cs_throttle c) of Some d \<Rightarrow> ev_now e < d | None \<Rightarrow> False")
      case True
      then show ?thesis using res k st by (auto simp: handle_connection_event_def handle_pause_def event_chunk_def advanced_def)
    next
      case False
      then have "handle_send e ?s k = Some s'"
        using res k st ok by (simp add: handle_connection_event_def handle_pause_def Let_def slot_ok_def)
      moreover have "conn_at ?s k = Some ?c" using k by (simp add: resume_sending_upd)
      ultimately have "advanced ?c (length (sent_chunk e ?c)) c'"
        using send_advanced[of ?s k ?c e s' c'] ok st res by (simp add: slot_ok_def)
      then show ?thesis using False st by (auto simp: event_chunk_def advanced_def)
    qed
  qed
qed

section \<open>The loop as one connection sees it\<close>

definition chunk :: "env \<Rightarrow> server \<Rightarrow> nat \<Rightarrow> string" where
  "chunk e s k = (case conn_at s k of Some c \<Rightarrow> event_chunk e s c | None \<Rightarrow> [])"

text \<open>
  A piece of a run of the loop, seen from the connection with key k: its own events, with the bytes
  they hand over, and between them the events of other connections, new connections (k is not given
  to another one), the periodic work and the start of a drain. \<open>P\<close> is what is known of the
  environment of the events.
\<close>

inductive serves :: "(nat list \<Rightarrow> nat) \<Rightarrow> (env \<Rightarrow> bool) \<Rightarrow> nat \<Rightarrow> server \<Rightarrow> env list \<Rightarrow> string \<Rightarrow> server \<Rightarrow> bool"
  for vacant :: "nat list \<Rightarrow> nat" and P :: "env \<Rightarrow> bool" and k :: nat where
  rest: "serves vacant P k s [] [] s"
| mine: "P e \<Longrightarrow> handle_connection_event e s k = Some s' \<Longrightarrow> serves vacant P k s' es out t \<Longrightarrow>
    serves vacant P k s (e # es) (chunk e s k @ out) t"
| other: "P e \<Longrightarrow> j \<noteq> k \<Longrightarrow> handle_connection_event e s j = Some s' \<Longrightarrow> serves vacant P k s' es out t \<Longrightarrow>
    serves vacant P k s es out t"
| accepted: "vacant (map fst (sv_conns s)) \<noteq> k \<Longrightarrow> serves vacant P k (accept_one vacant e p s) es out t \<Longrightarrow>
    serves vacant P k s es out t"
| periodic: "periodic_phase tk s l = Running s' l' \<Longrightarrow> serves vacant P k s' es out t \<Longrightarrow> serves vacant P k s es out t"
| drained: "serves vacant P k (start_drain e s) es out t \<Longrightarrow> serves vacant P k s es out t"

lemma serves_append:
  "serves vacant P k s es out t \<Longrightarrow> serves vacant P k t es' out' u \<Longrightarrow> serves vacant P k s (es @ es') (out @ out') u"
  by (induction rule: serves.induct) (auto intro: serves.intros)

text \<open>What the work between the events of a connection does to its slot: at most it ends a pause.\<close>

lemma accept_slot: "vacant (map fst (sv_conns s)) \<noteq> k \<Longrightarrow> conn_at (accept_one vacant e p s) k = conn_at s k"
  by (auto simp: accept_one_def reg_register_def drop_stream_def conn_at_def delete_conv' Let_def split: if_splits)

lemma drain_slot: "conn_at (start_drain e s) k = conn_at s k"
  by (simp add: start_drain_def conn_at_def)

definition woken :: "conn_slot \<Rightarrow> conn_slot \<Rightarrow> bool" where
  "woken c c' \<longleftrightarrow> c' = c \<or> cs_state c = Pausing \<and> (\<exists>now th. c' = wake_slot now th c)"

lemma woken_trans: "woken a b \<Longrightarrow> woken b c \<Longrightarrow> woken a c"
  by (auto simp: woken_def wake_slot_def)

lemma wake_keys_slot: "rel_option woken (conn_at s k) (conn_at (wake_keys e ks s) k)"
proof (induction ks arbitrary: s)
  case Nil
  then show ?case by (cases "conn_at s k") (simp_all add: woken_def)
next
  case (Cons j ks)
  show ?case
  proof (cases "\<exists>c. conn_at s j = Some c \<and> wakes (ev_now e) c")
    case True
    then obtain c where c: "conn_at s j = Some c" "wakes (ev_now e) c" by blast
    define s1 where "s1 = upd_conn j (wake_slot (ev_now e) (sv_throttles s)) s"
    define s2 where "s2 = (if cs_stream c then fst (reg_register e j Writable s1) else s1)"
    have w: "wake_keys e (j # ks) s = wake_keys e ks s2" using c by (simp add: s1_def s2_def)
    have "rel_option woken (conn_at s k) (conn_at s1 k)"
    proof (cases "k = j")
      case True
      then show ?thesis using c by (simp add: s1_def woken_def wakes_def) blast
    next
      case False
      then show ?thesis by (cases "conn_at s k") (simp_all add: s1_def woken_def)
    qed
    moreover have "conn_at s2 k = conn_at s1 k" by (simp add: s2_def)
    ultimately show ?thesis unfolding w using Cons[of s2] by (auto simp: option_rel_Some1 option_rel_Some2 elim!: option.rel_cases intro: woken_trans)
  next
    case False
    then have "wake_keys e (j # ks) s = wake_keys e ks s" by (auto split: option.split)
    then show ?thesis using Cons by simp
  qed
qed

lemma periodic_slot:
  assumes "periodic_phase tk s l = Running s' l'"
  shows "rel_option woken (conn_at s k) (conn_at s' k)"
proof -
  obtain w fired where w: "wheel_run (ev_now (tk_env tk)) (tk_clock tk) (sv_timers s) = Some (w, fired)"
    using assms by (auto simp: periodic_phase_def split: option.splits)
  define s2 where "s2 = s\<lparr>sv_timers := w, sv_mmc := mmc_cleanup (ev_now (tk_env tk)) (mmap_refs (s\<lparr>sv_timers := w\<rparr>)) (sv_mmc s)\<rparr>"
  obtain s3 l3 where s3: "throttle_update (tk_env tk) (s2, l) = (s3, l3)" by fastforce
  have "conn_at s' k = conn_at s3 k" using assms w s3 by (auto simp: periodic_phase_def Let_def s2_def split: if_splits)
  moreover have "conn_at s2 k = conn_at s k" by (simp add: s2_def)
  moreover have "rel_option woken (conn_at s2 k) (conn_at s3 k)"
    using s3 wake_keys_slot[of "s2\<lparr>sv_throttles := map_option update_averages (sv_throttles s2)\<rparr>"]
    by (auto simp: throttle_update_def woken_def option.rel_refl split: if_splits)
  ultimately show ?thesis by simp
qed

section \<open>What a run keeps\<close>

lemma serves_inv:
  assumes "serves vacant P k s es out t" "\<And>ks. vacant ks \<notin> set ks" "server_inv False s"
  shows "server_inv False t"
  using assms(1,3)
proof (induction rule: serves.induct)
  case (accepted s e p es out t)
  then show ?case using accept_one_inv[of False s vacant] assms(2) by blast
next
  case (periodic tk s l s' l' es out t)
  then show ?case using periodic_phase_inv[OF periodic(4) _ periodic(1)] by (simp add: env_ok_def)
qed (auto dest: handle_connection_event_inv[of False] simp: start_drain_inv)

lemma serves_cache:
  assumes "serves vacant P k s es out t" "\<And>e. P e \<Longrightarrow> key_faithful (ev_open e) contents" "cache_ok contents s"
  shows "cache_ok contents t"
  using assms(1,3)
proof (induction rule: serves.induct)
  case (accepted s e p es out t)
  then show ?case by (simp add: cache_ok_def cache)
next
  case (drained e s es out t)
  then show ?case by (simp add: cache_ok_def start_drain_def)
qed (auto dest: handle_connection_event_cache[OF _ assms(2)] periodic_phase_cache)

lemma serves_config: "serves vacant P k s es out t \<Longrightarrow> sv_config t = sv_config s"
proof (induction rule: serves.induct)
  case (accepted s e p es out t)
  then show ?case using accept_one_fixed[of vacant e p s] by (simp add: fixed_part_def)
next
  case (periodic tk s l s' l' es out t)
  then show ?case using periodic_phase_running[OF periodic(1)] by (simp add: fixed_part_def)
qed (auto simp: fixed_part_def stays_def start_drain_def dest!: handle_connection_event_stays)

section \<open>A whole transfer\<close>

text \<open>A connection that lingers or is closed receives nothing more.\<close>

lemma serves_done:
  assumes "serves vacant P k s es out t" "case conn_at s k of Some c \<Rightarrow> cs_state c = Lingering | None \<Rightarrow> True"
  shows "out = [] \<and> (conn_at t k = None \<or> conn_at t k = conn_at s k)"
  using assms
proof (induction rule: serves.induct)
  case (mine e s s' es out t)
  have "chunk e s k = []" using mine.prems by (auto simp: chunk_def event_chunk_def split: option.splits)
  moreover have "conn_at s' k = None"
    using mine(2) mine.prems conn_at_close[of e s k] by (auto simp: handle_connection_event_def handle_linger_def split: option.splits)
  ultimately show ?case using mine.IH by simp
next
  case (other e j s s' es out t)
  have "conn_at s' k = conn_at s k" using event_apart[OF other(3)] other(2) by (simp add: slot_view_def)
  then show ?case using other.IH other.prems by simp
next
  case (accepted s e p es out t)
  then show ?case by (simp add: accept_slot)
next
  case (periodic tk s l s' l' es out t)
  have "conn_at s' k = conn_at s k"
    using periodic_slot[OF periodic(1), of k] periodic.prems by (auto simp: woken_def elim!: option.rel_cases)
  then show ?case using periodic.IH periodic.prems by simp
next
  case (drained e s es out t)
  then show ?case by (simp add: drain_slot)
qed simp

text \<open>An event that closes the connection has handed nothing over.\<close>

lemma send_closed_chunk:
  assumes "conn_at s k = Some c" "cs_state c = Sending" "cs_stream c" "response_ok (cs_http c)"
    "handle_send e s k = Some s'" "conn_at s' k = None"
  shows "sent_chunk e c = []"
proof (rule ccontr)
  let ?h = "cs_http c"
  assume ne: "sent_chunk e c \<noteq> []"
  then obtain n where w: "ev_write e = WriteOk n" "write_limit e c \<noteq> 0" "nat (h_bytes_sent ?h) < length (h_response ?h)"
    by (cases "ev_write e") (auto simp: sent_chunk_def Let_def)
  have "h_response_len ?h = length (h_response ?h)" "0 \<le> h_bytes_sent ?h" using assms(4) by (simp_all add: response_ok_def)
  with w assms(1-3,5) obtain m where "s' = after_write e s k c m" by (auto simp: handle_send_def Let_def split: if_splits)
  then show False using after_write_advanced[OF assms(1,2), of e m] assms(6) by auto
qed

lemma event_closed_chunk:
  assumes inv: "server_inv r s" and k: "conn_at s k = Some c" "cs_state c \<in> {Sending, Pausing}"
    and res: "handle_connection_event e s k = Some s'" "conn_at s' k = None"
  shows "event_chunk e s c = []"
proof (cases "cs_state c = Sending")
  case True
  then show ?thesis using send_closed_chunk[OF k(1), of e s'] flight_start(1)[OF inv k(1)] res k
    by (simp add: handle_connection_event_def event_chunk_def slot_ok_def)
next
  case False
  then have st: "cs_state c = Pausing" using k by simp
  have ok: "slot_ok c" by (rule flight_start(1)[OF inv k(1)])
  let ?c = "resumed (sv_throttles s) (tnums_of c) c"
  let ?s = "fst (reg_register e k Writable (resume_sending e s k c))"
  show ?thesis
  proof (cases "case ct_pause_until (cs_throttle c) of Some d \<Rightarrow> ev_now e < d | None \<Rightarrow> False")
    case False
    have "handle_send e ?s k = Some s'"
      using False res k st ok by (simp add: handle_connection_event_def handle_pause_def Let_def slot_ok_def)
    moreover have "conn_at ?s k = Some ?c" using k by (simp add: resume_sending_upd)
    ultimately show ?thesis using send_closed_chunk[of ?s k ?c e s'] ok st res False by (simp add: slot_ok_def event_chunk_def)
  qed (use st in \<open>simp add: event_chunk_def\<close>)
qed

lemma event_chunk_prefix:
  assumes "response_ok (cs_http c)"
  shows "event_chunk e s c = take (length (event_chunk e s c)) (drop (nat (h_bytes_sent (cs_http c))) (h_response (cs_http c)))"
  by (auto simp: event_chunk_def sent_chunk_def Let_def split: conn_state.splits write_result.splits)

text \<open>What is left to send, and that a run hands over a prefix of it.\<close>

definition unsent :: "conn_slot \<Rightarrow> string" where
  "unsent c = drop (nat (h_bytes_sent (cs_http c))) (h_response (cs_http c))"

definition transferring :: "conn_slot \<Rightarrow> bool" where
  "transferring c \<longleftrightarrow> cs_state c \<in> {Sending, Pausing}"

lemma advanced_unsent:
  assumes "response_ok (cs_http c)" "advanced c n c'" "n \<le> length (unsent c)"
  shows "unsent c' = drop n (unsent c)"
    "cs_state c' = Lingering \<Longrightarrow> n = length (unsent c)"
    "cs_state c' \<noteq> Lingering \<Longrightarrow> transferring c'"
  using assms by (auto simp: advanced_def unsent_def transferring_def response_ok_def nat_add_distrib add.commute)

lemma serves_prefix:
  assumes "serves vacant P k s es out t" "\<And>ks. vacant ks \<notin> set ks" "server_inv False s" "conn_at s k = Some c" "transferring c"
  shows "(\<exists>rest. unsent c = out @ rest \<and> (\<forall>c'. conn_at t k = Some c' \<longrightarrow> 
      cs_state c' = Lingering \<and> rest = [] \<or> transferring c' \<and> unsent c' = rest))"
  using assms(1,3-)
proof (induction arbitrary: c rule: serves.induct)
  case (rest s)
  then show ?case by simp
next
  case (mine e s s' es out t)
  have ok: "response_ok (cs_http c)" using flight_start(1)[OF mine.prems(1,2)] mine.prems(3) by (auto simp: slot_ok_def transferring_def)
  have ch: "chunk e s k = event_chunk e s c" using mine.prems by (simp add: chunk_def)
  have pre: "event_chunk e s c = take (length (event_chunk e s c)) (unsent c)"
    using event_chunk_prefix[OF ok] by (simp add: unsent_def)
  then have len: "length (event_chunk e s c) \<le> length (unsent c)" by (metis length_take min.cobounded1)
  have split: "unsent c = event_chunk e s c @ drop (length (event_chunk e s c)) (unsent c)" by (metis pre append_take_drop_id)
  show ?case
  proof (cases "conn_at s' k")
    case None
    then show ?thesis using serves_done[OF mine(3)] event_closed_chunk[OF mine.prems(1,2) _ mine(2)] mine.prems
      by (simp add: transferring_def ch)
  next
    case (Some c1)
    have inv: "server_inv False s'" using handle_connection_event_inv[OF mine.prems(1) _ mine(2)] by simp
    have adv: "advanced c (length (event_chunk e s c)) c1"
      by (rule event_advanced[OF mine.prems(1,2) _ mine(2) Some]) (use mine.prems in \<open>simp add: transferring_def\<close>)
    note a = advanced_unsent[OF ok adv len]
    show ?thesis
    proof (cases "cs_state c1 = Lingering")
      case True
      then show ?thesis using serves_done[OF mine(3)] Some a(2) split by (auto simp: ch)
    next
      case False
      then show ?thesis using mine.IH[OF inv Some a(3)[OF False]] a(1) split by (auto simp: ch)
    qed
  qed
next
  case (other e j s s' es out t)
  have "conn_at s' k = Some c" using event_apart[OF other(3)] other(2) other.prems(2) by (simp add: slot_view_def)
  with other show ?case using handle_connection_event_inv[OF other.prems(1) _ other(3)] by simp
next
  case (accepted s e p es out t)
  then show ?case using accept_one_inv[of False s vacant e p] assms(2)[of "map fst (sv_conns s)"] by (simp add: accept_slot)
next
  case (periodic tk s l s' l' es out t)
  obtain c1 where c1: "conn_at s' k = Some c1" "woken c c1"
    using periodic_slot[OF periodic(1), of k] periodic.prems(2) by (auto elim: option.rel_cases)
  then have "unsent c1 = unsent c" "transferring c1"
    using periodic.prems(3) by (auto simp: woken_def unsent_def transferring_def wake_slot_def)
  then show ?case using periodic.IH[OF _ c1(1)] periodic_phase_inv[OF periodic.prems(1) _ periodic(1)] by (simp add: env_ok_def)
next
  case (drained e s es out t)
  then show ?case by (simp add: drain_slot start_drain_inv)
qed

section \<open>Runs of the loop are runs of this kind\<close>

definition leads_to :: "(nat list \<Rightarrow> nat) \<Rightarrow> (env \<Rightarrow> bool) \<Rightarrow> nat \<Rightarrow> server \<Rightarrow> server \<Rightarrow> bool" where
  "leads_to vacant P k s t \<longleftrightarrow> (\<exists>es out. serves vacant P k s es out t)"

lemma leads_to_refl: "leads_to vacant P k s s"
  unfolding leads_to_def by (blast intro: serves.rest)

lemma leads_to_trans: "leads_to vacant P k s t \<Longrightarrow> leads_to vacant P k t u \<Longrightarrow> leads_to vacant P k s u"
  unfolding leads_to_def by (blast intro: serves_append)

lemma leads_to_event: "P e \<Longrightarrow> handle_connection_event e s j = Some s' \<Longrightarrow> leads_to vacant P k s s'"
  unfolding leads_to_def by (cases "j = k") (blast intro: serves.rest serves.mine serves.other)+

lemma leads_to_between:
  "vacant (map fst (sv_conns s)) \<noteq> k \<Longrightarrow> leads_to vacant P k s (accept_one vacant e p s)"
  "periodic_phase tk s l = Running s' l' \<Longrightarrow> leads_to vacant P k s s'" "leads_to vacant P k s (start_drain e s)"
  unfolding leads_to_def by (blast intro: serves.rest serves.accepted serves.periodic serves.drained)+

lemma event_phase_serves:
  "event_phase evs s = Some s' \<Longrightarrow> \<forall>(n, e) \<in> set evs. P e \<Longrightarrow> leads_to vacant P k s s'"
proof (induction evs arbitrary: s)
  case (Cons x evs)
  obtain n e where x: "x = (n, e)" by fastforce
  show ?case
  proof (cases "is_listen_token n \<or> slab_key_from_token n = None")
    case True
    then show ?thesis using Cons by (auto simp: x split: if_splits)
  next
    case False
    then obtain j s1 where j: "handle_connection_event e s j = Some s1" "event_phase evs s1 = Some s'"
      using Cons.prems(1) by (auto simp: x split: option.splits)
    moreover have "P e" "\<forall>(n, e) \<in> set evs. P e" using Cons.prems(2) by (auto simp: x)
    ultimately show ?thesis using leads_to_trans[OF leads_to_event Cons.IH] by blast
  qed
qed (simp add: leads_to_refl)

lemma resume_keys_serves: "resume_keys envs ks s = Some s' \<Longrightarrow> \<forall>j. P (envs j) \<Longrightarrow> leads_to vacant P k s s'"
proof (induction ks arbitrary: s)
  case (Cons j ks)
  show ?case
  proof (cases "\<exists>c. conn_at s j = Some c \<and> cs_state c = Pausing")
    case False
    then show ?thesis using Cons by (auto split: option.splits)
  next
    case True
    then obtain s1 where "handle_connection_event (envs j) s j = Some s1" "resume_keys envs ks s1 = Some s'"
      using Cons.prems(1) by (auto simp: handle_connection_event_def split: option.splits)
    then show ?thesis using leads_to_trans[OF leads_to_event Cons.IH] Cons.prems(2) by blast
  qed
qed (simp add: leads_to_refl)

lemma accept_phase_serves:
  assumes v: "\<And>ks. vacant ks \<notin> set ks" and k: "conn_at s k \<noteq> None"
  shows "leads_to vacant P k s (accept_phase vacant acc evs s)"
proof -
  have taken: "vacant (map fst (sv_conns s)) \<noteq> k" if "conn_at s k \<noteq> None" for s
    using that v[of "map fst (sv_conns s)"] by (auto simp: conn_at_def map_of_eq_None_iff)
  have one: "leads_to vacant P k s (accept_one vacant e p s) \<and> conn_at (accept_one vacant e p s) k \<noteq> None"
    if "conn_at s k \<noteq> None" for s e p
    using leads_to_between(1)[of vacant s k P e p, OF taken[OF that]] accept_slot[of vacant s k e p, OF taken[OF that]] that by simp
  have "leads_to vacant P k s (foldl (\<lambda>s (p, e). accept_one vacant e p s) s ps) \<and>
      conn_at (foldl (\<lambda>s (p, e). accept_one vacant e p s) s ps) k \<noteq> None" if "conn_at s k \<noteq> None" for s ps
    using that
  proof (induction ps rule: rev_induct)
    case (snoc x xs)
    then show ?case using one leads_to_trans by (cases x) (simp del: not_None_eq, blast)
  qed (simp add: leads_to_refl)
  then have acc: "leads_to vacant P k s (handle_accept vacant ps s) \<and> conn_at (handle_accept vacant ps s) k \<noteq> None"
    if "conn_at s k \<noteq> None" for s ps using that by (simp add: handle_accept_def leads_to_refl)
  show ?thesis using k
  proof (induction evs arbitrary: s)
    case (Cons x evs)
    obtain n e where x: "x = (n, e)" by fastforce
    show ?case using Cons acc[OF Cons.prems, of "acc n"] by (auto simp: x intro: leads_to_trans)
  qed (simp add: leads_to_refl)
qed

text \<open>
  An iteration of the loop that begins with the connection open is such a run, with the events on
  the connection in their order.
\<close>

lemma iteration_serves:
  assumes "\<And>ks. vacant ks \<notin> set ks" "run_iteration vacant t s l = Running s' l'" "conn_at s k \<noteq> None"
    "\<forall>(n, e) \<in> set (tk_events t). P e" "\<forall>j. P (tk_pause_env t j)"
  shows "leads_to vacant P k s s'"
proof -
  define s0 where "s0 = (if \<not> sv_draining s \<and> tk_usr1 t then start_drain (tk_env t) s else s)"
  note res = assms(2)[unfolded run_iteration_def Let_def, folded s0_def]
  have s0: "leads_to vacant P k s s0" "conn_at s0 k \<noteq> None"
    using assms(3) by (auto simp: s0_def leads_to_refl leads_to_between(3) drain_slot)
  show ?thesis
  proof (cases "tk_poll t")
    case PollOk
    then obtain s1 s2 where p: "event_phase (tk_events t) (accept_phase vacant (tk_accepted t) (tk_events t) s0) = Some s1"
      "resume_keys (tk_pause_env t) (ready_paused (ev_now (tk_env t)) s1) s1 = Some s2" "periodic_phase t s2 l = Running s' l'"
      using res by (auto split: if_splits option.splits)
    note parts = s0(1) accept_phase_serves[OF assms(1) s0(2)] event_phase_serves[OF p(1) assms(4)]
      resume_keys_serves[OF p(2) assms(5)] leads_to_between(2)[OF p(3)]
    show ?thesis
      by (rule leads_to_trans[OF parts(1)], rule leads_to_trans[OF parts(2)], rule leads_to_trans[OF parts(3)],
          rule leads_to_trans[OF parts(4)], rule parts(5))
  qed (use res s0 in \<open>auto split: if_splits\<close>)
qed

section \<open>Properties\<close>

text \<open>
  C7. The peer receives the response and nothing else. From the start of a transfer, whatever the
  sizes of the partial writes, however often the connection is paused and resumed and whatever else
  the loop does meanwhile, the bytes handed over so far are a prefix of the response; while the
  transfer goes on the connection has exactly the rest of the response still to send, and one that
  has gone on to linger has received the whole response.
\<close>
theorem response_delivered_exactly:
  assumes "server_inv False s" "\<And>ks. vacant ks \<notin> set ks" "conn_at s k = Some c" "cs_state c = Sending"
    "h_bytes_sent (cs_http c) = 0" "serves vacant P k s es out t"
  shows "\<exists>rest. h_response (cs_http c) = out @ rest \<and> (\<forall>c'. conn_at t k = Some c' \<longrightarrow>
    cs_state c' = Lingering \<and> rest = [] \<or>
    cs_state c' \<in> {Sending, Pausing} \<and> rest = drop (nat (h_bytes_sent (cs_http c'))) (h_response (cs_http c')))"
proof -
  have "transferring c" "unsent c = h_response (cs_http c)" using assms(4,5) by (simp_all add: transferring_def unsent_def)
  with serves_prefix[OF assms(6,2,1,3)] show ?thesis by (auto simp: unsent_def transferring_def)
qed

definition example_env :: "nat \<Rightarrow> env" where
  "example_env n =
     \<lparr>ev_now = 0, ev_unix = 0, ev_local = undefined, ev_reg_ok = True, ev_read = ReadWouldBlock,
      ev_write = WriteOk n, ev_exists = (\<lambda>_. False), ev_is_dir = (\<lambda>_. False),
      ev_canonicalize = (\<lambda>_. None), ev_metadata = (\<lambda>_. Inl FsNotFound), ev_open = (\<lambda>_. None),
      ev_dir = (\<lambda>_. None), ev_read_file = (\<lambda>_. None), ev_b64 = (\<lambda>_. None), ev_crypt = (\<lambda>_ _. None),
      ev_lower = (\<lambda>x. x), ev_hostname = None, ev_cwd = None, ev_spawn = (\<lambda>_. None)\<rparr>"

definition sending_slot :: conn_slot where
  "sending_slot = (fresh_slot \<lparr>pa_text = ''127.0.0.1:4000'', pa_ip = ''127.0.0.1''\<rparr>)
     \<lparr>cs_state := Sending, cs_http := set_response ''abcdef'' http_conn_new\<rparr>"

definition sending_server :: server where
  "sending_server = (server_new server_config_default 1 LogDisabled)\<lparr>sv_conns := [(0, sending_slot)]\<rparr>"

lemma sending_server_inv: "server_inv False sending_server"
proof -
  have "slot_ok sending_slot"
    using fresh_slot_ok(1) by (simp add: sending_slot_def slot_ok_def)
      (simp add: response_ok_def fresh_slot_def http_conn_new_def set_response_def frame_def frame_ok_def READ_BUF_SIZE_def)
  moreover have "tnums_of sending_slot = []" by (simp add: sending_slot_def fresh_slot_ok)
  ultimately show ?thesis
    by (simp add: server_inv_def sending_server_def server_new_def table_ok_def MAX_CONNECTIONS_def ledger_ok_def
        held_def entry_ok_def conn_at_def)
qed

lemma example_transfer:
  "\<exists>s1 s2 c'. handle_connection_event (example_env 4) sending_server 0 = Some s1 \<and> chunk (example_env 4) sending_server 0 = ''abcd'' \<and>
     handle_connection_event (example_env 9) s1 0 = Some s2 \<and> chunk (example_env 9) s1 0 = ''ef'' \<and>
     conn_at s2 0 = Some c' \<and> cs_state c' = Lingering"
  by (simp add: sending_server_def sending_slot_def server_new_def conn_at_def fresh_slot_def set_response_def
      http_conn_new_def conn_slot_new_def conn_throttle_new_def example_env_def handle_connection_event_def
      handle_send_def write_limit_def is_throttled_def after_write_def account_body_def upd_conn_def
      reg_reregister_def chunk_def event_chunk_def sent_chunk_def transition_to_lingering_def Let_def)

theorem response_delivered_exactly_witness:
  "\<exists>t c'. serves (\<lambda>ks. Suc (sum_list ks)) (\<lambda>_. True) 0 sending_server [example_env 4, example_env 9] ''abcdef'' t \<and>
     conn_at t 0 = Some c' \<and> cs_state c' = Lingering \<and> ''abcdef'' = h_response (cs_http sending_slot)"
proof -
  let ?v = "\<lambda>ks. Suc (sum_list ks)"
  have v: "?v ks \<notin> set ks" for ks using member_le_sum_list[of "?v ks" ks] by auto
  have k: "conn_at sending_server 0 = Some sending_slot" by (simp add: sending_server_def conn_at_def)
  have st: "cs_state sending_slot = Sending" "h_bytes_sent (cs_http sending_slot) = 0"
    by (simp_all add: sending_slot_def set_response_def http_conn_new_def)
  obtain s1 t c' where t: "handle_connection_event (example_env 4) sending_server 0 = Some s1" "chunk (example_env 4) sending_server 0 = ''abcd''"
    "handle_connection_event (example_env 9) s1 0 = Some t" "chunk (example_env 9) s1 0 = ''ef''" "conn_at t 0 = Some c'" "cs_state c' = Lingering"
    using example_transfer by blast
  have "serves ?v (\<lambda>_. True) 0 sending_server [example_env 4, example_env 9] ''abcdef'' t"
    using mine[of "\<lambda>_. True", OF _ t(1) mine[of "\<lambda>_. True", OF _ t(3) rest]] by (simp add: t)
  from response_delivered_exactly[OF sending_server_inv v k st this] this t(5,6) show ?thesis by fastforce
qed

lemma body_after_account:
  assumes "conn_at s k = Some c1" "cs_throttle c1 = cs_throttle c" "is_throttled (cs_throttle c)"
  shows "\<exists>c'. conn_at (account_body e k c n s) k = Some c' \<and>
    ct_body_bytes (cs_throttle c') = ct_body_bytes (cs_throttle c) + max (body_delta c n) 0"
  using assms by (cases "0 < body_delta c n") (auto simp: account_body_def)

lemma body_after_write:
  assumes "conn_at s k = Some c" "is_throttled (cs_throttle c)" "conn_at (after_write e s k c n) k = Some c'"
  shows "ct_body_bytes (cs_throttle c') = ct_body_bytes (cs_throttle c) + max (body_delta c n) 0 \<and>
    h_bytes_sent (cs_http c') = h_bytes_sent (cs_http c) + int n"
proof -
  let ?s1 = "upd_http k (\<lambda>h. h\<lparr>h_bytes_sent := h_bytes_sent (cs_http c) + int n\<rparr>) s"
  let ?s2 = "?s1\<lparr>sv_stats := (sv_stats ?s1)\<lparr>ss_bytes_sent := ss_bytes_sent (sv_stats ?s1) + n\<rparr>\<rparr>"
  obtain c1 where c1: "conn_at ?s2 k = Some c1" "cs_throttle c1 = cs_throttle c" "h_bytes_sent (cs_http c1) = h_bytes_sent (cs_http c) + int n"
    using assms by auto
  from body_after_account[OF c1(1,2) assms(2)] obtain c3 where c3: "conn_at (account_body e k c n ?s2) k = Some c3"
    "ct_body_bytes (cs_throttle c3) = ct_body_bytes (cs_throttle c) + max (body_delta c n) 0" by blast
  have "cs_http c3 = cs_http c1" using conn_at_account[OF c1(1), of e c n] c3(1) by auto
  moreover have "cs_throttle c' = cs_throttle c3 \<and> h_bytes_sent (cs_http c') = h_bytes_sent (cs_http c3)"
    using assms(3) conn_at_lingering[OF c3(1), of e] c3(1) by (auto simp: after_write_def Let_def split: if_splits)
  ultimately show ?thesis using c1 c3 by simp
qed

text \<open>
  C8. Rate limit. A call of the send handler for a throttled connection with a positive share charges
  to it exactly the body bytes among those it hands over (the header is not charged), and never
  takes this count past the share times the whole seconds since the transfer started (one at least),
  if it was below; on the numbers of a transfer that fit in 63 bits. A share of 0, which the rules
  can give, switches the limit off instead.
\<close>
theorem send_within_share:
  assumes c: "conn_at s k = Some c" and res: "handle_send e s k = Some s'" "conn_at s' k = Some c'"
    and thr: "is_throttled (cs_throttle c)" "0 < ct_max_limit (cs_throttle c)"
    "0 \<le> ct_body_bytes (cs_throttle c)" "ct_body_bytes (cs_throttle c) < 2 ^ 63"
    "ct_max_limit (cs_throttle c) * elapsed_secs e (cs_throttle c) < 2 ^ 63"
  shows "ct_body_bytes (cs_throttle c') = ct_body_bytes (cs_throttle c) +
      (max (h_bytes_sent (cs_http c') - int (ct_header_len (cs_throttle c))) 0 - max (h_bytes_sent (cs_http c) - int (ct_header_len (cs_throttle c))) 0) \<and>
    ct_body_bytes (cs_throttle c') \<le>
      max (ct_body_bytes (cs_throttle c)) (ct_max_limit (cs_throttle c) * elapsed_secs e (cs_throttle c))"
proof -
  let ?share = "ct_max_limit (cs_throttle c) * elapsed_secs e (cs_throttle c)"
  let ?body = "ct_body_bytes (cs_throttle c)" and ?hl = "int (ct_header_len (cs_throttle c))"
  let ?ok = "\<lambda>x. ct_body_bytes (cs_throttle x) =
      ?body + (max (h_bytes_sent (cs_http x) - ?hl) 0 - max (h_bytes_sent (cs_http c) - ?hl) 0) \<and> ct_body_bytes (cs_throttle x) \<le> max ?body ?share"
  have "1 \<le> elapsed_secs e (cs_throttle c)" by (auto simp: elapsed_secs_def split: option.splits)
  then have "0 \<le> ?share" using thr by simp
  then have wr: "wrap_i64 (wrap_i64 ?share - ?body) = ?share - ?body" "wrap_i64 ?share = ?share"
    using thr by (simp_all add: wrap_i64_id)
  have lim: "int (write_limit e c) = max (?hl - h_bytes_sent (cs_http c)) 0 + max (?share - ?body) 0"
    using thr wr by (simp add: write_limit_def Let_def)
  have "?body + max (body_delta c n) 0 \<le> max ?body ?share" if "n \<le> write_limit e c" for n
    using that lim by (simp add: body_delta_def Let_def max_def split: if_splits)
  moreover have "0 \<le> body_delta c n" for n by (simp add: body_delta_def Let_def)
  ultimately have aw: "?ok x" if "conn_at (after_write e s k c (min n (min (write_limit e c) m))) k = Some x" for n m x
    using body_after_write[OF c thr(1) that] by (simp add: body_delta_def Let_def)
  have "c' = c \<or> c' = c\<lparr>cs_state := Lingering, cs_http := (cs_http c)\<lparr>h_file_address := None\<rparr>\<rparr> \<or>
      c' = c\<lparr>cs_state := Pausing, cs_throttle := (cs_throttle c)\<lparr>ct_pause_until := Some (ev_now e + SECOND)\<rparr>\<rparr> \<or>
      (\<exists>n m. conn_at (after_write e s k c (min n (min (write_limit e c) m))) k = Some c')"
    using res c conn_at_lingering[OF c, of e] conn_at_close[of e s k]
    by (auto simp: handle_send_def Let_def pause_sending_def split: if_splits write_result.splits)
  then show ?thesis using aw by auto
qed

definition throttled_server :: server where
  "throttled_server = sending_server\<lparr>sv_conns := [(0, sending_slot\<lparr>cs_throttle :=
     (cs_throttle sending_slot)\<lparr>ct_tnums := [0], ct_max_limit := 2, ct_header_len := 1\<rparr>\<rparr>)]\<rparr>"

theorem send_within_share_witness:
  "\<exists>s' c'. handle_send (example_env 9) throttled_server 0 = Some s' \<and> conn_at s' 0 = Some c' \<and>
     ct_body_bytes (cs_throttle c') \<le> 2"
proof -
  let ?c = "sending_slot\<lparr>cs_throttle := (cs_throttle sending_slot)\<lparr>ct_tnums := [0], ct_max_limit := 2, ct_header_len := 1\<rparr>\<rparr>"
  have c: "conn_at throttled_server 0 = Some ?c" by (simp add: throttled_server_def conn_at_def)
  have t: "is_throttled (cs_throttle ?c)" "ct_max_limit (cs_throttle ?c) = 2" "ct_body_bytes (cs_throttle ?c) = 0"
    "elapsed_secs (example_env 9) (cs_throttle ?c) = 1"
    by (simp_all add: sending_slot_def fresh_slot_def conn_slot_new_def conn_throttle_new_def is_throttled_def elapsed_secs_def)
  have "\<exists>s' c'. handle_send (example_env 9) throttled_server 0 = Some s' \<and> conn_at s' 0 = Some c'"
    by (simp add: throttled_server_def sending_server_def sending_slot_def server_new_def conn_at_def fresh_slot_def
        set_response_def http_conn_new_def conn_slot_new_def conn_throttle_new_def example_env_def
        handle_send_def write_limit_def is_throttled_def after_write_def account_body_def upd_conn_def
        reg_reregister_def transition_to_lingering_def elapsed_secs_def body_delta_def wrap_i64_def Let_def)
  then obtain s' c' where s': "handle_send (example_env 9) throttled_server 0 = Some s'" "conn_at s' 0 = Some c'" by blast
  from send_within_share[OF c s' t(1)] t s' show ?thesis by auto
qed

end
