(* ===== verification/Request_Intake.thy ===== *)
theory Request_Intake
  imports Delivery
begin

text \<open>
  The way of a request into the server: the bytes arrive at a fresh connection in pieces of any
  sizes, one read event each, and the request that is analysed is the one that was sent
  (\<open>handle_read\<close>, \<open>process_request\<close> of \<open>crates/thttpd-core/src/eventloop.rs\<close>, the scanner of
  \<open>thttpd-http/src/parse.rs\<close>); what the analysis makes of a request for a plain path.
\<close>

section \<open>Reading in pieces\<close>

text \<open>The data of a read event, and the slot that has read the first n bytes of w.\<close>

definition read_data :: "env \<Rightarrow> string" where
  "read_data e = (case ev_read e of ReadOk d \<Rightarrow> d | _ \<Rightarrow> [])"

definition intake_slot :: "peer \<Rightarrow> string \<Rightarrow> nat \<Rightarrow> parse_state \<Rightarrow> conn_slot" where
  "intake_slot p w n st = (fresh_slot p)\<lparr>cs_http := http_conn_new
     \<lparr>h_read_buf := take n w @ replicate (READ_BUF_SIZE - n) (CHR 0x00), h_read_idx := n, h_checked_idx := n,
      h_parse_state := st\<rparr>\<rparr>"

text \<open>What the other components see of the server, which reading leaves alone.\<close>

definition surroundings :: "server \<Rightarrow> server_config \<times> mmap_cache \<times> throttle_table option" where
  "surroundings s = (sv_config s, sv_mmc s, sv_throttles s)"

lemma surroundings_upd [simp]: "surroundings (upd_conn k f s) = surroundings s"
  by (simp add: surroundings_def upd_conn_def)

lemma receive_intake:
  assumes "n + length d \<le> length w" "length w \<le> READ_BUF_SIZE" "take (length d) (drop n w) = d"
  shows "receive d (cs_http (intake_slot p w n st)) = (cs_http (intake_slot p w (n + length d) st))\<lparr>h_checked_idx := n\<rparr>"
proof -
  have "take n w @ d = take (n + length d) w" using assms(3) by (metis take_add)
  moreover have "drop (n + length d) (take n w @ replicate (READ_BUF_SIZE - n) (CHR 0x00)) = replicate (READ_BUF_SIZE - (n + length d)) (CHR 0x00)"
    using assms(1,2) by simp
  ultimately show ?thesis using assms(1,2) by (simp add: receive_def intake_slot_def)
qed

lemma read_piece:
  assumes "conn_at s k = Some (intake_slot p w n st)" "n + length d \<le> length w" "length w \<le> READ_BUF_SIZE"
    and "take (length d) (drop n w) = d" "d \<noteq> []" "ev_read e = ReadOk d"
  shows "handle_connection_event e s k =
    scan_request e (upd_http k (\<lambda>_. (cs_http (intake_slot p w (n + length d) st))\<lparr>h_checked_idx := n\<rparr>) s) k
      ((cs_http (intake_slot p w (n + length d) st))\<lparr>h_checked_idx := n\<rparr>)"
proof -
  let ?c = "intake_slot p w n st"
  have c: "cs_state ?c = Reading" "cs_stream ?c" "\<not> cs_pending_cgi_body ?c" "h_read_idx (cs_http ?c) = n"
    by (simp_all add: intake_slot_def fresh_slot_def conn_slot_new_def)
  have len: "length (h_read_buf (cs_http ?c)) = READ_BUF_SIZE" using assms(2,3) by (simp add: intake_slot_def)
  have n: "n < READ_BUF_SIZE" "length d \<le> READ_BUF_SIZE - n" using assms(2,3,5) by (cases d; simp)+
  show ?thesis using assms(1,5,6) c n len receive_intake[OF assms(2-4), of p st]
    by (simp add: handle_connection_event_def handle_read_def handle_data_def Let_def)
qed

text \<open>A byte string that the scanner accepts at its last byte and not before.\<close>

definition complete_request :: "string \<Rightarrow> bool" where
  "complete_request w \<longleftrightarrow> w \<noteq> [] \<and>
     (case fsm_run FirstWord (butlast w) of Some q \<Rightarrow> fsm_step q (last w) = FsmAccept | None \<Rightarrow> False)"

lemma request_bytes_complete:
  assumes "is_word meth" "is_word url" "is_word version" "list_all is_header_line hs"
  shows "complete_request (request_bytes meth url version hs)"
  using run_request[OF assms] by (simp add: complete_request_def request_bytes_def crlf_def butlast_append)

definition scan_state :: "string \<Rightarrow> nat \<Rightarrow> parse_state" where
  "scan_state w n = the (fsm_run FirstWord (take n w))"

lemma scan_prefix:
  assumes "complete_request w" "n < length w"
  shows "fsm_run FirstWord (take n w) = Some (scan_state w n)"
proof -
  have "fsm_run FirstWord (take n w @ drop n (butlast w)) \<noteq> None"
    using assms by (auto simp: complete_request_def take_butlast[symmetric] split: option.splits)
  then show ?thesis unfolding fsm_run_append scan_state_def by (auto split: option.splits)
qed

lemma scan_piece:
  assumes "complete_request w" "n \<le> m" "m < length w" "take m buf = take m w"
  shows "got_request buf n m (scan_state w n) = Some (NoRequest, m, scan_state w m)"
proof -
  have m: "take m w = take n w @ take (m - n) (drop n w)" using assms(2) by (metis le_add_diff_inverse take_add)
  have "fsm_run (scan_state w n) (take (m - n) (drop n w)) = Some (scan_state w m)"
    using scan_prefix[OF assms(1), of n] scan_prefix[OF assms(1,3)] assms(2,3) by (simp add: m fsm_run_append)
  moreover have "take (m - n) (drop n buf) = take (m - n) (drop n w)" using assms(4) by (metis drop_take)
  ultimately have "got_request buf n m (scan_state w n) = got_request buf m m (scan_state w m)"
    using got_request_run[of "scan_state w n" "take (m - n) (drop n w)" "scan_state w m" n m buf] assms(2,3) by simp
  then show ?thesis by (simp add: got_request.simps[of buf m m])
qed

lemma scan_last:
  assumes "complete_request w" "n < length w" "take (length w) buf = w"
  shows "got_request buf n (length w) (scan_state w n) = Some (GotRequest, length w, StGotRequest)"
proof -
  let ?m = "length w - 1"
  have "take ?m buf = take ?m w" using assms(3) by (metis diff_le_self min.absorb1 take_take)
  then have p: "got_request buf n ?m (scan_state w n) = Some (NoRequest, ?m, scan_state w ?m)"
    using assms by (intro scan_piece) auto
  have l: "length w \<le> length buf" using arg_cong[OF assms(3), of length] by simp
  have "fsm_step (scan_state w ?m) (last w) = FsmAccept"
    using assms(1) by (auto simp: complete_request_def scan_state_def butlast_conv_take split: option.splits)
  moreover have "buf ! ?m = last w"
    using assms(2) arg_cong[OF assms(3), of "\<lambda>x. x ! ?m"] by (subst last_conv_nth) auto
  ultimately have "got_request buf ?m (length w) (scan_state w ?m) = Some (GotRequest, length w, StGotRequest)"
    using l assms(2) by (subst got_request.simps) (cases w; simp)
  then show ?thesis using got_request_resume[OF _ l p] by simp
qed

text \<open>
  Pieces of a request that do not complete it leave the connection reading; the piece that
  completes it hands the request to \<open>process_request\<close>.
\<close>

lemma intake_step:
  assumes s: "conn_at s k = Some (intake_slot p w n (scan_state w n))" and w: "complete_request w" "length w \<le> READ_BUF_SIZE"
    and d: "take (length d) (drop n w) = d" "d \<noteq> []" "ev_read e = ReadOk d" and m: "n + length d < length w"
  shows "\<exists>s'. handle_connection_event e s k = Some s' \<and> surroundings s' = surroundings s \<and>
    conn_at s' k = Some (intake_slot p w (n + length d) (scan_state w (n + length d)))"
proof -
  let ?m = "n + length d"
  let ?h = "(cs_http (intake_slot p w ?m (scan_state w n)))\<lparr>h_checked_idx := n\<rparr>"
  have "take ?m (h_read_buf ?h) = take ?m w" using m w(2) by (simp add: intake_slot_def)
  then have g: "got_request (h_read_buf ?h) n ?m (scan_state w n) = Some (NoRequest, ?m, scan_state w ?m)"
    by (intro scan_piece[OF w(1)]) (use m in auto)
  have "handle_connection_event e s k = scan_request e (upd_http k (\<lambda>_. ?h) s) k ?h"
    by (rule read_piece[OF s _ w(2) d]) (use m in simp)
  also have "\<dots> = Some (upd_http k (\<lambda>h. h\<lparr>h_checked_idx := ?m, h_parse_state := scan_state w ?m\<rparr>) (upd_http k (\<lambda>_. ?h) s))"
    using g by (simp add: scan_request_def intake_slot_def Let_def)
  finally show ?thesis using s by (simp add: intake_slot_def)
qed

lemma intake_last:
  assumes s: "conn_at s k = Some (intake_slot p w n (scan_state w n))" and w: "complete_request w" "length w \<le> READ_BUF_SIZE"
    and d: "drop n w = d" "n < length w" "ev_read e = ReadOk d"
  shows "\<exists>s1. handle_connection_event e s k = process_request e s1 k \<and> surroundings s1 = surroundings s \<and>
    conn_at s1 k = Some (intake_slot p w (length w) StGotRequest)"
proof -
  let ?h = "(cs_http (intake_slot p w (length w) (scan_state w n)))\<lparr>h_checked_idx := n\<rparr>"
  have len: "n + length d = length w" "d \<noteq> []" using d by auto
  have "got_request (h_read_buf ?h) n (length w) (scan_state w n) = Some (GotRequest, length w, StGotRequest)"
    by (rule scan_last[OF w(1) d(2)]) (simp add: intake_slot_def)
  then have "scan_request e (upd_http k (\<lambda>_. ?h) s) k ?h =
      process_request e (upd_http k (\<lambda>h. h\<lparr>h_checked_idx := length w, h_parse_state := StGotRequest\<rparr>) (upd_http k (\<lambda>_. ?h) s)) k"
    by (simp add: scan_request_def intake_slot_def Let_def)
  moreover have "handle_connection_event e s k = scan_request e (upd_http k (\<lambda>_. ?h) s) k ?h"
    using read_piece[OF s _ w(2) _ len(2) d(3)] len d(1) by simp
  ultimately show ?thesis using s by (intro exI[of _ "upd_http k _ (upd_http k _ s)"]) (auto simp: intake_slot_def)
qed

lemma intake:
  assumes "serves vacant P k s es out s1" "conn_at s k = Some (intake_slot p w n (scan_state w n))"
    and w: "complete_request w" "length w \<le> READ_BUF_SIZE" and d: "d \<noteq> []"
    and "concat (map read_data es) @ d = drop n w" "\<forall>e \<in> set es. read_data e \<noteq> []"
  shows "\<exists>m. conn_at s1 k = Some (intake_slot p w m (scan_state w m)) \<and> drop m w = d"
  using assms(1,2,6,7)
proof (induction arbitrary: n rule: serves.induct)
  case (rest s)
  then show ?case by auto
next
  case (mine e s s' es out t)
  define b where "b = read_data e"
  have b: "ev_read e = ReadOk b" "b \<noteq> []"
    using mine.prems(3) by (auto simp: b_def read_data_def split: read_result.splits)
  have dr: "drop n w = b @ concat (map read_data es) @ d" using mine.prems(2) by (simp add: b_def)
  then have t: "take (length b) (drop n w) = b" "drop (n + length b) w = concat (map read_data es) @ d"
    by (simp, metis append_eq_conv_conj drop_drop add.commute)
  have "n + length b < length w" using dr d by (metis append_is_Nil_conv drop_eq_Nil2 linorder_not_le t(2))
  from intake_step[OF mine.prems(1) w t(1) b(2,1) this] mine(2)
  have "conn_at s' k = Some (intake_slot p w (n + length b) (scan_state w (n + length b)))" by simp
  then show ?case using mine.IH t(2) mine.prems(3) by simp
next
  case (other e j s s' es out t)
  have "conn_at s' k = conn_at s k" using event_apart[OF other(3)] other(2) by (simp add: slot_view_def)
  then show ?case using other.IH other.prems by simp
next
  case (accepted s e p' es out t)
  then show ?case by (simp add: accept_slot)
next
  case (periodic tk s l s' l' es out t)
  have "conn_at s' k = conn_at s k"
    using periodic_slot[OF periodic(1), of k] periodic.prems(1)
    by (auto simp: woken_def intake_slot_def fresh_slot_def elim!: option.rel_cases)
  then show ?case using periodic.IH periodic.prems by simp
next
  case (drained e s es out t)
  then show ?case by (simp add: drain_slot)
qed

lemma fresh_intake: "fresh_slot p = intake_slot p w 0 (scan_state w 0)"
  by (simp add: intake_slot_def scan_state_def fresh_slot_def http_conn_new_def READ_BUF_SIZE_def initial_state_def)

section \<open>The analysis of a request for a path\<close>

text \<open>How a client writes a path into a URL: every byte that is not unreserved is escaped, but for the slash.\<close>

definition encode_path :: "string \<Rightarrow> string" where
  "encode_path p = concat (map (\<lambda>b. if b = CHR ''/'' then [b] else url_encode_byte b) p)"

lemma percent_decode_encode_path: "percent_decode_bytes (encode_path p) = p"
proof (induction p)
  case (Cons b p)
  have "percent_decode_bytes (url_encode_byte b @ encode_path p) = b # p"
  proof -
    have "byte_val b div 16 < 16" "byte_val b div 16 * 16 + byte_val b mod 16 = byte_val b"
      using byte_val_lt[of b] by (simp_all add: div_less_iff_less_mult del: byte_val_lt)
    with Cons unreserved_not_special[of b] show ?thesis by (simp add: url_encode_byte_def percent_decode_plain)
  qed
  with Cons show ?case by (simp add: encode_path_def percent_decode_plain)
qed (simp add: encode_path_def)

lemma hex_digit_graph: "d < 16 \<Longrightarrow> is_graph (hex_digit d)"
  by (auto simp: hex_digit_def is_graph_def)

lemma unreserved_graph: "is_unreserved b \<Longrightarrow> is_graph b"
  by (auto simp: is_unreserved_def is_ascii_alphanumeric_def is_ascii_digit_def is_ascii_uppercase_def is_ascii_lowercase_def
      is_graph_def) (auto simp: byte_val_def)

lemma encode_path_graph: "list_all is_graph (encode_path p)"
proof (induction p)
  case (Cons b p)
  have "byte_val b div 16 < 16" using byte_val_lt[of b] by (simp add: div_less_iff_less_mult del: byte_val_lt)
  moreover have "is_graph (CHR ''/'')" "is_graph (CHR ''%'')" by (simp_all add: is_graph_def byte_val_def)
  ultimately show ?case using Cons unreserved_graph[of b] hex_digit_graph[of "byte_val b mod 16"]
    by (auto simp: encode_path_def url_encode_byte_def hex_digit_graph)
qed (simp add: encode_path_def)

lemma graph_word:
  assumes "list_all is_graph w"
  shows "list_all (\<lambda>c. \<not> is_ws c \<and> \<not> is_eol c) w" "CR \<notin> set w" "LF \<notin> set w" "SP \<notin> set w" "TAB \<notin> set w" "is_ascii w"
  using assms by (auto simp: list_all_iff is_graph_def is_ws_def is_eol_def is_ascii_def byte_val_def)

lemma find_byte_app: "c \<notin> set a \<Longrightarrow> find_byte c (a @ c # b) = Some (length a)"
  by (induction a) auto

lemma find_byte_notin: "c \<notin> set a \<Longrightarrow> find_byte c a = None"
  by (induction a) auto

lemma header_bytes_app: "LF \<notin> set a \<Longrightarrow> header_bytes (a @ LF # b) = b"
  by (simp add: header_bytes_def find_byte_app)

text \<open>The header lines as the analysis gets them.\<close>

definition header_block :: "string list \<Rightarrow> string" where
  "header_block hs = concat (map (\<lambda>h. h @ crlf) hs) @ crlf"

lemma request_bytes_parts:
  assumes "list_all is_graph meth" "list_all is_graph url" "list_all is_graph version" "meth \<noteq> []" "url \<noteq> []" "version \<noteq> []"
  shows "request_words (request_bytes meth url version hs) = [meth, url, version]"
    and "header_bytes (request_bytes meth url version hs) = header_block hs"
    and "parse_method (request_bytes meth url version hs @ pad) (length (request_bytes meth url version hs)) = Some (method_parse meth)"
proof -
  let ?l = "meth @ SP # url @ SP # version"
  have w: "request_bytes meth url version hs = ?l @ CR # LF # header_block hs"
    by (simp add: request_bytes_def header_block_def crlf_def)
  note g = graph_word[OF assms(1)] graph_word[OF assms(2)] graph_word[OF assms(3)]
  have "find_byte CR (?l @ CR # LF # header_block hs) = Some (length ?l)" using g by (intro find_byte_app) auto
  moreover have "is_ascii ?l" using g by (simp add: is_ascii_def byte_val_def)
  moreover have "split_whitespace ?l = [meth, url, version]" using assms by (simp add: split_whitespace_word)
  ultimately show "request_words (request_bytes meth url version hs) = [meth, url, version]"
    unfolding w request_words_def Let_def by simp
  show "header_bytes (request_bytes meth url version hs) = header_block hs"
    using header_bytes_app[of "?l @ [CR]" "header_block hs"] g by (simp add: w)
  have "takeWhile (\<lambda>b. b \<noteq> SP \<and> b \<noteq> TAB) (meth @ SP # x) = meth" for x
    using g by (intro takeWhile_eq_all_conv[THEN iffD2] takeWhile_append2[THEN trans]) auto
  then have "takeWhile (\<lambda>b. b \<noteq> SP \<and> b \<noteq> TAB) (request_bytes meth url version hs) = meth" by (simp add: w)
  then show "parse_method (request_bytes meth url version hs @ pad) (length (request_bytes meth url version hs)) = Some (method_parse meth)"
    using g by (simp add: parse_method_def)
qed

text \<open>What the headers leave of the fields of the request line, and the fields that decide on the answer.\<close>

lemma set_opt_keep: "(\<And>x h. g (f x h) = g h) \<Longrightarrow> g (set_opt v f h) = g h"
  by (simp add: set_opt_def split: option.split)

lemma set_opt_put:
  "h_if_modified_since (set_opt v (\<lambda>v h. h\<lparr>h_if_modified_since := f v\<rparr>) h) = (case v of Some x \<Rightarrow> f x | None \<Rightarrow> h_if_modified_since h)"
  "h_authorization (set_opt v (\<lambda>v h. h\<lparr>h_authorization := v\<rparr>) h) = (case v of Some x \<Rightarrow> x | None \<Rightarrow> h_authorization h)"
  by (simp_all add: set_opt_def split: option.split)

lemmas set_opt_sel = set_opt_put set_opt_keep[where g = h_method] set_opt_keep[where g = h_http_version]
  set_opt_keep[where g = h_encoded_url] set_opt_keep[where g = h_decoded_url] set_opt_keep[where g = h_mime_flag]
  set_opt_keep[where g = h_got_range] set_opt_keep[where g = h_path_info] set_opt_keep[where g = h_if_modified_since]
  set_opt_keep[where g = h_authorization] set_opt_keep[where g = h_vhost_dir]

lemma parse_forwarded_sel:
  "h_method (parse_forwarded v h) = h_method h" "h_http_version (parse_forwarded v h) = h_http_version h"
  "h_encoded_url (parse_forwarded v h) = h_encoded_url h" "h_decoded_url (parse_forwarded v h) = h_decoded_url h"
  "h_mime_flag (parse_forwarded v h) = h_mime_flag h" "h_got_range (parse_forwarded v h) = h_got_range h"
  "h_path_info (parse_forwarded v h) = h_path_info h" "h_if_modified_since (parse_forwarded v h) = h_if_modified_since h"
  "h_authorization (parse_forwarded v h) = h_authorization h" "h_vhost_dir (parse_forwarded v h) = h_vhost_dir h"
  by (simp_all add: parse_forwarded_def Let_def)

lemma request_header_sel:
  assumes "extract_header (header_bytes buf) ''Range'' = None"
  shows "h_method (request_header_fields buf h) = h_method h" "h_http_version (request_header_fields buf h) = h_http_version h"
    "h_encoded_url (request_header_fields buf h) = h_encoded_url h" "h_decoded_url (request_header_fields buf h) = h_decoded_url h"
    "h_mime_flag (request_header_fields buf h) = h_mime_flag h" "h_got_range (request_header_fields buf h) = h_got_range h"
    "h_path_info (request_header_fields buf h) = h_path_info h" "h_vhost_dir (request_header_fields buf h) = h_vhost_dir h"
    "h_if_modified_since (request_header_fields buf h) =
       (case extract_header (header_bytes buf) ''If-Modified-Since'' of Some v \<Rightarrow> parse_http_date v | None \<Rightarrow> h_if_modified_since h)"
    "h_authorization (request_header_fields buf h) =
       (case extract_header (header_bytes buf) ''Authorization'' of Some v \<Rightarrow> v | None \<Rightarrow> h_authorization h)"
  by (simp_all add: request_header_fields_def assms Let_def set_opt_sel parse_forwarded_sel set_opt_def[of None] split: option.split)

text \<open>
  A request that names a file by a path: GET or HEAD, a path that is its own normal form and has
  no question mark (which would begin a query, also escaped), no Range header, and a Host header
  unless the version is 1.0.
\<close>

definition plain_request :: "http_method \<Rightarrow> string \<Rightarrow> string \<Rightarrow> string list \<Rightarrow> bool" where
  "plain_request m path version hs \<longleftrightarrow> m \<in> {Get, Head} \<and>
     valid_utf8 path \<and> normalize_path path = Some path \<and> CHR ''?'' \<notin> set path \<and> length (encode_path path) \<le> MAX_URL_LENGTH \<and>
     version \<noteq> [] \<and> list_all is_graph version \<and> list_all is_header_line hs \<and>
     extract_header (header_block hs) ''Range'' = None \<and>
     (eq_ignore_ascii_case version ''HTTP/1.0'' \<or> extract_header (header_block hs) ''Host'' \<notin> {None, Some []})"

definition path_request :: "http_method \<Rightarrow> string \<Rightarrow> string \<Rightarrow> string list \<Rightarrow> string" where
  "path_request m path version hs = request_bytes (method_str m) (encode_path path) version hs"

lemma method_graph: "list_all is_graph (method_str m)" "method_str m \<noteq> []"
  by (cases m; simp add: is_graph_def byte_val_def)+

lemma encode_path_ne: "encode_path p = [] \<longleftrightarrow> p = []"
  by (cases p) (auto simp: encode_path_def url_encode_byte_def)

lemma normalize_path_ne: "normalize_path p = Some p \<Longrightarrow> p \<noteq> []"
  using normalize_path_safe[of p p] by (auto simp: safe_path_def)

lemma path_request_complete:
  assumes "plain_request m path version hs"
  shows "complete_request (path_request m path version hs)"
proof -
  have "is_word (method_str m)" "is_word (encode_path path)" "is_word version"
    using assms method_graph[of m] encode_path_graph[of path] normalize_path_ne[of path]
    by (auto simp: is_word_def plain_request_def encode_path_ne intro!: graph_word(1))
  then show ?thesis using assms unfolding path_request_def by (intro request_bytes_complete) (auto simp: plain_request_def)
qed

lemmas path_request_parts = request_bytes_parts[OF method_graph(1) encode_path_graph _ method_graph(2), folded path_request_def]

text \<open>The fields of the analysed request that decide on the answer.\<close>

definition asks_for :: "http_method \<Rightarrow> string \<Rightarrow> string \<Rightarrow> string list \<Rightarrow> http_conn \<Rightarrow> bool" where
  "asks_for m path version hs h \<longleftrightarrow> h_method h = m \<and> h_http_version h = version \<and> h_orig_filename h = path \<and> h_mime_flag h \<and>
     \<not> h_got_range h \<and> h_path_info h = [] \<and> h_encoded_url h = encode_path path \<and>
     h_if_modified_since h = Option.bind (extract_header (header_block hs) ''If-Modified-Since'') parse_http_date \<and>
     h_authorization h = (case extract_header (header_block hs) ''Authorization'' of Some v \<Rightarrow> v | None \<Rightarrow> [])"

lemma plain_outcome:
  assumes pl: "plain_request m path version hs" and c: "\<not> sc_vhost c" "ev_exists e (disk_path c path)"
    "\<not> is_cgi_request c (http_conn_new\<lparr>h_orig_filename := path\<rparr>)"
    and h: "h_path_info h = []" "\<not> h_got_range h" "h_if_modified_since h = None" "h_authorization h = []"
  shows "\<exists>h'. request_outcome e c (path_request m path version hs) m h = OutStatic h' (disk_path c path) \<and>
    asks_for m path version hs h'"
proof -
  let ?w = "path_request m path version hs"
  have p: "valid_utf8 path" "normalize_path path = Some path" "CHR ''?'' \<notin> set path" "path \<noteq> []"
    using pl normalize_path_ne by (auto simp: plain_request_def)
  have parts: "request_words ?w = [method_str m, encode_path path, version]" "header_bytes ?w = header_block hs"
    using pl p(4) by (auto simp: plain_request_def encode_path_ne intro!: path_request_parts)
  let ?h1 = "request_line_fields ?w m h"
  have h1: "h_method ?h1 = m" "h_http_version ?h1 = version" "h_encoded_url ?h1 = encode_path path" "h_decoded_url ?h1 = path"
    "h_mime_flag ?h1" "\<not> h_got_range ?h1" "h_path_info ?h1 = []" "h_if_modified_since ?h1 = None" "h_authorization ?h1 = []"
    "h_one_one ?h1 \<longrightarrow> h_host ?h1 \<noteq> []"
    using h p pl
    by (auto simp: request_line_fields_def parts split_query_def percent_decode_def percent_decode_encode_path
        from_utf8_lossy_valid find_byte_notin plain_request_def Let_def)
  have ok: "request_line_error e ?w ?h1 = None" using h1 pl by (auto simp: request_line_error_def plain_request_def)
  let ?h2 = "request_header_fields ?w ?h1"
  have "extract_header (header_bytes ?w) ''Range'' = None" using pl by (simp add: parts plain_request_def)
  note h2 = request_header_sel[OF this, of ?h1]
  let ?h3 = "?h2\<lparr>h_orig_filename := path\<rparr>"
  have x: "extract_path_info e c ?h3 = ?h3"
    using c by (simp add: extract_path_info_def path_info_loop.simps)
  have cgi: "\<not> is_cgi_request c ?h3" using c(3) by (simp add: is_cgi_request_def split: option.splits)
  have "\<not> MAX_URL_LENGTH < length (h_encoded_url ?h2)" using h1(3) h2(3) pl by (simp add: plain_request_def)
  moreover have "resolve_file e c ?h2 = Inr (?h3, disk_path c path)" using h1(4) h2(4) p(2) by (simp add: resolve_file_def)
  moreover have "h_path_info ?h3 = []" using h1(7) h2(7) by simp
  ultimately have "request_outcome e c ?w m h = OutStatic ?h3 (disk_path c path)"
    using ok c(1) x cgi by (simp add: request_outcome_def Let_def apply_vhost_def dispatch_outcome_def)
  moreover have "asks_for m path version hs ?h3" using h1 h2 parts by (auto simp: asks_for_def split: option.split)
  ultimately show ?thesis by blast
qed

end
