(* ===== verification/File_Service.thy ===== *)
theory File_Service
  imports Request_Intake Confinement Server_Properties
begin

text \<open>
  From the bytes of a request to the bytes of the file: the composition of the read handler, the
  scanner, the analysis of the request, the checks on the file, the cache of mappings, the response
  builder and the send handler.
\<close>

section \<open>The answer\<close>

text \<open>
  The header of an answer about a file, line by line, and the answer. The type and the encoding are
  those of the table for the name of the file; a text gets the character set of the configuration,
  or ISO 8859-1; the time of change is the time of the answer for a file without one; the length is
  there unless the answer says that nothing has changed.
\<close>

definition file_header :: "env \<Rightarrow> server_config \<Rightarrow> string \<Rightarrow> string \<Rightarrow> nat option \<Rightarrow> string \<Rightarrow> file_stat \<Rightarrow> string" where
  "file_header e c version status len file st =
     (let mi = figure_mime (from_utf8_lossy file);
          charset = (if sc_charset c = [] then ''iso-8859-1'' else sc_charset c)
      in concat (map (\<lambda>l. l @ [CR, LF])
        ([version @ '' '' @ status,
          ''Server: sthttpd/2.27.0 03oct2014'',
          ''Content-Type: '' @ mi_type mi @
            (if starts_with ''text/'' (mi_type mi) \<and> \<not> contains_str ''charset='' (mi_type mi) then ''; charset='' @ charset else []),
          ''Date: '' @ http_date (ev_unix e),
          ''Last-Modified: '' @ http_date (if stat_mtime st = 0 then ev_unix e else stat_mtime st),
          ''Accept-Ranges: bytes'',
          ''Connection: close''] @
         (case mi_encoding mi of Some enc \<Rightarrow> [''Content-Encoding: '' @ enc] | None \<Rightarrow> []) @
         (case len of Some n \<Rightarrow> [''Content-Length: '' @ dec_nat n] | None \<Rightarrow> []))) @ [CR, LF])"

definition not_modified :: "string list \<Rightarrow> file_stat \<Rightarrow> bool" where
  "not_modified hs st \<longleftrightarrow>
     (case Option.bind (extract_header (header_block hs) ''If-Modified-Since'') parse_http_date of
        Some ims \<Rightarrow> stat_mtime st \<le> ims
      | None \<Rightarrow> False)"

definition file_answer ::
  "env \<Rightarrow> server_config \<Rightarrow> http_method \<Rightarrow> string \<Rightarrow> string list \<Rightarrow> string \<Rightarrow> file_stat \<Rightarrow> string \<Rightarrow> string" where
  "file_answer e c m version hs file st data =
     (if m = Head then file_header e c version ''200 OK'' (Some (length data)) file st
      else if not_modified hs st then file_header e c version ''304 Not Modified'' None file st
      else file_header e c version ''200 OK'' (Some (length data)) file st @ data)"

text \<open>A file that may be served: behind the path, inside the root, with the content \<open>data\<close>.\<close>

definition servable :: "env \<Rightarrow> server_config \<Rightarrow> string \<Rightarrow> string \<Rightarrow> string \<Rightarrow> file_stat \<Rightarrow> string \<Rightarrow> bool" where
  "servable e c authorization path file st data \<longleftrightarrow>
     ev_exists e (disk_path c path) \<and>
     (if sc_no_symlink_check c then file = disk_path c path
      else ev_canonicalize e (disk_path c path) = Some file \<and>
        (\<exists>root. ev_canonicalize e (sc_dir c) = Some root \<and> path_starts_with file root)) \<and>
     ev_metadata e file = Inr st \<and> \<not> st_is_dir st \<and> mode_has (st_mode st) 4 \<and> \<not> mode_has (st_mode st) 1 \<and>
     auth_check2 (ev_exists e) (ev_read_file e) (ev_b64 e) (ev_crypt e) file authorization \<in> {NoAuthFile, AuthOk} \<and>
     st_len st = length data \<and> length data < 2 ^ 63 \<and>
     (\<exists>f md. ev_open e file = Some f \<and> of_metadata f = Some md \<and> of_map f = Some data)"

definition authorization_of :: "string list \<Rightarrow> string" where
  "authorization_of hs = (case extract_header (header_block hs) ''Authorization'' of Some v \<Rightarrow> v | None \<Rightarrow> [])"

section \<open>Serving\<close>

lemma file_header_eq:
  assumes "asks_for m path version hs h" "version \<noteq> []" "h_charset h = sc_charset c" "status div 100 \<in> {2, 3}"
  shows "build_full_response (ev_unix e) h status text (mi_type (figure_mime (from_utf8_lossy file))) len (stat_mtime st)
      (encoding_headers (figure_mime (from_utf8_lossy file))) =
    file_header e c version (dec_nat status @ '' '' @ text) (if 0 \<le> len then Some (nat len) else None) file st"
proof -
  have "h_mime_flag h" "\<not> h_got_range h" "h_http_version h = version" using assms(1) by (simp_all add: asks_for_def)
  then show ?thesis using assms(2-4)
    by (auto simp: build_full_response_def full_response_lines_def is_partial_def fixed_content_type_def file_header_def
        crlf_lines_def crlf_def encoding_headers_def header_line_def SERVER_SOFTWARE_def dec_int_def Let_def
        eq_ignore_ascii_case_def split: option.split)
qed

lemma status_line_texts: "dec_nat 200 @ '' '' @ ''OK'' = ''200 OK''" "dec_nat 304 @ '' '' @ ''Not Modified'' = ''304 Not Modified''"
  by code_simp+

lemma conn_at_sending:
  assumes "conn_at s k = Some c" "ct_checked (cs_throttle c)"
  shows "\<exists>c'. conn_at (transition_to_sending e s k) k = Some c' \<and> cs_state c' = Sending \<and>
    h_response (cs_http c') = h_response (cs_http c) \<and> h_bytes_sent (cs_http c') = 0 \<and>
    is_throttled (cs_throttle c') = is_throttled (cs_throttle c)"
proof -
  have f: "h_response (cs_http (fill_header_len c)) = h_response (cs_http c)" "cs_throttle (fill_header_len c) = cs_throttle c"
    by (simp_all add: fill_header_len_def split: option.split)
  show ?thesis
    using assms by (simp add: transition_to_sending_def Let_def begin_sending_def start_clock_def apply_decision_def f is_throttled_def)
qed

lemma static_decision_servable:
  assumes "servable e c (h_authorization h) path file st data" "h_path_info h = []"
  shows "static_decision e c h (disk_path c path) = Inr (file, st)"
proof -
  have "symlink_check e c h (disk_path c path) = Inr file"
    using assms(1) by (auto simp: servable_def symlink_check_def split: if_splits)
  moreover have "auth_error e h file = None" using assms(1) by (auto simp: servable_def auth_error_def)
  moreover have "mode_error e h st = None" using assms by (simp add: servable_def mode_error_def)
  ultimately show ?thesis using assms(1) by (simp add: static_decision_def servable_def)
qed

lemma mmc_map_servable:
  assumes "servable e c a path file st data" "mmc_ok contents mmc" "key_faithful (ev_open e) contents"
  shows "\<exists>mmc' m. mmc_map (ev_open e) now mmc file = (mmc', Inr m) \<and> mm_data m = data"
proof -
  obtain f md where f: "ev_open e file = Some f" "of_metadata f = Some md" "of_map f = Some data"
    using assms(1) by (auto simp: servable_def)
  have k: "contents (stamp_of md) = data" using assms(3) f by (fastforce simp: key_faithful_def)
  obtain mmc' r where r: "mmc_map (ev_open e) now mmc file = (mmc', r)" by fastforce
  have "\<exists>m. r = Inr m" using r f by (auto simp: mmc_map_def Let_def split: option.splits)
  moreover have "mm_data m = data" if "r = Inr m" for m
    using mmc_ok_map[OF assms(2,3), of now "file"] r f k that by auto
  ultimately show ?thesis using r by blast
qed

text \<open>The three ways an admitted request ends, each with the answer as its response.\<close>

lemma static_admitted_answer:
  assumes h: "asks_for m path version hs h" "m \<in> {Get, Head}" "h_charset h = sc_charset cfg" and v: "version \<noteq> []"
    and f: "servable e cfg a path file st data" and mmc: "mmc_ok contents (sv_mmc s)" "key_faithful (ev_open e) contents"
  shows "\<exists>g mmc'. static_admitted e s k h file st = Some (finish_response e k g (s\<lparr>sv_mmc := mmc'\<rparr>)) \<and>
    (\<forall>h0. h_response (g h0) = file_answer e cfg m version hs file st data)"
proof -
  have len: "wrap_i64 (int (length data)) = int (length data)" using f by (intro wrap_i64_id) (auto simp: servable_def)
  have hf: "h_method h = m" "h_mime_flag h" "\<not> h_got_range h" using h(1) by (simp_all add: asks_for_def)
  have n: "st_len st = length data" using f by (simp add: servable_def)
  have full: "build_full_response (ev_unix e) h 200 ''OK'' (mi_type (figure_mime (from_utf8_lossy file))) (int (length data)) (stat_mtime st)
      (encoding_headers (figure_mime (from_utf8_lossy file))) = file_header e cfg version ''200 OK'' (Some (length data)) file st"
    using file_header_eq[OF h(1) v h(3), of 200] status_line_texts(1) by simp
  have unmod: "build_full_response (ev_unix e) h 304 ''Not Modified'' (mi_type (figure_mime (from_utf8_lossy file))) (-1) (stat_mtime st)
      (encoding_headers (figure_mime (from_utf8_lossy file))) = file_header e cfg version ''304 Not Modified'' None file st"
    using file_header_eq[OF h(1) v h(3), of 304] status_line_texts(2) by simp
  have nm: "(case h_if_modified_since h of Some ims \<Rightarrow> stat_mtime st \<le> ims | None \<Rightarrow> False) = not_modified hs st"
    using h(1) by (simp add: not_modified_def asks_for_def)
  consider (head) "m = Head" | (cond) "m = Get" "not_modified hs st" | (body) "m = Get" "\<not> not_modified hs st" using h(2) by blast
  then show ?thesis
  proof cases
    case head
    let ?g = "\<lambda>h0. (set_response (file_header e cfg version ''200 OK'' (Some (length data)) file st) h0)\<lparr>h_status_code := 200\<rparr>"
    have "static_admitted e s k h file st = Some (finish_response e k ?g (s\<lparr>sv_mmc := sv_mmc s\<rparr>))"
      using head hf by (simp add: static_admitted_def head_response_def full len n Let_def)
    then show ?thesis using head by (intro exI[of _ ?g] exI[of _ "sv_mmc s"]) (simp add: file_answer_def set_response_def)
  next
    case cond
    let ?g = "\<lambda>h0. (set_response (file_header e cfg version ''304 Not Modified'' None file st) h0)\<lparr>h_status_code := 304\<rparr>"
    have "static_admitted e s k h file st = Some (finish_response e k ?g (s\<lparr>sv_mmc := sv_mmc s\<rparr>))"
      using cond hf nm by (simp add: static_admitted_def not_modified_response_def unmod Let_def)
    then show ?thesis using cond by (intro exI[of _ ?g] exI[of _ "sv_mmc s"]) (simp add: file_answer_def set_response_def)
  next
    case body
    obtain mmc' mp where mp: "mmc_map (ev_open e) (ev_now e) (sv_mmc s) file = (mmc', Inr mp)" "mm_data mp = data"
      using mmc_map_servable[OF f mmc] by blast
    let ?r = "file_header e cfg version ''200 OK'' (Some (length data)) file st"
    let ?g = "\<lambda>h0. (set_response (?r @ data) h0)\<lparr>h_file_address := Some mp, h_response_header_len := length ?r,
        h_bytes_sent := 0, h_status_code := 200\<rparr>"
    have "static_admitted e s k h file st = Some (finish_response e k ?g (s\<lparr>sv_mmc := mmc'\<rparr>))"
      using body hf nm mp by (simp add: static_admitted_def send_file_def file_body_def with_body_def full len n Let_def)
    then show ?thesis using body by (intro exI[of _ ?g] exI[of _ mmc']) (simp add: file_answer_def set_response_def)
  qed
qed

lemma finish_response_sends:
  assumes "conn_at s k = Some c" "ct_checked (cs_throttle c)"
  shows "\<exists>c'. conn_at (finish_response e k g s) k = Some c' \<and> cs_state c' = Sending \<and>
    h_response (cs_http c') = h_response (g (cs_http c)) \<and> h_bytes_sent (cs_http c') = 0 \<and>
    is_throttled (cs_throttle c') = is_throttled (cs_throttle c)"
  unfolding finish_response_def using conn_at_sending[of "upd_http k g s" k "c\<lparr>cs_http := g (cs_http c)\<rparr>" e] assms by simp

lemma serve_static_answer:
  assumes s: "conn_at s k = Some c" and h: "asks_for m path version hs h" "m \<in> {Get, Head}" and v: "version \<noteq> []"
    and f: "servable e (sv_config s) (h_authorization h) path file st data"
    and mmc: "mmc_ok contents (sv_mmc s)" "key_faithful (ev_open e) contents" and adm: "snd (admit_request s path) \<noteq> Reject"
  shows "\<exists>s' c'. serve_static e s k h (disk_path (sv_config s) path) = Some s' \<and> conn_at s' k = Some c' \<and> cs_state c' = Sending \<and>
    h_response (cs_http c') = file_answer e (sv_config s) m version hs file st data \<and> h_bytes_sent (cs_http c') = 0 \<and>
    (snd (admit_request s path) = Unlimited \<longrightarrow> is_throttled (cs_throttle c') = is_throttled (cs_throttle c))"
proof -
  define h1 where "h1 = h\<lparr>h_charset := sc_charset (sv_config s)\<rparr>"
  have h1: "asks_for m path version hs h1" "h_charset h1 = sc_charset (sv_config s)" "h_orig_filename h1 = path"
    "h_authorization h1 = h_authorization h" "h_path_info h1 = []"
    using h(1) by (simp_all add: asks_for_def h1_def)
  have dec: "static_decision e (sv_config s) h1 (disk_path (sv_config s) path) = Inr (file, st)"
    by (rule static_decision_servable) (use f h1 in simp_all)
  have fb: "fill_last_byte x h1 = h1" for x using h1(1) by (simp add: fill_last_byte_def asks_for_def)
  define s1 where "s1 = upd_http k (\<lambda>_. h1) s"
  obtain s2 d where a: "admit_request s1 path = (s2, d)" by fastforce
  have "snd (admit_request s1 path) = snd (admit_request s path)"
    by (auto simp: admit_request_def s1_def upd_conn_def split: option.splits prod.splits)
  then have d: "d \<noteq> Reject" "snd (admit_request s path) = d" using adm a by simp_all
  have c2: "conn_at s2 k = Some (c\<lparr>cs_http := h1\<rparr>)" "sv_mmc s2 = sv_mmc s"
    using a s by (auto simp: admit_request_def s1_def upd_conn_def conn_at_def map_of_entry split: option.splits prod.splits)
  obtain t where t: "serve_static e s k h (disk_path (sv_config s) path) = static_admitted e (upd_throttle k t s2) k h1 file st"
    "ct_checked (t (cs_throttle c))" "d = Unlimited \<longrightarrow> is_throttled (t (cs_throttle c)) = is_throttled (cs_throttle c)"
    using d a dec by (cases d) (auto simp: serve_static_def Let_def h1_def[symmetric] fb h1(3) s1_def[symmetric] is_throttled_def)
  have "mmc_ok contents (sv_mmc (upd_throttle k t s2))" using mmc(1) c2(2) by (simp add: upd_conn_def)
  from static_admitted_answer[OF h1(1) h(2) h1(2) v _ this mmc(2)] f obtain g mmc' where
    g: "static_admitted e (upd_throttle k t s2) k h1 file st = Some (finish_response e k g ((upd_throttle k t s2)\<lparr>sv_mmc := mmc'\<rparr>))"
      "\<And>h0. h_response (g h0) = file_answer e (sv_config s) m version hs file st data" by blast
  have "conn_at ((upd_throttle k t s2)\<lparr>sv_mmc := mmc'\<rparr>) k = Some (c\<lparr>cs_http := h1, cs_throttle := t (cs_throttle c)\<rparr>)"
    using c2(1) by (simp add: conn_at_def upd_conn_def map_of_entry)
  from finish_response_sends[OF this, of e g] t g d(2) show ?thesis by auto
qed

section \<open>Sending to the end\<close>

text \<open>An unthrottled connection whose every write takes at least a byte goes on to linger.\<close>

lemma unthrottled_write:
  assumes "conn_at s k = Some c" "cs_state c = Sending" "cs_stream c" "response_ok (cs_http c)" "\<not> is_throttled (cs_throttle c)"
    and "ev_write e = WriteOk n" "0 < n"
  shows "\<exists>s' c'. handle_connection_event e s k = Some s' \<and> conn_at s' k = Some c' \<and>
    (cs_state c' = Lingering \<or>
     cs_state c' = Sending \<and> \<not> is_throttled (cs_throttle c') \<and> length (unsent c') < length (unsent c))"
proof -
  let ?h = "cs_http c" and ?sent = "h_bytes_sent (cs_http c)"
  have r: "h_response_len ?h = length (h_response ?h)" "0 \<le> ?sent" "?sent \<le> int (length (h_response ?h))"
    using assms(4) by (simp_all add: response_ok_def)
  show ?thesis
  proof (cases "int (h_response_len ?h) \<le> ?sent")
    case True
    then show ?thesis using assms(1,2) conn_at_lingering[OF assms(1), of e]
      by (simp add: handle_connection_event_def handle_send_def Let_def)
  next
    case False
    define j where "j = min n (length (h_response ?h) - nat ?sent)"
    have lim: "write_limit e c = length (h_response ?h) - nat ?sent" using assms(5) r by (simp add: write_limit_def Let_def)
    have j: "0 < j" "?sent + int j \<le> int (length (h_response ?h))" using False r assms(7) by (auto simp: j_def)
    have ev: "handle_connection_event e s k = Some (after_write e s k c j)"
      using assms False r by (simp add: handle_connection_event_def handle_send_def Let_def lim j_def)
    have acc: "account_body e k c j x = x" for x using assms(5) by (simp add: account_body_def)
    let ?s1 = "upd_http k (\<lambda>h. h\<lparr>h_bytes_sent := ?sent + int j\<rparr>) s"
    have c1: "conn_at (?s1\<lparr>sv_stats := x\<rparr>) k = Some (c\<lparr>cs_http := ?h\<lparr>h_bytes_sent := ?sent + int j\<rparr>\<rparr>)" for x
      using assms(1) by simp
    show ?thesis using assms(1-5) j r conn_at_lingering[OF c1, of e]
      by (auto simp: ev after_write_def acc Let_def unsent_def nat_add_distrib)
  qed
qed

lemma serves_finishes:
  assumes "serves vacant P k s es out t" "\<And>ks. vacant ks \<notin> set ks" "server_inv False s" "conn_at s k = Some c"
    and "cs_state c = Sending" "\<not> is_throttled (cs_throttle c)"
    and "\<forall>e \<in> set es. \<exists>n > 0. ev_write e = WriteOk n" "length (unsent c) < length es"
  shows "out = unsent c"
  using assms(1,3-)
proof (induction arbitrary: c rule: serves.induct)
  case (mine e s s' es out t)
  have ok: "response_ok (cs_http c)" "cs_stream c" using flight_start(1)[OF mine.prems(1,2)] mine.prems(3) by (auto simp: slot_ok_def)
  obtain n where n: "ev_write e = WriteOk n" "0 < n" using mine.prems(5) by auto
  obtain c1 where c1: "conn_at s' k = Some c1" "cs_state c1 = Lingering \<or> cs_state c1 = Sending \<and> \<not> is_throttled (cs_throttle c1) \<and>
      length (unsent c1) < length (unsent c)"
    using unthrottled_write[OF mine.prems(2,3) ok(2,1) mine.prems(4) n] mine(2) by auto
  have ch: "chunk e s k = event_chunk e s c" using mine.prems by (simp add: chunk_def)
  have one: "serves vacant P k s [e] (chunk e s k) s'" using serves.mine[of P e s k s', OF mine(1,2) serves.rest] by simp
  from serves_prefix[OF one assms(2) mine.prems(1,2)] mine.prems(3) c1(1)
  have pre: "cs_state c1 = Lingering \<and> unsent c = chunk e s k \<or> transferring c1 \<and> unsent c = chunk e s k @ unsent c1"
    by (auto simp: transferring_def)
  show ?case
  proof (cases "cs_state c1 = Lingering")
    case True
    then show ?thesis using serves_done[OF mine(3)] c1(1) pre by (auto simp: transferring_def)
  next
    case False
    have inv: "server_inv False s'" using handle_connection_event_inv[OF mine.prems(1) _ mine(2)] by simp
    have "length (unsent c1) < length es" using c1(2) False mine.prems(6) by simp
    then show ?thesis using mine.IH[OF inv c1(1)] c1(2) False pre mine.prems(5) by auto
  qed
next
  case (other e j s s' es out t)
  have "conn_at s' k = Some c" using event_apart[OF other(3)] other(2) other.prems(2) by (simp add: slot_view_def)
  with other show ?case using handle_connection_event_inv[OF other.prems(1) _ other(3)] by simp
next
  case (accepted s e p es out t)
  then show ?case using accept_one_inv[of False s vacant e p] assms(2)[of "map fst (sv_conns s)"] by (simp add: accept_slot)
next
  case (periodic tk s l s' l' es out t)
  have "conn_at s' k = Some c"
    using periodic_slot[OF periodic(1), of k] periodic.prems(2,3) by (auto simp: woken_def elim: option.rel_cases)
  then show ?case using periodic.IH periodic.prems periodic_phase_inv[OF periodic.prems(1) _ periodic(1)] by (simp add: env_ok_def)
next
  case (drained e s es out t)
  then show ?case by (simp add: drain_slot start_drain_inv)
qed simp

section \<open>From request to file\<close>

lemma process_plain:
  assumes s: "conn_at s k = Some (intake_slot p w (length w) StGotRequest)" and w: "w = path_request m path version hs"
    and rq: "plain_request m path version hs" and ex: "ev_exists e (disk_path (sv_config s) path)"
    and cfg: "\<not> sc_vhost (sv_config s)" "\<not> is_cgi_request (sv_config s) (http_conn_new\<lparr>h_orig_filename := path\<rparr>)"
  shows "\<exists>h. process_request e s k = serve_static e (upd_http k (\<lambda>_. h) s) k h (disk_path (sv_config s) path) \<and> asks_for m path version hs h"
proof -
  let ?c = "intake_slot p w (length w) StGotRequest"
  let ?pad = "replicate (READ_BUF_SIZE - length w) (CHR 0x00)"
  have buf: "h_read_buf (cs_http ?c) = w @ ?pad" "h_checked_idx (cs_http ?c) = length w" by (simp_all add: intake_slot_def)
  have pm: "parse_method (w @ ?pad) (length w) = Some m"
    using path_request_parts(3)[of version path m hs ?pad] rq normalize_path_ne[of path] w
    by (cases m) (auto simp: plain_request_def encode_path_ne method_parse_def)
  have "\<exists>h. request_outcome e (sv_config s) w m (cs_http ?c) = OutStatic h (disk_path (sv_config s) path) \<and> asks_for m path version hs h"
    unfolding w by (rule plain_outcome[OF rq cfg(1) ex cfg(2)]) (simp_all add: intake_slot_def http_conn_new_def)
  then show ?thesis using s pm by (auto simp: process_request_def buf Let_def)
qed

text \<open>The piece that completes the request starts the transfer of the answer.\<close>

lemma request_served:
  assumes s: "conn_at s k = Some (intake_slot p w n (scan_state w n))" and w: "w = path_request m path version hs"
    and d: "drop n w = read_data e" "read_data e \<noteq> []" "length w \<le> READ_BUF_SIZE" and rq: "plain_request m path version hs"
    and cfg: "\<not> sc_vhost (sv_config s)" "\<not> is_cgi_request (sv_config s) (http_conn_new\<lparr>h_orig_filename := path\<rparr>)"
    and f: "servable e (sv_config s) (authorization_of hs) path file st data"
    and mmc: "mmc_ok contents (sv_mmc s)" "key_faithful (ev_open e) contents" and adm: "snd (admit_request s path) \<noteq> Reject"
  shows "\<exists>s1 c. handle_connection_event e s k = Some s1 \<and> conn_at s1 k = Some c \<and> cs_state c = Sending \<and>
    h_response (cs_http c) = file_answer e (sv_config s) m version hs file st data \<and> h_bytes_sent (cs_http c) = 0 \<and>
    (snd (admit_request s path) = Unlimited \<longrightarrow> \<not> is_throttled (cs_throttle c))"
proof -
  have r: "ev_read e = ReadOk (read_data e)" "n < length w"
    using d(1,2) by (auto simp: read_data_def split: read_result.splits)
  obtain s1 where s1: "handle_connection_event e s k = process_request e s1 k" "surroundings s1 = surroundings s"
    "conn_at s1 k = Some (intake_slot p w (length w) StGotRequest)"
    using intake_last[OF s _ d(3,1) r(2,1)] path_request_complete[OF rq] w by blast
  have sur: "sv_config s1 = sv_config s" "sv_mmc s1 = sv_mmc s" "sv_throttles s1 = sv_throttles s"
    using s1(2) by (simp_all add: surroundings_def)
  have "ev_exists e (disk_path (sv_config s1) path)" using f sur by (simp add: servable_def)
  from process_plain[OF s1(3) w rq this] cfg obtain h where
    h: "process_request e s1 k = serve_static e (upd_http k (\<lambda>_. h) s1) k h (disk_path (sv_config s) path)" "asks_for m path version hs h"
    by (auto simp: sur)
  let ?s2 = "upd_http k (\<lambda>_. h) s1" and ?c = "intake_slot p w (length w) StGotRequest"
  have s2: "snd (admit_request ?s2 path) = snd (admit_request s path)"
    using sur by (auto simp: upd_conn_def admit_request_def split: option.splits prod.splits)
  have c2: "conn_at ?s2 k = Some (?c\<lparr>cs_http := h\<rparr>)" using s1(3) by simp
  have "h_authorization h = authorization_of hs" using h(2) by (simp add: asks_for_def authorization_of_def)
  moreover have "m \<in> {Get, Head}" "version \<noteq> []" using rq by (simp_all add: plain_request_def)
  moreover have "\<not> is_throttled (cs_throttle ?c)"
    by (simp add: intake_slot_def fresh_slot_def conn_slot_new_def conn_throttle_new_def is_throttled_def)
  ultimately show ?thesis
    using serve_static_answer[OF c2 h(2), of e "file" st data contents] f mmc adm by (simp add: s1(1) s2 sur h(1))
qed

section \<open>Properties\<close>

text \<open>
  C1. The whole way of a request for a file. In any state the loop reaches there may be a fresh
  connection whose client sends a GET or HEAD request for a path, in pieces of any sizes, while the
  loop serves other connections in between. The request has no Range header, there are no virtual
  hosts, the path is not that of a script; the file behind it may be served (it exists inside the
  root, is readable and not executable, is not guarded or the password is right, and can be mapped),
  and when the last piece arrives the throttle table does not refuse it. Then that piece starts a
  transfer, and over any sequence of partial writes and pauses, again with anything else in between,
  the client receives a prefix of the answer: the header, written out line by line in
  file_header, with the length of the file, and for GET the bytes that the file has now, or the
  header with 304 alone if the file is not modified since the date of the request; the whole answer
  by the time the connection lingers. If no rule applies to the path, as many writes of at least a
  byte as the answer has bytes, and one more, are enough. Assumed of the file system is what the
  cache of mappings relies on, that the device, inode, length and time of change of a file determine
  its bytes. The two dates are those of the formatter, whose day of the week is wrong.
\<close>
theorem file_delivered:
  assumes run: "\<And>ks. vacant ks \<notin> set ks" "run_server ok vacant now ts (initial_server cfg nl log tf) = Inr (Running s lu)"
    and files: "list_all (files_faithful contents) ts" "key_faithful (ev_open e) contents"
    and rq: "conn_at s k = Some (fresh_slot p)" "plain_request m path version hs"
      "length (path_request m path version hs) \<le> READ_BUF_SIZE"
    and sent: "serves vacant (\<lambda>e. key_faithful (ev_open e) contents) k s es out0 s1"
      "concat (map read_data (es @ [e])) = path_request m path version hs" "\<forall>e \<in> set (es @ [e]). read_data e \<noteq> []"
    and plain: "\<not> sc_vhost (sv_config s)" "\<not> is_cgi_request (sv_config s) (http_conn_new\<lparr>h_orig_filename := path\<rparr>)"
    and f: "servable e (sv_config s) (authorization_of hs) path file st data" and adm: "snd (admit_request s1 path) \<noteq> Reject"
    and answer: "answer = file_answer e (sv_config s) m version hs file st data"
  shows "\<exists>s2. handle_connection_event e s1 k = Some s2 \<and>
    (\<forall>us out t. serves vacant P k s2 us out t \<longrightarrow>
       out = take (length out) answer \<and>
       (\<forall>c. conn_at t k = Some c \<and> cs_state c = Lingering \<longrightarrow> out = answer) \<and>
       (snd (admit_request s1 path) = Unlimited \<and> (\<forall>u \<in> set us. \<exists>n > 0. ev_write u = WriteOk n) \<and> length answer < length us \<longrightarrow>
          out = answer))"
proof -
  have inv: "server_inv False s" by (rule run_server_inv[OF run(1) _ run(2)]) (simp add: list_all_iff)
  have inv1: "server_inv False s1" by (rule serves_inv[OF sent(1) run(1) inv])
  have mmc: "mmc_ok contents (sv_mmc s1)"
    using serves_cache[OF sent(1)] run_server_cache[OF files(1) run(2)] by (simp add: cache_ok_def)
  have cfg1: "sv_config s1 = sv_config s" by (rule serves_config[OF sent(1)])
  let ?w = "path_request m path version hs"
  have fresh: "conn_at s k = Some (intake_slot p ?w 0 (scan_state ?w 0))" using rq(1) fresh_intake[of p ?w] by simp
  obtain n where n: "conn_at s1 k = Some (intake_slot p ?w n (scan_state ?w n))" "drop n ?w = read_data e"
    using intake[OF sent(1) fresh path_request_complete[OF rq(2)] rq(3), of "read_data e"] sent(2,3) by auto
  obtain s2 c where s2: "handle_connection_event e s1 k = Some s2" and c: "conn_at s2 k = Some c" "cs_state c = Sending"
      "h_response (cs_http c) = answer" "h_bytes_sent (cs_http c) = 0" "snd (admit_request s1 path) = Unlimited \<longrightarrow> \<not> is_throttled (cs_throttle c)"
    using request_served[OF n(1) refl n(2) _ rq(3,2), of "file" st data contents] sent(3) plain f mmc files(2) adm answer
    by (auto simp: cfg1)
  have inv2: "server_inv False s2" using handle_connection_event_inv[OF inv1 _ s2] by simp
  have c': "transferring c" "unsent c = answer" using c by (simp_all add: transferring_def unsent_def)
  have "out = take (length out) answer \<and> (\<forall>c. conn_at t k = Some c \<and> cs_state c = Lingering \<longrightarrow> out = answer) \<and>
      (snd (admit_request s1 path) = Unlimited \<and> (\<forall>u \<in> set us. \<exists>n > 0. ev_write u = WriteOk n) \<and> length answer < length us \<longrightarrow> out = answer)"
    if r: "serves vacant P k s2 us out t" for us out t
    using serves_prefix[OF r run(1) inv2 c(1) c'(1)] serves_finishes[OF r run(1) inv2 c(1,2)] c(5) c'(2)
    by (fastforce simp: transferring_def)
  then show ?thesis using s2 by blast
qed

definition example_site :: "string \<Rightarrow> env" where
  "example_site d = example_files
     \<lparr>ev_read := ReadOk d, ev_exists := (\<lambda>f. f = ''./a.html''),
      ev_open := (\<lambda>f. if f = ''/srv/www/a.html'' then Some \<lparr>of_metadata = Some
        \<lparr>md_dev = 1, md_ino = 7, md_len = 3, md_ctime = 0, md_ctime_nsec = 0\<rparr>, of_map = Some ''abc''\<rparr> else None)\<rparr>"

definition site_run :: "listener_error + loop_result" where
  "site_run = run_server (\<lambda>_. True) next_key 0 [accept_tick] (initial_server server_config_default 1 LogDisabled None)"

abbreviation example_peer :: peer where
  "example_peer \<equiv> \<lparr>pa_text = ''127.0.0.1:4000'', pa_ip = ''127.0.0.1''\<rparr>"

lemma site_run_result:
  "\<exists>s. site_run = Inr (Running s 0) \<and> conn_at s 1 = Some (fresh_slot example_peer) \<and> sv_throttles s = None \<and> sv_config s = server_config_default"
  by (simp add: site_run_def initial_server_def run_server_def server_new_def listen_token_def MAX_LISTENERS_def run_iteration_def
      accept_tick_def is_listen_token_def handle_accept_def accept_one_def MAX_CONNECTIONS_def next_key_def
      reg_register_def conn_token_def CONN_BASE_def quiet_env_def ready_paused_def pause_expired_def fresh_slot_def
      periodic_phase_def wheel_run_def wheel_new_def run_loop.simps clean_top.simps throttle_update_def
      THROTTLE_TIME_def SECOND_def conn_at_def Let_def)

abbreviation example_request :: "string list" where
  "example_request \<equiv> [''GET /a.ht'', ''ml HTTP/1.0'' @ crlf @ crlf]"

abbreviation example_stat :: file_stat where
  "example_stat \<equiv> \<lparr>st_is_dir = False, st_is_symlink = False, st_mode = 420, st_nlink = 1, st_len = 3, st_mtime = 0\<rparr>"

lemma example_request_bytes: "path_request Get ''/a.html'' ''HTTP/1.0'' [] = concat example_request"
  by code_simp

lemma example_plain: "plain_request Get ''/a.html'' ''HTTP/1.0'' []"
proof -
  have "encode_path ''/a.html'' = ''/a.html''" "valid_utf8 ''/a.html''" "normalize_path ''/a.html'' = Some ''/a.html''"
    "list_all is_graph ''HTTP/1.0''" "extract_header (header_block []) ''Range'' = None"
    "eq_ignore_ascii_case ''HTTP/1.0'' ''HTTP/1.0''" by code_simp+
  then show ?thesis by (simp add: plain_request_def MAX_URL_LENGTH_def)
qed

lemma example_site_config:
  "\<not> is_cgi_request server_config_default h" "\<not> sc_vhost server_config_default"
  "disk_path server_config_default ''/a.html'' = ''./a.html''" "sc_dir server_config_default = ''.''"
  "\<not> sc_no_symlink_check server_config_default"
  by (simp add: is_cgi_request_def server_config_default_def) code_simp+

lemma example_servable:
  "servable (example_site d) server_config_default (authorization_of []) ''/a.html'' ''/srv/www/a.html'' example_stat ''abc''"
proof -
  have "path_starts_with ''/srv/www/a.html'' ''/srv/www''" "authorization_of [] = []" "mode_has 420 4" "\<not> mode_has 420 1"
    "auth_check2 (\<lambda>f. f = ''./a.html'') (\<lambda>_. None) (\<lambda>_. None) (\<lambda>_ _. None) ''/srv/www/a.html'' [] = NoAuthFile" by code_simp+
  then show ?thesis
    by (simp add: servable_def example_site_def example_files_def example_site_config)
qed


abbreviation example_answer :: string where
  "example_answer \<equiv> file_answer (example_site (last example_request)) server_config_default Get ''HTTP/1.0'' []
     ''/srv/www/a.html'' example_stat ''abc''"

lemma example_first_piece:
  assumes "conn_at s 1 = Some (fresh_slot example_peer)"
  shows "\<exists>s1. handle_connection_event (example_site ''GET /a.ht'') s 1 = Some s1 \<and> surroundings s1 = surroundings s"
proof -
  let ?w = "path_request Get ''/a.html'' ''HTTP/1.0'' []" and ?d = "''GET /a.ht''"
  have c: "conn_at s 1 = Some (intake_slot example_peer ?w 0 (scan_state ?w 0))" using assms fresh_intake[of example_peer ?w] by simp
  have w: "length ?w \<le> READ_BUF_SIZE" "take (length ?d) (drop 0 ?w) = ?d" "0 + length ?d < length ?w"
    by (simp_all add: example_request_bytes READ_BUF_SIZE_def crlf_def)
  have e: "?d \<noteq> []" "ev_read (example_site ?d) = ReadOk ?d" by (simp_all add: example_site_def)
  from intake_step[OF c path_request_complete[OF example_plain] w(1,2) e w(3)] show ?thesis by blast
qed

theorem file_delivered_witness:
  "\<exists>s s1 s2. site_run = Inr (Running s 0) \<and> handle_connection_event (example_site ''GET /a.ht'') s 1 = Some s1 \<and>
     handle_connection_event (example_site (last example_request)) s1 1 = Some s2 \<and>
     (\<forall>us out t. serves next_key (\<lambda>_. True) 1 s2 us out t \<and> (\<forall>u \<in> set us. ev_write u = WriteOk 1) \<and> length us = Suc (length example_answer) \<longrightarrow>
        out = example_answer)"
proof -
  let ?e = "example_site (last example_request)" and ?P = "\<lambda>e. key_faithful (ev_open e) (\<lambda>_. ''abc'')"
  obtain s where s: "site_run = Inr (Running s 0)" "conn_at s 1 = Some (fresh_slot example_peer)" "sv_throttles s = None"
    "sv_config s = server_config_default" using site_run_result by blast
  obtain s1 where s1: "handle_connection_event (example_site ''GET /a.ht'') s 1 = Some s1" "surroundings s1 = surroundings s"
    using example_first_piece[OF s(2)] by blast
  have kf: "?P (example_site d)" for d by (auto simp: key_faithful_def example_site_def split: if_splits)
  have one: "serves next_key ?P 1 s [example_site ''GET /a.ht''] (chunk (example_site ''GET /a.ht'') s 1) s1"
    using serves.mine[of ?P "example_site ''GET /a.ht''" s 1 s1, OF kf s1(1) serves.rest] by simp
  have rd: "read_data (example_site d) = d" for d by (simp add: read_data_def example_site_def example_files_def)
  have len: "length (path_request Get ''/a.html'' ''HTTP/1.0'' []) \<le> READ_BUF_SIZE"
    by (simp add: example_request_bytes READ_BUF_SIZE_def crlf_def)
  have tick: "list_all (files_faithful (\<lambda>_. ''abc'')) [accept_tick]"
    by (simp add: files_faithful_def accept_tick_def key_faithful_def quiet_env_def)
  have adm: "snd (admit_request s1 ''/a.html'') = Unlimited" using s(3) s1(2) by (simp add: admit_request_def surroundings_def)
  have pieces: "concat (map read_data ([example_site ''GET /a.ht''] @ [?e])) = path_request Get ''/a.html'' ''HTTP/1.0'' []"
    "\<forall>e \<in> set ([example_site ''GET /a.ht''] @ [?e]). read_data e \<noteq> []" by (simp_all add: rd example_request_bytes)
  have cfg: "\<not> sc_vhost (sv_config s)" "\<not> is_cgi_request (sv_config s) (http_conn_new\<lparr>h_orig_filename := ''/a.html''\<rparr>)"
    "servable ?e (sv_config s) (authorization_of []) ''/a.html'' ''/srv/www/a.html'' example_stat ''abc''"
    unfolding s(4) by (rule example_site_config example_servable)+
  have adm': "snd (admit_request s1 ''/a.html'') \<noteq> Reject" by (simp add: adm)
  have ans: "example_answer = file_answer ?e (sv_config s) Get ''HTTP/1.0'' [] ''/srv/www/a.html'' example_stat ''abc''" by (simp only: s(4))
  obtain s2 where s2: "handle_connection_event ?e s1 1 = Some s2"
    "\<And>us out t. serves next_key (\<lambda>_. True) 1 s2 us out t \<Longrightarrow> \<forall>u \<in> set us. \<exists>n > 0. ev_write u = WriteOk n \<Longrightarrow>
      length example_answer < length us \<Longrightarrow> out = example_answer"
    using file_delivered[OF next_key_fresh s(1)[unfolded site_run_def] tick kf s(2) example_plain len one pieces cfg adm' ans, of "\<lambda>_. True"] adm
    by blast
  have "out = example_answer" if "serves next_key (\<lambda>_. True) 1 s2 us out t" "\<forall>u \<in> set us. ev_write u = WriteOk 1"
    "length us = Suc (length example_answer)" for us out t
    by (rule s2(2)[OF that(1)]) (use that(2,3) in auto)
  then show ?thesis using s(1) s1(1) s2(1) by blast
qed

end
