(* ===== verification/Circuit_Breaker.thy ===== *)
theory Circuit_Breaker
  imports Rust_Prelude
begin

text \<open>
  The circuit breaker of \<open>crates/thttpd-migrate/src/circuit.rs\<close>. Instants are integers in
  nanoseconds. The comparison of the error rate with the threshold, in floating point, is the
  function \<open>cc_exceeds\<close> of the configuration: errors and total to the value of
  \<open>errors as f64 / total as f64 > error_rate_threshold\<close>.

  The operations are first modelled as they run without interference, then, for the operations
  that race, as the atomic steps they consist of.
\<close>

section \<open>State\<close>

datatype breaker_state = BrClosed | BrOpen | BrHalfOpen

definition breaker_state_from_u8 :: "nat \<Rightarrow> breaker_state" where
  "breaker_state_from_u8 v = (if v = 0 then BrClosed else if v = 1 then BrOpen else BrHalfOpen)"

definition COOL_OFF :: int where
  "COOL_OFF = 5 * SECOND"

record circuit_config =
  cc_exceeds :: "nat \<Rightarrow> nat \<Rightarrow> bool"
  cc_window_secs :: nat
  cc_min_requests :: nat

record window =
  wi_errors :: nat
  wi_total :: nat
  wi_started :: int

record breaker =
  br_state :: breaker_state
  br_opened_at :: "int option"
  br_probe_in_flight :: bool
  br_window :: window
  br_cfg :: circuit_config

definition window_new :: "int \<Rightarrow> window" where
  "window_new now = \<lparr>wi_errors = 0, wi_total = 0, wi_started = now\<rparr>"

definition breaker_new :: "int \<Rightarrow> circuit_config \<Rightarrow> breaker" where
  "breaker_new now cfg =
     \<lparr>br_state = BrClosed, br_opened_at = None, br_probe_in_flight = False, br_window = window_new now,
      br_cfg = cfg\<rparr>"

section \<open>Operations\<close>

definition breaker_trip :: "int \<Rightarrow> breaker \<Rightarrow> breaker" where
  "breaker_trip now b = b\<lparr>br_state := BrOpen, br_opened_at := Some now, br_window := window_new now\<rparr>"

definition breaker_close :: "int \<Rightarrow> breaker \<Rightarrow> breaker" where
  "breaker_close now b = b\<lparr>br_state := BrClosed, br_opened_at := None, br_window := window_new now\<rparr>"

definition release_probe :: "int \<Rightarrow> breaker \<Rightarrow> breaker" where
  "release_probe now b =
     (if br_state b = BrHalfOpen then breaker_trip now (b\<lparr>br_probe_in_flight := False\<rparr>) else b)"

definition count_outcome :: "bool \<Rightarrow> int \<Rightarrow> nat \<Rightarrow> window \<Rightarrow> window" where
  "count_outcome success now window_secs w =
     (let w1 = (if int window_secs * SECOND < max (now - wi_started w) 0 then window_new now else w)
      in w1\<lparr>wi_total := (wi_total w1 + 1) mod 2 ^ 32,
            wi_errors := (if success then wi_errors w1 else (wi_errors w1 + 1) mod 2 ^ 32)\<rparr>)"

definition breaker_record :: "bool \<Rightarrow> int \<Rightarrow> breaker \<Rightarrow> breaker" where
  "breaker_record success now b =
     (if br_state b = BrHalfOpen then
        (let b1 = b\<lparr>br_probe_in_flight := False\<rparr>
         in if success then breaker_close now b1 else breaker_trip now b1)
      else
        (let w = count_outcome success now (cc_window_secs (br_cfg b)) (br_window b);
             b1 = b\<lparr>br_window := w\<rparr>
         in if cc_min_requests (br_cfg b) \<le> wi_total w \<and> cc_exceeds (br_cfg b) (wi_errors w) (wi_total w)
            then breaker_trip now b1 else b1))"

definition cooled :: "int \<Rightarrow> breaker \<Rightarrow> bool" where
  "cooled now b = (case br_opened_at b of Some t \<Rightarrow> COOL_OFF \<le> max (now - t) 0 | None \<Rightarrow> False)"

definition can_route :: "int \<Rightarrow> breaker \<Rightarrow> bool" where
  "can_route now b =
     (case br_state b of
        BrClosed \<Rightarrow> True
      | BrOpen \<Rightarrow> cooled now b \<and> \<not> br_probe_in_flight b
      | BrHalfOpen \<Rightarrow> False)"

definition try_admit :: "int \<Rightarrow> breaker \<Rightarrow> breaker \<times> bool" where
  "try_admit now b =
     (case br_state b of
        BrClosed \<Rightarrow> (b, True)
      | BrOpen \<Rightarrow>
          if cooled now b then
            (if \<not> br_probe_in_flight b
             then (b\<lparr>br_probe_in_flight := True, br_state := BrHalfOpen\<rparr>, True) else (b, False))
          else (b, False)
      | BrHalfOpen \<Rightarrow> (b, False))"

definition breaker_allows :: "int \<Rightarrow> breaker \<Rightarrow> breaker \<times> bool" where
  "breaker_allows now b = try_admit now b"

section \<open>The registry\<close>

type_synonym breakers = "string \<rightharpoonup> breaker"

definition breakers_from_config :: "int \<Rightarrow> string list \<Rightarrow> circuit_config \<Rightarrow> breakers" where
  "breakers_from_config now names cfg = (\<lambda>n. if n \<in> set names then Some (breaker_new now cfg) else None)"

section \<open>A gate with a single probe\<close>

text \<open>
  What the proxy relies on. A gate admits requests freely while it is closed. While it is not, an
  admission is a probe: it is granted only when none is outstanding, and then one is, until an
  outcome is recorded or the probe is given back.
\<close>

datatype gate_op = GAdmit int | GRecord bool int | GRelease int

locale probe_gate =
  fixes admit :: "int \<Rightarrow> 's \<Rightarrow> 's \<times> bool"
    and settle :: "bool \<Rightarrow> int \<Rightarrow> 's \<Rightarrow> 's"
    and give_back :: "int \<Rightarrow> 's \<Rightarrow> 's"
    and shut :: "'s \<Rightarrow> bool"
    and probing :: "'s \<Rightarrow> bool"
    and ok :: "'s \<Rightarrow> bool"
  assumes probing_shut: "ok s \<Longrightarrow> probing s \<Longrightarrow> shut s"
    and admit_shut: "ok s \<Longrightarrow> shut s \<Longrightarrow> admit t s = (s', g) \<Longrightarrow>
      ok s' \<and> shut s' \<and> (if g then \<not> probing s \<and> probing s' else s' = s)"
    and admit_free: "ok s \<Longrightarrow> \<not> shut s \<Longrightarrow> admit t s = (s, True)"
    and settle_ends: "ok s \<Longrightarrow> ok (settle b t s) \<and> \<not> probing (settle b t s)"
    and give_back_ends: "ok s \<Longrightarrow> ok (give_back t s) \<and> \<not> probing (give_back t s)"
begin

text \<open>Probes granted and not yet resolved, counted along a history.\<close>

fun gate_run :: "gate_op list \<Rightarrow> 's \<times> nat \<Rightarrow> 's \<times> nat" where
  "gate_run [] c = c"
| "gate_run (GAdmit t # ops) (s, n) =
     (case admit t s of (s', g) \<Rightarrow> gate_run ops (s', if g \<and> shut s then n + 1 else n))"
| "gate_run (GRecord b t # ops) (s, n) = gate_run ops (settle b t s, if probing s then n - 1 else n)"
| "gate_run (GRelease t # ops) (s, n) = gate_run ops (give_back t s, if probing s then n - 1 else n)"

lemma outstanding:
  "ok s \<Longrightarrow> n = (if probing s then 1 else 0) \<Longrightarrow> gate_run ops (s, n) = (s', m) \<Longrightarrow>
     ok s' \<and> m = (if probing s' then 1 else 0)"
proof (induction ops arbitrary: s n)
  case (Cons op ops)
  show ?case
  proof (cases op)
    case (GAdmit t)
    obtain s1 g where a: "admit t s = (s1, g)" by (cases "admit t s")
    let ?n = "if g \<and> shut s then n + 1 else n"
    have run: "gate_run ops (s1, ?n) = (s', m)" using Cons.prems(3) GAdmit a by simp
    show ?thesis
    proof (cases "shut s")
      case True
      then show ?thesis using Cons.IH[OF _ _ run] admit_shut[OF Cons.prems(1) True a] Cons.prems(2)
        by (auto split: if_splits)
    next
      case False
      then have "s1 = s" "?n = n" using admit_free[OF Cons.prems(1) False, of t] a by simp_all
      then show ?thesis using Cons.IH[OF _ _ run] Cons.prems by simp
    qed
  next
    case (GRecord b t)
    have run: "gate_run ops (settle b t s, if probing s then n - 1 else n) = (s', m)"
      using Cons.prems(3) GRecord by simp
    show ?thesis by (rule Cons.IH[OF _ _ run]) (use settle_ends[OF Cons.prems(1), of b t] Cons.prems(2) in auto)
  next
    case (GRelease t)
    have run: "gate_run ops (give_back t s, if probing s then n - 1 else n) = (s', m)"
      using Cons.prems(3) GRelease by simp
    show ?thesis by (rule Cons.IH[OF _ _ run]) (use give_back_ends[OF Cons.prems(1), of t] Cons.prems(2) in auto)
  qed
qed simp

end

definition breaker_ok :: "breaker \<Rightarrow> bool" where
  "breaker_ok b \<longleftrightarrow> br_probe_in_flight b = (br_state b = BrHalfOpen) \<and> (br_state b = BrOpen \<longrightarrow> br_opened_at b \<noteq> None)"

lemmas breaker_defs = breaker_ok_def try_admit_def breaker_record_def release_probe_def breaker_trip_def
  breaker_close_def Let_def

interpretation breaker_gate: probe_gate try_admit breaker_record release_probe
  "\<lambda>b. br_state b \<noteq> BrClosed" "\<lambda>b. br_state b = BrHalfOpen" breaker_ok
  by unfold_locales (auto simp: breaker_defs split: breaker_state.splits if_splits)

lemma breaker_new_ok: "breaker_ok (breaker_new now cfg)"
  by (simp add: breaker_ok_def breaker_new_def)

text \<open>
  One probe at a time. After any history of admissions, outcomes and returned probes, the number
  of probes granted while the breaker was not closed and not yet resolved is one if the breaker is
  half open and none otherwise; the claim flag says the same.
\<close>
theorem breaker_one_probe:
  assumes "breaker_gate.gate_run ops (breaker_new now cfg, 0) = (b, outstanding)"
  shows "outstanding = (if br_state b = BrHalfOpen then 1 else 0) \<and>
    br_probe_in_flight b = (br_state b = BrHalfOpen)"
proof -
  have "breaker_ok b \<and> outstanding = (if br_state b = BrHalfOpen then 1 else 0)"
    by (rule breaker_gate.outstanding[OF breaker_new_ok _ assms]) (simp add: breaker_new_def)
  then show ?thesis by (simp add: breaker_ok_def)
qed

definition majority_cfg :: circuit_config where
  "majority_cfg = \<lparr>cc_exceeds = (\<lambda>e t. t < 2 * e), cc_window_secs = 30, cc_min_requests = 1\<rparr>"

theorem breaker_one_probe_witness:
  "\<exists>b. breaker_gate.gate_run [GRecord False 0, GAdmit (6 * SECOND), GAdmit (6 * SECOND)] (breaker_new 0 majority_cfg, 0) = (b, 1) \<and>
     br_probe_in_flight b"
proof -
  obtain b where b: "breaker_gate.gate_run [GRecord False 0, GAdmit (6 * SECOND), GAdmit (6 * SECOND)]
      (breaker_new 0 majority_cfg, 0) = (b, 1)"
    by (simp add: breaker_new_def majority_cfg_def breaker_record_def count_outcome_def window_new_def SECOND_def
        breaker_trip_def try_admit_def cooled_def COOL_OFF_def Let_def)
  from b breaker_one_probe[OF b] show ?thesis by auto
qed

section \<open>The cool-off\<close>

fun op_time :: "gate_op \<Rightarrow> int" where
  "op_time (GAdmit t) = t"
| "op_time (GRecord b t) = t"
| "op_time (GRelease t) = t"

text \<open>The answers to the admissions of a history.\<close>

fun answers :: "gate_op list \<Rightarrow> breaker \<Rightarrow> bool list" where
  "answers [] b = []"
| "answers (GAdmit t # ops) b = snd (try_admit t b) # answers ops (fst (try_admit t b))"
| "answers (GRecord s t # ops) b = answers ops (breaker_record s t b)"
| "answers (GRelease t # ops) b = answers ops (release_probe t b)"

text \<open>
  Cool-off. Once the breaker has opened at a time t, no admission before t + 5 s is granted,
  whatever outcomes of earlier requests still come in and whatever probes are given back.
\<close>
theorem breaker_cool_off:
  assumes "br_state b = BrOpen" "br_opened_at b = Some t" "t0 \<le> t"
    "list_all (\<lambda>op. t0 \<le> op_time op \<and> op_time op < t0 + COOL_OFF) ops"
  shows "list_all (\<lambda>g. \<not> g) (answers ops b)"
  using assms
proof (induction ops arbitrary: b t)
  case (Cons op ops)
  show ?case
  proof (cases op)
    case (GAdmit x)
    then have "\<not> cooled x b" using Cons.prems by (auto simp: cooled_def COOL_OFF_def SECOND_def max_def)
    then have "try_admit x b = (b, False)" using Cons.prems by (simp add: try_admit_def)
    then show ?thesis using Cons GAdmit by simp
  next
    case (GRecord s x)
    have "\<exists>t'. br_state (breaker_record s x b) = BrOpen \<and> br_opened_at (breaker_record s x b) = Some t' \<and> t0 \<le> t'"
      using Cons.prems GRecord by (auto simp: breaker_record_def breaker_trip_def Let_def)
    then obtain t' where "br_state (breaker_record s x b) = BrOpen" "br_opened_at (breaker_record s x b) = Some t'" "t0 \<le> t'"
      by blast
    from Cons.IH[OF this] show ?thesis using Cons.prems GRecord by simp
  next
    case (GRelease x)
    then have "release_probe x b = b" using Cons.prems by (simp add: release_probe_def)
    then show ?thesis using Cons GRelease by simp
  qed
qed simp

theorem breaker_cool_off_witness:
  "answers [GAdmit SECOND, GRecord True (2 * SECOND), GAdmit (4 * SECOND)] (breaker_record False 0 (breaker_new 0 majority_cfg)) =
     [False, False]"
proof -
  have b: "br_state (breaker_record False 0 (breaker_new 0 majority_cfg)) = BrOpen"
    "br_opened_at (breaker_record False 0 (breaker_new 0 majority_cfg)) = Some 0"
    by (simp_all add: breaker_new_def majority_cfg_def breaker_record_def count_outcome_def window_new_def SECOND_def
        breaker_trip_def Let_def)
  have "list_all (\<lambda>g. \<not> g) (answers [GAdmit SECOND, GRecord True (2 * SECOND), GAdmit (4 * SECOND)]
      (breaker_record False 0 (breaker_new 0 majority_cfg)))"
    by (rule breaker_cool_off[OF b order_refl]) (simp add: COOL_OFF_def SECOND_def)
  then show ?thesis by simp
qed

section \<open>Atomic steps\<close>

text \<open>
  \<open>record\<close> and \<open>try_admit\<close> run on different threads. Each load, store, compare-and-exchange and
  each critical section of a mutex is one step; the program counter says which comes next. The flag
  of a counter is whether the breaker is being tripped or closed.
\<close>

datatype record_pc = RLoad | RProbe | RCount | RState bool | RTime bool | RWindow | RDone

fun record_step :: "bool \<Rightarrow> int \<Rightarrow> breaker \<times> record_pc \<Rightarrow> breaker \<times> record_pc" where
  "record_step success now (b, RLoad) = (b, if br_state b = BrHalfOpen then RProbe else RCount)"
| "record_step success now (b, RProbe) = (b\<lparr>br_probe_in_flight := False\<rparr>, RState (\<not> success))"
| "record_step success now (b, RCount) =
     (let w = count_outcome success now (cc_window_secs (br_cfg b)) (br_window b)
      in (b\<lparr>br_window := w\<rparr>,
          if cc_min_requests (br_cfg b) \<le> wi_total w \<and> cc_exceeds (br_cfg b) (wi_errors w) (wi_total w)
          then RState True else RDone))"
| "record_step success now (b, RState trip) =
     (b\<lparr>br_state := (if trip then BrOpen else BrClosed)\<rparr>, RTime trip)"
| "record_step success now (b, RTime trip) =
     (b\<lparr>br_opened_at := (if trip then Some now else None)\<rparr>, RWindow)"
| "record_step success now (b, RWindow) = (b\<lparr>br_window := window_new now\<rparr>, RDone)"
| "record_step success now (b, RDone) = (b, RDone)"

datatype admit_pc = ALoad | ATime | ACas | APromote | ADone bool

fun admit_step :: "int \<Rightarrow> breaker \<times> admit_pc \<Rightarrow> breaker \<times> admit_pc" where
  "admit_step now (b, ALoad) =
     (b, case br_state b of BrClosed \<Rightarrow> ADone True | BrOpen \<Rightarrow> ATime | BrHalfOpen \<Rightarrow> ADone False)"
| "admit_step now (b, ATime) = (b, if cooled now b then ACas else ADone False)"
| "admit_step now (b, ACas) =
     (if br_probe_in_flight b then (b, ADone False) else (b\<lparr>br_probe_in_flight := True\<rparr>, APromote))"
| "admit_step now (b, APromote) = (b\<lparr>br_state := BrHalfOpen\<rparr>, ADone True)"
| "admit_step now (b, ADone g) = (b, ADone g)"

lemma record_steps_sequential: "(record_step success now ^^ 6) (b, RLoad) = (breaker_record success now b, RDone)"
  by (auto simp: eval_nat_numeral breaker_record_def breaker_trip_def breaker_close_def Let_def)

lemma admit_steps_sequential:
  "(admit_step now ^^ 4) (b, ALoad) = (fst (try_admit now b), ADone (snd (try_admit now b)))"
  by (auto simp: eval_nat_numeral try_admit_def split: breaker_state.splits)

text \<open>A schedule says for each step whether the recording or the admitting thread takes it.\<close>

fun interleave :: "bool \<Rightarrow> int \<Rightarrow> bool list \<Rightarrow> breaker \<times> record_pc \<times> admit_pc \<Rightarrow> breaker \<times> record_pc \<times> admit_pc" where
  "interleave success now [] c = c"
| "interleave success now (recorder # sched) (b, rp, ap) =
     (if recorder
      then (case record_step success now (b, rp) of (b', rp') \<Rightarrow> interleave success now sched (b', rp', ap))
      else (case admit_step now (b, ap) of (b', ap') \<Rightarrow> interleave success now sched (b', rp, ap')))"

text \<open>
  C28. The cool-off has a gap. When a probe fails and the state is set to open before the time of
  opening is renewed, an admission between these two stores sees the time of the previous opening
  and is granted a second probe at once, although the recording takes effect; one after the other
  the two operations refuse it.
\<close>
theorem breaker_cool_off_race:
  assumes "br_state b = BrHalfOpen" "br_probe_in_flight b" "cooled now b"
  shows "(\<exists>sched b'. interleave False now sched (b, RLoad, ALoad) = (b', RDone, ADone True) \<and>
      br_state b' = BrHalfOpen \<and> br_opened_at b' = Some now) \<and>
    snd (try_admit now (breaker_record False now b)) = False"
proof
  let ?sched = "[True, True, True, False, False, False, False, True, True]"
  show "\<exists>sched b'. interleave False now sched (b, RLoad, ALoad) = (b', RDone, ADone True) \<and>
      br_state b' = BrHalfOpen \<and> br_opened_at b' = Some now"
    using assms by (intro exI[of _ ?sched]) (simp add: cooled_def)
  show "snd (try_admit now (breaker_record False now b)) = False"
    using assms by (simp add: breaker_record_def breaker_trip_def try_admit_def cooled_def COOL_OFF_def SECOND_def)
qed

theorem breaker_cool_off_race_witness:
  "\<exists>sched b'. interleave False (6 * SECOND) sched
     ((breaker_new 0 majority_cfg)\<lparr>br_state := BrHalfOpen, br_probe_in_flight := True, br_opened_at := Some 0\<rparr>, RLoad, ALoad) =
     (b', RDone, ADone True)"
  using breaker_cool_off_race[of "(breaker_new 0 majority_cfg)\<lparr>br_state := BrHalfOpen, br_probe_in_flight := True,
      br_opened_at := Some 0\<rparr>" "6 * SECOND"]
  by (auto simp: cooled_def COOL_OFF_def SECOND_def)

end
