(* ===== verification/Proxy_Config.thy ===== *)
theory Proxy_Config
  imports Circuit_Breaker
begin

text \<open>
  The configuration of the migration proxy, \<open>crates/thttpd-migrate/src/config.rs\<close>. Reading the
  TOML file is outside; the model starts at the record it fills. A \<open>HashMap\<close> is the association
  list of its pairs in the order of iteration, with distinct keys. Parsing a socket address
  (\<open>std::net::SocketAddr\<close>) and a URI (\<open>hyper::Uri\<close>) are parameters that say which strings parse.

  A sum of \<open>u32\<close> values wraps, as in a build without overflow checks.
\<close>

section \<open>Records and defaults\<close>

record metrics_config =
  mt_listen :: string
  mt_path :: string

record shadow_config =
  sh_max_body_bytes :: nat

record backend_config =
  bc_address :: string
  bc_weight :: nat
  bc_health_path :: string

datatype routing_mode = ActiveActive | Shadow | Canary

record routing_config =
  rt_mode :: routing_mode
  rt_primary_backend :: "string option"
  rt_shadow_backend :: "string option"
  rt_exclude_paths :: "string list"

record health_config =
  hc_interval_ms :: nat
  hc_timeout_ms :: nat
  hc_failure_threshold :: nat
  hc_success_threshold :: nat

record proxy_config =
  px_listen :: string
  px_log_level :: string
  px_state_path :: string
  px_control_socket :: string
  px_metrics :: metrics_config
  px_shadow :: shadow_config
  px_backends :: "(string \<times> backend_config) list"
  px_routing :: routing_config
  px_health :: health_config
  px_circuit_breaker :: circuit_config

definition default_log_level :: string where
  "default_log_level = ''info''"

definition default_state_path :: string where
  "default_state_path = ''/var/run/thttpd-migrate/state.json''"

definition default_control_socket :: string where
  "default_control_socket = ''/var/run/thttpd-migrate/control.sock''"

definition default_metrics_listen :: string where
  [simp]: "default_metrics_listen = ''127.0.0.1:9100''"

definition default_metrics_path :: string where
  [simp]: "default_metrics_path = ''/metrics''"

definition default_metrics :: metrics_config where
  "default_metrics = \<lparr>mt_listen = default_metrics_listen, mt_path = default_metrics_path\<rparr>"

definition default_shadow_max_body_bytes :: nat where
  [simp]: "default_shadow_max_body_bytes = 1048576"

definition default_shadow :: shadow_config where
  "default_shadow = \<lparr>sh_max_body_bytes = default_shadow_max_body_bytes\<rparr>"

definition default_weight :: nat where
  "default_weight = 1"

definition default_health_path :: string where
  "default_health_path = ''/''"

definition default_routing :: routing_config where
  "default_routing =
     \<lparr>rt_mode = ActiveActive, rt_primary_backend = None, rt_shadow_backend = None, rt_exclude_paths = []\<rparr>"

definition default_health_interval :: nat where
  [simp]: "default_health_interval = 1000"

definition default_health_timeout :: nat where
  [simp]: "default_health_timeout = 500"

definition default_failure_threshold :: nat where
  [simp]: "default_failure_threshold = 3"

definition default_success_threshold :: nat where
  [simp]: "default_success_threshold = 2"

definition default_health :: health_config where
  "default_health =
     \<lparr>hc_interval_ms = default_health_interval, hc_timeout_ms = default_health_timeout,
      hc_failure_threshold = default_failure_threshold, hc_success_threshold = default_success_threshold\<rparr>"

text \<open>The default threshold is one half: the quotient of two \<open>u32\<close> values, rounded, exceeds it
  exactly when the errors are more than half of the total.\<close>

definition default_error_rate :: "nat \<Rightarrow> nat \<Rightarrow> bool" where
  [simp]: "default_error_rate = (\<lambda>errors total. total < 2 * errors)"

definition default_window :: nat where
  [simp]: "default_window = 30"

definition default_min_requests :: nat where
  [simp]: "default_min_requests = 20"

definition default_circuit :: circuit_config where
  "default_circuit =
     \<lparr>cc_exceeds = default_error_rate, cc_window_secs = default_window, cc_min_requests = default_min_requests\<rparr>"

section \<open>Addresses\<close>

text \<open>\<open>address.chars().any(char::is_whitespace)\<close>: no continuation byte starts a white-space
  character, so every suffix may be tried.\<close>

fun has_whitespace :: "string \<Rightarrow> bool" where
  "has_whitespace [] = False"
| "has_whitespace (c # cs) = (ws_len (c # cs) \<noteq> 0 \<or> has_whitespace cs)"

definition split_host_port :: "string \<Rightarrow> string \<times> string option" where
  "split_host_port authority =
     (if starts_with ''['' authority then
        (case find_str '']:'' authority of
           Some i \<Rightarrow> (take (i + 1) authority, Some (drop (i + 2) authority))
         | None \<Rightarrow> (authority, None))
      else
        (case rfind_byte (CHR '':'') authority of
           Some i \<Rightarrow> (take i authority, Some (drop (i + 1) authority))
         | None \<Rightarrow> (authority, None)))"

datatype address_error =
  AddressEmpty | HasScheme | HasPath | HasWhitespace | NoHost | NoPort | PortNotNumeric | NotAUri

definition ensure :: "bool \<Rightarrow> 'e \<Rightarrow> ('e + 'a) \<Rightarrow> ('e + 'a)" where
  "ensure b e r = (if b then r else Inl e)"

definition validate_backend_address :: "(string \<Rightarrow> bool) \<Rightarrow> string \<Rightarrow> address_error + unit" where
  "validate_backend_address parse_uri address =
     ensure (address \<noteq> []) AddressEmpty (
     ensure (\<not> contains_str ''://'' address) HasScheme (
     ensure (\<not> (contains_byte (CHR ''/'') address \<or> contains_byte (CHR ''?'') address \<or> contains_byte (CHR ''#'') address))
       HasPath (
     ensure (\<not> has_whitespace address) HasWhitespace (
       case split_host_port address of (host, port) \<Rightarrow>
     ensure (host \<noteq> []) NoHost (
       case port of None \<Rightarrow> Inl NoPort | Some port \<Rightarrow>
     ensure (port \<noteq> [] \<and> list_all is_ascii_digit port) PortNotNumeric (
     ensure (parse_uri (''http://'' @ address @ ''/'')) NotAUri (Inr ())))))))"

section \<open>Validation\<close>

definition u32_sum :: "nat list \<Rightarrow> nat" where
  "u32_sum ws = foldl (\<lambda>a w. (a + w) mod 2 ^ 32) 0 ws"

datatype config_error =
  NoBackends | BadAddress string address_error | NoWeight | NoPrimary | NoShadow | PrimaryIsShadow
| UnknownPrimary | UnknownShadow | BadListen | BadMetricsListen

fun validate_addresses :: "(string \<Rightarrow> bool) \<Rightarrow> (string \<times> backend_config) list \<Rightarrow> config_error + unit" where
  "validate_addresses parse_uri [] = Inr ()"
| "validate_addresses parse_uri ((name, backend) # bs) =
     (case validate_backend_address parse_uri (bc_address backend) of
        Inl e \<Rightarrow> Inl (BadAddress name e)
      | Inr _ \<Rightarrow> validate_addresses parse_uri bs)"

definition validate_shadow :: "proxy_config \<Rightarrow> (config_error + unit) \<Rightarrow> config_error + unit" where
  "validate_shadow cfg rest =
     (if rt_mode (px_routing cfg) = Shadow then
        (let primary = rt_primary_backend (px_routing cfg); shadow = rt_shadow_backend (px_routing cfg) in
         ensure (primary \<noteq> None) NoPrimary (
         ensure (shadow \<noteq> None) NoShadow (
         ensure (primary \<noteq> shadow) PrimaryIsShadow (
         ensure (map_of (px_backends cfg) (the primary) \<noteq> None) UnknownPrimary (
         ensure (map_of (px_backends cfg) (the shadow) \<noteq> None) UnknownShadow rest)))))
      else rest)"

definition validate :: "(string \<Rightarrow> bool) \<Rightarrow> (string \<Rightarrow> bool) \<Rightarrow> proxy_config \<Rightarrow> config_error + unit" where
  "validate parse_sock parse_uri cfg =
     ensure (px_backends cfg \<noteq> []) NoBackends (
       case validate_addresses parse_uri (px_backends cfg) of Inl e \<Rightarrow> Inl e | Inr _ \<Rightarrow>
     ensure (0 < u32_sum (map (\<lambda>(n, b). bc_weight b) (px_backends cfg))) NoWeight (
     validate_shadow cfg (
     ensure (parse_sock (px_listen cfg)) BadListen (
     ensure (parse_sock (mt_listen (px_metrics cfg))) BadMetricsListen (Inr ())))))"

section \<open>Lemmas\<close>

lemma ensure_Inr [simp]: "ensure b e r = Inr x \<longleftrightarrow> b \<and> r = Inr x"
  by (simp add: ensure_def)

lemma foldl_u32: "(a::nat) < 2 ^ 32 \<Longrightarrow> foldl (\<lambda>a w. (a + w) mod 2 ^ 32) a ws = (a + sum_list ws) mod 2 ^ 32"
  by (induction ws arbitrary: a) (simp_all add: mod_simps add.assoc)

lemma u32_sum_eq: "u32_sum ws = sum_list ws mod 2 ^ 32"
  using foldl_u32[of 0 ws] by (simp add: u32_sum_def)

lemma u32_sum_exact: "sum_list ws < 2 ^ 32 \<Longrightarrow> u32_sum ws = sum_list ws"
  by (simp add: u32_sum_eq)

lemma u32_sum_zeros: "u32_sum (filter (\<lambda>w. 0 < w) ws) = u32_sum ws"
proof -
  have "sum_list (filter (\<lambda>w. 0 < w) ws) = sum_list ws" by (induction ws) auto
  then show ?thesis by (simp add: u32_sum_eq)
qed

lemma validate_shadow_Inr:
  "validate_shadow cfg rest = Inr u \<longleftrightarrow> rest = Inr u \<and>
     (rt_mode (px_routing cfg) = Shadow \<longrightarrow>
        (\<exists>p s. rt_primary_backend (px_routing cfg) = Some p \<and> rt_shadow_backend (px_routing cfg) = Some s \<and> p \<noteq> s \<and>
           map_of (px_backends cfg) p \<noteq> None \<and> map_of (px_backends cfg) s \<noteq> None))"
  by (auto simp: validate_shadow_def Let_def)

lemma validate_Inr:
  assumes "validate parse_sock parse_uri cfg = Inr u"
  shows "0 < u32_sum (map (\<lambda>(n, b). bc_weight b) (px_backends cfg))"
    and "rt_mode (px_routing cfg) = Shadow \<Longrightarrow>
      \<exists>p s. rt_primary_backend (px_routing cfg) = Some p \<and> rt_shadow_backend (px_routing cfg) = Some s \<and> p \<noteq> s \<and>
        map_of (px_backends cfg) p \<noteq> None \<and> map_of (px_backends cfg) s \<noteq> None"
  using assms by (auto simp: validate_def validate_shadow_Inr split: sum.splits)

text \<open>What an accepted address is: a host without the characters of a URL, and a decimal port.\<close>

lemma rfind_byte_split:
  "rfind_byte c s = Some i \<Longrightarrow> s = take i s @ c # drop (i + 1) s \<and> c \<notin> set (drop (i + 1) s)"
proof -
  have find: "find_byte c t = Some j \<Longrightarrow> t = take j t @ c # drop (j + 1) t \<and> c \<notin> set (take j t)" for t j
    by (induction t arbitrary: j) (auto split: if_splits)
  assume "rfind_byte c s = Some i"
  then obtain j where j: "find_byte c (rev s) = Some j" "i = length s - 1 - j" by (auto simp: rfind_byte_def)
  have r: "rev s = take j (rev s) @ c # drop (j + 1) (rev s)" "c \<notin> set (take j (rev s))"
    using find[OF j(1)] by auto
  have l: "length s = j + 1 + length (drop (j + 1) (rev s))"
    using arg_cong[OF r(1), of length] by (cases "j < length s") auto
  have "s = rev (drop (j + 1) (rev s)) @ c # rev (take j (rev s))"
    using arg_cong[OF r(1), of rev] by simp
  moreover have "i = length (rev (drop (j + 1) (rev s)))" using l j(2) by simp
  ultimately have "take i s = rev (drop (j + 1) (rev s)) \<and> drop (i + 1) s = rev (take j (rev s))"
    by (metis add.commute append_eq_conv_conj drop_Suc_Cons drop_drop plus_1_eq_Suc drop0)
  then show ?thesis using r(2) \<open>s = _\<close> by (metis set_rev)
qed

lemma find_str_split: "find_str p s = Some i \<Longrightarrow> s = take i s @ p @ drop (i + length p) s"
proof (induction s arbitrary: i)
  case (Cons x xs)
  show ?case
  proof (cases "starts_with p (x # xs)")
    case True
    then show ?thesis using Cons.prems append_take_drop_id[of "length p" "x # xs"] by (simp add: starts_with_def)
  next
    case False
    then obtain j where "find_str p xs = Some j" "i = Suc j" using Cons.prems by auto
    with Cons.IH[of j] show ?thesis by simp
  qed
qed (simp split: if_splits)

lemma validated_address:
  assumes "validate_backend_address parse_uri address = Inr u"
  shows "\<exists>host port. address = host @ '':'' @ port \<and> host \<noteq> [] \<and> port \<noteq> [] \<and> list_all is_ascii_digit port \<and>
    set address \<inter> {CHR ''/'', CHR ''?'', CHR ''#''} = {} \<and> parse_uri (''http://'' @ address @ ''/'')"
proof -
  obtain host port where split: "split_host_port address = (host, Some port)"
    and ok: "host \<noteq> []" "port \<noteq> []" "list_all is_ascii_digit port" "parse_uri (''http://'' @ address @ ''/'')"
      "set address \<inter> {CHR ''/'', CHR ''?'', CHR ''#''} = {}"
    using assms by (auto simp: validate_backend_address_def contains_byte_def split: prod.splits option.splits)
  have "address = host @ '':'' @ port"
  proof (cases "starts_with ''['' address")
    case True
    then obtain i where i: "find_str '']:'' address = Some i" "host = take (i + 1) address" "port = drop (i + 2) address"
      using split by (auto simp: split_host_port_def split: option.splits)
    have "address = take i address @ '']:'' @ port" using find_str_split[OF i(1)] i(3) by simp
    then have a: "address = take i address @ '']:'' @ port" .
    have "i < length address" using arg_cong[OF a, of length] by (cases "i \<le> length address") auto
    then have "host = take i address @ '']''"
      using i(2) a by (metis Suc_eq_plus1 take_Suc_conv_app_nth append_Cons nth_append_length length_take min.absorb4)
    then show ?thesis using a by simp
  next
    case False
    then obtain i where "rfind_byte (CHR '':'') address = Some i" "host = take i address" "port = drop (i + 1) address"
      using split by (auto simp: split_host_port_def split: option.splits)
    then show ?thesis using rfind_byte_split[of "CHR '':''" address i] by simp
  qed
  then show ?thesis using ok by blast
qed

end
