(* ===== verification/Backend_Pool.thy ===== *)
theory Backend_Pool
  imports Proxy_Config "HOL-Library.AList"
begin

text \<open>
  The backends of the migration proxy and their health: \<open>backend.rs\<close> and \<open>health.rs\<close> of
  \<open>crates/thttpd-migrate/src\<close>. The pool is shared by all tasks and its map never changes after
  start, so a backend (an \<open>Arc<Backend>\<close>) is denoted by its name; the fields behind the lock and
  the atomics are the record the name leads to. The network is the reply to a probe.
\<close>

section \<open>State\<close>

datatype health = Healthy | Degraded | Unhealthy

definition health_from_u8 :: "nat \<Rightarrow> health" where
  "health_from_u8 v = (if v = 0 then Healthy else if v = 1 then Degraded else Unhealthy)"

record backend =
  be_name :: string
  be_config :: backend_config
  be_health :: health
  be_consecutive_failures :: nat
  be_consecutive_successes :: nat

definition backend_new :: "string \<Rightarrow> backend_config \<Rightarrow> backend" where
  "backend_new name cfg =
     \<lparr>be_name = name, be_config = cfg, be_health = Healthy, be_consecutive_failures = 0, be_consecutive_successes = 0\<rparr>"

definition is_routable :: "backend \<Rightarrow> bool" where
  "is_routable b \<longleftrightarrow> be_health b \<noteq> Unhealthy"

definition weight :: "backend \<Rightarrow> nat" where
  "weight b = bc_weight (be_config b)"

definition set_weight :: "nat \<Rightarrow> backend \<Rightarrow> backend" where
  "set_weight w b = b\<lparr>be_config := (be_config b)\<lparr>bc_weight := w\<rparr>\<rparr>"

record backend_pool =
  bp_backends :: "(string \<times> backend) list"
  bp_breakers :: breakers

definition with_breaker_cfg :: "int \<Rightarrow> (string \<times> backend_config) list \<Rightarrow> circuit_config \<Rightarrow> backend_pool" where
  "with_breaker_cfg now backends cfg =
     \<lparr>bp_backends = map (\<lambda>(name, c). (name, backend_new name c)) backends,
      bp_breakers = breakers_from_config now (map fst backends) cfg\<rparr>"

definition pool_from_config :: "int \<Rightarrow> (string \<times> backend_config) list \<Rightarrow> backend_pool" where
  "pool_from_config now backends = with_breaker_cfg now backends default_circuit"

definition pool_get :: "backend_pool \<Rightarrow> string \<Rightarrow> backend option" where
  "pool_get p name = map_of (bp_backends p) name"

section \<open>Breakers of the pool\<close>

definition breaker_can_route :: "int \<Rightarrow> backend_pool \<Rightarrow> string \<Rightarrow> bool" where
  "breaker_can_route now p name = (case bp_breakers p name of Some b \<Rightarrow> can_route now b | None \<Rightarrow> True)"

definition breaker_admit :: "int \<Rightarrow> backend_pool \<Rightarrow> string \<Rightarrow> backend_pool \<times> bool" where
  "breaker_admit now p name =
     (case bp_breakers p name of
        Some b \<Rightarrow> (p\<lparr>bp_breakers := (bp_breakers p)(name \<mapsto> fst (try_admit now b))\<rparr>, snd (try_admit now b))
      | None \<Rightarrow> (p, True))"

definition breaker_release_probe :: "int \<Rightarrow> backend_pool \<Rightarrow> string \<Rightarrow> backend_pool" where
  "breaker_release_probe now p name =
     (case bp_breakers p name of
        Some b \<Rightarrow> p\<lparr>bp_breakers := (bp_breakers p)(name \<mapsto> release_probe now b)\<rparr>
      | None \<Rightarrow> p)"

definition pool_breaker_allows :: "int \<Rightarrow> backend_pool \<Rightarrow> string \<Rightarrow> backend_pool \<times> bool" where
  "pool_breaker_allows now p name =
     (case bp_breakers p name of
        Some b \<Rightarrow> (p\<lparr>bp_breakers := (bp_breakers p)(name \<mapsto> fst (breaker_allows now b))\<rparr>, snd (breaker_allows now b))
      | None \<Rightarrow> (p, True))"

definition record_outcome :: "int \<Rightarrow> backend_pool \<Rightarrow> string \<Rightarrow> bool \<Rightarrow> backend_pool" where
  "record_outcome now p name success =
     (case bp_breakers p name of
        Some b \<Rightarrow> p\<lparr>bp_breakers := (bp_breakers p)(name \<mapsto> breaker_record success now b)\<rparr>
      | None \<Rightarrow> p)"

section \<open>Health\<close>

definition update_health :: "health_config \<Rightarrow> bool \<Rightarrow> backend \<Rightarrow> backend" where
  "update_health cfg success b =
     (if success then
        (let n = (be_consecutive_successes b + 1) mod 2 ^ 32;
             b1 = b\<lparr>be_consecutive_failures := 0, be_consecutive_successes := n\<rparr>
         in if hc_success_threshold cfg \<le> n \<and> be_health b1 \<noteq> Healthy then b1\<lparr>be_health := Healthy\<rparr> else b1)
      else
        (let n = (be_consecutive_failures b + 1) mod 2 ^ 32;
             b1 = b\<lparr>be_consecutive_successes := 0, be_consecutive_failures := n\<rparr>
         in if hc_failure_threshold cfg \<le> n \<and> be_health b1 \<noteq> Unhealthy then b1\<lparr>be_health := Unhealthy\<rparr> else b1))"

datatype probe_reply = ProbeStatus nat | ProbeFailed | ProbeTimeout

definition probe_url :: "backend \<Rightarrow> string" where
  "probe_url b = ''http://'' @ bc_address (be_config b) @ bc_health_path (be_config b)"

definition probe_backend ::
  "(string \<Rightarrow> bool) \<Rightarrow> (string \<Rightarrow> probe_reply) \<Rightarrow> health_config \<Rightarrow> backend \<Rightarrow> backend" where
  "probe_backend parse_uri reply cfg b =
     (if \<not> parse_uri (probe_url b) then update_health cfg False b
      else update_health cfg
        (case reply (probe_url b) of
           ProbeStatus status \<Rightarrow> 200 \<le> status \<and> status < 300
         | ProbeFailed \<Rightarrow> False
         | ProbeTimeout \<Rightarrow> False) b)"

text \<open>One round of the checker's loop.\<close>

definition check_round ::
  "(string \<Rightarrow> bool) \<Rightarrow> (string \<Rightarrow> probe_reply) \<Rightarrow> health_config \<Rightarrow> backend_pool \<Rightarrow> backend_pool" where
  "check_round parse_uri reply cfg p =
     p\<lparr>bp_backends := map (\<lambda>(name, b). (name, probe_backend parse_uri reply cfg b)) (bp_backends p)\<rparr>"

section \<open>Lemmas on the pool\<close>

lemma backend_new_sel [simp]:
  "be_name (backend_new n c) = n" "be_config (backend_new n c) = c" "be_health (backend_new n c) = Healthy"
  "be_consecutive_failures (backend_new n c) = 0" "be_consecutive_successes (backend_new n c) = 0"
  "is_routable (backend_new n c)" "weight (backend_new n c) = bc_weight c"
  by (simp_all add: backend_new_def is_routable_def weight_def)

lemma set_weight_sel [simp]:
  "weight (set_weight w b) = w" "be_health (set_weight w b) = be_health b" "be_name (set_weight w b) = be_name b"
  "is_routable (set_weight w b) = is_routable b"
  by (simp_all add: set_weight_def weight_def is_routable_def)

lemma pool_get_new: "pool_get (with_breaker_cfg now bs cfg) n = map_option (backend_new n) (map_of bs n)"
  by (induction bs) (auto simp: pool_get_def with_breaker_cfg_def)

lemma breaker_admit_backends [simp]:
  "bp_backends (fst (breaker_admit now p n)) = bp_backends p"
  "pool_get (fst (breaker_admit now p n)) = pool_get p"
  by (auto simp: breaker_admit_def pool_get_def split: option.splits)

lemma record_outcome_backends [simp]:
  "bp_backends (record_outcome now p n s) = bp_backends p" "pool_get (record_outcome now p n s) = pool_get p"
  by (auto simp: record_outcome_def pool_get_def split: option.splits)

lemma breaker_admit_other: "m \<noteq> n \<Longrightarrow> bp_breakers (fst (breaker_admit now p n)) m = bp_breakers p m"
  by (auto simp: breaker_admit_def split: option.splits)

lemma breaker_admit_refused: "\<not> snd (breaker_admit now p n) \<Longrightarrow> fst (breaker_admit now p n) = p"
  by (cases p) (auto simp: breaker_admit_def try_admit_def fun_upd_idem split: option.splits breaker_state.splits if_splits)

text \<open>Eligibility without side effect is what the admission at the same instant decides.\<close>

lemma breaker_can_route_admit: "breaker_can_route now p n = snd (breaker_admit now p n)"
  by (auto simp: breaker_can_route_def breaker_admit_def can_route_def try_admit_def
      split: option.splits breaker_state.splits)

section \<open>Hysteresis of the health checker\<close>

definition has_run :: "bool \<Rightarrow> nat \<Rightarrow> bool list \<Rightarrow> bool" where
  "has_run v n os \<longleftrightarrow> (\<exists>x y. os = x @ replicate n v @ y)"

definition trailing :: "bool \<Rightarrow> bool list \<Rightarrow> nat" where
  "trailing v os = length (takeWhile (\<lambda>x. x = v) (rev os))"

definition down_after :: "nat \<Rightarrow> nat \<Rightarrow> bool list \<Rightarrow> bool" where
  "down_after f s os \<longleftrightarrow> (\<exists>a b. os = a @ replicate f False @ b \<and> \<not> has_run True s b)"

lemma trailing_snoc [simp]: "trailing v (os @ [w]) = (if w = v then trailing v os + 1 else 0)"
  by (simp add: trailing_def)

lemma trailing_Nil [simp]: "trailing v [] = 0"
  by (simp add: trailing_def)

lemma trailing_suffix: "n \<le> trailing v os \<longleftrightarrow> (\<exists>x. os = x @ replicate n v)"
proof
  assume "n \<le> trailing v os"
  let ?t = "takeWhile (\<lambda>x. x = v) (rev os)"
  have "replicate (length ?t) v = ?t" by (rule replicate_length_same) (auto dest: set_takeWhileD)
  then have "rev os = replicate (trailing v os) v @ dropWhile (\<lambda>x. x = v) (rev os)"
    by (simp add: trailing_def)
  then have "rev (rev os) = rev (replicate (trailing v os) v @ dropWhile (\<lambda>x. x = v) (rev os))" by (rule arg_cong)
  then have "os = rev (dropWhile (\<lambda>x. x = v) (rev os)) @ replicate (trailing v os) v" by simp
  moreover have "replicate (trailing v os) v = replicate (trailing v os - n) v @ replicate n v"
    using \<open>n \<le> trailing v os\<close> by (metis le_add_diff_inverse2 replicate_add)
  ultimately show "\<exists>x. os = x @ replicate n v" by (metis append.assoc)
next
  assume "\<exists>x. os = x @ replicate n v"
  then show "n \<le> trailing v os" by (auto simp: trailing_def takeWhile_append)
qed

lemma has_run_snoc: "has_run v n (os @ [w]) \<longleftrightarrow> has_run v n os \<or> n \<le> trailing v (os @ [w])"
proof
  assume "has_run v n (os @ [w])"
  then obtain x y where xy: "os @ [w] = x @ replicate n v @ y" by (auto simp: has_run_def)
  show "has_run v n os \<or> n \<le> trailing v (os @ [w])"
  proof (cases y rule: rev_cases)
    case Nil
    then show ?thesis using xy trailing_suffix by auto
  next
    case (snoc y' z)
    then have "os = x @ replicate n v @ y'" using xy by simp
    then show ?thesis by (auto simp: has_run_def)
  qed
next
  assume "has_run v n os \<or> n \<le> trailing v (os @ [w])"
  then show "has_run v n (os @ [w])"
    unfolding trailing_suffix has_run_def by (metis append.assoc append_Nil2)
qed

text \<open>A run of successes at the end lies after every failure.\<close>

lemma trailing_after_failures:
  assumes "0 < f"
  shows "trailing True (a @ replicate f False @ b) = trailing True b"
proof (cases "list_all id b")
  case True
  obtain g where f: "f = Suc g" using assms by (cases f) auto
  have "takeWhile (\<lambda>x. x = True) (rev b @ replicate f False @ rev a) = rev b @ takeWhile (\<lambda>x. x = True) (replicate f False @ rev a)"
    using True by (intro takeWhile_append2) (auto simp: list_all_iff)
  then have "takeWhile (\<lambda>x. x = True) (rev b @ replicate f False @ rev a) = rev b" by (simp add: f)
  moreover have "takeWhile (\<lambda>x. x) (rev b) = rev b"
    by (subst takeWhile_eq_all_conv) (use True in \<open>auto simp: list_all_iff\<close>)
  ultimately show ?thesis by (simp add: trailing_def del: takeWhile_eq_all_conv)
next
  case False
  then show ?thesis by (auto simp: trailing_def takeWhile_append list_all_iff)
qed

lemma down_after_success:
  assumes "0 < f"
  shows "down_after f s (os @ [True]) \<longleftrightarrow> down_after f s os \<and> trailing True (os @ [True]) < s"
proof -
  have "down_after f s (os @ [True]) \<longleftrightarrow> (\<exists>a b. os = a @ replicate f False @ b \<and> \<not> has_run True s (b @ [True]))"
  proof
    assume "down_after f s (os @ [True])"
    then obtain a b where ab: "os @ [True] = a @ replicate f False @ b" "\<not> has_run True s b" by (auto simp: down_after_def)
    have "b \<noteq> []" using arg_cong[OF ab(1), of last] assms by auto
    then obtain b' where b': "b = b' @ [True]" using ab(1) by (cases b rule: rev_cases) auto
    then show "\<exists>a b. os = a @ replicate f False @ b \<and> \<not> has_run True s (b @ [True])" using ab by auto
  next
    assume "\<exists>a b. os = a @ replicate f False @ b \<and> \<not> has_run True s (b @ [True])"
    then obtain a b where "os = a @ replicate f False @ b" "\<not> has_run True s (b @ [True])" by blast
    then have "os @ [True] = a @ replicate f False @ (b @ [True]) \<and> \<not> has_run True s (b @ [True])" by simp
    then show "down_after f s (os @ [True])" unfolding down_after_def by blast
  qed
  also have "\<dots> \<longleftrightarrow> down_after f s os \<and> trailing True (os @ [True]) < s"
  proof -
    have "(\<exists>a b. os = a @ replicate f False @ b \<and> \<not> has_run True s (b @ [True])) \<longleftrightarrow>
      (\<exists>a b. os = a @ replicate f False @ b \<and> \<not> has_run True s b \<and> trailing True os + 1 < s)"
      by (intro ex_cong1) (auto simp: has_run_snoc trailing_after_failures[OF assms])
    then show ?thesis by (auto simp: down_after_def)
  qed
  finally show ?thesis .
qed

lemma down_after_failure:
  assumes "0 < s"
  shows "down_after f s (os @ [False]) \<longleftrightarrow> down_after f s os \<or> f \<le> trailing False (os @ [False])"
proof -
  have 1: "has_run True s (b @ [False]) = has_run True s b" for b
    using assms by (simp add: has_run_snoc)
  have "down_after f s (os @ [False]) \<longleftrightarrow> down_after f s os \<or> (\<exists>a. os @ [False] = a @ replicate f False)"
  proof
    assume "down_after f s (os @ [False])"
    then obtain a b where ab: "os @ [False] = a @ replicate f False @ b" "\<not> has_run True s b" by (auto simp: down_after_def)
    show "down_after f s os \<or> (\<exists>a. os @ [False] = a @ replicate f False)"
    proof (cases b rule: rev_cases)
      case Nil
      then show ?thesis using ab by auto
    next
      case (snoc b' x)
      then have "os = a @ replicate f False @ b'" "x = False" using ab(1) by auto
      then show ?thesis using ab(2) snoc 1 by (auto simp: down_after_def)
    qed
  next
    assume "down_after f s os \<or> (\<exists>a. os @ [False] = a @ replicate f False)"
    then show "down_after f s (os @ [False])"
    proof
      assume "down_after f s os"
      then obtain a b where "os = a @ replicate f False @ b" "\<not> has_run True s b" by (auto simp: down_after_def)
      then have "os @ [False] = a @ replicate f False @ (b @ [False]) \<and> \<not> has_run True s (b @ [False])" using 1 by simp
      then show ?thesis unfolding down_after_def by blast
    next
      assume "\<exists>a. os @ [False] = a @ replicate f False"
      moreover have "\<not> has_run True s []" using assms by (simp add: has_run_def)
      ultimately show ?thesis by (metis append_Nil2 down_after_def)
    qed
  qed
  then show ?thesis using trailing_suffix[of f False "os @ [False]"] by simp
qed

lemma down_after_snoc:
  assumes "0 < f" "0 < s"
  shows "down_after f s (os @ [w]) \<longleftrightarrow>
    (if w then down_after f s os \<and> trailing True (os @ [w]) < s
     else down_after f s os \<or> f \<le> trailing False (os @ [w]))"
  by (cases w) (simp_all only: down_after_success[OF assms(1)] down_after_failure[OF assms(2)] if_True if_False)

lemma trailing_le: "trailing v os \<le> length os"
  unfolding trailing_def by (metis length_rev length_takeWhile_le)

lemma health_run:
  assumes "0 < hc_failure_threshold cfg" "0 < hc_success_threshold cfg" "length os < 2 ^ 32"
  shows "let b = foldl (\<lambda>b o'. update_health cfg o' b) (backend_new name c) os in
    be_consecutive_failures b = trailing False os \<and> be_consecutive_successes b = trailing True os \<and>
    (be_health b = Unhealthy \<longleftrightarrow> down_after (hc_failure_threshold cfg) (hc_success_threshold cfg) os) \<and>
    be_health b \<noteq> Degraded"
  using assms(3)
proof (induction os rule: rev_induct)
  case Nil
  then show ?case using assms(1) by (simp add: down_after_def)
next
  case (snoc w os)
  have len: "trailing v os + 1 < 2 ^ 32" for v using snoc.prems trailing_le[of v os] by simp
  show ?case
    using snoc.IH snoc.prems len[of True] len[of False] down_after_snoc[OF assms(1,2), of os w] assms
    by (cases w) (auto simp: update_health_def Let_def)
qed

text \<open>
  C34. Hysteresis. With positive thresholds and after any history of fewer than 2^32 probe outcomes a
  backend is unhealthy exactly when the
  history has a run of as many failures as the failure threshold with no run of as many successes
  as the success threshold after it; single outcomes in between change nothing, and the checker
  never makes a backend degraded.
\<close>
theorem health_hysteresis:
  assumes "0 < hc_failure_threshold cfg" "0 < hc_success_threshold cfg" "length os < 2 ^ 32"
  shows "(be_health (foldl (\<lambda>b o'. update_health cfg o' b) (backend_new name c) os) = Unhealthy \<longleftrightarrow>
      (\<exists>a b. os = a @ replicate (hc_failure_threshold cfg) False @ b \<and>
        \<not> (\<exists>x y. b = x @ replicate (hc_success_threshold cfg) True @ y))) \<and>
    be_health (foldl (\<lambda>b o'. update_health cfg o' b) (backend_new name c) os) \<noteq> Degraded"
  using health_run[OF assms] by (simp add: Let_def down_after_def has_run_def)

theorem health_hysteresis_witness:
  "be_health (foldl (\<lambda>b o'. update_health default_health o' b)
     (backend_new ''c'' \<lparr>bc_address = ''127.0.0.1:8081'', bc_weight = 1, bc_health_path = ''/''\<rparr>)
     [True, False, False, False, True, False]) = Unhealthy"
proof -
  have "\<not> (\<exists>x y. [True, False] = x @ replicate (hc_success_threshold default_health) True @ y)"
    by (auto simp: default_health_def eval_nat_numeral Cons_eq_append_conv)
  moreover have "[True, False, False, False, True, False] =
      [True] @ replicate (hc_failure_threshold default_health) False @ [True, False]"
    by (simp add: default_health_def eval_nat_numeral)
  ultimately have run: "\<exists>a b. [True, False, False, False, True, False] =
      a @ replicate (hc_failure_threshold default_health) False @ b \<and>
      \<not> (\<exists>x y. b = x @ replicate (hc_success_threshold default_health) True @ y)" by blast
  show ?thesis by (rule iffD2[OF conjunct1[OF health_hysteresis] run]) (simp_all add: default_health_def)
qed

end
