(* ===== verification/Weighted_Router.thy ===== *)
theory Weighted_Router
  imports Backend_Pool
begin

text \<open>
  The router of the migration proxy, \<open>crates/thttpd-migrate/src/router.rs\<close>. The random numbers,
  the instants and the identifier of the request are inputs. Other tasks share the pool; what they
  do to it between the steps of a decision is an input too, a function for each point where they
  can come between, so the loop that retries after a lost admission is modelled as it runs under
  interference. A decision that runs alone has the identity there. The list of the candidates and
  each sum are read at one moment here; Router_Steps reads one backend at a time, with the others in
  between, and what \<open>decide\<close> returns is one of its runs.
\<close>

section \<open>Decisions\<close>

record routing_decision =
  dc_backend :: string
  dc_shadow :: "string option"
  dc_request_id :: string

record router_env =
  re_now :: int
  re_admit_at :: "nat \<Rightarrow> int"
  re_pick :: "nat \<Rightarrow> nat \<Rightarrow> nat"
  re_others :: "nat \<Rightarrow> backend_pool \<Rightarrow> backend_pool"
  re_uuid :: string

definition pool_weight :: "backend_pool \<Rightarrow> string \<Rightarrow> nat" where
  "pool_weight p n = (case pool_get p n of Some b \<Rightarrow> weight b | None \<Rightarrow> 0)"

definition candidates :: "int \<Rightarrow> backend_pool \<Rightarrow> string list" where
  "candidates now p =
     map fst (filter (\<lambda>(n, b). is_routable b \<and> 0 < weight b \<and> breaker_can_route now p n) (bp_backends p))"

fun walk_weights :: "(string \<Rightarrow> nat) \<Rightarrow> nat \<Rightarrow> nat \<Rightarrow> string list \<Rightarrow> string option" where
  "walk_weights w pick acc [] = None"
| "walk_weights w pick acc (b # bs) =
     (let acc' = (acc + w b) mod 2 ^ 32 in if pick < acc' then Some b else walk_weights w pick acc' bs)"

definition select_candidate :: "(string \<Rightarrow> nat) \<Rightarrow> nat \<Rightarrow> string list \<Rightarrow> string option" where
  "select_candidate w pick cs =
     (case walk_weights w pick 0 cs of
        Some b \<Rightarrow> Some b
      | None \<Rightarrow> if cs = [] then None else Some (last cs))"

lemma walk_weights_mem: "walk_weights w pick acc cs = Some b \<Longrightarrow> b \<in> set cs"
  by (induction cs arbitrary: acc) (auto simp: Let_def split: if_splits)

lemma select_candidate_mem: "select_candidate w pick cs = Some b \<Longrightarrow> b \<in> set cs"
  by (auto simp: select_candidate_def split: option.splits if_splits dest: walk_weights_mem)

function route_loop :: "router_env \<Rightarrow> nat \<Rightarrow> backend_pool \<Rightarrow> string list \<Rightarrow> backend_pool \<times> string option" where
  "route_loop e i p cs =
     (let p1 = re_others e (3 * i) p;
          total = u32_sum (map (pool_weight p1) cs)
      in if total = 0 then (p1, None)
         else
           (let p2 = re_others e (3 * i + 1) p1 in
            case select_candidate (pool_weight p2) (re_pick e i total) cs of
              None \<Rightarrow> (p2, None)
            | Some b \<Rightarrow>
                (case breaker_admit (re_admit_at e i) (re_others e (3 * i + 2) p2) b of
                   (p3, admitted) \<Rightarrow>
                     if admitted then (p3, Some b)
                     else
                       (let cs' = filter (\<lambda>c. c \<noteq> b) cs in
                        if cs' = [] then (p3, None) else route_loop e (i + 1) p3 cs'))))"
  by pat_completeness auto
termination
proof (relation "measure (\<lambda>(e, i, p, cs). length cs)", goal_cases)
  case (2 e i p cs p1 total p2 b p3 admitted cs')
  then have "b \<in> set cs" by (auto dest: select_candidate_mem)
  then have "length (filter (\<lambda>c. c \<noteq> b) cs) < length cs" by (metis (full_types) length_filter_less)
  then show ?case using 2 by simp
qed simp

declare route_loop.simps [simp del]

definition decide :: "router_env \<Rightarrow> backend_pool \<Rightarrow> routing_config \<Rightarrow> backend_pool \<times> routing_decision option" where
  "decide e p routing =
     (let chosen =
        (case rt_mode routing of
           Shadow \<Rightarrow>
             (case rt_primary_backend routing of
                None \<Rightarrow> (p, None)
              | Some name \<Rightarrow>
                  (case pool_get p name of
                     None \<Rightarrow> (p, None)
                   | Some backend \<Rightarrow>
                       if \<not> is_routable backend \<or> \<not> breaker_can_route (re_now e) p name then (p, None)
                       else
                         (case breaker_admit (re_admit_at e 0) (re_others e 0 p) name of
                            (p1, admitted) \<Rightarrow> (p1, if admitted then Some name else None))))
         | _ \<Rightarrow>
             (let cs = candidates (re_now e) p in
              if cs = [] then (p, None) else route_loop e 0 p cs))
      in case chosen of
           (p1, None) \<Rightarrow> (p1, None)
         | (p1, Some name) \<Rightarrow>
             (p1, Some \<lparr>dc_backend = name,
                dc_shadow =
                  (if rt_mode routing = Shadow then
                     (case rt_shadow_backend routing of
                        None \<Rightarrow> None
                      | Some n \<Rightarrow>
                          (case pool_get p1 n of
                             None \<Rightarrow> None
                           | Some b \<Rightarrow>
                               if n \<noteq> name \<and> is_routable b \<and> breaker_can_route (re_now e) p1 n then Some n else None))
                   else None),
                dc_request_id = re_uuid e\<rparr>))"

section \<open>Lemmas\<close>

definition alone :: "router_env \<Rightarrow> bool" where
  "alone e \<longleftrightarrow> re_others e = (\<lambda>_ p. p)"

text \<open>The numbers below the total that fall on a candidate are as many as its weight.\<close>

lemma walk_weights_range:
  assumes "acc + sum_list (map w cs) < 2 ^ 32" "acc \<le> k" "k < acc + sum_list (map w cs)"
  shows "walk_weights w k acc cs \<noteq> None"
  using assms by (induction cs arbitrary: acc) (auto simp: Let_def)

lemma walk_weights_count:
  assumes "distinct cs" "acc + sum_list (map w cs) < 2 ^ 32"
  shows "card {k. acc \<le> k \<and> k < acc + sum_list (map w cs) \<and> walk_weights w k acc cs = Some b} =
    (if b \<in> set cs then w b else 0)"
  using assms
proof (induction cs arbitrary: acc)
  case (Cons c cs)
  let ?a = "acc + w c"
  let ?later = "{k. ?a \<le> k \<and> k < ?a + sum_list (map w cs) \<and> walk_weights w k ?a cs = Some b}"
  let ?here = "if b = c then {acc..<?a} else {}"
  have m: "walk_weights w k acc (c # cs) = (if k < ?a then Some c else walk_weights w k ?a cs)" for k
    using Cons.prems by simp
  have "{k. acc \<le> k \<and> k < acc + sum_list (map w (c # cs)) \<and> walk_weights w k acc (c # cs) = Some b} = ?here \<union> ?later"
    by (auto simp: m simp del: walk_weights.simps)
  moreover have "?here \<inter> ?later = {}" by auto
  moreover have "finite ?later" "finite ?here" by (auto intro: finite_subset[of _ "{..<?a + sum_list (map w cs)}"])
  ultimately have "card {k. acc \<le> k \<and> k < acc + sum_list (map w (c # cs)) \<and> walk_weights w k acc (c # cs) = Some b} =
      card ?here + card ?later"
    by (simp add: card_Un_disjoint)
  then show ?case using Cons.IH[of ?a] Cons.prems by auto
qed simp

text \<open>Eligible when the candidates are listed, admitted when the choice is made later.\<close>

lemma breaker_admit_later:
  assumes "breaker_can_route now p n" "now \<le> t"
  shows "snd (breaker_admit t p n)"
  using assms by (auto simp: breaker_can_route_def breaker_admit_def can_route_def try_admit_def cooled_def
      split: option.splits breaker_state.splits)

lemma candidates_eligible:
  assumes "distinct (map fst (bp_backends p))" "n \<in> set (candidates now p)"
  shows "\<exists>b. pool_get p n = Some b \<and> is_routable b \<and> 0 < weight b \<and> breaker_can_route now p n"
  using assms by (auto simp: candidates_def pool_get_def)

lemma candidates_distinct: "distinct (map fst (bp_backends p)) \<Longrightarrow> distinct (candidates now p)"
  unfolding candidates_def by (rule distinct_map_filter)

lemma route_loop_alone:
  assumes "alone e" "cs \<noteq> []" "\<And>c. c \<in> set cs \<Longrightarrow> breaker_can_route now p c" "now \<le> re_admit_at e i"
  shows "route_loop e i p cs =
    (if u32_sum (map (pool_weight p) cs) = 0 then (p, None)
     else let b = the (select_candidate (pool_weight p) (re_pick e i (u32_sum (map (pool_weight p) cs))) cs) in
          (fst (breaker_admit (re_admit_at e i) p b), Some b))"
proof -
  let ?pick = "re_pick e i (u32_sum (map (pool_weight p) cs))"
  obtain b where b: "select_candidate (pool_weight p) ?pick cs = Some b"
    using assms(2) by (cases "walk_weights (pool_weight p) ?pick 0 cs") (auto simp: select_candidate_def)
  then have "snd (breaker_admit (re_admit_at e i) p b)"
    using assms(3,4) breaker_admit_later select_candidate_mem by blast
  then obtain p3 where "breaker_admit (re_admit_at e i) p b = (p3, True)"
    by (metis prod.collapse)
  then show ?thesis using assms(1) b by (subst route_loop.simps) (simp add: alone_def Let_def)
qed

lemma decide_alone:
  assumes "alone e" "rt_mode rt \<noteq> Shadow" "re_now e \<le> re_admit_at e 0" "distinct (map fst (bp_backends p))"
  shows "decide e p rt =
    (let cs = candidates (re_now e) p; total = u32_sum (map (pool_weight p) cs) in
     if total = 0 then (p, None)
     else let b = the (select_candidate (pool_weight p) (re_pick e 0 total) cs) in
          (fst (breaker_admit (re_admit_at e 0) p b),
           Some \<lparr>dc_backend = b, dc_shadow = None, dc_request_id = re_uuid e\<rparr>))"
proof -
  let ?cs = "candidates (re_now e) p"
  have can: "\<And>c. c \<in> set ?cs \<Longrightarrow> breaker_can_route (re_now e) p c"
    using candidates_eligible[OF assms(4)] by blast
  have mode: "rt_mode rt = ActiveActive \<or> rt_mode rt = Canary" using assms(2) by (cases "rt_mode rt") auto
  show ?thesis
  proof (cases "?cs = []")
    case True
    then show ?thesis using mode by (auto simp: decide_def u32_sum_def)
  next
    case False
    show ?thesis using mode False route_loop_alone[OF assms(1) False can assms(3)]
      by (auto simp: decide_def Let_def)
  qed
qed

lemma decide_count:
  assumes "alone e" "rt_mode rt \<noteq> Shadow" "re_now e \<le> re_admit_at e 0" "distinct (map fst (bp_backends p))"
    and "sum_list (map (pool_weight p) (candidates (re_now e) p)) < 2 ^ 32" "n \<in> set (candidates (re_now e) p)"
  shows "card {k. k < sum_list (map (pool_weight p) (candidates (re_now e) p)) \<and>
    map_option dc_backend (snd (decide (e\<lparr>re_pick := \<lambda>_ _. k\<rparr>) p rt)) = Some n} = pool_weight p n"
proof -
  let ?cs = "candidates (re_now e) p" and ?w = "pool_weight p"
  define T where "T = sum_list (map ?w ?cs)"
  have T: "T < 2 ^ 32" using assms(5) by (simp only: T_def)
  have total: "u32_sum (map ?w ?cs) = T" unfolding T_def using assms(5) by (rule u32_sum_exact)
  have d: "(map_option dc_backend (snd (decide (e\<lparr>re_pick := \<lambda>_ _. k\<rparr>) p rt)) = Some n) =
      (walk_weights ?w k 0 ?cs = Some n)" if k: "k < T" for k
  proof -
    obtain b where b: "walk_weights ?w k 0 ?cs = Some b"
      using walk_weights_range[of 0 ?w ?cs k, folded T_def] T k by auto
    have "alone (e\<lparr>re_pick := \<lambda>_ _. k\<rparr>)" using assms(1) by (simp add: alone_def)
    from decide_alone[OF this assms(2), of p] assms(3,4) k b show ?thesis
      by (simp add: total Let_def select_candidate_def)
  qed
  have "{k. k < T \<and> map_option dc_backend (snd (decide (e\<lparr>re_pick := \<lambda>_ _. k\<rparr>) p rt)) = Some n} =
      {k. 0 \<le> k \<and> k < 0 + T \<and> walk_weights ?w k 0 ?cs = Some n}"
    using d by auto
  then show ?thesis unfolding T_def[symmetric]
    using walk_weights_count[of ?cs 0 ?w n, folded T_def] candidates_distinct[OF assms(4)] T assms(6) by simp
qed

text \<open>
  C16. Weighted selection. In active-active and canary mode, when the weights of the eligible
  backends add up to less than 2^32, each eligible backend is the decision for exactly as many of
  the numbers below the total as its weight; only eligible backends are decided on, the decision
  claims nothing on any other backend, and there is no decision, and nothing is changed, exactly
  when no backend is eligible.
\<close>
theorem decide_weighted:
  assumes "alone e" "rt_mode rt \<noteq> Shadow" "re_now e \<le> re_admit_at e 0" "distinct (map fst (bp_backends p))"
    and "sum_list (map (pool_weight p) (candidates (re_now e) p)) < 2 ^ 32"
  shows "(\<forall>n \<in> set (candidates (re_now e) p).
       card {k. k < sum_list (map (pool_weight p) (candidates (re_now e) p)) \<and>
         map_option dc_backend (snd (decide (e\<lparr>re_pick := \<lambda>_ _. k\<rparr>) p rt)) = Some n} = pool_weight p n) \<and>
    (\<forall>d. snd (decide e p rt) = Some d \<longrightarrow> dc_backend d \<in> set (candidates (re_now e) p) \<and>
       fst (decide e p rt) = fst (breaker_admit (re_admit_at e 0) p (dc_backend d))) \<and>
    (snd (decide e p rt) = None \<longleftrightarrow> candidates (re_now e) p = []) \<and>
    (snd (decide e p rt) = None \<longrightarrow> fst (decide e p rt) = p)"
proof -
  let ?cs = "candidates (re_now e) p" and ?w = "pool_weight p"
  have total: "u32_sum (map ?w ?cs) = sum_list (map ?w ?cs)" using assms(5) by (rule u32_sum_exact)
  have "0 < ?w n" if "n \<in> set ?cs" for n
    using candidates_eligible[OF assms(4) that] by (auto simp: pool_weight_def)
  then have nonempty: "sum_list (map ?w ?cs) = 0 \<longleftrightarrow> ?cs = []" by (cases ?cs) auto
  have dec: "decide e p rt =
    (if ?cs = [] then (p, None)
     else let b = the (select_candidate ?w (re_pick e 0 (u32_sum (map ?w ?cs))) ?cs) in
          (fst (breaker_admit (re_admit_at e 0) p b), Some \<lparr>dc_backend = b, dc_shadow = None, dc_request_id = re_uuid e\<rparr>))"
    using decide_alone[OF assms(1-4)] nonempty by (simp only: total Let_def)
  have mem: "the (select_candidate ?w k ?cs) \<in> set ?cs" if "?cs \<noteq> []" for k
    using that select_candidate_mem[of ?w k ?cs] by (auto simp: select_candidate_def split: option.splits)
  show ?thesis using decide_count[OF assms] mem unfolding dec Let_def by (auto split: if_splits)
qed

definition example_backends :: "(string \<times> backend_config) list" where
  "example_backends =
     [(''c'', \<lparr>bc_address = ''127.0.0.1:8081'', bc_weight = 3, bc_health_path = ''/''\<rparr>),
      (''rust'', \<lparr>bc_address = ''127.0.0.1:8082'', bc_weight = 1, bc_health_path = ''/''\<rparr>)]"

definition example_pool :: backend_pool where
  "example_pool = with_breaker_cfg 0 example_backends default_circuit"

definition example_env :: router_env where
  "example_env = \<lparr>re_now = 0, re_admit_at = (\<lambda>_. 0), re_pick = (\<lambda>_ _. 0), re_others = (\<lambda>_ p. p), re_uuid = ''id''\<rparr>"

lemmas example_pool_defs = example_pool_def with_breaker_cfg_def example_backends_def breakers_from_config_def
  breaker_new_def window_new_def backend_new_def

lemma example_candidates: "candidates 0 example_pool = [''c'', ''rust'']"
  by (simp add: candidates_def example_pool_defs is_routable_def weight_def breaker_can_route_def can_route_def)

lemma example_weights: "pool_weight example_pool ''c'' = 3" "pool_weight example_pool ''rust'' = 1"
  by (simp_all add: pool_weight_def pool_get_def example_pool_defs weight_def)

theorem decide_weighted_witness:
  "card {k. k < 4 \<and> map_option dc_backend
     (snd (decide (example_env\<lparr>re_pick := \<lambda>_ _. k\<rparr>) example_pool default_routing)) = Some ''c''} = 3"
proof -
  have "alone example_env" "rt_mode default_routing \<noteq> Shadow" "re_now example_env \<le> re_admit_at example_env 0"
    "distinct (map fst (bp_backends example_pool))"
    "sum_list (map (pool_weight example_pool) (candidates (re_now example_env) example_pool)) < 2 ^ 32"
    by (simp_all add: alone_def example_env_def default_routing_def example_candidates example_weights)
      (simp add: example_pool_defs)
  from conjunct1[OF decide_weighted[OF this]] show ?thesis
    by (simp add: example_env_def example_candidates example_weights)
qed

section \<open>Decisions under interference\<close>

lemma route_loop_mem: "snd (route_loop e i p cs) = Some b \<Longrightarrow> b \<in> set cs"
proof (induction e i p cs rule: route_loop.induct)
  case (1 e i p cs)
  let ?p1 = "re_others e (3 * i) p"
  let ?total = "u32_sum (map (pool_weight ?p1) cs)"
  let ?p2 = "re_others e (3 * i + 1) ?p1"
  show ?case
  proof (cases "?total = 0")
    case True
    then show ?thesis using 1(2) by (subst (asm) route_loop.simps) (simp add: Let_def)
  next
    case total: False
    show ?thesis
    proof (cases "select_candidate (pool_weight ?p2) (re_pick e i ?total) cs")
      case None
      then show ?thesis using 1(2) total by (subst (asm) route_loop.simps) (simp add: Let_def)
    next
      case (Some c)
      obtain p3 adm where adm: "breaker_admit (re_admit_at e i) (re_others e (3 * i + 2) ?p2) c = (p3, adm)" by fastforce
      have c: "c \<in> set cs" using Some by (rule select_candidate_mem)
      show ?thesis
      proof (cases "adm \<or> filter (\<lambda>x. x \<noteq> c) cs = []")
        case True
        then show ?thesis using 1(2) total Some adm c
          by (subst (asm) route_loop.simps) (auto simp: Let_def split: if_splits)
      next
        case False
        have na: "\<not> adm" and ne: "filter (\<lambda>x. x \<noteq> c) cs \<noteq> []" using False by auto
        have rec: "route_loop e i p cs = route_loop e (i + 1) p3 (filter (\<lambda>x. x \<noteq> c) cs)"
          using total Some adm na ne by (subst route_loop.simps) (simp add: Let_def)
        have "b \<in> set (filter (\<lambda>x. x \<noteq> c) cs)"
          by (rule 1(1)[OF refl refl total refl Some adm[symmetric] na refl ne]) (use 1(2) rec in simp)
        then show ?thesis by simp
      qed
    qed
  qed
qed

lemma decide_mem:
  assumes "snd (decide e p rt) = Some d" "rt_mode rt \<noteq> Shadow"
  shows "dc_backend d \<in> set (candidates (re_now e) p)"
proof -
  have "rt_mode rt = ActiveActive \<or> rt_mode rt = Canary" using assms(2) by (cases "rt_mode rt") auto
  then show ?thesis using assms(1)
    by (auto simp: decide_def Let_def split: if_splits prod.splits option.splits intro: route_loop_mem[of e 0 p])
qed

end
