(* ===== verification/Live_State.thy ===== *)
theory Live_State
  imports Weighted_Router
begin

text \<open>
  The live state of the migration proxy, \<open>crates/thttpd-migrate/src/state.rs\<close>, and the start of
  the proxy in \<open>lib.rs\<close>: changes of weights, rollback, the drain flag and the snapshot that is
  written to \<open>state.json\<close>. A command is a plan, the list of its single writes, and its effect is
  that of the writes one after the other; the control lock keeps other commands out, but not the
  router, so that Control_Sessions takes the writes one by one. The serialisation to JSON is a
  parameter; the file system is the contents of each path.
\<close>

section \<open>State\<close>

definition DEFAULT_DRAIN_GRACE_SECS :: nat where
  "DEFAULT_DRAIN_GRACE_SECS = 30"

record live_state =
  ls_config :: proxy_config
  ls_draining :: bool
  ls_drain_grace :: nat
  ls_started_at :: int

definition live_state_new :: "int \<Rightarrow> proxy_config \<Rightarrow> live_state" where
  "live_state_new now cfg =
     \<lparr>ls_config = cfg, ls_draining = False, ls_drain_grace = DEFAULT_DRAIN_GRACE_SECS, ls_started_at = now\<rparr>"

definition set_draining :: "live_state \<Rightarrow> live_state" where
  "set_draining st = st\<lparr>ls_draining := True\<rparr>"

definition set_drain_grace :: "nat \<Rightarrow> live_state \<Rightarrow> live_state" where
  "set_drain_grace secs st = st\<lparr>ls_drain_grace := max secs 1\<rparr>"

section \<open>Weights\<close>

definition pool_update :: "string \<Rightarrow> (backend \<Rightarrow> backend) \<Rightarrow> backend_pool \<Rightarrow> backend_pool" where
  "pool_update n f p = p\<lparr>bp_backends := map (\<lambda>(m, b). (m, if m = n then f b else b)) (bp_backends p)\<rparr>"

definition apply_weights :: "(string \<times> nat) list \<Rightarrow> backend_pool \<Rightarrow> backend_pool" where
  "apply_weights ws p = fold (\<lambda>(n, w). pool_update n (set_weight w)) ws p"

definition mirror_weights ::
  "(string \<times> nat) list \<Rightarrow> (string \<times> backend_config) list \<Rightarrow> (string \<times> backend_config) list" where
  "mirror_weights ws bs =
     fold (\<lambda>(n, w). map (\<lambda>(m, b). (m, if m = n then b\<lparr>bc_weight := w\<rparr> else b))) ws bs"

datatype control_error = UnknownBackend string | ZeroTotal | UnknownTarget string

definition prospective_total :: "backend_pool \<Rightarrow> (string \<times> nat) list \<Rightarrow> nat" where
  "prospective_total p ws =
     sum_list (map (\<lambda>(n, b). case map_of ws n of Some w \<Rightarrow> w | None \<Rightarrow> weight b) (bp_backends p))"

definition filter_name :: "string \<Rightarrow> string option \<Rightarrow> string option" where
  "filter_name target n = (case n of Some m \<Rightarrow> if m \<noteq> target then Some m else None | None \<Rightarrow> None)"

definition or_else :: "'a option \<Rightarrow> 'a option \<Rightarrow> 'a option" where
  "or_else a b = (case a of Some x \<Rightarrow> Some x | None \<Rightarrow> b)"

definition promote_target :: "string \<Rightarrow> (string \<times> backend_config) list \<Rightarrow> routing_config \<Rightarrow> routing_config" where
  "promote_target target backends rt =
     (if rt_mode rt = Shadow \<and> rt_primary_backend rt \<noteq> Some target then
        rt\<lparr>rt_primary_backend := Some target,
           rt_shadow_backend :=
             or_else (filter_name target (rt_primary_backend rt))
               (or_else (filter_name target (rt_shadow_backend rt))
                  (find (\<lambda>n. n \<noteq> target) (map fst backends)))\<rparr>
      else rt)"

text \<open>
  The single writes of the commands: the weight of one backend, which the router reads, the swap of
  the configuration (loaded, changed and stored again, which only the holder of the lock does), the
  grace period and the drain flag.
\<close>

datatype live_write =
  PutWeight string nat
| MirrorWeights "(string \<times> nat) list"
| MirrorRollback "(string \<times> nat) list" string
| PutGrace nat
| PutDraining

fun live_put :: "live_write \<Rightarrow> live_state \<times> backend_pool \<Rightarrow> live_state \<times> backend_pool" where
  "live_put (PutWeight n w) (st, p) = (st, pool_update n (set_weight w) p)"
| "live_put (MirrorWeights ws) (st, p) =
     (st\<lparr>ls_config := (ls_config st)\<lparr>px_backends := mirror_weights ws (px_backends (ls_config st))\<rparr>\<rparr>, p)"
| "live_put (MirrorRollback ws target) (st, p) =
     (let bs = mirror_weights ws (px_backends (ls_config st));
          rt = promote_target target bs (px_routing (ls_config st))
      in (st\<lparr>ls_config := (ls_config st)\<lparr>px_backends := bs, px_routing := rt\<rparr>\<rparr>, p))"
| "live_put (PutGrace secs) (st, p) = (set_drain_grace secs st, p)"
| "live_put PutDraining (st, p) = (set_draining st, p)"

text \<open>A plan: the weights to write, in any order (they are in a hash map), and the writes after them.\<close>

type_synonym live_plan = "(string \<times> nat) list \<times> live_write list"

definition plan_writes :: "live_plan \<Rightarrow> live_write list" where
  "plan_writes pl = map (\<lambda>(n, w). PutWeight n w) (fst pl) @ snd pl"

definition carry_out :: "live_plan \<Rightarrow> live_state \<times> backend_pool \<Rightarrow> live_state \<times> backend_pool" where
  "carry_out pl c = fold live_put (plan_writes pl) c"

definition weights_plan :: "backend_pool \<Rightarrow> (string \<times> nat) list \<Rightarrow> control_error + live_plan" where
  "weights_plan p ws =
     (case find (\<lambda>(n, w). pool_get p n = None) ws of
        Some (n, w) \<Rightarrow> Inl (UnknownBackend n)
      | None \<Rightarrow> ensure (0 < prospective_total p ws) ZeroTotal (Inr (ws, [MirrorWeights ws])))"

definition set_weights ::
  "live_state \<Rightarrow> backend_pool \<Rightarrow> (string \<times> nat) list \<Rightarrow> control_error + (live_state \<times> backend_pool)" where
  "set_weights st p ws =
     (case weights_plan p ws of Inl e \<Rightarrow> Inl e | Inr pl \<Rightarrow> Inr (carry_out pl (st, p)))"

definition rollback_plan :: "backend_pool \<Rightarrow> string \<Rightarrow> control_error + live_plan" where
  "rollback_plan p target =
     ensure (pool_get p target \<noteq> None) (UnknownTarget target)
       (let ws = map (\<lambda>(n, b). (n, if n = target then 100 else 0)) (bp_backends p)
        in Inr (ws, [MirrorRollback ws target]))"

definition rollback :: "live_state \<Rightarrow> backend_pool \<Rightarrow> string \<Rightarrow> control_error + (live_state \<times> backend_pool)" where
  "rollback st p target =
     (case rollback_plan p target of Inl e \<Rightarrow> Inl e | Inr pl \<Rightarrow> Inr (carry_out pl (st, p)))"

section \<open>Snapshots\<close>

record backend_snapshot =
  bs_name :: string
  bs_address :: string
  bs_weight :: nat
  bs_health :: string

record state_snapshot =
  sn_uptime_secs :: nat
  sn_draining :: bool
  sn_backends :: "backend_snapshot list"

fun health_debug :: "health \<Rightarrow> string" where
  "health_debug Healthy = ''Healthy''"
| "health_debug Degraded = ''Degraded''"
| "health_debug Unhealthy = ''Unhealthy''"

definition snapshot :: "int \<Rightarrow> live_state \<Rightarrow> backend_pool \<Rightarrow> state_snapshot" where
  "snapshot now st p =
     \<lparr>sn_uptime_secs = nat ((now - ls_started_at st) div SECOND), sn_draining = ls_draining st,
      sn_backends = map (\<lambda>(n, b). \<lparr>bs_name = be_name b, bs_address = bc_address (be_config b), bs_weight = weight b,
        bs_health = health_debug (be_health b)\<rparr>) (bp_backends p)\<rparr>"

text \<open>\<open>Path::with_extension\<close> on a path that ends in a file name: the name up to its last full stop,
  when that is not its first byte, and the new extension.\<close>

definition with_extension :: "string \<Rightarrow> string \<Rightarrow> string" where
  "with_extension ext path =
     (let (dir, name) = (case rfind_byte (CHR ''/'') path of
            Some i \<Rightarrow> (take (i + 1) path, drop (i + 1) path) | None \<Rightarrow> ([], path));
          stem = (case rfind_byte (CHR ''.'') name of Some i \<Rightarrow> if i = 0 then name else take i name | None \<Rightarrow> name)
      in dir @ stem @ ''.'' @ ext)"

text \<open>The contents of the files after each of the system calls; the second may be cut short.\<close>

definition write_state_atomic ::
  "(state_snapshot \<Rightarrow> string) \<Rightarrow> nat \<Rightarrow> (string \<rightharpoonup> string) \<Rightarrow> string \<Rightarrow> state_snapshot \<Rightarrow> (string \<rightharpoonup> string) list" where
  "write_state_atomic to_json n fs path snap =
     (let tmp = with_extension ''json.tmp'' path;
          text = to_json snap;
          partial = fs(tmp \<mapsto> take n text);
          full = fs(tmp \<mapsto> text)
      in [fs, partial, full, full(tmp := None, path \<mapsto> text)])"

section \<open>Command line\<close>

definition effective_log_level :: "string option \<Rightarrow> string \<Rightarrow> string" where
  "effective_log_level cli config = (case cli of Some l \<Rightarrow> l | None \<Rightarrow> config)"

datatype pair_error = NoEquals string | BadWeight string

fun parse_weight_pairs :: "string list \<Rightarrow> (string \<times> nat) list \<Rightarrow> pair_error + (string \<times> nat) list" where
  "parse_weight_pairs [] ws = Inr ws"
| "parse_weight_pairs (p # ps) ws =
     (case split_once (CHR ''='') p of
        None \<Rightarrow> Inl (NoEquals p)
      | Some (name, val) \<Rightarrow>
          (case parse_u32 val of
             None \<Rightarrow> Inl (BadWeight val)
           | Some w \<Rightarrow> parse_weight_pairs ps (AList.update name w ws)))"

text \<open>What \<open>start\<close> makes of a configuration before it serves.\<close>

definition proxy_start ::
  "(string \<Rightarrow> bool) \<Rightarrow> (string \<Rightarrow> bool) \<Rightarrow> int \<Rightarrow> proxy_config \<Rightarrow> config_error + (live_state \<times> backend_pool)" where
  "proxy_start parse_sock parse_uri now cfg =
     (case validate parse_sock parse_uri cfg of
        Inl e \<Rightarrow> Inl e
      | Inr _ \<Rightarrow> Inr (live_state_new now cfg, with_breaker_cfg now (px_backends cfg) (px_circuit_breaker cfg)))"

section \<open>Lemmas\<close>

lemma pool_update_names [simp]:
  "map fst (bp_backends (pool_update n f p)) = map fst (bp_backends p)" "bp_breakers (pool_update n f p) = bp_breakers p"
  by (auto simp: pool_update_def)

lemma map_of_values: "map_of (map (\<lambda>(m, b). (m, g m b)) xs) n = map_option (g n) (map_of xs n)"
  by (induction xs) auto

lemma pool_get_update: "pool_get (pool_update n f p) m = (if m = n then map_option f (pool_get p m) else pool_get p m)"
  by (simp add: pool_get_def pool_update_def map_of_values option.map_id[unfolded id_def])

lemma apply_weights_Cons: "apply_weights ((n, w) # ws) p = apply_weights ws (pool_update n (set_weight w) p)"
  by (simp add: apply_weights_def)

lemma apply_weights_Nil [simp]: "apply_weights [] p = p"
  by (simp add: apply_weights_def)

lemma put_weights: "fold live_put (map (\<lambda>(n, w). PutWeight n w) ws) (st, p) = (st, apply_weights ws p)"
  by (induction ws arbitrary: p) (auto simp: apply_weights_Cons)

lemma carry_out_eq: "carry_out (ws, fs) (st, p) = fold live_put fs (st, apply_weights ws p)"
  by (simp add: carry_out_def plan_writes_def put_weights)

text \<open>What the commands come to.\<close>

lemma set_weights_eq:
  "set_weights st p ws =
     (case find (\<lambda>(n, w). pool_get p n = None) ws of
        Some (n, w) \<Rightarrow> Inl (UnknownBackend n)
      | None \<Rightarrow>
          ensure (0 < prospective_total p ws) ZeroTotal
            (Inr (st\<lparr>ls_config := (ls_config st)\<lparr>px_backends := mirror_weights ws (px_backends (ls_config st))\<rparr>\<rparr>,
                  apply_weights ws p)))"
  by (auto simp: set_weights_def weights_plan_def carry_out_eq ensure_def split: option.split)

lemma rollback_eq:
  "rollback st p target =
     ensure (pool_get p target \<noteq> None) (UnknownTarget target)
       (let ws = map (\<lambda>(n, b). (n, if n = target then 100 else 0)) (bp_backends p);
            bs = mirror_weights ws (px_backends (ls_config st));
            rt = promote_target target bs (px_routing (ls_config st))
        in Inr (st\<lparr>ls_config := (ls_config st)\<lparr>px_backends := bs, px_routing := rt\<rparr>\<rparr>, apply_weights ws p))"
  by (simp add: rollback_def rollback_plan_def carry_out_eq ensure_def Let_def)

lemma apply_weights_names [simp]:
  "map fst (bp_backends (apply_weights ws p)) = map fst (bp_backends p)"
  "bp_breakers (apply_weights ws p) = bp_breakers p"
  by (induction ws arbitrary: p) (auto simp: apply_weights_Cons)

lemma set_weight_idem [simp]: "set_weight v (set_weight w b) = set_weight v b"
  by (simp add: set_weight_def)

lemma pool_get_apply_weights:
  assumes "distinct (map fst ws)"
  shows "pool_get (apply_weights ws p) n =
    map_option (case map_of ws n of None \<Rightarrow> id | Some w \<Rightarrow> set_weight w) (pool_get p n)"
  using assms
proof (induction ws arbitrary: p)
  case (Cons x ws)
  obtain m w where x: "x = (m, w)" by (cases x)
  have "map_of ws m = None" using Cons.prems x by (simp add: map_of_eq_None_iff)
  then show ?case using Cons x
    by (auto simp: apply_weights_Cons pool_get_update option.map_comp o_def id_def split: option.splits)
qed (simp add: option.map_id)

lemma mirror_weights_get:
  assumes "distinct (map fst ws)"
  shows "map_of (mirror_weights ws bs) n =
    map_option (case map_of ws n of None \<Rightarrow> id | Some w \<Rightarrow> (\<lambda>b. b\<lparr>bc_weight := w\<rparr>)) (map_of bs n)"
  using assms
proof (induction ws arbitrary: bs)
  case (Cons x ws)
  obtain m w where x: "x = (m, w)" by (cases x)
  have "map_of ws m = None" using Cons.prems x by (simp add: map_of_eq_None_iff)
  moreover have "mirror_weights (x # ws) bs =
      mirror_weights ws (map (\<lambda>(k, b). (k, if k = m then b\<lparr>bc_weight := w\<rparr> else b)) bs)"
    by (simp add: mirror_weights_def x)
  ultimately show ?case using Cons x
    by (auto simp: map_of_values option.map_comp o_def id_def split: option.splits)
qed (simp add: mirror_weights_def option.map_id)

lemma breaker_can_route_apply [simp]: "breaker_can_route now (apply_weights ws p) n = breaker_can_route now p n"
  by (simp add: breaker_can_route_def)

section \<open>Rollback\<close>

lemma pool_weight_pos_eligible:
  assumes "distinct (map fst (bp_backends p))" "pool_get p n = Some b" "is_routable b" "0 < weight b" "breaker_can_route now p n"
  shows "n \<in> set (candidates now p)"
proof -
  have "(n, b) \<in> set (bp_backends p)" using assms(2) by (auto simp: pool_get_def dest: map_of_SomeD)
  then show ?thesis using assms by (force simp: candidates_def)
qed

lemma rollback_weights:
  assumes "rollback st p target = Inr (st', p')" "distinct (map fst (bp_backends p))"
  shows "pool_get p' n = map_option (set_weight (if n = target then 100 else 0)) (pool_get p n)"
    and "map fst (bp_backends p') = map fst (bp_backends p)" "bp_breakers p' = bp_breakers p"
    and "pool_get p target \<noteq> None"
proof -
  let ?ws = "map (\<lambda>(n, b). (n, if n = target then 100 else 0)) (bp_backends p)"
  have p': "p' = apply_weights ?ws p" using assms(1) by (simp add: rollback_eq Let_def)
  have d: "distinct (map fst ?ws)" using assms(2) by (simp add: case_prod_unfold o_def)
  have ws: "map_of ?ws n = map_option (\<lambda>b. if n = target then 100 else 0) (pool_get p n)"
    by (simp add: pool_get_def map_of_values)
  show "pool_get p' n = map_option (set_weight (if n = target then 100 else 0)) (pool_get p n)"
    unfolding p' pool_get_apply_weights[OF d] ws by (cases "pool_get p n") auto
  show "map fst (bp_backends p') = map fst (bp_backends p)" "bp_breakers p' = bp_breakers p" by (simp_all add: p')
  show "pool_get p target \<noteq> None" using assms(1) by (simp add: rollback_eq)
qed

lemma rollback_routing:
  assumes "rollback st p target = Inr (st', p')"
  shows "rt_mode (px_routing (ls_config st')) = rt_mode (px_routing (ls_config st))"
    and "rt_mode (px_routing (ls_config st')) = Shadow \<Longrightarrow> rt_primary_backend (px_routing (ls_config st')) = Some target"
  using assms by (auto simp: rollback_eq Let_def promote_target_def)

lemma rollback_only_target:
  assumes "rollback st p target = Inr (st', p')" "distinct (map fst (bp_backends p))" "n \<in> set (candidates now p')"
  shows "n = target"
proof -
  note w = rollback_weights[OF assms(1,2)]
  have "distinct (map fst (bp_backends p'))" using w(2) assms(2) by simp
  from candidates_eligible[OF this assms(3)] show ?thesis using w(1)[of n] by (auto split: if_splits)
qed

lemma rollback_decides:
  assumes "rollback st p target = Inr (st', p')" "distinct (map fst (bp_backends p))"
    and "snd (decide e p' (px_routing (ls_config st'))) = Some d"
  shows "dc_backend d = target \<and> dc_shadow d \<noteq> Some target"
proof
  show t: "dc_backend d = target"
  proof (cases "rt_mode (px_routing (ls_config st')) = Shadow")
    case True
    then show ?thesis using assms(3) rollback_routing(2)[OF assms(1)]
      by (auto simp: decide_def Let_def split: if_splits option.splits prod.splits)
  next
    case False
    then show ?thesis using decide_mem[OF assms(3) False] rollback_only_target[OF assms(1,2)] by blast
  qed
  show "dc_shadow d \<noteq> Some target"
    using assms(3) t by (auto simp: decide_def Let_def split: if_splits option.splits prod.splits)
qed

lemma rollback_progress:
  assumes "rollback st p target = Inr (st', p')" "distinct (map fst (bp_backends p))"
    and e: "alone e" "re_now e \<le> re_admit_at e 0"
    and b: "pool_get p target = Some b" "is_routable b" "breaker_can_route (re_now e) p target"
  shows "snd (decide e p' (px_routing (ls_config st'))) \<noteq> None"
proof -
  note w = rollback_weights[OF assms(1,2)]
  have d': "distinct (map fst (bp_backends p'))" using w(2) assms(2) by simp
  have b': "pool_get p' target = Some (set_weight 100 b)" using b(1) w(1)[of target] by simp
  have can: "breaker_can_route (re_now e) p' target" using b(3) w(3) by (simp add: breaker_can_route_def)
  show ?thesis
  proof (cases "rt_mode (px_routing (ls_config st')) = Shadow")
    case True
    have "snd (breaker_admit (re_admit_at e 0) p' target)" using breaker_admit_later can e(2) by blast
    then show ?thesis using True rollback_routing(2)[OF assms(1)] e(1) b(2) b' can
      by (auto simp: decide_def Let_def alone_def split: prod.splits)
  next
    case False
    have "target \<in> set (candidates (re_now e) p')"
      by (rule pool_weight_pos_eligible[OF d' b']) (use b can in auto)
    then have set: "set (candidates (re_now e) p') = {target}" using rollback_only_target[OF assms(1,2)] by blast
    then have "length (candidates (re_now e) p') = 1"
      using distinct_card[OF candidates_distinct[OF d', of "re_now e"]] by simp
    then obtain x where "candidates (re_now e) p' = [x]" by (auto simp: length_Suc_conv)
    then have cs: "candidates (re_now e) p' = [target]" using set by simp
    show ?thesis unfolding decide_alone[OF e(1) False e(2) d'] cs by (simp add: Let_def u32_sum_def pool_weight_def b')
  qed
qed

text \<open>
  C15. Rollback takes effect at once in every mode. When a rollback to a backend has returned, every
  decision with the live configuration is for that backend, whatever the random numbers are and
  whatever other tasks do to the pool once the decision has listed its candidates, and the backend is never its own shadow; a decision that
  runs alone is made whenever the backend is healthy and its breaker lets it through.
\<close>
theorem rollback_routes_to_target:
  assumes "rollback st p target = Inr (st', p')" "distinct (map fst (bp_backends p))"
  shows "(\<forall>e d. snd (decide e p' (px_routing (ls_config st'))) = Some d \<longrightarrow>
      dc_backend d = target \<and> dc_shadow d \<noteq> Some target) \<and>
    (\<forall>e b. alone e \<and> re_now e \<le> re_admit_at e 0 \<and> pool_get p target = Some b \<and> is_routable b \<and>
        breaker_can_route (re_now e) p target \<longrightarrow>
      snd (decide e p' (px_routing (ls_config st'))) \<noteq> None)"
  using rollback_decides[OF assms] rollback_progress[OF assms] by blast

definition example_config :: proxy_config where
  "example_config =
     \<lparr>px_listen = ''127.0.0.1:8080'', px_log_level = default_log_level, px_state_path = default_state_path,
      px_control_socket = default_control_socket, px_metrics = default_metrics, px_shadow = default_shadow,
      px_backends = example_backends, px_routing = default_routing, px_health = default_health,
      px_circuit_breaker = default_circuit\<rparr>"

lemma example_distinct: "distinct (map fst (bp_backends example_pool))"
  by (simp add: example_pool_defs)

lemma example_rust:
  "\<exists>b. pool_get example_pool ''rust'' = Some b \<and> is_routable b \<and> breaker_can_route 0 example_pool ''rust''"
  by (simp add: pool_get_def example_pool_defs is_routable_def breaker_can_route_def can_route_def)

theorem rollback_routes_to_target_witness:
  "\<exists>st' p' d. rollback (live_state_new 0 example_config) example_pool ''rust'' = Inr (st', p') \<and>
     snd (decide example_env p' (px_routing (ls_config st'))) = Some d \<and> dc_backend d = ''rust''"
proof -
  obtain st' p' where r: "rollback (live_state_new 0 example_config) example_pool ''rust'' = Inr (st', p')"
    using example_rust by (auto simp: rollback_eq ensure_def Let_def)
  note t = rollback_routes_to_target[OF r example_distinct]
  have "snd (decide example_env p' (px_routing (ls_config st'))) \<noteq> None"
    using conjunct2[OF t] example_rust by (auto simp: alone_def example_env_def)
  then show ?thesis using r conjunct1[OF t] by blast
qed

section \<open>A validated configuration serves\<close>

lemma fresh_can_route: "breaker_can_route t (with_breaker_cfg now bs cfg) n"
  by (simp add: breaker_can_route_def with_breaker_cfg_def breakers_from_config_def can_route_def breaker_new_def)

lemma candidates_weights:
  assumes "distinct (map fst (bp_backends p))"
    and "\<And>n b. (n, b) \<in> set (bp_backends p) \<Longrightarrow> is_routable b \<and> breaker_can_route now p n"
  shows "map (pool_weight p) (candidates now p) = filter (\<lambda>w. 0 < w) (map (\<lambda>(n, b). weight b) (bp_backends p))"
proof -
  let ?bs = "filter (\<lambda>(n, b). 0 < weight b) (bp_backends p)"
  have cs: "candidates now p = map fst ?bs"
    unfolding candidates_def using assms(2) by (intro arg_cong[of _ _ "map fst"] filter_cong) auto
  have "pool_weight p n = weight b" if "(n, b) \<in> set ?bs" for n b
    using that map_of_is_SomeI[OF assms(1), of n b] by (simp add: pool_weight_def pool_get_def)
  then have "map (pool_weight p) (candidates now p) = map (\<lambda>(n, b). weight b) ?bs" by (auto simp: cs)
  then show ?thesis by (simp add: filter_map o_def case_prod_unfold)
qed

lemma decide_all_eligible:
  assumes "alone e" "rt_mode rt \<noteq> Shadow" "re_now e \<le> re_admit_at e 0" "distinct (map fst (bp_backends p))"
    and "\<And>n b. (n, b) \<in> set (bp_backends p) \<Longrightarrow> is_routable b \<and> breaker_can_route (re_now e) p n"
  shows "snd (decide e p rt) = None \<longleftrightarrow> u32_sum (map (\<lambda>(n, b). weight b) (bp_backends p)) = 0"
  unfolding decide_alone[OF assms(1-4)] by (simp add: Let_def candidates_weights[OF assms(4,5)] u32_sum_zeros)

text \<open>
  A configuration that passes the validation serves: the proxy started from it finds a backend
  for the first request in every mode, and in shadow mode that is the configured primary, mirrored
  to the configured shadow.
\<close>
theorem valid_config_serves:
  assumes "proxy_start parse_sock parse_uri now cfg = Inr (st, p)" "distinct (map fst (px_backends cfg))"
    and "alone e" "re_now e \<le> re_admit_at e 0"
  shows "\<exists>d. snd (decide e p (px_routing (ls_config st))) = Some d \<and>
    (rt_mode (px_routing cfg) = Shadow \<longrightarrow>
       rt_primary_backend (px_routing cfg) = Some (dc_backend d) \<and> dc_shadow d = rt_shadow_backend (px_routing cfg))"
proof -
  have v: "validate parse_sock parse_uri cfg = Inr ()" and st: "ls_config st = cfg"
    and p: "p = with_breaker_cfg now (px_backends cfg) (px_circuit_breaker cfg)"
    using assms(1) by (auto simp: proxy_start_def live_state_new_def split: sum.splits)
  have bs: "bp_backends p = map (\<lambda>(n, c). (n, backend_new n c)) (px_backends cfg)" by (simp add: p with_breaker_cfg_def)
  have names: "map fst (bp_backends p) = map fst (px_backends cfg)" by (auto simp: bs)
  show ?thesis
  proof (cases "rt_mode (px_routing cfg) = Shadow")
    case True
    obtain m s cm cs where ms: "rt_primary_backend (px_routing cfg) = Some m" "rt_shadow_backend (px_routing cfg) = Some s" "m \<noteq> s"
      "map_of (px_backends cfg) m = Some cm" "map_of (px_backends cfg) s = Some cs"
      using validate_Inr(2)[OF v True] by auto
    have can: "breaker_can_route t p n" for t n by (simp add: p fresh_can_route)
    obtain p1 where p1: "breaker_admit (re_admit_at e 0) p m = (p1, True)"
      using breaker_can_route_admit[of "re_admit_at e 0" p m] can by (metis prod.collapse)
    have get: "pool_get p m = Some (backend_new m cm)" "pool_get p s = Some (backend_new s cs)"
      using ms by (simp_all add: p pool_get_new)
    have "pool_get p1 = pool_get p" "bp_breakers p1 s = bp_breakers p s"
      using breaker_admit_backends(2)[of "re_admit_at e 0" p m] breaker_admit_other[OF ms(3)[symmetric], of "re_admit_at e 0" p] p1
      by simp_all
    then have "breaker_can_route (re_now e) p1 s" using can[of "re_now e" s] by (simp add: breaker_can_route_def)
    then show ?thesis using True ms can p1 get assms(3) \<open>pool_get p1 = pool_get p\<close>
      by (auto simp: decide_def st Let_def alone_def)
  next
    case False
    have "snd (decide e p (px_routing (ls_config st))) = None \<longleftrightarrow> u32_sum (map (\<lambda>(n, b). weight b) (bp_backends p)) = 0"
    proof (rule decide_all_eligible[OF assms(3) _ assms(4)])
      show "rt_mode (px_routing (ls_config st)) \<noteq> Shadow" using False by (simp add: st)
      show "distinct (map fst (bp_backends p))" using assms(2) by (simp only: names)
      show "is_routable b \<and> breaker_can_route (re_now e) p n" if "(n, b) \<in> set (bp_backends p)" for n b
        using that by (auto simp: bs) (simp add: p fresh_can_route)
    qed
    moreover have "map (\<lambda>(n, b). weight b) (bp_backends p) = map (\<lambda>(n, b). bc_weight b) (px_backends cfg)"
      by (auto simp: bs)
    ultimately show ?thesis using validate_Inr(1)[OF v] False by auto
  qed
qed

lemma example_starts: "\<exists>c. proxy_start (\<lambda>_. True) (\<lambda>_. True) 0 example_config = Inr c"
proof -
  have "validate_backend_address (\<lambda>_. True) ''127.0.0.1:8081'' = Inr ()"
    "validate_backend_address (\<lambda>_. True) ''127.0.0.1:8082'' = Inr ()" by code_simp+
  then have "validate (\<lambda>_. True) (\<lambda>_. True) example_config = Inr ()"
    by (simp add: validate_def validate_shadow_def example_config_def example_backends_def default_routing_def u32_sum_def)
  then show ?thesis by (simp add: proxy_start_def)
qed

theorem valid_config_serves_witness:
  "\<exists>st p d. proxy_start (\<lambda>_. True) (\<lambda>_. True) 0 example_config = Inr (st, p) \<and>
     snd (decide example_env p (px_routing (ls_config st))) = Some d"
proof -
  obtain st p where s: "proxy_start (\<lambda>_. True) (\<lambda>_. True) 0 example_config = Inr (st, p)"
    using example_starts by auto
  have "distinct (map fst (px_backends example_config))" by (simp add: example_config_def example_backends_def)
  from valid_config_serves[OF s this, of example_env] s show ?thesis by (auto simp: alone_def example_env_def)
qed

text \<open>
  C30. Weights that wrap. The control command checks the sum of the weights in 64 bits, the router
  adds them in 32: when the accepted weights add up to a multiple of 2^32, every request of
  active-active and canary mode is refused although all backends are eligible.
\<close>
theorem weights_wrap_unavailable:
  assumes "set_weights st p ws = Inr (st', p')" "alone e" "rt_mode rt \<noteq> Shadow" "re_now e \<le> re_admit_at e 0"
    and "distinct (map fst (bp_backends p'))"
    and "list_all (\<lambda>(n, b). is_routable b \<and> breaker_can_route (re_now e) p' n) (bp_backends p')"
    and "2 ^ 32 dvd sum_list (map (\<lambda>(n, b). weight b) (bp_backends p'))"
  shows "snd (decide e p' rt) = None"
proof -
  have "snd (decide e p' rt) = None \<longleftrightarrow> u32_sum (map (\<lambda>(n, b). weight b) (bp_backends p')) = 0"
    by (rule decide_all_eligible[OF assms(2-5)]) (use assms(6) in \<open>auto simp: list_all_iff\<close>)
  then show ?thesis using assms(7) by (simp add: u32_sum_eq)
qed

theorem weights_wrap_unavailable_witness:
  "\<exists>st' p'. set_weights (live_state_new 0 example_config) example_pool [(''c'', 2 ^ 31), (''rust'', 2 ^ 31)] = Inr (st', p') \<and>
     snd (decide example_env p' default_routing) = None"
proof -
  let ?ws = "[(''c'', 2 ^ 31), (''rust'', 2 ^ 31)]" and ?p' = "apply_weights [(''c'', 2 ^ 31), (''rust'', 2 ^ 31)] example_pool"
  obtain st' where s: "set_weights (live_state_new 0 example_config) example_pool ?ws = Inr (st', ?p')"
    by (simp add: set_weights_eq pool_get_def prospective_total_def example_pool_defs)
  have "snd (decide example_env ?p' default_routing) = None"
    by (rule weights_wrap_unavailable[OF s])
      (simp_all add: alone_def example_env_def default_routing_def breaker_can_route_def example_pool_defs
        apply_weights_def pool_update_def set_weight_def weight_def is_routable_def can_route_def)
  then show ?thesis using s by blast
qed

section \<open>The state file\<close>

lemma with_extension_tmp_other: "with_extension ''json.tmp'' path \<noteq> path"
proof
  assume eq: "with_extension ''json.tmp'' path = path"
  obtain dir name where dn: "path = dir @ name" "with_extension ''json.tmp'' path = dir @
      (case rfind_byte (CHR ''.'') name of Some i \<Rightarrow> if i = 0 then name else take i name | None \<Rightarrow> name) @ ''.json.tmp''"
  proof (cases "rfind_byte (CHR ''/'') path")
    case None
    then show thesis using that[of "[]" path] by (simp add: with_extension_def)
  next
    case (Some i)
    then show thesis using that[of "take (i + 1) path" "drop (i + 1) path"] by (simp add: with_extension_def cong: option.case_cong if_cong)
  qed
  let ?stem = "case rfind_byte (CHR ''.'') name of Some i \<Rightarrow> if i = 0 then name else take i name | None \<Rightarrow> name"
  have name: "name = ?stem @ ''.json.tmp''" using eq dn by simp
  then obtain i where i: "rfind_byte (CHR ''.'') name = Some i" "i \<noteq> 0" "name = take i name @ ''.json.tmp''"
    by (auto split: option.splits if_splits)
  have le: "i \<le> length name" using i(3) by (cases "i \<le> length name") auto
  have "CHR ''.'' \<in> set (drop (i + 1) name)" by (subst i(3)) (simp add: le)
  then show False using rfind_byte_split[OF i(1)] by simp
qed

text \<open>A reader of the state file sees the old file or the whole new one after every system call.\<close>

lemma write_state_atomic_whole:
  "fs' \<in> set (write_state_atomic to_json n fs path snap) \<Longrightarrow> fs' path = fs path \<or> fs' path = Some (to_json snap)"
  using with_extension_tmp_other[of path] by (auto simp: write_state_atomic_def Let_def split: if_splits)

lemma write_state_atomic_done:
  "last (write_state_atomic to_json n fs path snap) path = Some (to_json snap)"
  by (simp add: write_state_atomic_def Let_def)

end
