(* ===== verification/Control_Plane.thy ===== *)
theory Control_Plane
  imports Live_State
begin

text \<open>
  The control plane of the migration proxy, \<open>crates/thttpd-migrate/src/control.rs\<close>: the requests,
  their dispatch under the control lock, the framing on the socket, and the preparation of the
  socket path. The serialisation of requests and responses to JSON is a parameter. A message of a
  response is kept as its format with its arguments. What the file system and the socket answer
  during the preparation of the path are inputs.
\<close>

section \<open>Requests and responses\<close>

definition PROTOCOL_VERSION :: nat where
  "PROTOCOL_VERSION = 1"

datatype control_request =
  CrSetWeight "(string \<times> nat) list" | CrRollback string | CrDrain nat | CrSnapshot

datatype control_message =
  WeightsUpdated "(string \<times> nat) list" | SetWeightFailed control_error | RolledBack string
| RollbackFailed control_error | DrainStarted nat | MsgOk

record control_response =
  cr_ok :: bool
  cr_message :: control_message
  cr_snapshot :: "state_snapshot option"
  cr_version :: nat

definition response_ok :: "control_message \<Rightarrow> state_snapshot option \<Rightarrow> control_response" where
  "response_ok m snap = \<lparr>cr_ok = True, cr_message = m, cr_snapshot = snap, cr_version = PROTOCOL_VERSION\<rparr>"

definition response_err :: "control_message \<Rightarrow> control_response" where
  "response_err m = \<lparr>cr_ok = False, cr_message = m, cr_snapshot = None, cr_version = PROTOCOL_VERSION\<rparr>"

text \<open>The last component is the snapshot handed to the writer of the state file.\<close>

fun handle_request ::
  "int \<Rightarrow> live_state \<times> backend_pool \<Rightarrow> control_request \<Rightarrow>
     (live_state \<times> backend_pool) \<times> control_response \<times> state_snapshot option" where
  "handle_request now (st, p) (CrSetWeight ws) =
     (case set_weights st p ws of
        Inr (st', p') \<Rightarrow>
          (let snap = snapshot now st' p' in ((st', p'), response_ok (WeightsUpdated ws) (Some snap), Some snap))
      | Inl e \<Rightarrow> ((st, p), response_err (SetWeightFailed e), None))"
| "handle_request now (st, p) (CrRollback to) =
     (case rollback st p to of
        Inr (st', p') \<Rightarrow>
          (let snap = snapshot now st' p' in ((st', p'), response_ok (RolledBack to) (Some snap), Some snap))
      | Inl e \<Rightarrow> ((st, p), response_err (RollbackFailed e), None))"
| "handle_request now (st, p) (CrDrain timeout_secs) =
     (let st' = set_draining (set_drain_grace timeout_secs st);
          snap = snapshot now st' p
      in ((st', p), response_ok (DrainStarted timeout_secs) (Some snap), Some snap))"
| "handle_request now (st, p) CrSnapshot = ((st, p), response_ok MsgOk (Some (snapshot now st p)), None)"

section \<open>Framing\<close>

definition be_bytes :: "nat \<Rightarrow> bytes" where
  "be_bytes n = map byte_of [n div 2 ^ 24 mod 256, n div 2 ^ 16 mod 256, n div 2 ^ 8 mod 256, n mod 256]"

definition from_be_bytes :: "bytes \<Rightarrow> nat" where
  "from_be_bytes bs = foldl (\<lambda>a b. a * 256 + byte_val b) 0 bs"

definition write_frame :: "bytes \<Rightarrow> bytes" where
  "write_frame bs = be_bytes (length bs mod 2 ^ 32) @ bs"

datatype frame_error = UnexpectedEof | FrameTooLarge nat | BadJson

definition read_exact :: "nat \<Rightarrow> bytes \<Rightarrow> (bytes \<times> bytes) option" where
  "read_exact n s = (if n \<le> length s then Some (take n s, drop n s) else None)"

definition read_frame :: "bytes \<Rightarrow> frame_error + bytes \<times> bytes" where
  "read_frame s =
     (case read_exact 4 s of
        None \<Rightarrow> Inl UnexpectedEof
      | Some (len_buf, s1) \<Rightarrow>
          (let len = from_be_bytes len_buf in
           ensure (len \<le> 16 * 1024 * 1024) (FrameTooLarge len)
             (case read_exact len s1 of None \<Rightarrow> Inl UnexpectedEof | Some (buf, s2) \<Rightarrow> Inr (buf, s2))))"

definition read_message :: "(bytes \<Rightarrow> 'a option) \<Rightarrow> bytes \<Rightarrow> frame_error + 'a" where
  "read_message from_json s =
     (case read_frame s of
        Inl e \<Rightarrow> Inl e
      | Inr (bs, _) \<Rightarrow> (case from_json bs of None \<Rightarrow> Inl BadJson | Some r \<Rightarrow> Inr r))"

section \<open>Connections\<close>

text \<open>One connection: the bytes the client sends, the new state, and the bytes sent back.\<close>

definition handle_conn ::
  "(bytes \<Rightarrow> control_request option) \<Rightarrow> (control_response \<Rightarrow> bytes) \<Rightarrow> int \<Rightarrow> bytes \<Rightarrow> live_state \<times> backend_pool \<Rightarrow>
     (live_state \<times> backend_pool) \<times> (frame_error + bytes)" where
  "handle_conn from_json to_json now s c =
     (case read_message from_json s of
        Inl e \<Rightarrow> (c, Inl e)
      | Inr req \<Rightarrow> (case handle_request now c req of (c', resp, snap) \<Rightarrow> (c', Inr (write_frame (to_json resp)))))"

definition send_request ::
  "(control_request \<Rightarrow> bytes) \<Rightarrow> (bytes \<Rightarrow> control_response option) \<Rightarrow> (bytes \<Rightarrow> bytes) \<Rightarrow> control_request \<Rightarrow>
     frame_error + control_response" where
  "send_request to_json from_json exchange req = read_message from_json (exchange (write_frame (to_json req)))"

section \<open>The socket path\<close>

datatype path_meta = MetaNotFound | MetaError | MetaSocket | MetaOther
datatype connect_result = Connected | ConnectRefused | ConnectError
datatype socket_error = ParentFailed | Unreadable | NotASocket | InUse | NoProbe | RemoveFailed

text \<open>The flag says whether the file at the path has been removed.\<close>

definition prepare_control_socket_path ::
  "bool \<Rightarrow> path_meta \<Rightarrow> connect_result \<Rightarrow> bool \<Rightarrow> (socket_error + unit) \<times> bool" where
  "prepare_control_socket_path parent_ok meta probe remove_ok =
     (if \<not> parent_ok then (Inl ParentFailed, False)
      else case meta of
             MetaNotFound \<Rightarrow> (Inr (), False)
           | MetaError \<Rightarrow> (Inl Unreadable, False)
           | MetaOther \<Rightarrow> (Inl NotASocket, False)
           | MetaSocket \<Rightarrow>
               (case probe of
                  Connected \<Rightarrow> (Inl InUse, False)
                | ConnectRefused \<Rightarrow> if remove_ok then (Inr (), True) else (Inl RemoveFailed, False)
                | ConnectError \<Rightarrow> (Inl NoProbe, False)))"

lemma prepare_removes_only_stale:
  "snd (prepare_control_socket_path parent_ok meta probe remove_ok) \<longleftrightarrow>
     parent_ok \<and> meta = MetaSocket \<and> probe = ConnectRefused \<and> remove_ok"
  by (auto simp: prepare_control_socket_path_def split: path_meta.splits connect_result.splits)

section \<open>Frames\<close>

lemma byte_val_of_mod: "byte_val (byte_of n) = n mod 256"
  by (simp add: byte_val_def byte_of_def)

lemma be_bytes_inverse: "n < 2 ^ 32 \<Longrightarrow> from_be_bytes (be_bytes n) = n"
proof -
  assume "n < 2 ^ 32"
  then have 0: "n div 16777216 mod 256 = n div 16777216" by simp
  have 1: "n div 16777216 * 256 + n div 65536 mod 256 = n div 65536"
    using div_mult_mod_eq[of "n div 65536" 256] by (simp add: div_mult2_eq[symmetric])
  have 2: "n div 65536 * 256 + n div 256 mod 256 = n div 256"
    using div_mult_mod_eq[of "n div 256" 256] by (simp add: div_mult2_eq[symmetric])
  have "from_be_bytes (be_bytes n) =
      ((n div 16777216 mod 256 * 256 + n div 65536 mod 256) * 256 + n div 256 mod 256) * 256 + n mod 256"
    by (simp add: be_bytes_def from_be_bytes_def byte_val_of_mod)
  then show ?thesis by (simp only: 0 1 2 div_mult_mod_eq)
qed

lemma length_be_bytes [simp]: "length (be_bytes n) = 4"
  by (simp add: be_bytes_def)

lemma read_frame_header:
  assumes "length bs < 2 ^ 32"
  shows "read_frame (be_bytes (length bs) @ s) =
    (if length bs \<le> 16 * 1024 * 1024
     then case read_exact (length bs) s of None \<Rightarrow> Inl UnexpectedEof | Some (buf, s2) \<Rightarrow> Inr (buf, s2)
     else Inl (FrameTooLarge (length bs)))"
  using be_bytes_inverse[OF assms] by (simp add: read_frame_def read_exact_def Let_def ensure_def)

text \<open>What a connection needs of a framing: a message is read back from the front of the stream.\<close>

locale framing =
  fixes put :: "'a \<Rightarrow> bytes"
    and get :: "bytes \<Rightarrow> 'e + 'a \<times> bytes"
    and ok :: "'a \<Rightarrow> bool"
  assumes get_put: "ok x \<Longrightarrow> get (put x @ rest) = Inr (x, rest)"
begin

lemma get_put_end: "ok x \<Longrightarrow> get (put x) = Inr (x, [])"
  using get_put[of x "[]"] by simp

lemma put_inject: "ok x \<Longrightarrow> ok y \<Longrightarrow> put x @ r = put y @ r' \<longleftrightarrow> x = y \<and> r = r'"
  by (metis Inr_inject get_put prod.inject)

end

interpretation control_frames: framing write_frame read_frame "\<lambda>bs. length bs \<le> 16 * 1024 * 1024"
proof unfold_locales
  fix bs rest :: bytes
  assume l: "length bs \<le> 16 * 1024 * 1024"
  then have "length bs < 2 ^ 32" by simp
  from read_frame_header[OF this, of "bs @ rest"] l show "read_frame (write_frame bs @ rest) = Inr (bs, rest)"
    by (simp add: write_frame_def read_exact_def)
qed

text \<open>
  C33. Frames. A frame of at most 16 MiB is read back from the stream it was written to, with what
  follows it left unread; every proper prefix of it is an unexpected end of the stream; a longer
  frame of less than 4 GiB is refused by its length.
\<close>
theorem frame_roundtrip:
  assumes "length bs < 2 ^ 32"
  shows "(length bs \<le> 16 * 1024 * 1024 \<longrightarrow> read_frame (write_frame bs @ rest) = Inr (bs, rest)) \<and>
    (length bs \<le> 16 * 1024 * 1024 \<longrightarrow>
       (\<forall>n < length (write_frame bs). read_frame (take n (write_frame bs)) = Inl UnexpectedEof)) \<and>
    (16 * 1024 * 1024 < length bs \<longrightarrow> read_frame (write_frame bs @ rest) = Inl (FrameTooLarge (length bs)))"
proof (intro conjI impI allI)
  have w: "write_frame bs = be_bytes (length bs) @ bs" using assms by (simp add: write_frame_def)
  show "read_frame (write_frame bs @ rest) = Inr (bs, rest)" if "length bs \<le> 16 * 1024 * 1024"
    using that by (rule control_frames.get_put)
  show "read_frame (write_frame bs @ rest) = Inl (FrameTooLarge (length bs))" if "16 * 1024 * 1024 < length bs"
    using read_frame_header[OF assms, of "bs @ rest"] that by (simp add: w)
  fix n
  assume n: "length bs \<le> 16 * 1024 * 1024" "n < length (write_frame bs)"
  show "read_frame (take n (write_frame bs)) = Inl UnexpectedEof"
  proof (cases "n < 4")
    case True
    then show ?thesis by (simp add: read_frame_def read_exact_def)
  next
    case False
    then have "take n (write_frame bs) = be_bytes (length bs) @ take (n - 4) bs" by (simp add: w)
    then show ?thesis using read_frame_header[OF assms, of "take (n - 4) bs"] n False by (simp add: w read_exact_def)
  qed
qed

theorem frame_roundtrip_witness:
  "read_frame (write_frame ''{}'' @ ''x'') = Inr (''{}'', ''x'') \<and>
   read_frame (take 5 (write_frame ''{}'')) = Inl UnexpectedEof"
proof -
  have l: "length ''{}'' < 2 ^ 32" "length ''{}'' \<le> 16 * 1024 * 1024" "5 < length (write_frame ''{}'')"
    by (simp_all add: write_frame_def)
  show ?thesis using frame_roundtrip[OF l(1), of "''x''"] l(2,3) by blast
qed

text \<open>A client and the server that agree on the encoding: the client gets the response of the command.\<close>

lemma control_exchange:
  assumes "from_req (to_req req) = Some req" "length (to_req req) \<le> 16 * 1024 * 1024"
    and "handle_request now c req = (c', resp, snap)"
    and "from_resp (to_resp resp) = Some resp" "length (to_resp resp) \<le> 16 * 1024 * 1024"
  shows "fst (handle_conn from_req to_resp now (write_frame (to_req req)) c) = c'"
    and "send_request to_req from_resp
      (\<lambda>s. case snd (handle_conn from_req to_resp now s c) of Inr out \<Rightarrow> out | Inl _ \<Rightarrow> []) req = Inr resp"
proof -
  note frame = control_frames.get_put_end
  have h: "handle_conn from_req to_resp now (write_frame (to_req req)) c = (c', Inr (write_frame (to_resp resp)))"
    using assms frame by (simp add: handle_conn_def read_message_def)
  show "fst (handle_conn from_req to_resp now (write_frame (to_req req)) c) = c'" using h by simp
  show "send_request to_req from_resp
      (\<lambda>s. case snd (handle_conn from_req to_resp now s c) of Inr out \<Rightarrow> out | Inl _ \<Rightarrow> []) req = Inr resp"
    using assms(4,5) frame by (simp add: send_request_def h read_message_def)
qed

section \<open>Invariants of the control commands\<close>

definition pool_total :: "backend_pool \<Rightarrow> nat" where
  "pool_total p = sum_list (map (\<lambda>(n, b). weight b) (bp_backends p))"

definition control_inv :: "string list \<Rightarrow> live_state \<times> backend_pool \<Rightarrow> bool" where
  "control_inv names c \<longleftrightarrow> (case c of (st, p) \<Rightarrow>
     map fst (bp_backends p) = names \<and> distinct names \<and>
     (\<forall>n. map_option bc_weight (map_of (px_backends (ls_config st)) n) = map_option weight (pool_get p n)) \<and>
     0 < pool_total p \<and> 0 < ls_drain_grace st)"

fun request_wf :: "control_request \<Rightarrow> bool" where
  "request_wf (CrSetWeight ws) = distinct (map fst ws)"
| "request_wf _ = True"

lemma apply_weights_list:
  "distinct (map fst ws) \<Longrightarrow> bp_backends (apply_weights ws p) =
     map (\<lambda>(n, b). (n, case map_of ws n of None \<Rightarrow> b | Some w \<Rightarrow> set_weight w b)) (bp_backends p)"
proof (induction ws arbitrary: p)
  case Nil
  then show ?case by (simp add: case_prod_unfold)
next
  case (Cons x ws)
  obtain m w where x: "x = (m, w)" by (cases x)
  have "map_of ws m = None" using Cons.prems x by (simp add: map_of_eq_None_iff)
  then show ?case using Cons x by (auto simp: apply_weights_Cons pool_update_def split: option.splits)
qed

lemma pool_total_apply: "distinct (map fst ws) \<Longrightarrow> pool_total (apply_weights ws p) = prospective_total p ws"
  unfolding pool_total_def prospective_total_def
  by (intro arg_cong[of _ _ sum_list]) (auto simp: apply_weights_list split: option.splits)

lemma lockstep_apply:
  assumes "distinct (map fst ws)" "map_option bc_weight (map_of bs n) = map_option weight (pool_get p n)"
  shows "map_option bc_weight (map_of (mirror_weights ws bs) n) = map_option weight (pool_get (apply_weights ws p) n)"
  unfolding mirror_weights_get[OF assms(1)] pool_get_apply_weights[OF assms(1)]
  using assms(2) by (cases "map_of bs n"; cases "pool_get p n"; cases "map_of ws n") simp_all

lemma apply_weights_inv:
  assumes "control_inv names (st, p)" "distinct (map fst ws)" "0 < prospective_total p ws"
    and "px_backends (ls_config st') = mirror_weights ws (px_backends (ls_config st))" "ls_drain_grace st' = ls_drain_grace st"
  shows "control_inv names (st', apply_weights ws p)"
  using assms lockstep_apply[OF assms(2)] pool_total_apply[OF assms(2), of p] by (simp add: control_inv_def)

lemma rollback_total:
  assumes "pool_get p target \<noteq> None" "distinct (map fst (bp_backends p))"
  shows "0 < prospective_total p (map (\<lambda>(n, b). (n, if n = target then 100 else 0)) (bp_backends p))"
proof -
  obtain b where b: "(target, b) \<in> set (bp_backends p)" using assms(1) by (auto simp: pool_get_def dest: map_of_SomeD)
  let ?ws = "map (\<lambda>(n, b). (n, if n = target then 100 else 0)) (bp_backends p) :: (string \<times> nat) list"
  have "map_of ?ws target = Some 100" using assms(1) by (auto simp: map_of_values pool_get_def)
  then have "100 \<in> set (map (\<lambda>(n, b). case map_of ?ws n of Some w \<Rightarrow> w | None \<Rightarrow> weight b) (bp_backends p))"
    using b by (force intro: rev_image_eqI[of "(target, b)"])
  then have "100 \<le> prospective_total p ?ws" unfolding prospective_total_def by (rule member_le_sum_list) simp
  then show ?thesis by simp
qed

lemma handle_request_inv:
  assumes "handle_request now c req = (c', resp, snap)" "control_inv names c" "request_wf req"
  shows "control_inv names c'"
proof -
  obtain st p where c: "c = (st, p)" by (cases c)
  have d: "distinct (map fst (bp_backends p))" using assms(2) by (auto simp: control_inv_def c)
  show ?thesis
  proof (cases req)
    case (CrSetWeight ws)
    show ?thesis
    proof (cases "set_weights st p ws")
      case (Inr r)
      then have "c' = (st\<lparr>ls_config := (ls_config st)\<lparr>px_backends := mirror_weights ws (px_backends (ls_config st))\<rparr>\<rparr>,
          apply_weights ws p)" "0 < prospective_total p ws"
        using assms(1) by (auto simp: c CrSetWeight set_weights_eq Let_def split: option.splits)
      then show ?thesis using apply_weights_inv[of names st p ws] assms(2,3) by (simp add: c CrSetWeight)
    qed (use assms c CrSetWeight in auto)
  next
    case (CrRollback to)
    let ?ws = "map (\<lambda>(n, b). (n, if n = to then 100 else 0)) (bp_backends p)"
    have dw: "distinct (map fst ?ws)" using d by (simp add: case_prod_unfold o_def)
    show ?thesis
    proof (cases "rollback st p to")
      case (Inr r)
      obtain st' p' where r: "r = (st', p')" by (cases r)
      have "c' = (st', p')" using assms(1) Inr r by (auto simp: c CrRollback Let_def)
      moreover have "p' = apply_weights ?ws p" "px_backends (ls_config st') = mirror_weights ?ws (px_backends (ls_config st))"
        "ls_drain_grace st' = ls_drain_grace st" "pool_get p to \<noteq> None"
        using Inr r by (auto simp: rollback_eq Let_def)
      ultimately show ?thesis
        using apply_weights_inv[OF _ dw rollback_total[OF _ d]] assms(2) by (simp add: c)
    qed (use assms c CrRollback in auto)
  next
    case (CrDrain t)
    then show ?thesis using assms by (auto simp: c Let_def control_inv_def set_draining_def set_drain_grace_def)
  qed (use assms c in auto)
qed

lemma start_inv:
  assumes "proxy_start parse_sock parse_uri now cfg = Inr (st, p)" "distinct (map fst (px_backends cfg))"
  shows "control_inv (map fst (px_backends cfg)) (st, p)"
proof -
  have v: "validate parse_sock parse_uri cfg = Inr ()" and st: "st = live_state_new now cfg"
    and p: "p = with_breaker_cfg now (px_backends cfg) (px_circuit_breaker cfg)"
    using assms(1) by (auto simp: proxy_start_def split: sum.splits)
  have bs: "bp_backends p = map (\<lambda>(n, c). (n, backend_new n c)) (px_backends cfg)" by (simp add: p with_breaker_cfg_def)
  have "pool_total p = sum_list (map (\<lambda>(n, b). bc_weight b) (px_backends cfg))"
    unfolding pool_total_def by (intro arg_cong[of _ _ sum_list]) (auto simp: bs)
  then have "0 < pool_total p" using validate_Inr(1)[OF v] by (auto simp: u32_sum_eq intro: gr0I)
  moreover have "map fst (bp_backends p) = map fst (px_backends cfg)" by (auto simp: bs)
  ultimately show ?thesis using assms(2)
    by (auto simp: control_inv_def st live_state_new_def DEFAULT_DRAIN_GRACE_SECS_def p pool_get_new option.map_comp o_def)
qed

fun control_run :: "(int \<times> control_request) list \<Rightarrow> live_state \<times> backend_pool \<Rightarrow> live_state \<times> backend_pool" where
  "control_run [] c = c"
| "control_run ((now, req) # reqs) c = control_run reqs (fst (handle_request now c req))"

lemma control_run_inv:
  "control_inv names c \<Longrightarrow> list_all (\<lambda>(t, r). request_wf r) reqs \<Longrightarrow> control_inv names (control_run reqs c)"
proof (induction reqs arbitrary: c)
  case (Cons x reqs)
  obtain t r where x: "x = (t, r)" by (cases x)
  obtain c' resp snap where h: "handle_request t c r = (c', resp, snap)" by (cases "handle_request t c r")
  have "control_inv names c'" using handle_request_inv[OF h Cons.prems(1)] Cons.prems(2) x by simp
  then show ?case using Cons.IH Cons.prems(2) x h by simp
qed simp

text \<open>What the invariant says to the router.\<close>

lemma control_inv_routable:
  assumes "control_inv names (st, p)"
  shows "map fst (bp_backends p) = names \<and>
    (\<forall>n. map_option bc_weight (map_of (px_backends (ls_config st)) n) = map_option weight (pool_get p n)) \<and>
    (\<exists>n b. pool_get p n = Some b \<and> 0 < weight b) \<and> 1 \<le> ls_drain_grace st"
proof -
  have d: "distinct (map fst (bp_backends p))" using assms by (auto simp: control_inv_def)
  have "\<exists>w \<in> set (map (\<lambda>(n, b). weight b) (bp_backends p)). 0 < w"
  proof (rule ccontr)
    assume "\<not> ?thesis"
    then have "pool_total p = 0" unfolding pool_total_def by (simp add: sum_list_eq_0_iff)
    then show False using assms by (simp add: control_inv_def)
  qed
  then obtain n b where "(n, b) \<in> set (bp_backends p)" "0 < weight b" by auto
  then have "\<exists>n b. pool_get p n = Some b \<and> 0 < weight b" using map_of_is_SomeI[OF d] by (auto simp: pool_get_def)
  then show ?thesis using assms by (auto simp: control_inv_def)
qed

text \<open>
  The control commands keep the proxy routable and its two copies of the weights equal, after
  any sequence of commands to a proxy started from a valid configuration.
\<close>
lemma control_keeps_weights:
  assumes "proxy_start parse_sock parse_uri now cfg = Inr c" "distinct (map fst (px_backends cfg))"
    and "list_all (\<lambda>(t, r). request_wf r) reqs" "control_run reqs c = (st, p)"
  shows "map fst (bp_backends p) = map fst (px_backends cfg) \<and>
    (\<forall>n. map_option bc_weight (map_of (px_backends (ls_config st)) n) = map_option weight (pool_get p n)) \<and>
    (\<exists>n b. pool_get p n = Some b \<and> 0 < weight b) \<and> 1 \<le> ls_drain_grace st"
proof -
  have "control_inv (map fst (px_backends cfg)) c" using start_inv assms(1,2) by (cases c) auto
  from control_run_inv[OF this assms(3)] show ?thesis
    using control_inv_routable[of "map fst (px_backends cfg)" st p] by (simp add: assms(4))
qed


end
