(* ===== verification/Control_Sessions.thy ===== *)
theory Control_Sessions
  imports Control_Plane "HOL-Library.Multiset"
begin

text \<open>
  The tasks of the control plane side by side (\<open>crates/thttpd-migrate/src/control.rs\<close>): the accept
  loop of \<open>spawn_server\<close>, one session per accepted connection (\<open>handle_conn\<close>, cut where it waits),
  and the periodic \<open>spawn_state_writer\<close>. They share the live state, the control lock and the state
  file. A command that has the lock writes the weights of the backends one by one and then swaps the
  configuration, each write a step of its own; the health checker and the requests under way do
  not take the lock, so that they come between any two of them, change health and breakers, and see
  the weights as they are at that moment. JSON and the clock are inputs.
\<close>

section \<open>Clients\<close>

definition client_set_weight where
  "client_set_weight to_json from_json exchange weights =
     send_request to_json from_json exchange (CrSetWeight weights)"

definition client_rollback where
  "client_rollback to_json from_json exchange to = send_request to_json from_json exchange (CrRollback to)"

definition client_drain where
  "client_drain to_json from_json exchange timeout_secs =
     send_request to_json from_json exchange (CrDrain timeout_secs)"

definition client_snapshot where
  "client_snapshot to_json from_json exchange = send_request to_json from_json exchange CrSnapshot"

section \<open>State\<close>

text \<open>
  A session reads its request, waits for the lock, carries out its command (the writes that are
  left), writes the state file (the file systems after the calls that are left) and replies.
\<close>

type_synonym file_system = "string \<rightharpoonup> string"

datatype session =
  SReading bytes | SQueued control_request | SApplying "live_write list" control_request
| SWriting "file_system list" control_response | SReply control_response

datatype writer_task = WIdle | WWriting "file_system list"

datatype lock_holder = HeldBy nat | HeldByWriter

text \<open>\<open>cw_unsaved\<close>: the state was changed, or a write was begun, and no write was completed since.\<close>

record control_world =
  cw_live :: "live_state \<times> backend_pool"
  cw_fs :: file_system
  cw_lock :: "lock_holder option"
  cw_sessions :: "nat \<rightharpoonup> session"
  cw_writer :: writer_task
  cw_listening :: bool
  cw_unsaved :: bool

text \<open>What stays the same: the state file's path and the encodings.\<close>

record control_io =
  ci_path :: string
  ci_state_json :: "state_snapshot \<Rightarrow> string"
  ci_request :: "bytes \<Rightarrow> control_request option"

text \<open>The decoder makes a \<open>HashMap\<close> of a weights object, so no backend is named twice in a request.\<close>

definition decoder_ok :: "control_io \<Rightarrow> bool" where
  "decoder_ok io \<longleftrightarrow> (\<forall>bs r. ci_request io bs = Some r \<longrightarrow> request_wf r)"

definition save_steps :: "control_io \<Rightarrow> nat \<Rightarrow> file_system \<Rightarrow> state_snapshot \<Rightarrow> file_system list" where
  "save_steps io n fs snap = tl (write_state_atomic (ci_state_json io) n fs (ci_path io) snap)"

text \<open>
  The parts of \<open>handle_conn\<close> under the lock: the check of the request, which gives its plan, one
  write, and the snapshot with what follows it.
\<close>

fun request_plan :: "backend_pool \<Rightarrow> control_request \<Rightarrow> control_message + live_plan" where
  "request_plan p (CrSetWeight ws) = (case weights_plan p ws of Inl e \<Rightarrow> Inl (SetWeightFailed e) | Inr pl \<Rightarrow> Inr pl)"
| "request_plan p (CrRollback to) = (case rollback_plan p to of Inl e \<Rightarrow> Inl (RollbackFailed e) | Inr pl \<Rightarrow> Inr pl)"
| "request_plan p (CrDrain timeout_secs) = Inr ([], [PutGrace timeout_secs, PutDraining])"
| "request_plan p CrSnapshot = Inr ([], [])"

fun success_message :: "control_request \<Rightarrow> control_message" where
  "success_message (CrSetWeight ws) = WeightsUpdated ws"
| "success_message (CrRollback to) = RolledBack to"
| "success_message (CrDrain timeout_secs) = DrainStarted timeout_secs"
| "success_message CrSnapshot = MsgOk"

text \<open>\<open>ws\<close> is the order in which the hash map yields the weights.\<close>

definition session_grant :: "nat \<Rightarrow> control_request \<Rightarrow> (string \<times> nat) list \<Rightarrow> control_world \<Rightarrow> control_world" where
  "session_grant i req ws w =
     w\<lparr>cw_lock := Some (HeldBy i), cw_sessions := (cw_sessions w)(i \<mapsto>
         (case request_plan (snd (cw_live w)) req of
            Inl m \<Rightarrow> SReply (response_err m)
          | Inr pl \<Rightarrow> SApplying (plan_writes (ws, snd pl)) req))\<rparr>"

definition session_put :: "nat \<Rightarrow> live_write \<Rightarrow> live_write list \<Rightarrow> control_request \<Rightarrow> control_world \<Rightarrow> control_world" where
  "session_put i x xs req w =
     w\<lparr>cw_live := live_put x (cw_live w), cw_sessions := (cw_sessions w)(i \<mapsto> SApplying xs req), cw_unsaved := True\<rparr>"

definition session_snapshot :: "control_io \<Rightarrow> int \<Rightarrow> nat \<Rightarrow> nat \<Rightarrow> control_request \<Rightarrow> control_world \<Rightarrow> control_world" where
  "session_snapshot io now n i req w =
     (let snap = snapshot now (fst (cw_live w)) (snd (cw_live w));
          resp = response_ok (success_message req) (Some snap)
      in if req = CrSnapshot then w\<lparr>cw_sessions := (cw_sessions w)(i \<mapsto> SReply resp)\<rparr>
         else w\<lparr>cw_sessions := (cw_sessions w)(i \<mapsto> SWriting (save_steps io n (cw_fs w) snap) resp), cw_unsaved := True\<rparr>)"

text \<open>Without anything in between these are \<open>handle_request\<close>.\<close>

lemma handle_request_plan:
  "handle_request now c req =
     (case request_plan (snd c) req of
        Inl m \<Rightarrow> (c, response_err m, None)
      | Inr pl \<Rightarrow>
          (let c' = carry_out pl c; snap = snapshot now (fst c') (snd c')
           in (c', response_ok (success_message req) (Some snap), if req = CrSnapshot then None else Some snap)))"
proof (cases c)
  case (Pair st p)
  then show ?thesis
    by (cases req) (auto simp: set_weights_def rollback_def carry_out_eq Let_def split: sum.split prod.splits)
qed

definition writer_tick :: "control_io \<Rightarrow> int \<Rightarrow> nat \<Rightarrow> control_world \<Rightarrow> control_world" where
  "writer_tick io now n w =
     w\<lparr>cw_lock := Some HeldByWriter, cw_unsaved := True,
       cw_writer := WWriting (save_steps io n (cw_fs w)
         (snapshot now (fst (cw_live w)) (snd (cw_live w))))\<rparr>"

section \<open>Steps\<close>

inductive control_step :: "control_io \<Rightarrow> control_world \<Rightarrow> control_world \<Rightarrow> bool" for io :: control_io where
  accept_ok:
    "control_step io w (w\<lparr>cw_sessions := (cw_sessions w)(i \<mapsto> SReading bs)\<rparr>)"
    if "cw_listening w" "cw_sessions w i = None"
| accept_err:
    "control_step io w (w\<lparr>cw_listening := False\<rparr>)"
    if "cw_listening w"
| read_ok:
    "control_step io w (w\<lparr>cw_sessions := (cw_sessions w)(i \<mapsto> SQueued req)\<rparr>)"
    if "cw_sessions w i = Some (SReading bs)" "read_message (ci_request io) bs = Inr req"
| read_err:
    "control_step io w (w\<lparr>cw_sessions := (cw_sessions w)(i := None)\<rparr>)"
    if "cw_sessions w i = Some (SReading bs)" "read_message (ci_request io) bs = Inl e"
| lock_grant:
    "control_step io w (session_grant i req ws w)"
    if "cw_sessions w i = Some (SQueued req)" "cw_lock w = None"
      "\<forall>pl. request_plan (snd (cw_live w)) req = Inr pl \<longrightarrow> mset ws = mset (fst pl)"
| put:
    "control_step io w (session_put i x xs req w)"
    if "cw_sessions w i = Some (SApplying (x # xs) req)"
| applied:
    "control_step io w (session_snapshot io now n i req w)"
    if "cw_sessions w i = Some (SApplying [] req)"
| save_call:
    "control_step io w (w\<lparr>cw_fs := fs, cw_sessions := (cw_sessions w)(i \<mapsto> SWriting fss resp)\<rparr>)"
    if "cw_sessions w i = Some (SWriting (fs # fss) resp)" "fss \<noteq> []"
| save_done:
    "control_step io w (w\<lparr>cw_fs := fs, cw_sessions := (cw_sessions w)(i \<mapsto> SReply resp), cw_unsaved := False\<rparr>)"
    if "cw_sessions w i = Some (SWriting [fs] resp)"
| save_fails:
    "control_step io w (w\<lparr>cw_sessions := (cw_sessions w)(i \<mapsto> SReply resp)\<rparr>)"
    if "cw_sessions w i = Some (SWriting fss resp)"
| reply:
    "control_step io w (w\<lparr>cw_sessions := (cw_sessions w)(i := None), cw_lock := None\<rparr>)"
    if "cw_sessions w i = Some (SReply resp)"
| tick:
    "control_step io w (writer_tick io now n w)"
    if "cw_lock w = None"
| tick_call:
    "control_step io w (w\<lparr>cw_fs := fs, cw_writer := WWriting fss\<rparr>)"
    if "cw_writer w = WWriting (fs # fss)" "fss \<noteq> []"
| tick_done:
    "control_step io w (w\<lparr>cw_fs := fs, cw_writer := WIdle, cw_lock := None, cw_unsaved := False\<rparr>)"
    if "cw_writer w = WWriting [fs]"
| tick_fails:
    "control_step io w (w\<lparr>cw_writer := WIdle, cw_lock := None\<rparr>)"
    if "cw_writer w = WWriting fss"
| health_probe:
    "control_step io w (w\<lparr>cw_live := (fst (cw_live w), pool_update name (update_health cfg ok) (snd (cw_live w)))\<rparr>)"
| traffic:
    "control_step io w (w\<lparr>cw_live := (fst (cw_live w), (snd (cw_live w))\<lparr>bp_breakers := brs\<rparr>)\<rparr>)"

definition control_init :: "file_system \<Rightarrow> live_state \<times> backend_pool \<Rightarrow> control_world" where
  "control_init fs c = \<lparr>cw_live = c, cw_fs = fs, cw_lock = None, cw_sessions = Map.empty, cw_writer = WIdle,
     cw_listening = True, cw_unsaved = True\<rparr>"

inductive control_reach :: "control_io \<Rightarrow> file_system \<Rightarrow> live_state \<times> backend_pool \<Rightarrow> control_world \<Rightarrow> bool"
  for io :: control_io and fs :: file_system and c :: "live_state \<times> backend_pool" where
  init: "control_reach io fs c (control_init fs c)"
| step: "control_reach io fs c w'" if "control_reach io fs c w" "control_step io w w'"

section \<open>Invariant\<close>

text \<open>A snapshot tells the drain flag and the weights of the live state.\<close>

definition current :: "state_snapshot \<Rightarrow> live_state \<times> backend_pool \<Rightarrow> bool" where
  "current snap c \<longleftrightarrow> sn_draining snap = ls_draining (fst c) \<and>
     map (\<lambda>b. (bs_name b, bs_weight b)) (sn_backends snap) =
     map (\<lambda>(n, b). (be_name b, weight b)) (bp_backends (snd c))"

definition saves_current :: "control_io \<Rightarrow> live_state \<times> backend_pool \<Rightarrow> file_system \<Rightarrow> bool" where
  "saves_current io c fs \<longleftrightarrow> (\<exists>snap. fs (ci_path io) = Some (ci_state_json io snap) \<and> current snap c)"

text \<open>With \<open>held\<close>, the task has the lock; with \<open>u\<close>, the state is not saved.\<close>

fun session_inv :: "control_io \<Rightarrow> live_state \<times> backend_pool \<Rightarrow> bool \<Rightarrow> bool \<Rightarrow> session \<Rightarrow> bool" where
  "session_inv io c u held (SReading bs) \<longleftrightarrow> \<not> held"
| "session_inv io c u held (SQueued req) \<longleftrightarrow> \<not> held \<and> (\<exists>bs. ci_request io bs = Some req)"
| "session_inv io c u held (SApplying xs req) \<longleftrightarrow> held"
| "session_inv io c u held (SWriting fss resp) \<longleftrightarrow> held \<and> u \<and> fss \<noteq> [] \<and> saves_current io c (last fss)"
| "session_inv io c u held (SReply resp) \<longleftrightarrow> held"

fun slot_inv :: "control_io \<Rightarrow> live_state \<times> backend_pool \<Rightarrow> bool \<Rightarrow> bool \<Rightarrow> session option \<Rightarrow> bool" where
  "slot_inv io c u held None \<longleftrightarrow> \<not> held"
| "slot_inv io c u held (Some s) \<longleftrightarrow> session_inv io c u held s"

fun writer_inv :: "control_io \<Rightarrow> live_state \<times> backend_pool \<Rightarrow> bool \<Rightarrow> bool \<Rightarrow> writer_task \<Rightarrow> bool" where
  "writer_inv io c u held WIdle \<longleftrightarrow> \<not> held"
| "writer_inv io c u held (WWriting fss) \<longleftrightarrow> held \<and> u \<and> fss \<noteq> [] \<and> saves_current io c (last fss)"

definition lock_inv :: "control_io \<Rightarrow> control_world \<Rightarrow> bool" where
  "lock_inv io w \<longleftrightarrow>
     (\<forall>i. slot_inv io (cw_live w) (cw_unsaved w) (cw_lock w = Some (HeldBy i)) (cw_sessions w i)) \<and>
     writer_inv io (cw_live w) (cw_unsaved w) (cw_lock w = Some HeldByWriter) (cw_writer w)"

text \<open>The writes that the command under way has left.\<close>

fun writes_left :: "session option \<Rightarrow> live_write list" where
  "writes_left (Some (SApplying xs req)) = xs"
| "writes_left _ = []"

definition pending :: "control_world \<Rightarrow> live_write list" where
  "pending w = (case cw_lock w of Some (HeldBy i) \<Rightarrow> writes_left (cw_sessions w i) | _ \<Rightarrow> [])"

lemma pending_frame [simp]: "pending (w\<lparr>cw_live := c\<rparr>) = pending w" "pending (w\<lparr>cw_listening := b\<rparr>) = pending w"
  by (simp_all add: pending_def split: option.split lock_holder.split)

text \<open>
  What holds at every moment, and the invariant of the world: the control plane is consistent once
  the writes that are left are done.
\<close>

definition always_inv :: "string list \<Rightarrow> live_state \<times> backend_pool \<Rightarrow> bool" where
  "always_inv names c \<longleftrightarrow> map fst (bp_backends (snd c)) = names \<and> 0 < ls_drain_grace (fst c)"

definition world_inv :: "control_io \<Rightarrow> string list \<Rightarrow> control_world \<Rightarrow> bool" where
  "world_inv io names w \<longleftrightarrow> control_inv names (fold live_put (pending w) (cw_live w)) \<and> always_inv names (cw_live w) \<and>
     lock_inv io w \<and> (\<not> cw_unsaved w \<longrightarrow> saves_current io (cw_live w) (cw_fs w))"

text \<open>A task without the lock does not depend on the live state.\<close>

lemma slot_inv_idle: "slot_inv io c u False x \<Longrightarrow> slot_inv io c' u' False x"
proof (cases x)
  case (Some s)
  then show "slot_inv io c u False x \<Longrightarrow> slot_inv io c' u' False x" by (cases s) auto
qed simp

lemma writer_inv_idle: "writer_inv io c u False t \<longleftrightarrow> t = WIdle"
  by (cases t) auto

text \<open>
  After a step of session \<open>i\<close> only that session has to be checked: if it does not touch the lock, or
  if it has the lock or takes or frees it.
\<close>

lemma lock_inv_waiting:
  assumes "lock_inv io w" "cw_lock w' = cw_lock w" "cw_writer w' = cw_writer w" "cw_live w' = cw_live w"
    and "cw_unsaved w' = cw_unsaved w" "\<And>j. j \<noteq> i \<Longrightarrow> cw_sessions w' j = cw_sessions w j"
    and "slot_inv io (cw_live w) (cw_unsaved w) (cw_lock w = Some (HeldBy i)) (cw_sessions w' i)"
  shows "lock_inv io w'"
proof -
  have "slot_inv io (cw_live w') (cw_unsaved w') (cw_lock w' = Some (HeldBy j)) (cw_sessions w' j)" for j
    by (cases "j = i") (use assms in \<open>auto simp: lock_inv_def\<close>)
  then show ?thesis using assms(1-5) by (simp add: lock_inv_def)
qed

lemma lock_inv_session:
  assumes "lock_inv io w" "cw_lock w = Some (HeldBy i) \<or> cw_lock w = None"
    and "cw_lock w' = Some (HeldBy i) \<or> cw_lock w' = None" "cw_writer w' = cw_writer w"
    and "\<And>j. j \<noteq> i \<Longrightarrow> cw_sessions w' j = cw_sessions w j"
    and "slot_inv io (cw_live w') (cw_unsaved w') (cw_lock w' = Some (HeldBy i)) (cw_sessions w' i)"
  shows "lock_inv io w'"
proof -
  have "slot_inv io (cw_live w') (cw_unsaved w') (cw_lock w' = Some (HeldBy j)) (cw_sessions w' j)" for j
  proof (cases "j = i")
    case False
    then have "(cw_lock w = Some (HeldBy j)) = False" "(cw_lock w' = Some (HeldBy j)) = False" using assms(2,3) by auto
    then show ?thesis using assms(1,5) False slot_inv_idle unfolding lock_inv_def by metis
  qed (use assms(6) in simp)
  moreover have "cw_writer w = WIdle" using assms(1,2) by (auto simp: lock_inv_def writer_inv_idle)
  ultimately show ?thesis using assms(3,4) by (auto simp: lock_inv_def)
qed

text \<open>The same for the writer.\<close>

lemma lock_inv_writer:
  assumes "lock_inv io w" "cw_lock w = Some HeldByWriter \<or> cw_lock w = None"
    and "cw_lock w' = Some HeldByWriter \<or> cw_lock w' = None" "cw_sessions w' = cw_sessions w"
    and "writer_inv io (cw_live w') (cw_unsaved w') (cw_lock w' = Some HeldByWriter) (cw_writer w')"
  shows "lock_inv io w'"
proof -
  have "slot_inv io (cw_live w') (cw_unsaved w') (cw_lock w' = Some (HeldBy j)) (cw_sessions w' j)" for j
  proof -
    have "(cw_lock w = Some (HeldBy j)) = False" "(cw_lock w' = Some (HeldBy j)) = False" using assms(2,3) by auto
    then show ?thesis using assms(1,4) slot_inv_idle unfolding lock_inv_def by metis
  qed
  then show ?thesis using assms(5) by (simp add: lock_inv_def)
qed

text \<open>What the steps without the lock change is in none of these.\<close>

lemma update_health_keeps [simp]:
  "weight (update_health cfg ok b) = weight b" "be_name (update_health cfg ok b) = be_name b"
  by (simp_all add: update_health_def weight_def Let_def)

lemma pool_update_map:
  assumes "\<And>b. g (f b) = g b"
  shows "map (\<lambda>(n, b). g b) (bp_backends (pool_update name f p)) = map (\<lambda>(n, b). g b) (bp_backends p)"
  using assms by (auto simp: pool_update_def)

lemma current_probe [simp]:
  "current snap (st, pool_update name (update_health cfg ok) p) = current snap (st, p)"
  using pool_update_map[of "\<lambda>b. (be_name b, weight b)" "update_health cfg ok" name p] by (simp add: current_def)

lemma current_traffic [simp]: "current snap (st, p\<lparr>bp_breakers := brs\<rparr>) = current snap (st, p)"
  by (simp add: current_def)

lemma pool_total_probe: "pool_total (pool_update name (update_health cfg ok) p) = pool_total p"
  unfolding pool_total_def by (rule arg_cong[OF pool_update_map]) simp

lemma control_inv_probe [simp]:
  "control_inv names (st, pool_update name (update_health cfg ok) p) = control_inv names (st, p)"
  by (auto simp: control_inv_def pool_total_probe pool_get_update option.map_comp o_def)

lemma control_inv_traffic [simp]: "control_inv names (st, p\<lparr>bp_breakers := brs\<rparr>) = control_inv names (st, p)"
  by (simp add: control_inv_def pool_total_def pool_get_def)

lemma saves_current_keeps:
  "saves_current io (st, pool_update name (update_health cfg ok) p) = saves_current io (st, p)"
  "saves_current io (st, p\<lparr>bp_breakers := brs\<rparr>) = saves_current io (st, p)"
  by (simp_all add: saves_current_def fun_eq_iff)

lemma slot_inv_live: "saves_current io c' = saves_current io c \<Longrightarrow> slot_inv io c' u held x = slot_inv io c u held x"
proof (cases x)
  case (Some s)
  then show "saves_current io c' = saves_current io c \<Longrightarrow> ?thesis" by (cases s) simp_all
qed simp

lemma writer_inv_live: "saves_current io c' = saves_current io c \<Longrightarrow> writer_inv io c' u held t = writer_inv io c u held t"
  by (cases t) simp_all

text \<open>Two live states that the invariant does not tell apart, and that stay so after a write.\<close>

definition alike :: "live_state \<times> backend_pool \<Rightarrow> live_state \<times> backend_pool \<Rightarrow> bool" where
  "alike c d \<longleftrightarrow> fst c = fst d \<and>
     map (\<lambda>(n, b). (n, weight b)) (bp_backends (snd c)) = map (\<lambda>(n, b). (n, weight b)) (bp_backends (snd d))"

lemma weight_put:
  "map (\<lambda>(n, b). (n, weight b)) (bp_backends (pool_update m (set_weight v) p)) =
     map (\<lambda>(n, w). (n, if n = m then v else w)) (map (\<lambda>(n, b). (n, weight b)) (bp_backends p))"
  by (auto simp: pool_update_def weight_def set_weight_def)

lemma alike_put: "alike c d \<Longrightarrow> alike (live_put x c) (live_put x d)"
  by (cases c; cases d; cases x) (simp_all add: alike_def weight_put Let_def)

lemma alike_puts: "alike c d \<Longrightarrow> alike (fold live_put xs c) (fold live_put xs d)"
  by (induction xs arbitrary: c d) (simp_all add: alike_put)

lemma alike_control_inv: "alike (st, p) (st, q) \<Longrightarrow> control_inv names (st, p) = control_inv names (st, q)"
proof -
  assume a: "alike (st, p) (st, q)"
  then have v: "map (\<lambda>(n, b). (n, weight b)) (bp_backends p) = map (\<lambda>(n, b). (n, weight b)) (bp_backends q)" by (simp add: alike_def)
  have "map fst (bp_backends p) = map fst (map (\<lambda>(n, b). (n, weight b)) (bp_backends p))" for p by (induction "bp_backends p") auto
  then have "map fst (bp_backends p) = map fst (bp_backends q)" using v by metis
  moreover have "pool_total p = sum_list (map snd (map (\<lambda>(n, b). (n, weight b)) (bp_backends p)))" for p
    unfolding pool_total_def by (intro arg_cong[of _ _ sum_list]) auto
  then have "pool_total p = pool_total q" using v by metis
  moreover have "map_option weight (pool_get p n) = map_of (map (\<lambda>(n, b). (n, weight b)) (bp_backends p)) n" for p n
    by (simp add: pool_get_def map_of_values)
  then have "map_option weight (pool_get p n) = map_option weight (pool_get q n)" for n using v by metis
  ultimately show ?thesis by (simp add: control_inv_def)
qed

lemma alike_inv:
  assumes "alike c d"
  shows "control_inv names (fold live_put xs c) = control_inv names (fold live_put xs d)"
proof -
  obtain st p st' q where e: "fold live_put xs c = (st, p)" "fold live_put xs d = (st', q)" by fastforce
  then have "alike (st, p) (st', q)" using alike_puts[OF assms, of xs] by simp
  moreover from this have "st' = st" by (simp add: alike_def)
  ultimately show ?thesis using alike_control_inv[of st p q] by (simp add: e)
qed

lemma always_put: "always_inv names c \<Longrightarrow> always_inv names (live_put x c)"
  by (cases c; cases x) (simp_all add: always_inv_def Let_def set_drain_grace_def set_draining_def)

lemma alike_steps:
  "alike (st, pool_update name (update_health cfg ok) p) (st, p)" "alike (st, p\<lparr>bp_breakers := brs\<rparr>) (st, p)"
  by (auto simp: alike_def pool_update_def)

lemma world_inv_live:
  assumes "world_inv io names w" "saves_current io c' = saves_current io (cw_live w)" "alike c' (cw_live w)"
    and "map fst (bp_backends (snd c')) = map fst (bp_backends (snd (cw_live w)))"
  shows "world_inv io names (w\<lparr>cw_live := c'\<rparr>)"
  using assms slot_inv_live[OF assms(2)] writer_inv_live[OF assms(2)] alike_inv[OF assms(3)]
  by (simp add: world_inv_def lock_inv_def always_inv_def alike_def)

text \<open>What is written is the state at that moment.\<close>

lemma snapshot_current: "current (snapshot now st p) (st, p)"
  by (auto simp: current_def snapshot_def)

lemma save_steps_last:
  "save_steps io n fs snap \<noteq> [] \<and> last (save_steps io n fs snap) (ci_path io) = Some (ci_state_json io snap)"
  using write_state_atomic_done[of "ci_state_json io" n fs "ci_path io" snap]
  by (simp add: save_steps_def write_state_atomic_def Let_def)

lemma save_steps_current: "current snap c \<Longrightarrow> save_steps io n fs snap \<noteq> [] \<and> saves_current io c (last (save_steps io n fs snap))"
  using save_steps_last[of io n fs snap] by (auto simp: saves_current_def)

lemma read_message_source: "read_message f bs = Inr req \<Longrightarrow> \<exists>x. f x = Some req"
  by (auto simp: read_message_def split: sum.splits option.splits)

text \<open>The order of the weights of a plan does not matter.\<close>

lemma apply_weights_order:
  assumes "mset ws = mset vs" "distinct (map fst vs)"
  shows "apply_weights ws p = apply_weights vs p"
proof -
  have "mset (map fst ws) = mset (map fst vs)" using assms(1) by simp
  then have d: "distinct (map fst ws)" using assms(2) mset_eq_imp_distinct_iff by blast
  have "set ws = set vs" using assms(1) by (rule mset_eq_setD)
  then have "map_of ws = map_of vs" using map_of_inject_set[OF d assms(2)] by simp
  then have "bp_backends (apply_weights ws p) = bp_backends (apply_weights vs p)"
    by (simp add: apply_weights_list[OF d] apply_weights_list[OF assms(2)])
  then show ?thesis by (simp add: backend_pool.equality)
qed

lemma request_plan_distinct:
  assumes "request_plan p req = Inr pl" "request_wf req" "distinct (map fst (bp_backends p))"
  shows "distinct (map fst (fst pl))"
  using assms
  by (cases req) (auto simp: weights_plan_def rollback_plan_def ensure_def Let_def case_prod_unfold o_def split: option.splits if_splits sum.splits)

lemma request_plan_inv:
  assumes "request_plan (snd c) req = Inr pl" "control_inv names c" "request_wf req" "mset ws = mset (fst pl)"
  shows "control_inv names (fold live_put (plan_writes (ws, snd pl)) c)"
proof -
  obtain st p where c: "c = (st, p)" by (cases c)
  have "distinct (map fst (fst pl))" using request_plan_distinct[OF assms(1,3)] assms(2) by (auto simp: control_inv_def c)
  then have "carry_out (ws, snd pl) c = carry_out pl c"
    using apply_weights_order[OF assms(4)] by (cases pl) (simp add: c carry_out_eq)
  moreover obtain resp snap where "handle_request 0 c req = (carry_out pl c, resp, snap)"
    using assms(1) by (simp add: handle_request_plan Let_def)
  ultimately show ?thesis using handle_request_inv[of 0 c req "carry_out pl c" resp snap names] assms(2,3)
    by (simp add: carry_out_def)
qed

lemma session_grant_inv:
  assumes inv: "world_inv io names w" and i: "cw_sessions w i = Some (SQueued req)" and free: "cw_lock w = None"
    and ws: "\<forall>pl. request_plan (snd (cw_live w)) req = Inr pl \<longrightarrow> mset ws = mset (fst pl)" and wf: "decoder_ok io"
  shows "world_inv io names (session_grant i req ws w)"
proof -
  have l: "lock_inv io w" and c: "control_inv names (cw_live w)" using inv free by (simp_all add: world_inv_def pending_def)
  then have r: "request_wf req" using i wf by (auto simp: lock_inv_def decoder_ok_def dest!: spec[of _ i])
  have "lock_inv io (session_grant i req ws w)"
    by (rule lock_inv_session[OF l, of i]) (use free in \<open>auto simp: session_grant_def split: sum.split\<close>)
  moreover have "control_inv names (fold live_put (pending (session_grant i req ws w)) (cw_live w))"
    using c ws request_plan_inv[OF _ c r, of _ ws] by (auto simp: session_grant_def pending_def split: sum.split)
  ultimately show ?thesis using inv by (simp add: world_inv_def session_grant_def)
qed

lemma session_put_inv:
  assumes inv: "world_inv io names w" and i: "cw_sessions w i = Some (SApplying (x # xs) req)" "cw_lock w = Some (HeldBy i)"
  shows "world_inv io names (session_put i x xs req w)"
proof -
  have l: "lock_inv io w" using inv by (simp add: world_inv_def)
  have "lock_inv io (session_put i x xs req w)"
    by (rule lock_inv_session[OF l, of i]) (use i in \<open>simp_all add: session_put_def\<close>)
  then show ?thesis using inv i always_put[of names "cw_live w" x] by (simp add: world_inv_def session_put_def pending_def)
qed

lemma session_snapshot_inv:
  assumes inv: "world_inv io names w" and i: "cw_sessions w i = Some (SApplying [] req)" "cw_lock w = Some (HeldBy i)"
  shows "world_inv io names (session_snapshot io now n i req w)"
proof -
  have l: "lock_inv io w" using inv by (simp add: world_inv_def)
  note s = save_steps_current[OF snapshot_current, of io n "cw_fs w" now "fst (cw_live w)" "snd (cw_live w)"]
  have "lock_inv io (session_snapshot io now n i req w)"
    by (rule lock_inv_session[OF l, of i]) (use i s in \<open>simp_all add: session_snapshot_def Let_def\<close>)
  then show ?thesis using inv i by (simp add: world_inv_def session_snapshot_def pending_def Let_def)
qed

lemma writer_tick_inv:
  assumes "world_inv io names w" "cw_lock w = None"
  shows "world_inv io names (writer_tick io now n w)"
proof -
  have "lock_inv io (writer_tick io now n w)"
    by (rule lock_inv_writer[of io w])
      (use assms save_steps_current[OF snapshot_current, of io n "cw_fs w" now "fst (cw_live w)" "snd (cw_live w)"] in
        \<open>auto simp: world_inv_def writer_tick_def\<close>)
  then show ?thesis using assms by (simp add: world_inv_def writer_tick_def pending_def)
qed

text \<open>The steps of the holder of the lock, a session or the writer, and of a session without it.\<close>

lemma waiting_step_inv:
  assumes "world_inv io names w" "cw_lock w \<noteq> Some (HeldBy i)" "slot_inv io (cw_live w) (cw_unsaved w) False x"
  shows "world_inv io names (w\<lparr>cw_sessions := (cw_sessions w)(i := x)\<rparr>)"
proof -
  have "lock_inv io (w\<lparr>cw_sessions := (cw_sessions w)(i := x)\<rparr>)"
    using assms lock_inv_waiting[of io w "w\<lparr>cw_sessions := (cw_sessions w)(i := x)\<rparr>" i] by (simp add: world_inv_def)
  moreover have "pending (w\<lparr>cw_sessions := (cw_sessions w)(i := x)\<rparr>) = pending w"
    using assms(2) by (auto simp: pending_def split: option.split lock_holder.split)
  ultimately show ?thesis using assms(1) by (simp add: world_inv_def)
qed

lemma session_step_inv:
  assumes "world_inv io names w" "cw_lock w = Some (HeldBy i)" "cw_lock w' = Some (HeldBy i) \<or> cw_lock w' = None"
    and "cw_writer w' = cw_writer w" "cw_live w' = cw_live w" "\<And>j. j \<noteq> i \<Longrightarrow> cw_sessions w' j = cw_sessions w j"
    and "slot_inv io (cw_live w) (cw_unsaved w') (cw_lock w' = Some (HeldBy i)) (cw_sessions w' i)"
    and "writes_left (cw_sessions w i) = []" "writes_left (cw_sessions w' i) = []"
    and "\<not> cw_unsaved w' \<Longrightarrow> saves_current io (cw_live w) (cw_fs w')"
  shows "world_inv io names w'"
proof -
  have "pending w = []" "pending w' = []" using assms(2,3,8,9) by (auto simp: pending_def)
  then show ?thesis using assms lock_inv_session[of io w i w'] by (simp add: world_inv_def)
qed

lemma writer_step_inv:
  assumes "world_inv io names w" "cw_lock w = Some HeldByWriter" "cw_lock w' = Some HeldByWriter \<or> cw_lock w' = None"
    and "cw_sessions w' = cw_sessions w" "cw_live w' = cw_live w"
    and "writer_inv io (cw_live w) (cw_unsaved w') (cw_lock w' = Some HeldByWriter) (cw_writer w')"
    and "\<not> cw_unsaved w' \<Longrightarrow> saves_current io (cw_live w) (cw_fs w')"
  shows "world_inv io names w'"
proof -
  have "pending w = []" "pending w' = []" using assms(2,3) by (auto simp: pending_def)
  then show ?thesis using assms lock_inv_writer[of io w w'] by (simp add: world_inv_def)
qed

lemma control_step_inv:
  assumes "control_step io w w'" "world_inv io names w" "decoder_ok io"
  shows "world_inv io names w'"
proof -
  note inv = assms(2)[unfolded world_inv_def lock_inv_def]
  have sl: "slot_inv io (cw_live w) (cw_unsaved w) (cw_lock w = Some (HeldBy i)) (cw_sessions w i)" for i
    using inv by simp
  have wr: "writer_inv io (cw_live w) (cw_unsaved w) (cw_lock w = Some HeldByWriter) (cw_writer w)" using inv by simp
  obtain st p where live: "cw_live w = (st, p)" by (cases "cw_live w")
  show ?thesis using assms(1)
  proof cases
    case (accept_ok i bs)
    then show ?thesis using sl[of i] waiting_step_inv[OF assms(2)] by simp
  next
    case accept_err
    then show ?thesis using assms(2) by (simp add: world_inv_def lock_inv_def)
  next
    case (read_ok i bs req)
    then show ?thesis using sl[of i] waiting_step_inv[OF assms(2)] read_message_source[OF read_ok(3)] by simp
  next
    case (read_err i bs e)
    then show ?thesis using sl[of i] waiting_step_inv[OF assms(2)] by simp
  next
    case (lock_grant i req ws)
    then show ?thesis using session_grant_inv[OF assms(2) _ _ _ assms(3)] by simp
  next
    case (put i x xs req)
    then show ?thesis using sl[of i] session_put_inv[OF assms(2)] by simp
  next
    case (applied i req now n)
    then show ?thesis using sl[of i] session_snapshot_inv[OF assms(2)] by simp
  next
    case (save_call i fs fss resp)
    then show ?thesis using sl[of i] by (intro session_step_inv[OF assms(2), of i]) auto
  next
    case (save_done i fs resp)
    then show ?thesis using sl[of i] by (intro session_step_inv[OF assms(2), of i]) auto
  next
    case (save_fails i fss resp)
    then show ?thesis using sl[of i] by (intro session_step_inv[OF assms(2), of i]) auto
  next
    case (reply i resp)
    then show ?thesis using sl[of i] inv by (intro session_step_inv[OF assms(2), of i]) auto
  next
    case (tick now n)
    then show ?thesis using writer_tick_inv[OF assms(2)] by simp
  next
    case (health_probe name cfg ok)
    then show ?thesis using world_inv_live[OF assms(2)] by (simp add: live saves_current_keeps alike_steps)
  next
    case (traffic brs)
    then show ?thesis using world_inv_live[OF assms(2)] by (simp add: live saves_current_keeps alike_steps)
  qed (use wr inv in \<open>auto intro: writer_step_inv[OF assms(2)]\<close>)
qed

lemma control_reach_inv:
  assumes "control_reach io fs c w" "control_inv names c" "decoder_ok io"
  shows "world_inv io names w"
  using assms(1)
proof induction
  case init
  show ?case using assms(2) by (auto simp: world_inv_def lock_inv_def control_init_def pending_def always_inv_def control_inv_def)
next
  case (step w w')
  then show ?case using control_step_inv assms(3) by blast
qed

text \<open>
  C20. The control plane keeps the proxy routable and its state file true, with any number of control
  sessions, the periodic writer, health probes and requests under way in any order. A command writes
  the weights one by one, in any order, and then swaps the configuration, with requests in between.
  In every state that a proxy started from a valid configuration reaches, the backends are those of
  the configuration and the drain has a grace period of at least a second; at most one command is
  half-way (xs are the writes that it has left), and once these are done, or when none is
  half-way, every weight of the live configuration is the weight the router uses and at least one is
  positive; and unless a command or a write of the state file is under way or the last write failed,
  the file has the drain flag and the weights that are in effect.
\<close>

theorem control_plane_consistent:
  assumes "proxy_start parse_sock parse_uri now cfg = Inr c" "distinct (map fst (px_backends cfg))"
    and "decoder_ok io"
    and "control_reach io fs c w" "cw_live w = (st, p)"
  shows "map fst (bp_backends p) = map fst (px_backends cfg) \<and> 1 \<le> ls_drain_grace st \<and>
    (\<forall>i j xs ys req req'. cw_sessions w i = Some (SApplying xs req) \<and> cw_sessions w j = Some (SApplying ys req') \<longrightarrow> i = j) \<and>
    (\<forall>xs st' p'. (if \<exists>i ys req. cw_sessions w i = Some (SApplying ys req)
        then \<exists>i req. cw_sessions w i = Some (SApplying xs req) else xs = []) \<and> fold live_put xs (st, p) = (st', p') \<longrightarrow>
      (\<forall>n. map_option bc_weight (map_of (px_backends (ls_config st')) n) = map_option weight (pool_get p' n)) \<and>
      (\<exists>n b. pool_get p' n = Some b \<and> 0 < weight b)) \<and>
    (\<not> cw_unsaved w \<longrightarrow> (\<exists>snap. cw_fs w (ci_path io) = Some (ci_state_json io snap) \<and>
       sn_draining snap = ls_draining st \<and>
       map (\<lambda>b. (bs_name b, bs_weight b)) (sn_backends snap) = map (\<lambda>(n, b). (be_name b, weight b)) (bp_backends p)))"
proof -
  let ?names = "map fst (px_backends cfg)"
  have "control_inv ?names c" using start_inv assms(1,2) by (cases c) auto
  from control_reach_inv[OF assms(4) this assms(3)] have inv: "world_inv io ?names w" .
  then have a: "always_inv ?names (st, p)" "\<not> cw_unsaved w \<longrightarrow> saves_current io (st, p) (cw_fs w)"
    by (simp_all add: world_inv_def assms(5))
  have held: "cw_lock w = Some (HeldBy i)" if "cw_sessions w i = Some (SApplying xs req)" for i xs req
  proof -
    have "slot_inv io (cw_live w) (cw_unsaved w) (cw_lock w = Some (HeldBy i)) (cw_sessions w i)"
      using inv by (simp add: world_inv_def lock_inv_def)
    then show ?thesis by (simp add: that)
  qed
  have left: "pending w = xs" if "if \<exists>i ys req. cw_sessions w i = Some (SApplying ys req)
      then \<exists>i req. cw_sessions w i = Some (SApplying xs req) else xs = []" for xs
  proof (cases "\<exists>i req. cw_sessions w i = Some (SApplying xs req)")
    case True
    then show ?thesis using held by (auto simp: pending_def)
  next
    case False
    then have none: "\<And>i ys req. cw_sessions w i \<noteq> Some (SApplying ys req)" and "xs = []" using that by (auto split: if_splits)
    moreover have "writes_left (cw_sessions w i) = []" for i
      using none by (cases "cw_sessions w i" rule: writes_left.cases) auto
    ultimately show ?thesis by (simp add: pending_def split: option.split lock_holder.split)
  qed
  have ok: "(\<forall>n. map_option bc_weight (map_of (px_backends (ls_config st')) n) = map_option weight (pool_get p' n)) \<and>
      (\<exists>n b. pool_get p' n = Some b \<and> 0 < weight b)"
    if "pending w = xs" "fold live_put xs (st, p) = (st', p')" for xs st' p'
    using inv that control_inv_routable[of ?names st' p'] by (simp add: world_inv_def assms(5))
  have one: "i = j" if "cw_sessions w i = Some (SApplying xs req)" "cw_sessions w j = Some (SApplying ys req')" for i j xs ys req req'
    using held[OF that(1)] held[OF that(2)] by simp
  have "\<forall>xs st' p'. (if \<exists>i ys req. cw_sessions w i = Some (SApplying ys req)
        then \<exists>i req. cw_sessions w i = Some (SApplying xs req) else xs = []) \<and> fold live_put xs (st, p) = (st', p') \<longrightarrow>
      (\<forall>n. map_option bc_weight (map_of (px_backends (ls_config st')) n) = map_option weight (pool_get p' n)) \<and>
      (\<exists>n b. pool_get p' n = Some b \<and> 0 < weight b)"
    by (intro allI impI, rule ok[OF left]) (elim conjE, assumption)+
  moreover have "\<forall>i j xs ys req req'. cw_sessions w i = Some (SApplying xs req) \<and> cw_sessions w j = Some (SApplying ys req') \<longrightarrow> i = j"
    using one by blast
  ultimately show ?thesis using a unfolding always_inv_def saves_current_def current_def by (intro conjI) simp_all
qed

section \<open>Between two writes\<close>

lemma filter_key:
  "distinct (map fst xs) \<Longrightarrow> map_of xs k = Some v \<Longrightarrow> filter (\<lambda>x. fst x = k) xs = [(k, v)]"
proof (induction xs)
  case (Cons x xs)
  obtain n w where x: "x = (n, w)" by (cases x)
  have "filter (\<lambda>x. fst x = k) xs = []" if "n = k"
    using Cons.prems(1) that by (auto simp: x filter_empty_conv intro: rev_image_eqI)
  then show ?case using Cons by (auto simp: x split: if_splits)
qed simp

lemma map_of_skip: "k \<noteq> t \<Longrightarrow> map_of (filter (\<lambda>x. fst x \<noteq> t) xs) k = map_of xs k"
  by (induction xs) auto

lemma mset_filter_split: "mset xs = mset (filter P xs) + mset (filter (\<lambda>x. \<not> P x) xs)"
  by (induction xs) auto

text \<open>
  A rollback is not a single change for the router. When the target has weight 0 and the hash map
  yields it last, then before its weight is written all weights are 0, and every request that is
  decided on at this moment is refused, outside shadow mode, although the rollback is to a backend
  that may be healthy and others were serving.
\<close>
theorem rollback_gap:
  assumes "rollback_plan p target = Inr pl" "distinct (map fst (bp_backends p))"
    and "pool_get p target = Some b" "weight b = 0" "rt_mode rt \<noteq> Shadow"
  shows "\<exists>ws. mset (ws @ [(target, 100)]) = mset (fst pl) \<and>
    (\<forall>e st. snd (decide e (snd (fold live_put (map (\<lambda>(n, w). PutWeight n w) ws) (st, p))) rt) = None)"
proof -
  let ?all = "map (\<lambda>(n, b). (n, if n = target then 100 else 0)) (bp_backends p) :: (string \<times> nat) list"
  let ?ws = "filter (\<lambda>x. fst x \<noteq> target) ?all"
  have pl: "fst pl = ?all" using assms(1) by (auto simp: rollback_plan_def ensure_def Let_def split: if_splits)
  have d: "distinct (map fst ?all)" using assms(2) by (simp add: case_prod_unfold o_def)
  have t: "map_of ?all target = Some 100" using assms(3) by (simp add: pool_get_def map_of_values)
  have "mset (?ws @ [(target, 100)]) = mset ?all"
    unfolding mset_filter_split[of ?all "\<lambda>x. fst x = target"] filter_key[OF d t] mset_append by (rule union_commute)
  then have m: "mset (?ws @ [(target, 100)]) = mset (fst pl)" by (simp only: pl)
  have dw: "distinct (map fst ?ws)" using d by (simp add: distinct_map_filter)
  let ?p = "apply_weights ?ws p"
  have "snd (decide e ?p rt) = None" for e
  proof (rule ccontr)
    assume "snd (decide e ?p rt) \<noteq> None"
    then obtain dc where "snd (decide e ?p rt) = Some dc" by blast
    from decide_mem[OF this assms(5)] candidates_eligible[of ?p] assms(2) obtain x where
      x: "pool_get ?p (dc_backend dc) = Some x" "0 < weight x" by auto
    show False
    proof (cases "dc_backend dc = target")
      case True
      then have "map_of ?ws target = None" by (auto simp: map_of_eq_None_iff)
      then show ?thesis using x True assms(3,4) by (simp add: pool_get_apply_weights[OF dw])
    next
      case False
      then have "map_of ?ws (dc_backend dc) = map_option (\<lambda>_. 0) (pool_get p (dc_backend dc))"
        by (simp add: map_of_skip map_of_values pool_get_def)
      then show ?thesis using x unfolding pool_get_apply_weights[OF dw] by (auto simp: set_weight_def weight_def)
    qed
  qed
  then show ?thesis using m unfolding put_weights by (intro exI[of _ ?ws]) simp
qed

text \<open>The accept loop ends with its first error: from then on no session is new.\<close>

lemma control_gone:
  assumes "control_step io w w'" "\<not> cw_listening w"
  shows "\<not> cw_listening w' \<and> dom (cw_sessions w') \<subseteq> dom (cw_sessions w)"
  using assms
  by cases (auto simp: session_grant_def session_put_def session_snapshot_def writer_tick_def Let_def split: prod.splits if_splits)

text \<open>A proxy of two backends and its first saved state, for the witness.\<close>

definition example_io :: control_io where
  "example_io = \<lparr>ci_path = ''state.json'', ci_state_json = (\<lambda>s. if sn_draining s then ''draining'' else ''serving''),
     ci_request = (\<lambda>bs. if bs = ''drain'' then Some (CrDrain 5) else None)\<rparr>"

lemma example_saved:
  "\<exists>w. control_reach example_io Map.empty c w \<and> \<not> cw_unsaved w \<and> cw_live w = c"
proof -
  let ?w = "writer_tick example_io 0 0 (control_init Map.empty c)"
  have r1: "control_reach example_io Map.empty c ?w"
    by (rule control_reach.step[OF control_reach.init control_step.tick]) (simp add: control_init_def)
  obtain f1 f2 f3 where f: "cw_writer ?w = WWriting [f1, f2, f3]"
    by (simp add: writer_tick_def save_steps_def write_state_atomic_def Let_def)
  have r2: "control_reach example_io Map.empty c (?w\<lparr>cw_fs := f1, cw_writer := WWriting [f2, f3]\<rparr>)"
    by (rule control_reach.step[OF r1 control_step.tick_call]) (simp_all add: f)
  let ?w3 = "?w\<lparr>cw_fs := f2, cw_writer := WWriting [f3]\<rparr>"
  have r3: "control_reach example_io Map.empty c ?w3"
    using control_reach.step[OF r2 control_step.tick_call[of _ f2 "[f3]"]] by simp
  have "control_reach example_io Map.empty c (?w3\<lparr>cw_fs := f3, cw_writer := WIdle, cw_lock := None, cw_unsaved := False\<rparr>)"
    by (rule control_reach.step[OF r3 control_step.tick_done]) simp
  then show ?thesis by (intro exI conjI) (assumption, simp_all add: writer_tick_def control_init_def)
qed

theorem control_plane_consistent_witness:
  "\<exists>c w p st snap. proxy_start (\<lambda>_. True) (\<lambda>_. True) 0 example_config = Inr c \<and>
     control_reach example_io Map.empty c w \<and> cw_live w = (st, p) \<and>
     cw_fs w ''state.json'' = Some (ci_state_json example_io snap) \<and> sn_draining snap = ls_draining st"
proof -
  obtain c where c: "proxy_start (\<lambda>_. True) (\<lambda>_. True) 0 example_config = Inr c" using example_starts by blast
  obtain w where w: "control_reach example_io Map.empty c w" "\<not> cw_unsaved w" using example_saved by blast
  obtain st p where live: "cw_live w = (st, p)" by (cases "cw_live w")
  have d: "distinct (map fst (px_backends example_config))" by (simp add: example_config_def example_backends_def)
  have wf: "decoder_ok example_io" by (auto simp: decoder_ok_def example_io_def)
  from control_plane_consistent[OF c d wf w(1) live] w(2)
  obtain snap where "cw_fs w (ci_path example_io) = Some (ci_state_json example_io snap)"
    "sn_draining snap = ls_draining st" by blast
  moreover have "ci_path example_io = ''state.json''" by (simp add: example_io_def)
  ultimately show ?thesis using c w(1) live by metis
qed

end
