(* ===== verification/Response_Diff.thy ===== *)
theory Response_Diff
  imports Rust_Prelude "HOL-Library.List_Lexorder" "HOL-Library.Char_ord" "HOL-Library.Multiset"
begin

text \<open>
  The comparison of the responses of the two backends in shadow mode,
  \<open>crates/thttpd-migrate/src/diff.rs\<close>: the normalisation of headers and bodies and the list of
  divergences. The hash of the \<open>sha2\<close> crate is a parameter. A \<open>BTreeMap\<close> is a map whose keys are
  visited in ascending order of their bytes.
\<close>

section \<open>Divergences\<close>

datatype diff_field = FStatus | FHeaders | FBody | FContentLength | FConnectionLifecycle

fun field_str :: "diff_field \<Rightarrow> string" where
  "field_str FStatus = ''status''"
| "field_str FHeaders = ''headers''"
| "field_str FBody = ''body''"
| "field_str FContentLength = ''content_length''"
| "field_str FConnectionLifecycle = ''connection_lifecycle''"

record divergence =
  dv_field :: diff_field
  dv_expected :: string
  dv_actual :: string
  dv_path :: string
  dv_method :: string
  dv_truncated :: bool

record request_context =
  rc_path :: string
  rc_method :: string
  rc_request_id :: string

definition divergence_new :: "diff_field \<Rightarrow> string \<Rightarrow> string \<Rightarrow> request_context \<Rightarrow> divergence" where
  "divergence_new f expected actual ctx =
     \<lparr>dv_field = f, dv_expected = expected, dv_actual = actual, dv_path = rc_path ctx, dv_method = rc_method ctx,
      dv_truncated = False\<rparr>"

section \<open>Normalisers\<close>

definition is_timestamp :: "string \<Rightarrow> bool" where
  "is_timestamp b \<longleftrightarrow>
     length b = 29 \<and> b ! 3 = CHR '','' \<and> b ! 4 = SP \<and> b ! 7 = SP \<and> b ! 11 = SP \<and> b ! 16 = SP \<and> b ! 25 = SP \<and>
     b ! 19 = CHR '':'' \<and> b ! 22 = CHR '':'' \<and> drop 26 b = ''GMT'' \<and>
     list_all is_ascii_digit (take 2 (drop 5 b)) \<and> list_all is_ascii_digit (take 4 (drop 12 b)) \<and>
     list_all is_ascii_digit (take 2 (drop 17 b)) \<and> list_all is_ascii_digit (take 2 (drop 20 b)) \<and>
     list_all is_ascii_digit (take 2 (drop 23 b)) \<and> is_ascii_uppercase (b ! 0) \<and>
     list_all is_ascii_lowercase (take 2 (drop 1 b)) \<and> is_ascii_uppercase (b ! 8) \<and>
     is_ascii_lowercase (b ! 9) \<and> is_ascii_lowercase (b ! 10)"

definition TIMESTAMP_HEADERS :: "string list" where
  "TIMESTAMP_HEADERS = [''date'', ''last-modified'']"

definition golden_prefix :: string where
  "golden_prefix = ''/tmp/thttpd_golden_''"

definition diff_prefix :: string where
  "diff_prefix = ''/tmp/thttpd_diff_''"

definition pytest_prefix :: string where
  "pytest_prefix = ''/tmp/pytest-''"

definition is_ident :: "char \<Rightarrow> bool" where
  "is_ident c \<longleftrightarrow> is_ascii_alphanumeric c \<or> c = CHR ''_''"

definition path_end :: "char \<Rightarrow> bool" where
  "path_end c \<longleftrightarrow> c = CHR ''/'' \<or> is_ascii_whitespace c"

abbreviation char_len :: "string \<Rightarrow> nat" where
  "char_len s \<equiv> snd (utf8_step s)"

lemma prefixes_nonempty: "golden_prefix \<noteq> []" "diff_prefix \<noteq> []" "pytest_prefix \<noteq> []"
  by (simp_all add: golden_prefix_def diff_prefix_def pytest_prefix_def)

function normalize_paths :: "string \<Rightarrow> string" where
  "normalize_paths s =
     (if s = [] then []
      else if starts_with golden_prefix s then
        ''/tmp/thttpd_NORMALIZED'' @ normalize_paths (dropWhile is_ident (drop (length golden_prefix) s))
      else if starts_with diff_prefix s then
        ''/tmp/thttpd_NORMALIZED'' @ normalize_paths (dropWhile is_ident (drop (length diff_prefix) s))
      else if starts_with pytest_prefix s then
        ''/tmp/pytest_NORMALIZED'' @ normalize_paths (dropWhile (\<lambda>c. \<not> path_end c) (drop (length pytest_prefix) s))
      else take (char_len s) s @ normalize_paths (drop (char_len s) s))"
  by pat_completeness auto
termination
proof -
  have shorter: "length (dropWhile P (drop (length pre) s)) < length s" if "s \<noteq> []" "pre \<noteq> []" for P pre and s :: string
    using that length_dropWhile_le[of P "drop (length pre) s"] by (cases s; cases pre) auto
  show ?thesis
    by (relation "measure length") (auto intro!: shorter simp: prefixes_nonempty)
qed

declare normalize_paths.simps [simp del]

datatype tail_class = TDigit | TAny | TNonl

definition split_pattern :: "string \<Rightarrow> (string \<times> tail_class) option" where
  "split_pattern pattern =
     (case find_str [BSLASH, CHR ''d'', CHR ''+''] pattern of
        Some idx \<Rightarrow> Some (take idx pattern, TDigit)
      | None \<Rightarrow>
          (case find_str ''.*'' pattern of
             Some idx \<Rightarrow> Some (take idx pattern, TAny)
           | None \<Rightarrow>
               (case find_str (''[^'' @ [BSLASH] @ ''n]*'') pattern of
                  Some idx \<Rightarrow> Some (take idx pattern, TNonl)
                | None \<Rightarrow> None)))"

definition unescape_regex_literal :: "string \<Rightarrow> string" where
  "unescape_regex_literal s = replace_str [BSLASH, CHR ''.''] ''.'' s"

fun drop_tail :: "tail_class \<Rightarrow> string \<Rightarrow> string" where
  "drop_tail TDigit s = dropWhile is_ascii_digit s"
| "drop_tail TAny s = []"
| "drop_tail TNonl s = dropWhile (\<lambda>c. c \<noteq> LF) s"

lemma length_drop_tail: "length (drop_tail cls s) \<le> length s"
  by (cases cls) (auto simp: length_dropWhile_le)

text \<open>A tail of one or more digits with no digit is no match.\<close>

definition no_tail :: "tail_class \<Rightarrow> string \<Rightarrow> bool" where
  "no_tail cls t \<longleftrightarrow> cls = TDigit \<and> drop_tail cls t = t"

text \<open>No pattern has an empty head, so the case of an empty head is left out.\<close>

function regex_loop :: "string \<Rightarrow> tail_class \<Rightarrow> string \<Rightarrow> string \<Rightarrow> string" where
  "regex_loop head cls replacement s =
     (if s = [] \<or> head = [] then s
      else if starts_with head s then
        (let t = drop (length head) s in
         if no_tail cls t
         then take (char_len s) s @ regex_loop head cls replacement (drop (char_len s) s)
         else replacement @ regex_loop head cls replacement (drop_tail cls t))
      else take (char_len s) s @ regex_loop head cls replacement (drop (char_len s) s))"
  by pat_completeness auto
termination
proof (relation "measure (\<lambda>(h, c, r, s). length s)", goal_cases)
  case (3 head cls replacement s t)
  then have "length t < length s" by (cases s; cases head) auto
  then show ?case using length_drop_tail[of cls t] by simp
qed auto

declare regex_loop.simps [simp del]

definition regex_replace :: "string \<Rightarrow> string \<Rightarrow> string \<Rightarrow> string" where
  "regex_replace haystack pattern replacement =
     (case split_pattern pattern of
        None \<Rightarrow> replace_str pattern replacement haystack
      | Some (head, cls) \<Rightarrow> regex_loop (unescape_regex_literal head) cls replacement haystack)"

definition digits_pattern :: "string \<Rightarrow> string" where
  "digits_pattern s = s @ [BSLASH, CHR ''d'', CHR ''+'']"

definition escaped_loopback :: string where
  "escaped_loopback = ''127'' @ [BSLASH] @ ''.0'' @ [BSLASH] @ ''.0'' @ [BSLASH] @ ''.1:''"

definition normalize_cgi_output :: "string \<Rightarrow> string" where
  "normalize_cgi_output v0 =
     (let v1 = regex_replace v0 (digits_pattern ''SERVER_PORT='') ''SERVER_PORT=PORT'';
          v2 = regex_replace v1 (digits_pattern (''HTTP_HOST='' @ escaped_loopback)) ''HTTP_HOST=127.0.0.1:PORT'';
          v3 = regex_replace v2 (digits_pattern (''Host: '' @ escaped_loopback)) ''Host: 127.0.0.1:PORT''
      in regex_replace v3 (digits_pattern (''Host='' @ escaped_loopback)) ''Host=127.0.0.1:PORT'')"

text \<open>The literal of the source has a line feed between the brackets, not an escape.\<close>

definition pwd_pattern :: string where
  "pwd_pattern = ''PWD=/[^'' @ [LF] @ '']*''"

definition normalize_pwd :: "string \<Rightarrow> string" where
  "normalize_pwd v = regex_replace v pwd_pattern ''PWD=NORMALIZED''"

definition normalize_value :: "string \<Rightarrow> string" where
  "normalize_value v = normalize_pwd (normalize_cgi_output (normalize_paths v))"

definition normalize_header_value :: "string \<Rightarrow> string \<Rightarrow> string" where
  "normalize_header_value name v =
     (if name \<in> set TIMESTAMP_HEADERS \<and> is_timestamp v then ''<timestamp>'' else normalize_value v)"

section \<open>Headers\<close>

definition group_header :: "string \<times> string \<Rightarrow> (string \<rightharpoonup> string list) \<Rightarrow> (string \<rightharpoonup> string list)" where
  "group_header nv m =
     (case nv of (name, v) \<Rightarrow>
        (let key = to_ascii_lowercase name in
         m(key \<mapsto> (case m key of Some vs \<Rightarrow> vs | None \<Rightarrow> []) @ [normalize_header_value key v])))"

definition grouped_normalized_headers :: "header_list \<Rightarrow> (string \<rightharpoonup> string list)" where
  "grouped_normalized_headers hs = (\<lambda>k. map_option sort (fold group_header hs (\<lambda>_. None) k))"

definition header_keys :: "header_list \<Rightarrow> string list" where
  "header_keys hs = map (\<lambda>(n, v). to_ascii_lowercase n) hs"

type_synonym header_mismatch = "string \<times> string list option \<times> string list option"

definition normalize_header_values :: "header_list \<Rightarrow> header_list \<Rightarrow> header_mismatch list" where
  "normalize_header_values expected actual =
     (let ex = grouped_normalized_headers expected;
          act = grouped_normalized_headers actual
      in concat (map (\<lambda>key.
           (case (ex key, act key) of
              (Some e, Some a) \<Rightarrow> if e \<noteq> a then [(key, Some e, Some a)] else []
            | (e, a) \<Rightarrow> [(key, e, a)])) (sort (remdups (header_keys expected @ header_keys actual)))))"

section \<open>Bodies\<close>

definition latin1_char :: "char \<Rightarrow> string" where
  "latin1_char b = (let v = byte_val b in if v < 128 then [b] else [byte_of (192 + v div 64), byte_of (128 + v mod 64)])"

definition bytes_to_latin1 :: "bytes \<Rightarrow> string" where
  "bytes_to_latin1 bs = concat (map latin1_char bs)"

text \<open>The code point of the character at the head of a valid text.\<close>

definition code_point :: "string \<Rightarrow> nat" where
  "code_point s =
     (let x = byte_at s 0; y = byte_at s 1 - 128; z = byte_at s 2 - 128; u = byte_at s 3 - 128 in
      if char_len s = 1 then x
      else if char_len s = 2 then (x - 192) * 64 + y
      else if char_len s = 3 then (x - 224) * 4096 + y * 64 + z
      else (x - 240) * 262144 + y * 4096 + z * 64 + u)"

function latin1_to_bytes :: "string \<Rightarrow> bytes" where
  "latin1_to_bytes s = (if s = [] then [] else byte_of (code_point s mod 256) # latin1_to_bytes (drop (char_len s) s))"
  by pat_completeness auto
termination
  by (relation "measure length") (auto simp: length_greater_0_conv)

declare latin1_to_bytes.simps [simp del]

definition normalize_body_bytes :: "bytes \<Rightarrow> bytes" where
  "normalize_body_bytes body =
     latin1_to_bytes (normalize_pwd (normalize_cgi_output (normalize_paths (bytes_to_latin1 body))))"

definition lower_hex_digit :: "nat \<Rightarrow> char" where
  "lower_hex_digit d = (if d < 10 then byte_of (48 + d) else byte_of (87 + d))"

definition hex_encode :: "bytes \<Rightarrow> string" where
  "hex_encode bs = concat (map (\<lambda>b. [lower_hex_digit (byte_val b div 16), lower_hex_digit (byte_val b mod 16)]) bs)"

definition sha256_hex :: "(bytes \<Rightarrow> bytes) \<Rightarrow> bytes \<Rightarrow> string" where
  "sha256_hex sha256 d = hex_encode (sha256 d)"

definition diff_responses ::
  "(bytes \<Rightarrow> bytes) \<Rightarrow> nat \<Rightarrow> header_list \<Rightarrow> bytes \<Rightarrow> bool \<Rightarrow> nat \<Rightarrow> header_list \<Rightarrow> bytes \<Rightarrow> bool \<Rightarrow> request_context \<Rightarrow>
     divergence list" where
  "diff_responses sha256 primary_status primary_headers primary_body primary_truncated
       shadow_status shadow_headers shadow_body shadow_truncated ctx =
     (if primary_status \<noteq> shadow_status
      then [divergence_new FStatus (dec_nat primary_status) (dec_nat shadow_status) ctx] else []) @
     (if primary_truncated \<or> shadow_truncated
      then [(divergence_new FBody ''full body'' ''truncated at cap'' ctx)\<lparr>dv_truncated := True\<rparr>] else []) @
     (let mismatches = normalize_header_values primary_headers shadow_headers in
      if mismatches \<noteq> []
      then [divergence_new FHeaders ''matching normalized headers'' (join_str '', '' (map fst mismatches)) ctx] else []) @
     (if \<not> primary_truncated \<and> \<not> shadow_truncated then
        (let exp_hash = sha256_hex sha256 (normalize_body_bytes primary_body);
             act_hash = sha256_hex sha256 (normalize_body_bytes shadow_body)
         in if exp_hash \<noteq> act_hash then [divergence_new FBody exp_hash act_hash ctx] else [])
      else [])"

section \<open>Headers are compared as multisets\<close>

definition values_of :: "header_list \<Rightarrow> string \<Rightarrow> string list" where
  "values_of hs k = map (\<lambda>(n, v). normalize_header_value k v) (filter (\<lambda>(n, v). to_ascii_lowercase n = k) hs)"

lemma fold_group_header:
  "fold group_header hs m k =
     (if values_of hs k = [] then m k else Some ((case m k of Some vs \<Rightarrow> vs | None \<Rightarrow> []) @ values_of hs k))"
proof (induction hs arbitrary: m)
  case (Cons h hs)
  obtain n v where "h = (n, v)" by (cases h)
  then show ?case using Cons by (auto simp: group_header_def values_of_def Let_def)
qed (simp add: values_of_def)

lemma grouped_values: "grouped_normalized_headers hs k = (if values_of hs k = [] then None else Some (sort (values_of hs k)))"
  by (simp add: grouped_normalized_headers_def fold_group_header)

lemma values_of_Nil: "values_of hs k = [] \<longleftrightarrow> k \<notin> set (header_keys hs)"
  by (auto simp: values_of_def header_keys_def filter_empty_conv)

lemma sort_eq_iff: "sort xs = sort ys \<longleftrightarrow> mset xs = mset ys" for xs ys :: "string list"
  by (metis mset_sort properties_for_sort sorted_sort)

lemma normalize_header_values_silent:
  "normalize_header_values expected actual = [] \<longleftrightarrow> (\<forall>k. mset (values_of expected k) = mset (values_of actual k))"
proof -
  have "normalize_header_values expected actual = [] \<longleftrightarrow>
      (\<forall>k \<in> set (header_keys expected @ header_keys actual).
         values_of expected k \<noteq> [] \<and> values_of actual k \<noteq> [] \<and> sort (values_of expected k) = sort (values_of actual k))"
    by (auto simp: normalize_header_values_def Let_def grouped_values split: if_splits)
  also have "\<dots> \<longleftrightarrow> (\<forall>k. mset (values_of expected k) = mset (values_of actual k))"
  proof (intro iffI allI ballI)
    fix k
    assume l: "\<forall>k \<in> set (header_keys expected @ header_keys actual).
         values_of expected k \<noteq> [] \<and> values_of actual k \<noteq> [] \<and> sort (values_of expected k) = sort (values_of actual k)"
    show "mset (values_of expected k) = mset (values_of actual k)"
    proof (cases "k \<in> set (header_keys expected @ header_keys actual)")
      case True
      then show ?thesis using l sort_eq_iff by blast
    next
      case False
      then have "values_of expected k = []" "values_of actual k = []" by (simp_all add: values_of_Nil)
      then show ?thesis by simp
    qed
  next
    fix k
    assume r: "\<forall>k. mset (values_of expected k) = mset (values_of actual k)"
      and k: "k \<in> set (header_keys expected @ header_keys actual)"
    have "values_of expected k = [] \<longleftrightarrow> values_of actual k = []" using r by (metis mset_zero_iff)
    moreover have "values_of expected k \<noteq> [] \<or> values_of actual k \<noteq> []" using k by (auto simp: values_of_Nil)
    ultimately show "values_of expected k \<noteq> [] \<and> values_of actual k \<noteq> [] \<and> sort (values_of expected k) = sort (values_of actual k)"
      using r sort_eq_iff by blast
  qed
  finally show ?thesis .
qed

section \<open>Hexadecimal digits\<close>

lemma lower_hex_digit_inject: "a < 16 \<Longrightarrow> b < 16 \<Longrightarrow> lower_hex_digit a = lower_hex_digit b \<longleftrightarrow> a = b"
proof -
  assume "a < 16" "b < 16"
  then have v: "byte_val (lower_hex_digit a) = (if a < 10 then 48 + a else 87 + a)"
    "byte_val (lower_hex_digit b) = (if b < 10 then 48 + b else 87 + b)" by (simp_all add: lower_hex_digit_def)
  have "lower_hex_digit a = lower_hex_digit b \<longleftrightarrow> byte_val (lower_hex_digit a) = byte_val (lower_hex_digit b)"
    by (simp add: byte_val_inject)
  also have "\<dots> \<longleftrightarrow> a = b" unfolding v by (cases "a < 10"; cases "b < 10") auto
  finally show ?thesis .
qed

lemma hex_encode_inject: "hex_encode xs = hex_encode ys \<longleftrightarrow> xs = ys"
proof (induction xs arbitrary: ys)
  case Nil
  then show ?case by (cases ys) (auto simp: hex_encode_def)
next
  case (Cons x xs)
  show ?case
  proof (cases ys)
    case (Cons y ys')
    have "byte_val x div 16 = byte_val y div 16 \<and> byte_val x mod 16 = byte_val y mod 16 \<longleftrightarrow> x = y"
      by (metis byte_val_inject div_mult_mod_eq)
    moreover have "byte_val z div 16 < 16" for z by (rule less_mult_imp_div_less) (use byte_val_lt[of z] in simp)
    ultimately show ?thesis using Cons.IH[of ys'] Cons by (auto simp: hex_encode_def lower_hex_digit_inject)
  qed (simp add: hex_encode_def)
qed

text \<open>
  C25. What shadow mode reports. No divergence is recorded exactly when the status codes are equal,
  neither body was cut at the cap, every header name, without regard to case and order, has the same
  multiset of normalised values on both sides, and the normalised bodies have the same hash.
\<close>
theorem diff_silent_iff:
  "diff_responses sha256 s1 h1 b1 t1 s2 h2 b2 t2 ctx = [] \<longleftrightarrow>
     s1 = s2 \<and> \<not> t1 \<and> \<not> t2 \<and> (\<forall>k. mset (values_of h1 k) = mset (values_of h2 k)) \<and>
     sha256 (normalize_body_bytes b1) = sha256 (normalize_body_bytes b2)"
  by (auto simp: diff_responses_def Let_def normalize_header_values_silent sha256_hex_def hex_encode_inject)

section \<open>Bodies through Latin-1\<close>

lemma latin1_step: "utf8_step (latin1_char c @ t) = (True, length (latin1_char c))"
proof (cases "byte_val c < 128")
  case True
  then show ?thesis by (simp add: latin1_char_def utf8_step_def byte_at_def Let_def)
next
  case False
  have "byte_val c div 64 < 4" by (rule less_mult_imp_div_less) (use byte_val_lt[of c] in simp)
  moreover have "2 \<le> byte_val c div 64" using False by simp
  moreover have "byte_val c mod 64 < 64" by simp
  ultimately show ?thesis using False
    by (simp add: latin1_char_def utf8_step_def byte_at_def is_cont_def Let_def)
qed

lemma latin1_nonempty [simp]: "latin1_char c \<noteq> []"
  by (simp add: latin1_char_def Let_def)

lemma latin1_code_point: "code_point (latin1_char c @ t) = byte_val c"
proof (cases "byte_val c < 128")
  case True
  then show ?thesis using latin1_step[of c t] by (simp add: latin1_char_def code_point_def byte_at_def Let_def)
next
  case False
  have d: "byte_val c div 64 < 4" by (rule less_mult_imp_div_less) (use byte_val_lt[of c] in simp)
  have "byte_val c mod 64 < 64" by simp
  then show ?thesis using latin1_step[of c t] False d
    by (simp add: latin1_char_def code_point_def byte_at_def Let_def)
qed

lemma bytes_to_latin1_simps [simp]:
  "bytes_to_latin1 [] = []" "bytes_to_latin1 (c # cs) = latin1_char c @ bytes_to_latin1 cs"
  by (simp_all add: bytes_to_latin1_def)

lemma latin1_roundtrip: "latin1_to_bytes (bytes_to_latin1 bs) = bs"
proof (induction bs)
  case (Cons c cs)
  then show ?case by (subst latin1_to_bytes.simps) (simp add: latin1_step latin1_code_point)
qed (simp add: latin1_to_bytes.simps)

lemma starts_with_latin1: "is_ascii p \<Longrightarrow> starts_with p (bytes_to_latin1 bs) \<Longrightarrow> starts_with p bs"
proof (induction p arbitrary: bs)
  case (Cons a p)
  then obtain c cs where b: "bs = c # cs" by (cases bs) (auto simp: starts_with_def)
  have a: "byte_val a < 128" using Cons.prems(1) by (simp add: is_ascii_def)
  have "byte_val c < 128"
  proof (rule ccontr)
    assume "\<not> byte_val c < 128"
    moreover have "byte_val c div 64 < 4" by (rule less_mult_imp_div_less) (use byte_val_lt[of c] in simp)
    ultimately show False using Cons.prems(2) a by (auto simp: b starts_with_def latin1_char_def Let_def)
  qed
  then show ?case using Cons by (auto simp: b starts_with_def latin1_char_def is_ascii_def)
qed (simp add: starts_with_def)

lemma contains_str_Cons: "contains_str p (c # cs) \<longleftrightarrow> starts_with p (c # cs) \<or> contains_str p cs"
  by (auto simp: contains_str_def)

lemma contains_latin1:
  assumes "is_ascii p" "p \<noteq> []" "contains_str p (bytes_to_latin1 bs)"
  shows "contains_str p bs"
  using assms(3)
proof (induction bs)
  case (Cons c cs)
  have "starts_with p (bytes_to_latin1 (c # cs)) \<or> contains_str p (bytes_to_latin1 cs)"
  proof (cases "byte_val c < 128")
    case True
    then show ?thesis using Cons.prems by (simp add: latin1_char_def contains_str_Cons)
  next
    case False
    have "byte_val c mod 64 < 64" by simp
    then have "\<not> starts_with p (byte_of (128 + byte_val c mod 64) # bytes_to_latin1 cs)"
      using assms(1,2) by (cases p) (auto simp: starts_with_def is_ascii_def)
    then show ?thesis using Cons.prems False by (simp add: latin1_char_def contains_str_Cons Let_def)
  qed
  then show ?case using Cons.IH starts_with_latin1[OF assms(1), of "c # cs"] by (auto simp: contains_str_Cons)
qed (use assms(2) in \<open>simp add: contains_str_def\<close>)

text \<open>A loop that copies character by character where it finds nothing copies all when there is nothing.\<close>

lemma char_walk_id:
  assumes "f [] = []" "\<And>s. s \<noteq> [] \<Longrightarrow> list_all (\<lambda>p. \<not> starts_with p s) ps \<Longrightarrow> f s = take (char_len s) s @ f (drop (char_len s) s)"
    and "list_all is_ascii ps" "list_all (\<lambda>p. \<not> contains_str p bs) ps"
  shows "f (bytes_to_latin1 bs) = bytes_to_latin1 bs"
  using assms(4)
proof (induction bs)
  case (Cons c cs)
  have "list_all (\<lambda>p. \<not> starts_with p (bytes_to_latin1 (c # cs))) ps"
    using Cons.prems assms(3) starts_with_latin1[of _ "c # cs"] by (auto simp: list_all_iff contains_str_Cons)
  from assms(2)[OF _ this] Cons show ?case by (simp add: latin1_step contains_str_Cons list_all_iff)
qed (simp add: assms(1))

lemma replace_str_absent: "\<not> contains_str p s \<Longrightarrow> replace_str p r s = s"
proof (induction s)
  case (Cons c cs)
  then show ?case by (subst replace_str.simps) (auto simp: contains_str_Cons)
qed (simp add: replace_str.simps)

lemma normalize_pwd_eq: "normalize_pwd v = replace_str pwd_pattern ''PWD=NORMALIZED'' v"
proof -
  have "split_pattern pwd_pattern = None" by code_simp
  then show ?thesis by (simp add: normalize_pwd_def regex_replace_def)
qed

definition cgi_heads :: "string list" where
  "cgi_heads = [''SERVER_PORT='', ''HTTP_HOST=127.0.0.1:'', ''Host: 127.0.0.1:'', ''Host=127.0.0.1:'']"

definition body_markers :: "string list" where
  "body_markers = [golden_prefix, diff_prefix, pytest_prefix] @ cgi_heads @ [pwd_pattern]"

lemma cgi_output_eq:
  "normalize_cgi_output v =
     regex_loop ''Host=127.0.0.1:'' TDigit ''Host=127.0.0.1:PORT'' (regex_loop ''Host: 127.0.0.1:'' TDigit ''Host: 127.0.0.1:PORT''
       (regex_loop ''HTTP_HOST=127.0.0.1:'' TDigit ''HTTP_HOST=127.0.0.1:PORT''
         (regex_loop ''SERVER_PORT='' TDigit ''SERVER_PORT=PORT'' v)))"
proof -
  have "map_option (\<lambda>(h, c). (unescape_regex_literal h, c)) (split_pattern (digits_pattern ''SERVER_PORT='')) = Some (''SERVER_PORT='', TDigit)"
    "map_option (\<lambda>(h, c). (unescape_regex_literal h, c)) (split_pattern (digits_pattern (''HTTP_HOST='' @ escaped_loopback))) =
       Some (''HTTP_HOST=127.0.0.1:'', TDigit)"
    "map_option (\<lambda>(h, c). (unescape_regex_literal h, c)) (split_pattern (digits_pattern (''Host: '' @ escaped_loopback))) =
       Some (''Host: 127.0.0.1:'', TDigit)"
    "map_option (\<lambda>(h, c). (unescape_regex_literal h, c)) (split_pattern (digits_pattern (''Host='' @ escaped_loopback))) =
       Some (''Host=127.0.0.1:'', TDigit)"
    by code_simp+
  then show ?thesis by (auto simp: normalize_cgi_output_def regex_replace_def Let_def)
qed

lemma regex_loop_absent:
  assumes "is_ascii h" "h \<noteq> []" "\<not> contains_str h bs"
  shows "regex_loop h cls r (bytes_to_latin1 bs) = bytes_to_latin1 bs"
  by (rule char_walk_id[where ps = "[h]"])
    (use assms in \<open>auto simp: regex_loop.simps[of h cls r]\<close>)

lemma normalize_paths_absent:
  assumes "\<not> contains_str golden_prefix bs" "\<not> contains_str diff_prefix bs" "\<not> contains_str pytest_prefix bs"
  shows "normalize_paths (bytes_to_latin1 bs) = bytes_to_latin1 bs"
proof (rule char_walk_id[where ps = "[golden_prefix, diff_prefix, pytest_prefix]"])
  show "list_all is_ascii [golden_prefix, diff_prefix, pytest_prefix]" by code_simp
qed (use assms in \<open>auto simp: normalize_paths.simps[of s for s]\<close>)

text \<open>
  Bodies are compared byte for byte. A body, text or binary, that contains none of the eight
  markers of the test environment passes through the normalisation unchanged, so that two such
  bodies that differ are told apart whenever their hashes differ.
\<close>
theorem plain_body_unchanged:
  assumes "list_all (\<lambda>m. \<not> contains_str m body) body_markers"
  shows "normalize_body_bytes body = body"
proof -
  note a = assms[unfolded body_markers_def cgi_heads_def, simplified]
  have heads: "is_ascii ''SERVER_PORT=''" "is_ascii ''HTTP_HOST=127.0.0.1:''" "is_ascii ''Host: 127.0.0.1:''"
    "is_ascii ''Host=127.0.0.1:''" "is_ascii pwd_pattern" "pwd_pattern \<noteq> []" by code_simp+
  have "normalize_cgi_output (bytes_to_latin1 body) = bytes_to_latin1 body"
    using a heads by (simp add: cgi_output_eq regex_loop_absent)
  moreover have "normalize_pwd (bytes_to_latin1 body) = bytes_to_latin1 body"
    unfolding normalize_pwd_eq using a contains_latin1[OF heads(5,6)] by (intro replace_str_absent) blast
  ultimately show ?thesis using a by (simp add: normalize_body_bytes_def normalize_paths_absent latin1_roundtrip)
qed

theorem plain_body_unchanged_witness: "normalize_body_bytes [CHR 0xFF, CHR 0x00, CHR 0xC3] = [CHR 0xFF, CHR 0x00, CHR 0xC3]"
  by (rule plain_body_unchanged) code_simp

text \<open>
  The directory of a script is not normalised. The pattern for it holds a line feed where the
  replacement looks for an escape, so it is taken literally: a text without that literal, such as
  every environment a script prints, is left as it is.
\<close>
theorem normalize_pwd_literal:
  assumes "\<not> contains_str pwd_pattern v"
  shows "normalize_pwd v = v"
  unfolding normalize_pwd_eq using assms by (rule replace_str_absent)

theorem normalize_pwd_literal_witness: "normalize_pwd (''PWD=/srv/www/cgi-bin'' @ [LF]) = ''PWD=/srv/www/cgi-bin'' @ [LF]"
  by (rule normalize_pwd_literal) code_simp

end
