(* ===== verification/Proxy_Forward.thy ===== *)
theory Proxy_Forward
  imports Rust_Prelude
begin

text \<open>
  What the migration proxy sends on: \<open>forwarder.rs\<close> of \<open>crates/thttpd-migrate/src\<close> and the
  capped reading of \<open>shadow.rs\<close>. A header map (\<open>hyper::HeaderMap\<close>) is the list of the pairs its
  iterator yields, with names in lower case. A body is the list of the frames it yields: data,
  trailers, or an error that ends it. Whether a string parses as a URI is a parameter.
\<close>

section \<open>Headers\<close>

definition HOP_BY_HOP :: "string list" where
  "HOP_BY_HOP =
     [''connection'', ''keep-alive'', ''proxy-authenticate'', ''proxy-authorization'', ''te'', ''trailer'',
      ''transfer-encoding'', ''upgrade'']"

definition is_hop_by_hop :: "string \<Rightarrow> bool" where
  "is_hop_by_hop name \<longleftrightarrow> list_ex (\<lambda>h. eq_ignore_ascii_case h name) HOP_BY_HOP"

text \<open>\<open>HeaderValue::to_str\<close>: visible ASCII and tabs only.\<close>

definition header_to_str :: "bytes \<Rightarrow> string option" where
  "header_to_str v = (if list_all (\<lambda>c. byte_val c = 9 \<or> 32 \<le> byte_val c \<and> byte_val c < 127) v then Some v else None)"

definition str_or_default :: "bytes \<Rightarrow> string" where
  "str_or_default v = (case header_to_str v of Some s \<Rightarrow> s | None \<Rightarrow> [])"

definition get_all :: "string \<Rightarrow> header_list \<Rightarrow> bytes list" where
  "get_all n hs = map snd (filter (\<lambda>(k, v). k = n) hs)"

definition header_insert :: "string \<Rightarrow> bytes \<Rightarrow> header_list \<Rightarrow> header_list" where
  "header_insert n v hs = filter (\<lambda>(k, _). k \<noteq> n) hs @ [(n, v)]"

definition connection_tokens :: "header_list \<Rightarrow> string list" where
  "connection_tokens hs =
     filter (\<lambda>t. t \<noteq> [])
       (concat (map (\<lambda>v. case header_to_str v of
            None \<Rightarrow> []
          | Some s \<Rightarrow> map (\<lambda>t. to_ascii_lowercase (trim t)) (split_byte (CHR '','') s)) (get_all ''connection'' hs)))"

definition forwarded_headers :: "header_list \<Rightarrow> header_list" where
  "forwarded_headers hs =
     map (\<lambda>(n, v). (n, str_or_default v))
       (filter (\<lambda>(n, v). \<not> is_hop_by_hop n \<and> to_ascii_lowercase n \<notin> set (connection_tokens hs)) hs)"

text \<open>A token that is the name of a header of the map is a header name.\<close>

definition strip_hop_by_hop :: "header_list \<Rightarrow> header_list" where
  "strip_hop_by_hop hs =
     (let connection_listed = filter (\<lambda>t. t \<in> set (map fst hs)) (connection_tokens hs);
          hs1 = filter (\<lambda>(n, v). n \<notin> set connection_listed) hs;
          to_remove = filter is_hop_by_hop (map fst hs1)
      in filter (\<lambda>(n, v). n \<notin> set to_remove) hs1)"

section \<open>Bodies\<close>

datatype body_item = Data bytes | Trailers header_list | BodyError

type_synonym body = "body_item list"

definition full_body :: "bytes \<Rightarrow> body" where
  "full_body b = (if b = [] then [] else [Data b])"

record chained_body =
  cb_chunks :: "bytes list"
  cb_rest :: "body option"

definition chained_new :: "bytes list \<Rightarrow> body option \<Rightarrow> chained_body" where
  "chained_new chunks rest = \<lparr>cb_chunks = filter (\<lambda>c. c \<noteq> []) chunks, cb_rest = rest\<rparr>"

definition poll_frame :: "chained_body \<Rightarrow> chained_body \<times> body_item option" where
  "poll_frame b =
     (case cb_chunks b of
        chunk # cs \<Rightarrow> (b\<lparr>cb_chunks := cs\<rparr>, Some (Data chunk))
      | [] \<Rightarrow>
          (case cb_rest b of
             Some (f # fs) \<Rightarrow> (b\<lparr>cb_rest := Some fs\<rparr>, Some f)
           | Some [] \<Rightarrow> (b, None)
           | None \<Rightarrow> (b, None)))"

text \<open>The frames that polling to the end yields.\<close>

function drain_chained :: "chained_body \<Rightarrow> body" where
  "drain_chained b = (case poll_frame b of (b', None) \<Rightarrow> [] | (b', Some f) \<Rightarrow> f # drain_chained b')"
  by pat_completeness auto
termination
  by (relation "measure (\<lambda>b. length (cb_chunks b) + (case cb_rest b of Some fs \<Rightarrow> length fs | None \<Rightarrow> 0))")
    (auto simp: poll_frame_def split: list.splits option.splits)

declare drain_chained.simps [simp del]

lemma drain_chained_eq:
  "drain_chained b = map Data (cb_chunks b) @ (case cb_rest b of Some fs \<Rightarrow> fs | None \<Rightarrow> [])"
proof (induction b rule: drain_chained.induct)
  case (1 b)
  show ?case
    by (subst drain_chained.simps) (use 1 in \<open>auto simp: poll_frame_def split: list.splits option.splits\<close>)
qed

text \<open>The first component is the result, the second the frames left in the body.\<close>

fun read_capped :: "nat \<Rightarrow> bytes \<Rightarrow> body \<Rightarrow> (unit + bytes \<times> bytes option \<times> bool) \<times> body" where
  "read_capped max_bytes buf [] = (Inr (buf, None, False), [])"
| "read_capped max_bytes buf (Data d # fs) =
     (if length buf + length d \<le> max_bytes then read_capped max_bytes (buf @ d) fs
      else
        (let remaining = max_bytes - length buf
         in (Inr (buf @ take remaining d, Some (drop remaining d), True), fs)))"
| "read_capped max_bytes buf (Trailers _ # fs) = read_capped max_bytes buf fs"
| "read_capped max_bytes buf (BodyError # fs) = (Inl (), fs)"

text \<open>The body sent on after a capped read: the copy, the rest of the split frame, what is unread.\<close>

definition rebuilt_body :: "bytes \<times> bytes option \<times> bool \<Rightarrow> body \<Rightarrow> body" where
  "rebuilt_body r rest =
     (case r of (prefix, tail, truncated) \<Rightarrow>
        if truncated
        then drain_chained (chained_new [prefix, case tail of Some t \<Rightarrow> t | None \<Rightarrow> []] (Some rest))
        else full_body prefix)"

section \<open>Requests for a backend\<close>

record backend_request =
  bq_method :: string
  bq_uri :: string
  bq_headers :: header_list
  bq_body :: body

text \<open>None is the panic of the \<open>expect\<close> on the URI.\<close>

definition rebuild_for_backend_streaming ::
  "(string \<Rightarrow> bool) \<Rightarrow> string option \<Rightarrow> string \<Rightarrow> header_list \<Rightarrow> body \<Rightarrow> string \<Rightarrow> backend_request option" where
  "rebuild_for_backend_streaming parse_uri path_and_query m headers body backend_addr =
     (let pq = (case path_and_query of Some pq \<Rightarrow> pq | None \<Rightarrow> ''/'');
          uri = ''http://'' @ backend_addr @ pq;
          kept = filter (\<lambda>(k, v). \<not> is_hop_by_hop k) headers;
          had_host = list_ex (\<lambda>(k, v). eq_ignore_ascii_case k ''host'') kept
      in if \<not> parse_uri uri then None
         else Some \<lparr>bq_method = m, bq_uri = uri,
                    bq_headers = kept @ (if had_host then [] else [(''host'', backend_addr)]), bq_body = body\<rparr>)"

definition rebuild_for_backend ::
  "(string \<Rightarrow> bool) \<Rightarrow> string option \<Rightarrow> string \<Rightarrow> header_list \<Rightarrow> bytes \<Rightarrow> string \<Rightarrow> backend_request option" where
  "rebuild_for_backend parse_uri path_and_query m headers body backend_addr =
     rebuild_for_backend_streaming parse_uri path_and_query m headers (full_body body) backend_addr"

definition shadow_headers_for_body :: "header_list \<Rightarrow> nat \<Rightarrow> header_list" where
  "shadow_headers_for_body headers body_len =
     filter (\<lambda>(k, v). \<not> eq_ignore_ascii_case k ''content-length'' \<and> \<not> eq_ignore_ascii_case k ''transfer-encoding'') headers
       @ [(''content-length'', dec_nat body_len)]"

section \<open>Lemmas\<close>

fun body_data :: "body \<Rightarrow> bytes" where
  "body_data [] = []"
| "body_data (Data d # fs) = d @ body_data fs"
| "body_data (Trailers _ # fs) = body_data fs"
| "body_data (BodyError # fs) = []"

definition body_fails :: "body \<Rightarrow> bool" where
  "body_fails b \<longleftrightarrow> BodyError \<in> set b"

lemma body_data_chunks: "body_data (map Data cs @ fs) = concat cs @ body_data fs"
  by (induction cs) auto

lemma body_data_full [simp]: "body_data (full_body b) = b" "\<not> body_fails (full_body b)"
  by (simp_all add: full_body_def body_fails_def)

lemma rebuilt_body_truncated:
  "rebuilt_body (prefix, Some t, True) rest = map Data (filter (\<lambda>c. c \<noteq> []) [prefix, t]) @ rest"
  by (simp add: rebuilt_body_def drain_chained_eq chained_new_def)

lemma concat_nonempty: "concat (filter (\<lambda>c. c \<noteq> []) cs) = concat cs"
  by (induction cs) auto

lemma read_capped_ok:
  assumes "read_capped cap buf fs = (Inr r, rest)" "length buf \<le> cap"
  shows "body_data (rebuilt_body r rest) = buf @ body_data fs \<and> (body_fails (rebuilt_body r rest) \<longleftrightarrow> body_fails fs) \<and>
    length (fst r) \<le> cap \<and> fst r = take cap (buf @ body_data fs)"
  using assms
proof (induction cap buf fs rule: read_capped.induct)
  case (2 cap buf d fs)
  show ?case
  proof (cases "length buf + length d \<le> cap")
    case True
    then show ?thesis using 2 by (auto simp: body_fails_def)
  next
    case False
    let ?n = "cap - length buf"
    have r: "r = (buf @ take ?n d, Some (drop ?n d), True)" "rest = fs" using 2(2) False by (auto simp: Let_def)
    have "concat (filter (\<lambda>c. c \<noteq> []) [buf @ take ?n d, drop ?n d]) = buf @ d" by (simp only: concat_nonempty) simp
    moreover have "take cap (buf @ d @ body_data fs) = buf @ take ?n d" using 2(3) False by (simp add: take_append)
    ultimately show ?thesis using 2(3)
      by (auto simp: r rebuilt_body_truncated body_data_chunks body_fails_def simp del: filter.simps concat.simps)
  qed
qed (auto simp: rebuilt_body_def body_fails_def full_body_def split: if_splits)

lemma read_capped_error: "read_capped cap buf fs = (Inl u, rest) \<Longrightarrow> body_fails fs"
  by (induction cap buf fs rule: read_capped.induct) (auto simp: body_fails_def Let_def split: if_splits)

text \<open>Both directions drop the same headers: the hop-by-hop ones and those that Connection names.\<close>

lemma strip_hop_by_hop_eq:
  "strip_hop_by_hop hs = filter (\<lambda>(n, v). \<not> is_hop_by_hop n \<and> n \<notin> set (connection_tokens hs)) hs"
  unfolding strip_hop_by_hop_def Let_def filter_filter by (intro filter_cong) force+

end
