(* ===== verification/Proxy_Server.thy ===== *)
theory Proxy_Server
  imports Control_Plane Proxy_Forward Response_Diff
begin

text \<open>
  The request handler of the migration proxy, \<open>server.rs\<close>, and the mirroring task of \<open>shadow.rs\<close>,
  both in \<open>crates/thttpd-migrate/src\<close>. Each handler is cut where it waits for a backend: the part
  before the request is sent and the part after the answer is there. What a backend answers is a
  function of the request it is sent, None for an error of the client library. The counters of the
  metrics library are the list of the updates. Requests and mirroring tasks under way at the same
  time are in the theory Proxy_Probes.
\<close>

section \<open>Responses\<close>

record proxy_request =
  pq_method :: string
  pq_path :: string
  pq_path_and_query :: "string option"
  pq_headers :: header_list
  pq_body :: body

record proxy_response =
  ps_status :: nat
  ps_headers :: header_list
  ps_body :: body

definition strip_suffix_byte :: "char \<Rightarrow> string \<Rightarrow> string option" where
  "strip_suffix_byte c s = (if s \<noteq> [] \<and> last s = c then Some (butlast s) else None)"

definition is_excluded :: "string \<Rightarrow> string list \<Rightarrow> bool" where
  "is_excluded path patterns \<longleftrightarrow>
     list_ex (\<lambda>p. case strip_suffix_byte (CHR ''*'') p of
         Some prefix \<Rightarrow> starts_with prefix path
       | None \<Rightarrow> path = p) patterns"

datatype metric = MRequest string | MDuration string string | M5xx string | MDivergence string string

text \<open>The names of the metrics, and the exporter that describes them; its listener is a parameter.\<close>

datatype metric_kind = Counter | Histogram

fun metric_name :: "metric \<Rightarrow> metric_kind \<times> string" where
  "metric_name (MRequest backend) = (Counter, ''thttpd_migrate_requests_total'')"
| "metric_name (MDuration backend cls) = (Histogram, ''thttpd_migrate_request_duration_seconds'')"
| "metric_name (M5xx backend) = (Counter, ''thttpd_migrate_5xx_responses_total'')"
| "metric_name (MDivergence backend field) = (Counter, ''thttpd_migrate_shadow_divergences_total'')"

definition metrics_install :: "(string \<Rightarrow> bool) \<Rightarrow> string \<Rightarrow> string \<Rightarrow> ((metric_kind \<times> string) \<times> string) list option" where
  "metrics_install listener_ok listen path =
     (if \<not> listener_ok listen then None
      else Some
        [((Counter, ''thttpd_migrate_requests_total''), ''Total proxied requests''),
         ((Counter, ''thttpd_migrate_5xx_responses_total''), ''Total 5xx responses from backends''),
         ((Counter, ''thttpd_migrate_shadow_divergences_total''), ''Total shadow divergences''),
         ((Histogram, ''thttpd_migrate_request_duration_seconds''), ''End-to-end request duration'')])"

lemma metrics_described: "metrics_install listener_ok listen path = Some ds \<Longrightarrow> map_of ds (metric_name m) \<noteq> None"
  by (cases m) (auto simp: metrics_install_def split: if_splits)

definition status_class :: "nat \<Rightarrow> string" where
  "status_class status =
     (if 200 \<le> status \<and> status \<le> 299 then ''2xx''
      else if 300 \<le> status \<and> status \<le> 399 then ''3xx''
      else if 400 \<le> status \<and> status \<le> 499 then ''4xx''
      else ''5xx'')"

definition record_metrics :: "string \<Rightarrow> nat \<Rightarrow> metric list" where
  "record_metrics backend status = [MRequest backend, MDuration backend (status_class status)]"

definition not_found :: proxy_response where
  "not_found = \<lparr>ps_status = 404, ps_headers = [], ps_body = full_body ''not found''\<rparr>"

definition backend_unavailable :: proxy_response where
  "backend_unavailable = \<lparr>ps_status = 503, ps_headers = [], ps_body = full_body ''no available backend''\<rparr>"

definition bad_gateway :: proxy_response where
  "bad_gateway = \<lparr>ps_status = 502, ps_headers = [], ps_body = full_body ''bad gateway''\<rparr>"

definition is_server_error :: "nat \<Rightarrow> bool" where
  "is_server_error status \<longleftrightarrow> 500 \<le> status \<and> status < 600"

definition failure_metrics :: "string \<Rightarrow> metric list" where
  "failure_metrics backend = record_metrics backend 502 @ [M5xx backend]"

definition success_metrics :: "string \<Rightarrow> nat \<Rightarrow> metric list" where
  "success_metrics backend status =
     record_metrics backend status @ (if is_server_error status then [M5xx backend] else [])"

section \<open>Requests\<close>

definition X_REQUEST_ID :: string where
  "X_REQUEST_ID = ''x-request-id''"

definition request_id :: "string \<Rightarrow> header_list \<Rightarrow> string" where
  "request_id uuid hs =
     (case get_all X_REQUEST_ID hs of
        [] \<Rightarrow> uuid
      | v # _ \<Rightarrow> (case header_to_str v of Some s \<Rightarrow> s | None \<Rightarrow> uuid))"

definition outbound_headers :: "string \<Rightarrow> header_list \<Rightarrow> header_list" where
  "outbound_headers rid hs =
     filter (\<lambda>(k, _). \<not> eq_ignore_ascii_case k X_REQUEST_ID) (forwarded_headers hs) @ [(X_REQUEST_ID, rid)]"

definition backend_address :: "backend_pool \<Rightarrow> string \<Rightarrow> string" where
  "backend_address p n = (case pool_get p n of Some b \<Rightarrow> bc_address (be_config b) | None \<Rightarrow> [])"

record flight =
  fl_decision :: routing_decision
  fl_request :: backend_request
  fl_method :: string
  fl_path :: string
  fl_path_and_query :: "string option"
  fl_headers :: header_list
  fl_prefix :: bytes
  fl_cap :: nat

datatype begun = Replied proxy_response | Crashed | Forwarding flight

definition launch ::
  "(string \<Rightarrow> bool) \<Rightarrow> backend_pool \<Rightarrow> routing_decision \<Rightarrow> proxy_request \<Rightarrow> nat \<Rightarrow> header_list \<Rightarrow> bytes \<Rightarrow> body \<Rightarrow> begun" where
  "launch parse_uri p d req cap headers prefix body =
     (case rebuild_for_backend_streaming parse_uri (pq_path_and_query req) (pq_method req) headers body
             (backend_address p (dc_backend d)) of
        None \<Rightarrow> Crashed
      | Some q \<Rightarrow>
          Forwarding \<lparr>fl_decision = d, fl_request = q, fl_method = pq_method req, fl_path = pq_path req,
            fl_path_and_query = pq_path_and_query req, fl_headers = headers, fl_prefix = prefix, fl_cap = cap\<rparr>)"

definition handle_shadow_begin ::
  "(string \<Rightarrow> bool) \<Rightarrow> int \<Rightarrow> backend_pool \<Rightarrow> routing_decision \<Rightarrow> proxy_request \<Rightarrow> nat \<Rightarrow> header_list \<Rightarrow>
     backend_pool \<times> metric list \<times> begun" where
  "handle_shadow_begin parse_uri t p d req cap headers =
     (case read_capped cap [] (pq_body req) of
        (Inl _, _) \<Rightarrow>
          (record_outcome t p (dc_backend d) False, failure_metrics (dc_backend d), Replied bad_gateway)
      | (Inr r, rest) \<Rightarrow> (p, [], launch parse_uri p d req cap headers (fst r) (rebuilt_body r rest)))"

definition handle_decided ::
  "(string \<Rightarrow> bool) \<Rightarrow> string \<Rightarrow> int \<Rightarrow> backend_pool \<Rightarrow> shadow_config \<Rightarrow> proxy_request \<Rightarrow> routing_decision \<Rightarrow>
     backend_pool \<times> metric list \<times> begun" where
  "handle_decided parse_uri uuid t p shadow_cfg req d0 =
     (let rid = request_id uuid (pq_headers req);
          headers = outbound_headers rid (pq_headers req);
          d = d0\<lparr>dc_request_id := rid\<rparr>;
          cap = sh_max_body_bytes shadow_cfg
      in case dc_shadow d of
           Some _ \<Rightarrow> handle_shadow_begin parse_uri t p d req cap headers
         | None \<Rightarrow> (p, [], launch parse_uri p d req cap headers [] (pq_body req)))"

definition handle_begin ::
  "(string \<Rightarrow> bool) \<Rightarrow> string \<Rightarrow> router_env \<Rightarrow> int \<Rightarrow> backend_pool \<Rightarrow> routing_config \<Rightarrow> string list \<Rightarrow> shadow_config \<Rightarrow>
     proxy_request \<Rightarrow> backend_pool \<times> metric list \<times> begun" where
  "handle_begin parse_uri uuid e t p routing excluded shadow_cfg req =
     (if is_excluded (pq_path req) excluded then (p, [], Replied not_found)
      else
        (case decide e p routing of
           (p1, None) \<Rightarrow> (p1, [], Replied backend_unavailable)
         | (p1, Some d0) \<Rightarrow> handle_decided parse_uri uuid t p1 shadow_cfg req d0))"

datatype forwarded = NotRoutable | RequestFailed | Responded proxy_response

text \<open>The check before the request is sent, the answer, and the two together.\<close>

definition forward_ready :: "backend_pool \<Rightarrow> routing_decision \<Rightarrow> bool" where
  "forward_ready p d \<longleftrightarrow> (case pool_get p (dc_backend d) of Some b \<Rightarrow> is_routable b | None \<Rightarrow> False)"

definition forward_reply :: "(backend_request \<Rightarrow> proxy_response option) \<Rightarrow> backend_request \<Rightarrow> forwarded" where
  "forward_reply reply q = (case reply q of None \<Rightarrow> RequestFailed | Some r \<Rightarrow> Responded r)"

definition forward ::
  "(backend_request \<Rightarrow> proxy_response option) \<Rightarrow> backend_pool \<Rightarrow> routing_decision \<Rightarrow> backend_request \<Rightarrow> forwarded" where
  "forward reply p d q = (if \<not> forward_ready p d then NotRoutable else forward_reply reply q)"

lemmas forward_defs = forward_def forward_ready_def forward_reply_def

definition rebuild_shadow_response_headers :: "header_list \<Rightarrow> string \<Rightarrow> header_list" where
  "rebuild_shadow_response_headers primary_headers rid =
     header_insert X_REQUEST_ID rid (filter (\<lambda>(k, v). \<not> eq_ignore_ascii_case k X_REQUEST_ID) primary_headers)"

record shadow_task =
  tk_decision :: routing_decision
  tk_shadow :: string
  tk_method :: string
  tk_path :: string
  tk_path_and_query :: "string option"
  tk_headers :: header_list
  tk_body :: bytes
  tk_primary_status :: nat
  tk_primary_headers :: header_list
  tk_primary_body :: bytes
  tk_primary_truncated :: bool
  tk_cap :: nat

definition captured_headers :: "header_list \<Rightarrow> header_list" where
  "captured_headers hs = map (\<lambda>(k, v). (k, str_or_default v)) hs"

type_synonym finished = "backend_pool \<times> metric list \<times> proxy_response \<times> shadow_task option"

definition finish_failed :: "int \<Rightarrow> backend_pool \<Rightarrow> string \<Rightarrow> finished" where
  "finish_failed t p name = (record_outcome t p name False, failure_metrics name, bad_gateway, None)"

definition finish_plain :: "forwarded \<Rightarrow> int \<Rightarrow> backend_pool \<Rightarrow> flight \<Rightarrow> finished" where
  "finish_plain result t p f =
     (let d = fl_decision f; name = dc_backend d in
      case result of
        NotRoutable \<Rightarrow> finish_failed t p name
      | RequestFailed \<Rightarrow> finish_failed t p name
      | Responded resp \<Rightarrow>
          (record_outcome t p name (\<not> is_server_error (ps_status resp)), success_metrics name (ps_status resp),
           \<lparr>ps_status = ps_status resp,
            ps_headers = header_insert X_REQUEST_ID (dc_request_id d) (strip_hop_by_hop (ps_headers resp)),
            ps_body = ps_body resp\<rparr>,
           None))"

definition finish_shadow :: "forwarded \<Rightarrow> int \<Rightarrow> backend_pool \<Rightarrow> flight \<Rightarrow> string \<Rightarrow> finished" where
  "finish_shadow result t p f shadow =
     (let d = fl_decision f; name = dc_backend d in
      case result of
        NotRoutable \<Rightarrow> finish_failed t p name
      | RequestFailed \<Rightarrow> finish_failed t p name
      | Responded resp \<Rightarrow>
          (let status = ps_status resp;
               primary_headers = captured_headers (strip_hop_by_hop (ps_headers resp))
           in case read_capped (fl_cap f) [] (ps_body resp) of
                (Inl _, _) \<Rightarrow> finish_failed t p name
              | (Inr r, rest) \<Rightarrow>
                  (record_outcome t p name (\<not> is_server_error status), success_metrics name status,
                   \<lparr>ps_status = status,
                    ps_headers = rebuild_shadow_response_headers primary_headers (dc_request_id d),
                    ps_body = rebuilt_body r rest\<rparr>,
                   Some \<lparr>tk_decision = d, tk_shadow = shadow, tk_method = fl_method f, tk_path = fl_path f,
                     tk_path_and_query = fl_path_and_query f, tk_headers = fl_headers f, tk_body = fl_prefix f,
                     tk_primary_status = status, tk_primary_headers = primary_headers,
                     tk_primary_body = fst r, tk_primary_truncated = snd (snd r), tk_cap = fl_cap f\<rparr>)))"

definition handle_finish :: "forwarded \<Rightarrow> int \<Rightarrow> backend_pool \<Rightarrow> flight \<Rightarrow> finished" where
  "handle_finish result t p f =
     (case dc_shadow (fl_decision f) of
        Some shadow \<Rightarrow> finish_shadow result t p f shadow
      | None \<Rightarrow> finish_plain result t p f)"

definition handle_end :: "(backend_request \<Rightarrow> proxy_response option) \<Rightarrow> int \<Rightarrow> backend_pool \<Rightarrow> flight \<Rightarrow> finished" where
  "handle_end reply t p f = handle_finish (forward reply p (fl_decision f) (fl_request f)) t p f"

text \<open>
  The handler from the decision on, both parts with the wait for the backend in between: \<open>others\<close> is
  what other tasks do to the pool meanwhile. None is a panic.
\<close>

definition serve_decided ::
  "(string \<Rightarrow> bool) \<Rightarrow> string \<Rightarrow> int \<Rightarrow> (backend_pool \<Rightarrow> backend_pool) \<Rightarrow> (backend_request \<Rightarrow> proxy_response option) \<Rightarrow> int \<Rightarrow>
     backend_pool \<Rightarrow> shadow_config \<Rightarrow> proxy_request \<Rightarrow> routing_decision \<Rightarrow> finished option" where
  "serve_decided parse_uri uuid t others reply t' p cfg req d =
     (case handle_decided parse_uri uuid t p cfg req d of
        (p1, ms, Replied r) \<Rightarrow> Some (p1, ms, r, None)
      | (p1, ms, Crashed) \<Rightarrow> None
      | (p1, ms, Forwarding f) \<Rightarrow>
          (case handle_end reply t' (others p1) f of (p2, ms', r, task) \<Rightarrow> Some (p2, ms @ ms', r, task)))"

lemmas handle_defs = handle_end_def handle_finish_def finish_plain_def finish_shadow_def finish_failed_def

section \<open>Mirroring\<close>

text \<open>The request of a task whose probe has been admitted; None is a panic.\<close>

definition shadow_request :: "(string \<Rightarrow> bool) \<Rightarrow> backend_pool \<Rightarrow> shadow_task \<Rightarrow> backend_request option" where
  "shadow_request parse_uri p task =
     rebuild_for_backend parse_uri (tk_path_and_query task) (tk_method task)
       (shadow_headers_for_body (tk_headers task) (length (tk_body task))) (tk_body task)
       (backend_address p (tk_shadow task))"

definition lifecycle_divergence :: "string \<Rightarrow> string \<Rightarrow> request_context \<Rightarrow> divergence" where
  "lifecycle_divergence expected actual ctx = divergence_new FConnectionLifecycle expected actual ctx"

text \<open>The texts of the errors of the client library and of the body are parameters.\<close>

definition shadow_finish ::
  "(bytes \<Rightarrow> bytes) \<Rightarrow> string \<Rightarrow> forwarded \<Rightarrow> int \<Rightarrow> backend_pool \<Rightarrow> shadow_task \<Rightarrow> backend_pool \<times> divergence list" where
  "shadow_finish sha256 err result t p task =
     (let ctx = \<lparr>rc_path = tk_path task, rc_method = tk_method task, rc_request_id = dc_request_id (tk_decision task)\<rparr>;
          shadow = tk_shadow task
      in case result of
           Responded resp \<Rightarrow>
             (case read_capped (tk_cap task) [] (ps_body resp) of
                (Inr r, _) \<Rightarrow>
                  (record_outcome t p shadow (\<not> is_server_error (ps_status resp)),
                   diff_responses sha256 (tk_primary_status task) (tk_primary_headers task) (tk_primary_body task)
                     (tk_primary_truncated task) (ps_status resp) (captured_headers (ps_headers resp)) (fst r)
                     (snd (snd r)) ctx)
              | (Inl _, _) \<Rightarrow>
                  (record_outcome t p shadow False,
                   [lifecycle_divergence ''complete response body'' (''body read error: '' @ err) ctx]))
         | NotRoutable \<Rightarrow>
             (breaker_release_probe t p shadow, [lifecycle_divergence ''ok'' ''error: backend not routable'' ctx])
         | RequestFailed \<Rightarrow>
             (record_outcome t p shadow False,
              [lifecycle_divergence ''ok'' (''error: backend request failed: '' @ err) ctx]))"

text \<open>The request that is sent asks whether the primary is routable, by the decision it is given.\<close>

definition shadow_end ::
  "(bytes \<Rightarrow> bytes) \<Rightarrow> string \<Rightarrow> (backend_request \<Rightarrow> proxy_response option) \<Rightarrow> int \<Rightarrow> backend_pool \<Rightarrow> shadow_task \<Rightarrow>
     backend_request \<Rightarrow> backend_pool \<times> divergence list" where
  "shadow_end sha256 err reply t p task q = shadow_finish sha256 err (forward reply p (tk_decision task) q) t p task"

lemmas shadow_end_defs = shadow_end_def shadow_finish_def

text \<open>One update of the divergence counter for each divergence, with the name of the field.\<close>

definition divergence_metrics :: "string \<Rightarrow> divergence list \<Rightarrow> metric list" where
  "divergence_metrics shadow ds = map (\<lambda>d. MDivergence shadow (field_str (dv_field d))) ds"

text \<open>A response from captured parts; a header that the library refuses makes the builder fail.\<close>

definition rebuild_response :: "(string \<times> string \<Rightarrow> bool) \<Rightarrow> nat \<Rightarrow> header_list \<Rightarrow> bytes \<Rightarrow> proxy_response option" where
  "rebuild_response header_ok status headers body =
     (if list_all header_ok headers
      then Some \<lparr>ps_status = status, ps_headers = headers, ps_body = full_body body\<rparr> else None)"

section \<open>What the client sees\<close>

lemma header_insert_get: "get_all n (header_insert k v hs) = (if n = k then [v] else get_all n hs)"
  by (auto simp: get_all_def header_insert_def filter_empty_conv intro!: arg_cong[of _ _ "map snd"] filter_cong)

lemma captured_visible: "list_all (\<lambda>(k, v). header_to_str v \<noteq> None) hs \<Longrightarrow> captured_headers hs = hs"
  by (induction hs) (auto simp: captured_headers_def str_or_default_def header_to_str_def split: if_splits)

lemma shadow_headers_get:
  assumes "list_all (\<lambda>(k, v). to_ascii_lowercase k = k) hs"
  shows "get_all n (rebuild_shadow_response_headers hs rid) = get_all n (header_insert X_REQUEST_ID rid hs)"
proof -
  have "to_ascii_lowercase X_REQUEST_ID = X_REQUEST_ID" by code_simp
  then have "filter (\<lambda>(k, v). \<not> eq_ignore_ascii_case k X_REQUEST_ID) hs = filter (\<lambda>(k, v). k \<noteq> X_REQUEST_ID) hs"
    using assms by (intro filter_cong) (auto simp: eq_ignore_ascii_case_def list_all_iff)
  then have "rebuild_shadow_response_headers hs rid = header_insert X_REQUEST_ID rid hs"
    unfolding rebuild_shadow_response_headers_def header_insert_def by (simp add: case_prod_unfold)
  then show ?thesis by simp
qed

definition plain_response :: "proxy_response \<Rightarrow> bool" where
  "plain_response resp \<longleftrightarrow> \<not> body_fails (ps_body resp) \<and>
     list_all (\<lambda>(k, v). to_ascii_lowercase k = k \<and> header_to_str v \<noteq> None) (ps_headers resp)"

text \<open>What the client and the metrics see of two runs of the handler.\<close>

definition same_answer :: "finished \<Rightarrow> finished \<Rightarrow> bool" where
  "same_answer x y \<longleftrightarrow> (case (x, y) of ((p1, m1, r1, _), (p2, m2, r2, _)) \<Rightarrow>
     p1 = p2 \<and> m1 = m2 \<and> ps_status r1 = ps_status r2 \<and> body_data (ps_body r1) = body_data (ps_body r2) \<and>
     body_fails (ps_body r1) = body_fails (ps_body r2) \<and> (\<forall>n. get_all n (ps_headers r1) = get_all n (ps_headers r2)))"

lemma read_capped_whole: "\<not> body_fails b \<Longrightarrow> \<exists>r rest. read_capped cap [] b = (Inr r, rest)"
  by (metis old.sum.exhaust read_capped_error surj_pair)

lemma finish_same:
  assumes "dc_shadow (fl_decision f) = Some s" "fl_decision g = (fl_decision f)\<lparr>dc_shadow := None\<rparr>"
    and "\<And>resp. result = Responded resp \<Longrightarrow> plain_response resp"
  shows "same_answer (handle_finish result t p f) (handle_finish result t p g)"
proof (cases result)
  case (Responded resp)
  let ?hs = "strip_hop_by_hop (ps_headers resp)"
  note ok = assms(3)[OF Responded, unfolded plain_response_def]
  have hs: "list_all (\<lambda>(k, v). to_ascii_lowercase k = k) ?hs" "captured_headers ?hs = ?hs"
    using ok by (auto simp: strip_hop_by_hop_eq list_all_iff intro!: captured_visible)
  obtain r rest where r: "read_capped (fl_cap f) [] (ps_body resp) = (Inr r, rest)" using read_capped_whole ok by blast
  note same = read_capped_ok[OF r, simplified]
  have "get_all n (rebuild_shadow_response_headers ?hs rid) = get_all n (header_insert X_REQUEST_ID rid ?hs)" for n rid
    by (rule shadow_headers_get[OF hs(1)])
  then show ?thesis using same assms(1,2) by (simp add: Responded handle_defs same_answer_def hs(2) r Let_def)
qed (use assms(1,2) in \<open>simp_all add: handle_defs same_answer_def Let_def\<close>)

lemma finish_task:
  assumes "dc_shadow (fl_decision f) = Some s" "plain_response resp" "handle_finish (Responded resp) t p f = (p1, ms, r1, task)"
  shows "\<exists>k. task = Some k \<and> tk_shadow k = s \<and> tk_method k = fl_method f \<and> tk_path_and_query k = fl_path_and_query f \<and>
    tk_headers k = fl_headers f \<and> tk_body k = fl_prefix f \<and> tk_primary_status k = ps_status resp \<and>
    tk_primary_body k = take (fl_cap f) (body_data (ps_body resp))"
proof -
  obtain r rest where r: "read_capped (fl_cap f) [] (ps_body resp) = (Inr r, rest)"
    using read_capped_whole[of "ps_body resp" "fl_cap f"] assms(2) unfolding plain_response_def by blast
  show ?thesis using assms(1,3) read_capped_ok[OF r, simplified] by (auto simp: handle_defs r Let_def)
qed

lemma finish_no_task: "dc_shadow (fl_decision f) = Some s \<Longrightarrow> handle_finish result t p f = (p1, ms, r1, None) \<Longrightarrow> r1 = bad_gateway"
  by (auto simp: handle_defs Let_def split: forwarded.splits prod.splits sum.splits)

text \<open>The requests of the handler with and without a shadow have the same content.\<close>

definition same_request :: "backend_request \<Rightarrow> backend_request \<Rightarrow> bool" where
  "same_request q q' \<longleftrightarrow> bq_method q = bq_method q' \<and> bq_uri q = bq_uri q' \<and> bq_headers q = bq_headers q' \<and>
     body_data (bq_body q) = body_data (bq_body q') \<and> body_fails (bq_body q) = body_fails (bq_body q')"

lemma decided_same:
  assumes "dc_shadow d = Some s" "\<not> body_fails (pq_body req)"
  shows "(handle_decided parse_uri uuid t p cfg req d = (p, [], Crashed) \<and>
      handle_decided parse_uri uuid t p cfg req (d\<lparr>dc_shadow := None\<rparr>) = (p, [], Crashed)) \<or>
    (\<exists>f g. handle_decided parse_uri uuid t p cfg req d = (p, [], Forwarding f) \<and>
      handle_decided parse_uri uuid t p cfg req (d\<lparr>dc_shadow := None\<rparr>) = (p, [], Forwarding g) \<and>
      same_request (fl_request f) (fl_request g) \<and> dc_shadow (fl_decision f) = Some s \<and>
      fl_decision g = (fl_decision f)\<lparr>dc_shadow := None\<rparr> \<and> fl_cap f = sh_max_body_bytes cfg \<and> fl_method f = pq_method req \<and>
      fl_path_and_query f = pq_path_and_query req \<and> fl_headers f = outbound_headers (request_id uuid (pq_headers req)) (pq_headers req) \<and>
      fl_prefix f = take (sh_max_body_bytes cfg) (body_data (pq_body req)))"
proof -
  obtain r rest where r: "read_capped (sh_max_body_bytes cfg) [] (pq_body req) = (Inr r, rest)"
    using read_capped_whole[OF assms(2)] by blast
  show ?thesis using assms read_capped_ok[OF r, simplified]
    by (auto simp: handle_decided_def handle_shadow_begin_def launch_def rebuild_for_backend_streaming_def r same_request_def Let_def)
qed

text \<open>
  C17. Mirroring does not show. Take the handler from the decision to the answer, with the reading of
  the request's body and what other tasks do to the pool while it waits, once for a decision with a
  shadow and once for the same without. If the body of the request arrives whole, the primary
  answers by the method, the URI, the headers and the bytes of a request (not by how its body is
  cut into frames, nor by trailers, which are dropped), and what it answers has a body that arrives
  whole and header values of visible text under lower-case names: then either both panic, because
  the address and the path make no URI, or both leave the same breakers and the same counters and
  give the client the same status, the same bytes and the same values for every header name, also
  when the primary cannot be reached. The task that mirrors an answered request has its method,
  path, headers and the first bytes of its body up to the cap, and for the comparison the status and
  the first bytes of the body of the primary; there is none only for a primary that gave no answer.
\<close>
theorem shadow_transparent:
  assumes "dc_shadow d = Some s" "\<not> body_fails (pq_body req)"
    and "\<And>q q'. same_request q q' \<Longrightarrow> reply q = reply q'"
    and "\<And>q resp. reply q = Some resp \<Longrightarrow> plain_response resp"
    and "one = serve_decided parse_uri uuid t others reply t' p cfg req d"
    and "two = serve_decided parse_uri uuid t others reply t' p cfg req (d\<lparr>dc_shadow := None\<rparr>)"
    and "cap = sh_max_body_bytes cfg"
  shows "rel_option same_answer one two \<and>
    (\<forall>p1 ms r k. one = Some (p1, ms, r, Some k) \<longrightarrow>
       tk_shadow k = s \<and> tk_method k = pq_method req \<and> tk_path_and_query k = pq_path_and_query req \<and>
       tk_headers k = outbound_headers (request_id uuid (pq_headers req)) (pq_headers req) \<and>
       tk_body k = take cap (body_data (pq_body req)) \<and> tk_primary_status k = ps_status r \<and>
       tk_primary_body k = take cap (body_data (ps_body r))) \<and>
    (\<forall>p1 ms r. one = Some (p1, ms, r, None) \<longrightarrow> r = bad_gateway)"
  using decided_same[of d s req parse_uri uuid t p cfg, OF assms(1,2)]
proof (elim disjE exE conjE)
  fix f g
  assume f: "handle_decided parse_uri uuid t p cfg req d = (p, [], Forwarding f)"
    "handle_decided parse_uri uuid t p cfg req (d\<lparr>dc_shadow := None\<rparr>) = (p, [], Forwarding g)"
    "same_request (fl_request f) (fl_request g)" "dc_shadow (fl_decision f) = Some s"
    "fl_decision g = (fl_decision f)\<lparr>dc_shadow := None\<rparr>" "fl_cap f = sh_max_body_bytes cfg" "fl_method f = pq_method req"
    "fl_path_and_query f = pq_path_and_query req" "fl_headers f = outbound_headers (request_id uuid (pq_headers req)) (pq_headers req)"
    "fl_prefix f = take (sh_max_body_bytes cfg) (body_data (pq_body req))"
  define res where "res = forward reply (others p) (fl_decision f) (fl_request f)"
  have g: "forward reply (others p) (fl_decision g) (fl_request g) = res"
    using assms(3)[OF f(3)] by (simp add: res_def forward_defs f(5))
  have ok: "plain_response resp" if "res = Responded resp" for resp
    using that assms(4)[of "fl_request f"] by (auto simp: res_def forward_defs split: if_splits option.splits)
  obtain p1 m1 r1 task where h: "handle_finish res t' (others p) f = (p1, m1, r1, task)" by (rule prod_cases4)
  obtain p2 m2 r2 none where h2: "handle_finish res t' (others p) g = (p2, m2, r2, none)" by (rule prod_cases4)
  have same: "same_answer (p1, m1, r1, task) (p2, m2, r2, none)" using finish_same[OF f(4,5) ok, of res t' "others p"] by (simp add: h h2)
  have one: "one = Some (p1, m1, r1, task)" "two = Some (p2, m2, r2, none)"
    using f(1,2) h h2 g by (simp_all add: assms(5,6) serve_decided_def handle_end_def res_def)
  moreover have "\<exists>resp. res = Responded resp \<and> ps_status r1 = ps_status resp \<and> body_data (ps_body r1) = body_data (ps_body resp)"
    if "task = Some k" for k
  proof (cases res)
    case (Responded resp)
    then show ?thesis using same h2 f(5) by (auto simp: same_answer_def handle_defs Let_def)
  qed (use h that f(4) in \<open>simp_all add: handle_defs Let_def\<close>)
  moreover have "r1 = bad_gateway" if "task = None"
    using finish_no_task[OF f(4)] h that by blast
  ultimately show ?thesis using same finish_task[OF f(4) ok, of _ t' "others p"] h f(6-) assms(7) by fastforce
qed (simp add: assms(5,6) serve_decided_def)

section \<open>The comparison sees headers the client does not\<close>

lemma stripped_values:
  assumes "is_hop_by_hop n" "to_ascii_lowercase n = n"
  shows "values_of (captured_headers (strip_hop_by_hop hs)) n = []"
proof -
  have "is_hop_by_hop k" if "to_ascii_lowercase k = n" for k
    using assms that by (simp add: is_hop_by_hop_def eq_ignore_ascii_case_def)
  then show ?thesis by (auto simp: values_of_Nil header_keys_def captured_headers_def strip_hop_by_hop_eq)
qed

text \<open>
  Equal answers are reported as different. The headers of the primary are compared after the
  hop-by-hop headers have been removed, those of the shadow before: when both backends give the
  very same response and it has a hop-by-hop header, such as Connection: close, a divergence is
  recorded for every request.
\<close>
theorem equal_responses_diverge:
  assumes "forward reply p (fl_decision f) (fl_request f) = Responded resp"
    and "handle_end reply t p f = (p1, m1, r1, Some task)"
    and "(n, v) \<in> set (ps_headers resp)" "is_hop_by_hop n" "to_ascii_lowercase n = n"
    and "forward reply' p' (tk_decision task) q = Responded resp"
  shows "snd (shadow_end sha256 err reply' t' p' task q) \<noteq> []"
proof -
  obtain r rest where r: "read_capped (fl_cap f) [] (ps_body resp) = (Inr r, rest)"
    and task: "tk_primary_headers task = captured_headers (strip_hop_by_hop (ps_headers resp))" "tk_cap task = fl_cap f"
    using assms(2) by (auto simp: handle_defs assms(1) Let_def split: option.splits sum.splits prod.splits)
  have "values_of (captured_headers (ps_headers resp)) n \<noteq> []"
    using assms(3,5) by (force simp: values_of_Nil header_keys_def captured_headers_def)
  then have "mset (values_of (tk_primary_headers task) n) \<noteq> mset (values_of (captured_headers (ps_headers resp)) n)"
    using stripped_values[OF assms(4,5)] by (simp add: task)
  then show ?thesis using assms(6) r by (auto simp: shadow_end_defs task Let_def diff_silent_iff)
qed

section \<open>Examples\<close>

definition example_decision :: routing_decision where
  "example_decision = \<lparr>dc_backend = ''c'', dc_shadow = Some ''rust'', dc_request_id = ''7''\<rparr>"

definition example_flight :: flight where
  "example_flight =
     \<lparr>fl_decision = example_decision,
      fl_request = \<lparr>bq_method = ''GET'', bq_uri = ''http://127.0.0.1:8081/'', bq_headers = [], bq_body = []\<rparr>,
      fl_method = ''GET'', fl_path = ''/'', fl_path_and_query = Some ''/'', fl_headers = [], fl_prefix = [], fl_cap = 3\<rparr>"

definition example_response :: proxy_response where
  "example_response =
     \<lparr>ps_status = 200, ps_headers = [(''connection'', ''close''), (''content-type'', ''text/plain'')], ps_body = [Data ''hello'']\<rparr>"

definition example_reply :: "backend_request \<Rightarrow> proxy_response option" where
  "example_reply q = Some example_response"

lemma example_forward:
  "dc_backend d = ''c'' \<Longrightarrow> forward example_reply example_pool d q = Responded example_response"
  by (simp add: forward_defs pool_get_def example_pool_defs is_routable_def example_reply_def)

lemma example_response_plain: "plain_response example_response"
proof -
  have "list_all (\<lambda>(k, v). to_ascii_lowercase k = k \<and> header_to_str v \<noteq> None) (ps_headers example_response)" by code_simp
  then show ?thesis by (simp add: plain_response_def body_fails_def example_response_def)
qed

definition example_request_in :: proxy_request where
  "example_request_in = \<lparr>pq_method = ''POST'', pq_path = ''/a'', pq_path_and_query = Some ''/a'', pq_headers = [],
     pq_body = [Data ''he'', Data ''llo'']\<rparr>"

theorem shadow_transparent_witness:
  "\<exists>p1 m1 r1 k r2 none. serve_decided (\<lambda>_. True) ''u'' 0 (\<lambda>p. p) example_reply 1 example_pool (default_shadow\<lparr>sh_max_body_bytes := 3\<rparr>)
      example_request_in example_decision = Some (p1, m1, r1, Some k) \<and>
     serve_decided (\<lambda>_. True) ''u'' 0 (\<lambda>p. p) example_reply 1 example_pool (default_shadow\<lparr>sh_max_body_bytes := 3\<rparr>)
      example_request_in (example_decision\<lparr>dc_shadow := None\<rparr>) = Some (p1, m1, r2, none) \<and>
     body_data (ps_body r1) = body_data (ps_body r2) \<and> tk_body k = ''hel'' \<and> tk_primary_body k = take 3 (body_data (ps_body r1))"
proof -
  let ?cfg = "default_shadow\<lparr>sh_max_body_bytes := 3\<rparr>"
  define one where "one = serve_decided (\<lambda>_. True) ''u'' 0 (\<lambda>p. p) example_reply 1 example_pool ?cfg example_request_in example_decision"
  define two where "two = serve_decided (\<lambda>_. True) ''u'' 0 (\<lambda>p. p) example_reply 1 example_pool ?cfg example_request_in
      (example_decision\<lparr>dc_shadow := None\<rparr>)"
  have body: "\<not> body_fails (pq_body example_request_in)" by (simp add: example_request_in_def body_fails_def)
  have d: "dc_shadow example_decision = Some ''rust''" by (simp add: example_decision_def)
  note t = shadow_transparent[OF d body _ _ one_def two_def refl, simplified example_reply_def, simplified]
  obtain p1 m1 r1 k where one: "one = Some (p1, m1, r1, Some k)"
    by (auto simp: one_def serve_decided_def handle_decided_def handle_shadow_begin_def example_request_in_def example_decision_def
        launch_def rebuild_for_backend_streaming_def handle_defs example_forward example_response_def Let_def)
  then obtain p2 m2 r2 none where two: "two = Some (p2, m2, r2, none)" using t example_response_plain by (cases two) auto
  show ?thesis using t example_response_plain one two unfolding one_def two_def
    by (auto simp: same_answer_def example_request_in_def)
qed

theorem equal_responses_diverge_witness:
  "\<exists>p1 m1 r1 task. handle_end example_reply 0 example_pool example_flight = (p1, m1, r1, Some task) \<and>
     snd (shadow_end (\<lambda>b. b) [] example_reply 1 example_pool task (fl_request example_flight)) \<noteq> []"
proof -
  obtain p1 m1 r1 task where h: "handle_end example_reply 0 example_pool example_flight = (p1, m1, r1, Some task)"
    and t: "dc_backend (tk_decision task) = ''c''"
    by (auto simp: handle_defs example_flight_def example_decision_def example_forward example_response_def Let_def)
  have f: "forward example_reply example_pool (fl_decision example_flight) (fl_request example_flight) = Responded example_response"
    by (simp add: example_forward example_flight_def example_decision_def)
  have m: "(''connection'', ''close'') \<in> set (ps_headers example_response)" by (simp add: example_response_def)
  have c: "is_hop_by_hop ''connection''" "to_ascii_lowercase ''connection'' = ''connection''" by code_simp+
  from equal_responses_diverge[OF f h m c example_forward[OF t]] h show ?thesis by blast
qed

end
