(* ===== verification/Router_Steps.thy ===== *)
theory Router_Steps
  imports Weighted_Router
begin

text \<open>
  A decision of the router (\<open>crates/thttpd-migrate/src/router.rs\<close>) in steps. The function \<open>decide\<close>
  lets other tasks in at three points of each round; here a step reads one backend, or claims one
  probe, and other tasks may come between any two. A decision ends after a number of steps that depends
  on the number of backends only, whatever the others do, and what \<open>decide\<close> returns is a run of steps.
\<close>

section \<open>Program points and steps\<close>

text \<open>
  The constructors say where \<open>decide\<close> stands and have its local variables: the backends still to
  visit and the candidates so far; the candidates, those still to add and the sum; the candidates,
  those still to pass, the random number and the sum so far; the candidate to claim a probe on, in
  weighted and in shadow mode; the chosen backend; the result.
\<close>

datatype router_pc =
    RtStart
  | RtList "string list" "string list"
  | RtSum "string list" "string list" nat
  | RtWalk "string list" "string list" nat nat
  | RtAdmit "string list" string
  | RtPrimary string
  | RtChosen string
  | RtDone "routing_decision option"

record router_input =
  ri_now :: int
  ri_pick :: "nat \<Rightarrow> nat"
  ri_uuid :: string

definition eligible :: "int \<Rightarrow> backend_pool \<Rightarrow> string \<Rightarrow> bool" where
  "eligible now p n \<longleftrightarrow>
     (case pool_get p n of Some b \<Rightarrow> is_routable b \<and> 0 < weight b \<and> breaker_can_route now p n | None \<Rightarrow> False)"

definition router_start :: "routing_config \<Rightarrow> int \<Rightarrow> backend_pool \<Rightarrow> router_pc" where
  "router_start routing now p =
     (case rt_mode routing of
        Shadow \<Rightarrow>
          (case rt_primary_backend routing of
             None \<Rightarrow> RtDone None
           | Some name \<Rightarrow>
               (case pool_get p name of
                  None \<Rightarrow> RtDone None
                | Some backend \<Rightarrow>
                    if \<not> is_routable backend \<or> \<not> breaker_can_route now p name then RtDone None else RtPrimary name))
      | _ \<Rightarrow> RtList (map fst (bp_backends p)) [])"

definition router_shadow :: "routing_config \<Rightarrow> int \<Rightarrow> backend_pool \<Rightarrow> string \<Rightarrow> string option" where
  "router_shadow routing now p name =
     (if rt_mode routing = Shadow then
        (case rt_shadow_backend routing of
           None \<Rightarrow> None
         | Some n \<Rightarrow>
             (case pool_get p n of
                None \<Rightarrow> None
              | Some b \<Rightarrow> if n \<noteq> name \<and> is_routable b \<and> breaker_can_route now p n then Some n else None))
      else None)"

definition router_retry :: "string list \<Rightarrow> string \<Rightarrow> router_pc" where
  "router_retry cs b =
     (let cs' = filter (\<lambda>c. c \<noteq> b) cs in if cs' = [] then RtDone None else RtSum cs' cs' 0)"

fun router_next :: "routing_config \<Rightarrow> router_input \<Rightarrow> backend_pool \<Rightarrow> router_pc \<Rightarrow> backend_pool \<times> router_pc" where
  "router_next routing i p RtStart = (p, router_start routing (ri_now i) p)"
| "router_next routing i p (RtList [] cs) = (p, if cs = [] then RtDone None else RtSum cs cs 0)"
| "router_next routing i p (RtList (n # ns) cs) =
     (p, RtList ns (if eligible (ri_now i) p n then cs @ [n] else cs))"
| "router_next routing i p (RtSum cs [] tot) =
     (p, if tot = 0 then RtDone None else RtWalk cs cs (ri_pick i tot) 0)"
| "router_next routing i p (RtSum cs (n # ns) tot) = (p, RtSum cs ns ((tot + pool_weight p n) mod 2 ^ 32))"
| "router_next routing i p (RtWalk cs [] pick acc) = (p, if cs = [] then RtDone None else RtAdmit cs (last cs))"
| "router_next routing i p (RtWalk cs (b # bs) pick acc) =
     (let acc' = (acc + pool_weight p b) mod 2 ^ 32 in
      (p, if pick < acc' then RtAdmit cs b else RtWalk cs bs pick acc'))"
| "router_next routing i p (RtAdmit cs b) =
     (case breaker_admit (ri_now i) p b of
        (p1, admitted) \<Rightarrow> (p1, if admitted then RtChosen b else router_retry cs b))"
| "router_next routing i p (RtPrimary name) =
     (case breaker_admit (ri_now i) p name of
        (p1, admitted) \<Rightarrow> (p1, if admitted then RtChosen name else RtDone None))"
| "router_next routing i p (RtChosen name) =
     (p, RtDone (Some \<lparr>dc_backend = name, dc_shadow = router_shadow routing (ri_now i) p name,
                        dc_request_id = ri_uuid i\<rparr>))"
| "router_next routing i p (RtDone r) = (p, RtDone r)"

fun_cases router_next_cases:
  "router_next routing i p RtStart = (p', pc)" "router_next routing i p (RtAdmit cs b) = (p', pc)"
  "router_next routing i p (RtPrimary name) = (p', pc)" "router_next routing i p (RtChosen name) = (p', pc)"

section \<open>A decision ends whatever the others do\<close>

fun router_run :: "routing_config \<Rightarrow> (router_input \<times> backend_pool) list \<Rightarrow> router_pc \<Rightarrow> router_pc" where
  "router_run routing [] pc = pc"
| "router_run routing ((i, p) # sched) pc = router_run routing sched (snd (router_next routing i p pc))"

definition round_steps :: "nat \<Rightarrow> nat" where
  "round_steps k = k * k + 4 * k + 1"

fun steps_left :: "nat \<Rightarrow> router_pc \<Rightarrow> nat" where
  "steps_left k RtStart = k + 2 + round_steps k"
| "steps_left k (RtList ns cs) = length ns + 1 + round_steps (length ns + length cs)"
| "steps_left k (RtSum cs ns tot) = length ns + length cs + 3 + round_steps (length cs - 1)"
| "steps_left k (RtWalk cs bs pick acc) = length bs + 2 + round_steps (length cs - 1)"
| "steps_left k (RtAdmit cs b) = 1 + round_steps (length cs - 1)"
| "steps_left k (RtPrimary n) = 2"
| "steps_left k (RtChosen n) = 1"
| "steps_left k (RtDone r) = 0"

fun router_ok :: "router_pc \<Rightarrow> bool" where
  "router_ok (RtSum cs ns tot) \<longleftrightarrow> cs \<noteq> []"
| "router_ok (RtWalk cs bs pick acc) \<longleftrightarrow> cs \<noteq> [] \<and> set bs \<subseteq> set cs"
| "router_ok (RtAdmit cs b) \<longleftrightarrow> b \<in> set cs"
| "router_ok pc \<longleftrightarrow> True"

lemma round_steps_mono: "j \<le> k \<Longrightarrow> round_steps j \<le> round_steps k"
  unfolding round_steps_def by (intro add_mono mult_le_mono) auto

lemma round_steps_pos [simp]: "0 < round_steps k"
  by (simp add: round_steps_def)

lemma round_steps_unfold: "0 < k \<Longrightarrow> round_steps k = 2 * k + 3 + round_steps (k - 1)"
  by (cases k) (simp_all add: round_steps_def algebra_simps)

lemma retry_left:
  assumes "b \<in> set cs"
  shows "router_ok (router_retry cs b) \<and> steps_left k (router_retry cs b) < 1 + round_steps (length cs - 1)"
proof (cases "filter (\<lambda>c. c \<noteq> b) cs = []")
  case False
  have "length (filter (\<lambda>c. c \<noteq> b) cs) < length cs" using assms by (intro length_filter_less) auto
  then have "round_steps (length (filter (\<lambda>c. c \<noteq> b) cs)) \<le> round_steps (length cs - 1)" by (intro round_steps_mono) auto
  then show ?thesis using False round_steps_unfold[of "length (filter (\<lambda>c. c \<noteq> b) cs)"]
    by (simp add: router_retry_def Let_def)
qed (simp add: router_retry_def)

lemma start_left:
  assumes "length (bp_backends p) = k"
  shows "router_ok (router_start routing now p) \<and> steps_left k (router_start routing now p) < steps_left k RtStart"
  using assms by (auto simp: router_start_def round_steps_def split: routing_mode.splits option.splits)

lemma router_next_left:
  assumes "router_ok pc" "length (bp_backends p) = k"
  shows "router_ok (snd (router_next routing i p pc)) \<and>
    ((\<forall>r. pc \<noteq> RtDone r) \<longrightarrow> steps_left k (snd (router_next routing i p pc)) < steps_left k pc)"
  using assms
proof (cases pc)
  case RtStart
  then show ?thesis using start_left[OF assms(2)] by simp
next
  case (RtList ns cs)
  then show ?thesis using round_steps_mono[of "length (tl ns) + length cs" "length ns + length cs"]
      round_steps_unfold[of "length cs"] by (cases ns) (auto simp: round_steps_pos)
next
  case (RtSum cs ns tot)
  then show ?thesis using assms by (cases ns) auto
next
  case (RtWalk cs bs pick acc)
  then show ?thesis using assms by (cases bs) (auto simp: Let_def)
next
  case (RtAdmit cs b)
  then show ?thesis using assms retry_left[of b cs k] by (auto split: prod.splits)
qed (auto split: prod.splits)

lemma router_run_done: "router_run routing sched (RtDone r) = RtDone r"
  by (induction sched) auto

lemma router_run_ends:
  assumes "router_ok pc" "\<forall>(i, p) \<in> set sched. length (bp_backends p) = k" "steps_left k pc \<le> length sched"
  shows "\<exists>r. router_run routing sched pc = RtDone r"
  using assms
proof (induction sched arbitrary: pc)
  case Nil
  then show ?case by (cases pc) auto
next
  case (Cons x sched)
  obtain i p where x: "x = (i, p)" by fastforce
  show ?case
  proof (cases "\<exists>r. pc = RtDone r")
    case True
    then show ?thesis by (auto simp: router_run_done)
  next
    case False
    have "length (bp_backends p) = k" using Cons.prems(2) x by auto
    from router_next_left[OF Cons.prems(1) this, of routing i] False Cons.prems
    show ?thesis by (simp add: x) (rule Cons.IH; fastforce)
  qed
qed

text \<open>
  A decision ends. With n backends it takes at most n * n + 5 * n + 3 steps of its own, whatever
  the other tasks do to weights, health and breakers between them, whatever the clock and the
  random numbers are.
\<close>
theorem decision_ends:
  assumes "\<forall>(i, p) \<in> set sched. length (bp_backends p) = n" "n * n + 5 * n + 3 \<le> length sched"
  shows "\<exists>r. router_run routing sched RtStart = RtDone r"
  using router_run_ends[OF _ assms(1), of RtStart] assms(2) by (simp add: round_steps_def)

section \<open>What decide returns is a run of steps\<close>

inductive router_step ::
  "routing_config \<Rightarrow> (backend_pool \<Rightarrow> backend_pool \<Rightarrow> bool) \<Rightarrow> backend_pool \<times> router_pc \<Rightarrow> backend_pool \<times> router_pc \<Rightarrow> bool"
  for routing others where
  own: "router_next routing i p pc = (p', pc') \<Longrightarrow> router_step routing others (p, pc) (p', pc')"
| other: "others p p' \<Longrightarrow> router_step routing others (p, pc) (p', pc)"

lemma own_step:
  "router_next routing i p pc = (p1, pc1) \<Longrightarrow> (router_step routing others)\<^sup>*\<^sup>* (p1, pc1) y \<Longrightarrow>
     (router_step routing others)\<^sup>*\<^sup>* (p, pc) y"
  by (rule converse_rtranclp_into_rtranclp) (rule own)

lemma other_step:
  "others p p1 \<Longrightarrow> (router_step routing others)\<^sup>*\<^sup>* (p1, pc) y \<Longrightarrow> (router_step routing others)\<^sup>*\<^sup>* (p, pc) y"
  by (rule converse_rtranclp_into_rtranclp) (rule other)

lemma run_list:
  "(router_step routing others)\<^sup>*\<^sup>* (p, RtList [] (cs @ filter (eligible now p) ns)) y \<Longrightarrow>
     (router_step routing others)\<^sup>*\<^sup>* (p, RtList ns cs) y"
proof (induction ns arbitrary: cs)
  case (Cons n ns)
  show ?case
    by (rule own_step[where i = "\<lparr>ri_now = now, ri_pick = (\<lambda>_. 0), ri_uuid = []\<rparr>"], simp, rule Cons.IH)
      (use Cons.prems in \<open>auto split: if_splits\<close>)
qed simp

lemma run_sum:
  "(router_step routing others)\<^sup>*\<^sup>* (p, RtSum cs [] (foldl (\<lambda>a w. (a + w) mod 2 ^ 32) acc (map (pool_weight p) ns))) y \<Longrightarrow>
     (router_step routing others)\<^sup>*\<^sup>* (p, RtSum cs ns acc) y"
proof (induction ns arbitrary: acc)
  case (Cons n ns)
  show ?case by (rule own_step, simp, rule Cons.IH) (use Cons.prems in simp)
qed simp

lemma run_walk:
  assumes "cs \<noteq> []" "(router_step routing others)\<^sup>*\<^sup>* (p, RtAdmit cs b) y"
    and "(case walk_weights (pool_weight p) pick acc bs of Some b \<Rightarrow> Some b | None \<Rightarrow> Some (last cs)) = Some b"
  shows "(router_step routing others)\<^sup>*\<^sup>* (p, RtWalk cs bs pick acc) y"
  using assms(3)
proof (induction bs arbitrary: acc)
  case Nil
  show ?case by (rule own_step[of routing undefined p]) (use Nil assms(1,2) in auto)
next
  case (Cons c bs)
  show ?case
  proof (cases "pick < (acc + pool_weight p c) mod 2 ^ 32")
    case True
    then have "c = b" using Cons.prems by (simp add: Let_def)
    show ?thesis by (rule own_step[of routing undefined p]) (use assms(2) True \<open>c = b\<close> in \<open>auto simp: Let_def\<close>)
  next
    case False
    then have "router_next routing undefined p (RtWalk cs (c # bs) pick acc) =
        (p, RtWalk cs bs pick ((acc + pool_weight p c) mod 2 ^ 32))" by (simp add: Let_def)
    then show ?thesis by (rule own_step, intro Cons.IH) (use Cons.prems False in \<open>simp add: Let_def\<close>)
  qed
qed

definition chosen_pc :: "string option \<Rightarrow> router_pc" where
  "chosen_pc r = (case r of None \<Rightarrow> RtDone None | Some b \<Rightarrow> RtChosen b)"

text \<open>One round of the loop up to the claim, with what the others do at its three points.\<close>

lemma run_total:
  assumes "others p p1" "(router_step routing others)\<^sup>*\<^sup>* (p1, RtSum cs [] (u32_sum (map (pool_weight p1) cs))) y"
  shows "(router_step routing others)\<^sup>*\<^sup>* (p, RtSum cs cs 0) y"
  by (rule other_step[of others, OF assms(1)], rule run_sum) (use assms(2) in \<open>simp add: u32_sum_def\<close>)

lemma run_round:
  fixes p1 :: backend_pool and cs :: "string list"
  defines "tot \<equiv> u32_sum (map (pool_weight p1) cs)"
  assumes "others p p1" "others p1 p2" "others p2 p3" "tot \<noteq> 0" "cs \<noteq> []"
    and "select_candidate (pool_weight p2) (pick tot) cs = Some b" "breaker_admit t p3 b = (p4, adm)"
    and "(router_step routing others)\<^sup>*\<^sup>* (p4, if adm then RtChosen b else router_retry cs b) y"
  shows "(router_step routing others)\<^sup>*\<^sup>* (p, RtSum cs cs 0) y"
proof -
  have "(router_step routing others)\<^sup>*\<^sup>* (p2, RtAdmit cs b) y"
    by (rule other_step[of others, OF assms(4)],
        rule own_step[of routing "\<lparr>ri_now = t, ri_pick = pick, ri_uuid = []\<rparr>"]) (use assms(8,9) in simp_all)
  then have "(router_step routing others)\<^sup>*\<^sup>* (p2, RtWalk cs cs (pick tot) 0) y"
    using assms(6,7) by (intro run_walk[where b = b]) (auto simp: select_candidate_def split: option.splits)
  then have w: "(router_step routing others)\<^sup>*\<^sup>* (p1, RtWalk cs cs (pick tot) 0) y"
    by (rule other_step[of others, OF assms(3)])
  have "(router_step routing others)\<^sup>*\<^sup>* (p1, RtSum cs [] tot) y"
    by (rule own_step[of routing "\<lparr>ri_now = t, ri_pick = pick, ri_uuid = []\<rparr>", OF _ w]) (use assms(5) in simp)
  then show ?thesis using run_total[of others, OF assms(2)] by (simp add: tot_def)
qed

lemma run_loop:
  assumes "\<And>j q. others q (re_others e j q)" "cs \<noteq> []" "route_loop e i p cs = (p', r)"
  shows "(router_step routing others)\<^sup>*\<^sup>* (p, RtSum cs cs 0) (p', chosen_pc r)"
  using assms(2,3)
proof (induction "length cs" arbitrary: cs i p rule: less_induct)
  case less
  let ?p1 = "re_others e (3 * i) p"
  let ?tot = "u32_sum (map (pool_weight ?p1) cs)"
  let ?p2 = "re_others e (3 * i + 1) ?p1"
  let ?p3 = "re_others e (3 * i + 2) ?p2"
  show ?case
  proof (cases "?tot = 0")
    case True
    then have "p' = ?p1" "r = None" using less.prems(2) by (simp_all add: route_loop.simps[of e i] Let_def)
    then show ?thesis using True
      by (intro run_total[of others, OF assms(1)[where j = "3 * i"]] r_into_rtranclp own[of routing undefined]) (simp add: chosen_pc_def)
  next
    case False
    obtain b where b: "select_candidate (pool_weight ?p2) (re_pick e i ?tot) cs = Some b"
      using less.prems(1) by (cases "walk_weights (pool_weight ?p2) (re_pick e i ?tot) 0 cs") (auto simp: select_candidate_def)
    obtain p3 adm where a: "breaker_admit (re_admit_at e i) ?p3 b = (p3, adm)" by fastforce
    let ?cs = "filter (\<lambda>c. c \<noteq> b) cs"
    have loop: "(if adm then (p3, Some b) else if ?cs = [] then (p3, None) else route_loop e (i + 1) p3 ?cs) = (p', r)"
      using less.prems(2) False b a by (cases adm) (simp_all add: route_loop.simps[of e i] Let_def)
    have shorter: "length ?cs < length cs" using select_candidate_mem[OF b] by (intro length_filter_less) auto
    have "(router_step routing others)\<^sup>*\<^sup>* (p3, if adm then RtChosen b else router_retry cs b) (p', chosen_pc r)"
      using loop less.hyps[OF shorter, of "i + 1" p3] by (auto simp: router_retry_def chosen_pc_def Let_def split: if_splits)
    from run_round[of others p ?p1 ?p2 ?p3 cs "re_pick e i", OF assms(1) assms(1) assms(1) False less.prems(1) b a this] show ?thesis .
  qed
qed

lemma candidates_eligible_filter:
  assumes "distinct (map fst (bp_backends p))"
  shows "candidates now p = filter (eligible now p) (map fst (bp_backends p))"
proof -
  have "eligible now p n = (is_routable b \<and> 0 < weight b \<and> breaker_can_route now p n)" if "(n, b) \<in> set (bp_backends p)" for n b
    using assms that by (simp add: eligible_def pool_get_def)
  then show ?thesis unfolding candidates_def filter_map comp_def
    by (intro arg_cong[of _ _ "map fst"] filter_cong) auto
qed

definition chosen_decision :: "routing_config \<Rightarrow> router_env \<Rightarrow> backend_pool \<Rightarrow> string option \<Rightarrow> routing_decision option" where
  "chosen_decision routing e p r =
     map_option (\<lambda>name. \<lparr>dc_backend = name, dc_shadow = router_shadow routing (re_now e) p name, dc_request_id = re_uuid e\<rparr>) r"

lemma run_shadow_mode:
  assumes "\<And>j q. others q (re_others e j q)" "rt_mode routing = Shadow" "decide e p routing = (p', r)"
  shows "\<exists>b. (router_step routing others)\<^sup>*\<^sup>* (p, RtStart) (p', chosen_pc b) \<and> r = chosen_decision routing e p' b"
proof -
  define name where "name = the (rt_primary_backend routing)"
  define may where "may \<longleftrightarrow> rt_primary_backend routing \<noteq> None \<and>
    (\<exists>b. pool_get p name = Some b \<and> is_routable b \<and> breaker_can_route (re_now e) p name)"
  obtain p1 adm where a: "breaker_admit (re_admit_at e 0) (re_others e 0 p) name = (p1, adm)" by fastforce
  have d: "decide e p routing =
      (if \<not> may then (p, None) else (p1, chosen_decision routing e p1 (if adm then Some name else None)))"
    using assms(2) a by (cases "rt_primary_backend routing"; cases "pool_get p name")
      (auto simp: decide_def may_def name_def router_shadow_def chosen_decision_def Let_def)
  let ?i = "\<lambda>t. \<lparr>ri_now = t, ri_pick = (\<lambda>_. 0), ri_uuid = []\<rparr>"
  have start: "router_next routing (?i (re_now e)) p RtStart = (p, if may then RtPrimary name else RtDone None)"
    using assms(2) by (auto simp: router_start_def may_def name_def split: option.splits)
  have admit: "router_next routing (?i (re_admit_at e 0)) (re_others e 0 p) (RtPrimary name) =
      (p1, chosen_pc (if adm then Some name else None))" using a by (simp add: chosen_pc_def)
  show ?thesis
  proof (cases may)
    case True
    have "(router_step routing others)\<^sup>*\<^sup>* (p, RtStart) (p1, chosen_pc (if adm then Some name else None))"
      by (rule own_step[OF start[unfolded if_P[OF True]]], rule other_step[of others, OF assms(1)[where j = 0]],
          rule own_step[OF admit]) simp
    then show ?thesis using assms(3) d True by auto
  next
    case False
    then show ?thesis using own[OF start] assms(3) d by (intro exI[of _ None]) (auto simp: chosen_pc_def chosen_decision_def)
  qed
qed

lemma run_weighted_mode:
  assumes "\<And>j q. others q (re_others e j q)" "rt_mode routing \<noteq> Shadow" "decide e p routing = (p', r)"
    and "distinct (map fst (bp_backends p))"
  shows "\<exists>b. (router_step routing others)\<^sup>*\<^sup>* (p, RtStart) (p', chosen_pc b) \<and> r = chosen_decision routing e p' b"
proof -
  have mode: "rt_mode routing = ActiveActive \<or> rt_mode routing = Canary" using assms(2) by (cases "rt_mode routing") auto
  let ?cs = "candidates (re_now e) p"
  obtain b where b: "(if ?cs = [] then (p, None) else route_loop e 0 p ?cs) = (p', b)" "r = chosen_decision routing e p' b"
    using assms(3) mode
    by (auto simp: decide_def router_shadow_def chosen_decision_def Let_def split: option.splits if_splits prod.splits)
  have "(router_step routing others)\<^sup>*\<^sup>* (p, RtList [] ?cs) (p', chosen_pc b)"
  proof (rule own_step[of routing undefined p _ p])
    show "(router_step routing others)\<^sup>*\<^sup>* (p, if ?cs = [] then RtDone None else RtSum ?cs ?cs 0) (p', chosen_pc b)"
      using b(1) run_loop[of others e ?cs 0 p p' b routing, OF assms(1)] by (auto simp: chosen_pc_def)
  qed simp
  then have l: "(router_step routing others)\<^sup>*\<^sup>* (p, RtList (map fst (bp_backends p)) []) (p', chosen_pc b)"
    using run_list[of routing others p "[]" "re_now e" "map fst (bp_backends p)"] by (simp add: candidates_eligible_filter[OF assms(4)])
  have "(router_step routing others)\<^sup>*\<^sup>* (p, RtStart) (p', chosen_pc b)"
    by (rule own_step[of routing undefined p, OF _ l]) (use mode in \<open>auto simp: router_start_def\<close>)
  then show ?thesis using b(2) by blast
qed

text \<open>
  The function is one of the runs. What \<open>decide\<close> returns when other tasks act where it lets them is
  reached by the steps, between which they may act anywhere.
\<close>
theorem decide_is_a_run:
  assumes "\<And>j q. others q (re_others e j q)" "distinct (map fst (bp_backends p))" "decide e p routing = (p', r)"
  shows "(router_step routing others)\<^sup>*\<^sup>* (p, RtStart) (p', RtDone r)"
proof -
  obtain b where b: "(router_step routing others)\<^sup>*\<^sup>* (p, RtStart) (p', chosen_pc b)" "r = chosen_decision routing e p' b"
    using run_shadow_mode[of others e, OF assms(1) _ assms(3)] run_weighted_mode[of others e, OF assms(1) _ assms(3,2)] by blast
  have "(router_step routing others)\<^sup>*\<^sup>* (p', chosen_pc b) (p', RtDone r)"
    using own[of routing "\<lparr>ri_now = re_now e, ri_pick = (\<lambda>_. 0), ri_uuid = re_uuid e\<rparr>" p' "RtChosen (the b)"]
    by (cases b) (auto simp: chosen_pc_def chosen_decision_def b(2))
  with b(1) show ?thesis by (rule rtranclp_trans)
qed

end
