(* ===== verification/Proxy_Probes.thy ===== *)
theory Proxy_Probes
  imports Proxy_Server Router_Steps
begin

text \<open>
  The migration proxy with many requests under way. A state has the pool and the jobs: the handlers
  of requests and the mirroring tasks, each at the point where it stands. A step is one step of a
  router, one part of a handler between two waits, the arrival of a request, or a change of weights or
  health, which leaves the breakers alone; they come in any order, with any requests, answers,
  random numbers and instants (\<open>proxy_step\<close>). The end of a job that waits, when its client goes
  away, and the panic of a job are in a relation of their own (\<open>proxy_loss\<close>), so that a run can say
  which jobs it lost; \<open>proxy_event\<close> is either, and \<open>proxy_run\<close> a run of both with its losses.
\<close>

section \<open>Jobs\<close>

text \<open>
  A handler decides, reads the body of the request (when there is a shadow), is ready to send, has
  sent; a mirroring task has been spawned, has claimed the probe of the shadow, is ready to send, has sent.
\<close>

datatype job =
    Routing routing_config shadow_config proxy_request router_pc
  | Decided shadow_config proxy_request routing_decision
  | Ready flight
  | Sent flight
  | Mirror shadow_task
  | MirrorClaimed shadow_task
  | MirrorReady shadow_task backend_request
  | MirrorWait shadow_task backend_request

text \<open>
  A step of a job, with what it puts out: the updates of the metrics, and the answer to the client
  with the backend it was decided on. The parser of URIs is a parameter.
\<close>

type_synonym reply = "string option \<times> proxy_response"

inductive job_step ::
  "(string \<Rightarrow> bool) \<Rightarrow> backend_pool \<Rightarrow> job \<Rightarrow> metric list \<times> reply list \<Rightarrow> backend_pool \<Rightarrow> job list \<Rightarrow> bool"
  for parse_uri :: "string \<Rightarrow> bool" where
  routing: "\<forall>r. pc \<noteq> RtDone r \<Longrightarrow> router_next rt i p pc = (p', pc') \<Longrightarrow>
    job_step parse_uri p (Routing rt cfg req pc) ([], []) p' [Routing rt cfg req pc']"
| unavailable: "job_step parse_uri p (Routing rt cfg req (RtDone None)) ([], [(None, backend_unavailable)]) p []"
| decided: "job_step parse_uri p (Routing rt cfg req (RtDone (Some d))) ([], []) p [Decided cfg req d]"
| body_failed: "handle_decided parse_uri uuid t p cfg req d = (p', ms, Replied r) \<Longrightarrow>
    job_step parse_uri p (Decided cfg req d) (ms, [(Some (dc_backend d), r)]) p' []"
| launched: "handle_decided parse_uri uuid t p cfg req d = (p', ms, Forwarding f) \<Longrightarrow>
    job_step parse_uri p (Decided cfg req d) (ms, []) p' [Ready f]"
| not_ready: "\<not> forward_ready p (fl_decision f) \<Longrightarrow> handle_finish NotRoutable t p f = (p', ms, r, task) \<Longrightarrow>
    job_step parse_uri p (Ready f) (ms, [(Some (dc_backend (fl_decision f)), r)]) p' []"
| sent: "forward_ready p (fl_decision f) \<Longrightarrow> job_step parse_uri p (Ready f) ([], []) p [Sent f]"
| answered: "handle_finish (forward_reply reply (fl_request f)) t p f = (p', ms, r, task) \<Longrightarrow>
    job_step parse_uri p (Sent f) (ms, [(Some (dc_backend (fl_decision f)), r)]) p'
      (case task of None \<Rightarrow> [] | Some k \<Rightarrow> [Mirror k])"
| mirror_refused: "breaker_admit t p (tk_shadow k) = (p', False) \<Longrightarrow> job_step parse_uri p (Mirror k) ([], []) p' []"
| mirror_claimed: "breaker_admit t p (tk_shadow k) = (p', True) \<Longrightarrow> job_step parse_uri p (Mirror k) ([], []) p' [MirrorClaimed k]"
| mirror_ready: "shadow_request parse_uri p k = Some q \<Longrightarrow> job_step parse_uri p (MirrorClaimed k) ([], []) p [MirrorReady k q]"
| mirror_not_ready: "\<not> forward_ready p (tk_decision k) \<Longrightarrow> shadow_finish sha256 err NotRoutable t p k = (p', ds) \<Longrightarrow>
    job_step parse_uri p (MirrorReady k q) (divergence_metrics (tk_shadow k) ds, []) p' []"
| mirror_sent: "forward_ready p (tk_decision k) \<Longrightarrow> job_step parse_uri p (MirrorReady k q) ([], []) p [MirrorWait k q]"
| compared: "shadow_finish sha256 err (forward_reply reply q) t p k = (p', ds) \<Longrightarrow>
    job_step parse_uri p (MirrorWait k q) (divergence_metrics (tk_shadow k) ds, []) p' []"

text \<open>The backend whose probe a job may have, from the admission to the outcome.\<close>

fun router_holds :: "router_pc \<Rightarrow> string option" where
  "router_holds (RtChosen n) = Some n"
| "router_holds (RtDone r) = map_option dc_backend r"
| "router_holds _ = None"

fun holds :: "job \<Rightarrow> string option" where
  "holds (Routing rt cfg req pc) = router_holds pc"
| "holds (Decided cfg req d) = Some (dc_backend d)"
| "holds (Ready f) = Some (dc_backend (fl_decision f))"
| "holds (Sent f) = Some (dc_backend (fl_decision f))"
| "holds (Mirror k) = None"
| "holds (MirrorClaimed k) = Some (tk_shadow k)"
| "holds (MirrorReady k q) = Some (tk_shadow k)"
| "holds (MirrorWait k q) = Some (tk_shadow k)"

definition holding :: "job list \<Rightarrow> string \<Rightarrow> bool" where
  "holding js n \<longleftrightarrow> Some n \<in> holds ` set js"

lemma holding_simps [simp]:
  "\<not> holding [] n" "holding (j # js) n \<longleftrightarrow> holds j = Some n \<or> holding js n"
  "holding (js @ ls) n \<longleftrightarrow> holding js n \<or> holding ls n"
  by (auto simp: holding_def)

section \<open>States and steps\<close>

text \<open>
  The pool and the jobs; and what has happened so far: the updates of the metrics, the requests
  that arrived, the answers given, the steps of jobs.
\<close>

record proxy =
  pr_pool :: backend_pool
  pr_jobs :: "job list"
  pr_metrics :: "metric list"
  pr_arrived :: nat
  pr_replies :: "reply list"
  pr_work :: nat

definition proxy_idle :: "backend_pool \<Rightarrow> proxy" where
  "proxy_idle p = \<lparr>pr_pool = p, pr_jobs = [], pr_metrics = [], pr_arrived = 0, pr_replies = [], pr_work = 0\<rparr>"

inductive proxy_step :: "(string \<Rightarrow> bool) \<Rightarrow> proxy \<Rightarrow> proxy \<Rightarrow> bool" for parse_uri :: "string \<Rightarrow> bool" where
  arrived: "\<not> is_excluded (pq_path req) excluded \<Longrightarrow>
    proxy_step parse_uri x (x\<lparr>pr_jobs := Routing rt cfg req RtStart # pr_jobs x, pr_arrived := pr_arrived x + 1\<rparr>)"
| turned_away: "is_excluded (pq_path (req :: proxy_request)) excluded \<Longrightarrow>
    proxy_step parse_uri x (x\<lparr>pr_arrived := pr_arrived x + 1, pr_replies := pr_replies x @ [(None, not_found)]\<rparr>)"
| worked: "pr_jobs x = js @ j # ls \<Longrightarrow> job_step parse_uri (pr_pool x) j (ms, rs) p js' \<Longrightarrow>
    proxy_step parse_uri x (x\<lparr>pr_pool := p, pr_jobs := js @ js' @ ls, pr_metrics := pr_metrics x @ ms,
      pr_replies := pr_replies x @ rs, pr_work := pr_work x + 1\<rparr>)"
| managed: "bp_breakers p = bp_breakers (pr_pool x) \<Longrightarrow> map fst (bp_backends p) = map fst (bp_backends (pr_pool x)) \<Longrightarrow>
    proxy_step parse_uri x (x\<lparr>pr_pool := p\<rparr>)"

text \<open>
  A handler that waits, for the body of its request or for the backend, is dropped when its client
  closes the connection. A handler and a mirroring task panic when the address and the path do not
  make a URI.
\<close>

fun awaits :: "job \<Rightarrow> bool" where
  "awaits (Decided cfg req d) \<longleftrightarrow> dc_shadow d \<noteq> None"
| "awaits (Sent f) \<longleftrightarrow> True"
| "awaits _ \<longleftrightarrow> False"

inductive proxy_loss :: "(string \<Rightarrow> bool) \<Rightarrow> string \<Rightarrow> proxy \<Rightarrow> proxy \<Rightarrow> bool" for parse_uri :: "string \<Rightarrow> bool" where
  cancelled: "pr_jobs x = js @ j # ls \<Longrightarrow> awaits j \<Longrightarrow> holds j = Some n \<Longrightarrow> proxy_loss parse_uri n x (x\<lparr>pr_jobs := js @ ls\<rparr>)"
| crashed: "pr_jobs x = js @ Decided cfg req d # ls \<Longrightarrow>
    handle_decided parse_uri uuid t (pr_pool x) cfg req d = (p, ms, Crashed) \<Longrightarrow>
    proxy_loss parse_uri (dc_backend d) x (x\<lparr>pr_pool := p, pr_jobs := js @ ls\<rparr>)"
| mirror_crashed: "pr_jobs x = js @ MirrorClaimed k # ls \<Longrightarrow> shadow_request parse_uri (pr_pool x) k = None \<Longrightarrow>
    proxy_loss parse_uri (tk_shadow k) x (x\<lparr>pr_jobs := js @ ls\<rparr>)"

definition proxy_event :: "(string \<Rightarrow> bool) \<Rightarrow> proxy \<Rightarrow> proxy \<Rightarrow> bool" where
  "proxy_event parse_uri x y \<longleftrightarrow> proxy_step parse_uri x y \<or> (\<exists>n. proxy_loss parse_uri n x y)"

text \<open>A run, with its losses: the backend of the lost job, and the states before and after.\<close>

inductive proxy_run :: "(string \<Rightarrow> bool) \<Rightarrow> proxy \<Rightarrow> (string \<times> proxy \<times> proxy) list \<Rightarrow> proxy \<Rightarrow> bool"
  for parse_uri :: "string \<Rightarrow> bool" and x :: proxy where
  run_start: "proxy_run parse_uri x [] x"
| run_step: "proxy_run parse_uri x L y \<Longrightarrow> proxy_step parse_uri y z \<Longrightarrow> proxy_run parse_uri x L z"
| run_loss: "proxy_run parse_uri x L y \<Longrightarrow> proxy_loss parse_uri n y z \<Longrightarrow> proxy_run parse_uri x (L @ [(n, y, z)]) z"

definition held :: "proxy \<Rightarrow> string \<Rightarrow> bool" where
  "held x n \<longleftrightarrow> holding (pr_jobs x) n"

definition pool_half_open :: "backend_pool \<Rightarrow> string \<Rightarrow> bool" where
  "pool_half_open p n \<longleftrightarrow> (\<exists>b. bp_breakers p n = Some b \<and> br_state b = BrHalfOpen)"

definition half_open :: "proxy \<Rightarrow> string \<Rightarrow> bool" where
  "half_open x n \<longleftrightarrow> pool_half_open (pr_pool x) n"

section \<open>Effects on the breakers\<close>

lemma record_outcome_half_open [simp]:
  "pool_half_open (record_outcome t p m s) n \<longleftrightarrow> n \<noteq> m \<and> pool_half_open p n"
  by (auto simp: pool_half_open_def record_outcome_def breaker_record_def breaker_trip_def breaker_close_def Let_def
      split: option.splits if_splits)

lemma release_probe_half_open [simp]:
  "pool_half_open (breaker_release_probe t p m) n \<longleftrightarrow> n \<noteq> m \<and> pool_half_open p n"
  by (auto simp: pool_half_open_def breaker_release_probe_def release_probe_def breaker_trip_def
      split: option.splits if_splits)

lemma admit_half_open_other: "n \<noteq> m \<Longrightarrow> pool_half_open (fst (breaker_admit t p m)) n = pool_half_open p n"
  by (auto simp: pool_half_open_def breaker_admit_def split: option.splits)

lemma admit_refuses_half_open: "pool_half_open p n \<Longrightarrow> breaker_admit t p n = (p, False)"
  by (cases p) (auto simp: pool_half_open_def breaker_admit_def try_admit_def fun_upd_idem)

lemma admit_False: "breaker_admit t p m = (p', False) \<Longrightarrow> p' = p"
  using breaker_admit_refused[of t p m] by simp

lemma admit_True:
  assumes "breaker_admit t p m = (p', True)"
  shows "\<not> pool_half_open p m" "n \<noteq> m \<Longrightarrow> pool_half_open p' n = pool_half_open p n"
  using assms admit_refuses_half_open[of p m t] admit_half_open_other[of n m t p] by auto

text \<open>
  What a job does to the breaker of n, \<open>before\<close> and \<open>after\<close> saying whether n is half open: a job that
  does not hold the probe leaves the breaker, or takes the probe of one that was not half open; a
  job that holds it keeps it, or leaves the breaker not half open.
\<close>

definition probe_kept :: "bool \<Rightarrow> bool \<Rightarrow> bool \<Rightarrow> bool \<Rightarrow> bool" where
  "probe_kept before after mine theirs \<longleftrightarrow>
     (if mine then theirs \<or> \<not> after else if theirs then \<not> before else after = before)"

lemma router_start_holds: "router_holds (router_start rt now p) = None"
  by (auto simp: router_start_def split: routing_mode.splits option.splits)

lemma router_retry_holds: "router_holds (router_retry cs b) = None"
  by (simp add: router_retry_def Let_def)

lemma router_next_probe:
  assumes "router_next rt i p pc = (p', pc')" "\<forall>r. pc \<noteq> RtDone r"
  shows "probe_kept (pool_half_open p n) (pool_half_open p' n) (router_holds pc = Some n) (router_holds pc' = Some n)"
  using assms
proof (cases pc)
  case RtStart
  then show ?thesis using assms by (auto simp: probe_kept_def router_start_holds)
next
  case (RtList ns cs)
  then show ?thesis using assms by (cases ns) (auto simp: probe_kept_def split: if_splits)
next
  case (RtSum cs ns tot)
  then show ?thesis using assms by (cases ns) (auto simp: probe_kept_def split: if_splits)
next
  case (RtWalk cs bs pick acc)
  then show ?thesis using assms by (cases bs) (auto simp: probe_kept_def Let_def split: if_splits)
next
  case (RtAdmit cs b)
  then show ?thesis using assms admit_True(1)[of "ri_now i" p b] admit_True(2)[of "ri_now i" p b p' n]
    by (auto simp: probe_kept_def router_retry_holds dest: admit_False split: prod.splits if_splits)
next
  case (RtPrimary b)
  then show ?thesis using assms admit_True(1)[of "ri_now i" p b] admit_True(2)[of "ri_now i" p b p' n]
    by (auto simp: probe_kept_def dest: admit_False split: prod.splits if_splits)
qed (auto simp: probe_kept_def)

lemma launch_decision: "launch parse_uri p d req cap hs pre body = Forwarding f \<Longrightarrow> fl_decision f = d"
  by (auto simp: launch_def split: option.splits)

lemma launch_not_replied: "launch parse_uri p d req cap hs pre body \<noteq> Replied r"
  by (auto simp: launch_def split: option.splits)

lemma handle_decided_probe:
  "handle_decided parse_uri uuid t p cfg req d = (p', ms, Replied r) \<Longrightarrow>
     pool_half_open p' n \<longleftrightarrow> n \<noteq> dc_backend d \<and> pool_half_open p n"
  "handle_decided parse_uri uuid t p cfg req d = (p', ms, Forwarding f) \<Longrightarrow>
     p' = p \<and> dc_backend (fl_decision f) = dc_backend d"
  "handle_decided parse_uri uuid t p cfg req d = (p', ms, Crashed) \<Longrightarrow> p' = p"
  by (auto simp: handle_decided_def handle_shadow_begin_def launch_not_replied Let_def
      split: option.splits prod.splits sum.splits dest!: launch_decision)

lemma handle_finish_probe:
  "handle_finish result t p f = (p', ms, r, task) \<Longrightarrow>
     pool_half_open p' n \<longleftrightarrow> n \<noteq> dc_backend (fl_decision f) \<and> pool_half_open p n"
  by (auto simp: handle_defs Let_def split: forwarded.splits option.splits prod.splits sum.splits)

lemma shadow_finish_probe:
  "shadow_finish sha256 err result t p k = (p', ds) \<Longrightarrow> pool_half_open p' n \<longleftrightarrow> n \<noteq> tk_shadow k \<and> pool_half_open p n"
  by (auto simp: shadow_finish_def Let_def split: forwarded.splits prod.splits sum.splits)

lemma job_step_probe:
  "job_step parse_uri p j out p' js \<Longrightarrow>
     probe_kept (pool_half_open p n) (pool_half_open p' n) (holds j = Some n) (holding js n)"
proof (induction rule: job_step.induct)
  case (routing pc rt i p p' pc' cfg req)
  then show ?case using router_next_probe[of rt i p pc p' pc' n] by simp
next
  case (answered reply f t p p' ms r task)
  then show ?case by (auto simp: probe_kept_def handle_finish_probe split: option.split)
next
  case (mirror_claimed t p k p')
  then show ?case using admit_True(1)[OF mirror_claimed] admit_True(2)[OF mirror_claimed, of n] by (auto simp: probe_kept_def)
qed (auto simp: probe_kept_def handle_decided_probe(1) handle_finish_probe shadow_finish_probe
    dest: handle_decided_probe(2) admit_False)

section \<open>Every probe is resolved\<close>

definition stranded :: "proxy \<Rightarrow> string \<Rightarrow> bool" where
  "stranded x n \<longleftrightarrow> half_open x n \<and> \<not> held x n"

text \<open>A step strands no probe and frees none that is stranded.\<close>

lemma stranded_step: "proxy_step parse_uri x y \<Longrightarrow> stranded y n \<longleftrightarrow> stranded x n"
proof (induction rule: proxy_step.induct)
  case (worked x js j ls ms rs p js')
  then show ?case using job_step_probe[OF worked(2), of n]
    by (auto simp: stranded_def half_open_def held_def probe_kept_def split: if_splits)
qed (simp_all add: stranded_def half_open_def pool_half_open_def held_def)

text \<open>A lost job strands its probe if no other job holds it, and no other probe.\<close>

lemma stranded_loss:
  assumes "proxy_loss parse_uri m x y"
  shows "stranded y n \<longleftrightarrow> stranded x n \<or> n = m \<and> half_open x n \<and> \<not> held y n"
  using assms
proof cases
  case (cancelled js j ls)
  then show ?thesis by (auto simp: stranded_def half_open_def held_def)
next
  case (crashed js cfg req d ls uuid t p ms)
  then show ?thesis by (auto simp: stranded_def half_open_def held_def dest: handle_decided_probe(3))
next
  case (mirror_crashed js k ls)
  then show ?thesis by (auto simp: stranded_def half_open_def held_def)
qed

lemma stranded_run:
  "proxy_run parse_uri x L y \<Longrightarrow> stranded y n \<longleftrightarrow> stranded x n \<or> (\<exists>v w. (n, v, w) \<in> set L \<and> half_open v n \<and> \<not> held w n)"
proof (induction rule: proxy_run.induct)
  case (run_step L y z)
  then show ?case by (simp add: stranded_step)
next
  case (run_loss L y m z)
  then show ?case by (auto simp: stranded_loss)
qed simp

lemma stranded_events: "(proxy_event parse_uri)\<^sup>*\<^sup>* x y \<Longrightarrow> stranded x n \<Longrightarrow> stranded y n"
  by (induction rule: rtranclp_induct) (auto simp: proxy_event_def stranded_step stranded_loss)

text \<open>
  C12. No probe is lost but with its job. In every state the proxy reaches from its start, with any
  number of requests and mirroring tasks under way, their steps in any order, clients that go away
  and jobs that panic: a breaker is half open without a job that holds its probe, and whose end will
  resolve it, exactly if the run has lost, to a client that went away or to a panic, the last job
  that held the probe of this breaker while it was half open. So in a run without such a loss a
  half-open breaker always has the job that resolves it, and with nothing under way none is half open.
\<close>
theorem probes_resolved:
  assumes "proxy_run parse_uri (proxy_idle (with_breaker_cfg now backends cfg)) L x"
  shows "(half_open x n \<and> \<not> (\<exists>j \<in> set (pr_jobs x). holds j = Some n) \<longleftrightarrow>
      (\<exists>y z. (n, y, z) \<in> set L \<and> half_open y n \<and> \<not> (\<exists>j \<in> set (pr_jobs z). holds j = Some n))) \<and>
    (L = [] \<longrightarrow> pr_jobs x = [] \<longrightarrow> \<not> half_open x n)"
proof -
  have "\<not> stranded (proxy_idle (with_breaker_cfg now backends cfg)) n" for n
    by (simp add: stranded_def half_open_def pool_half_open_def proxy_idle_def with_breaker_cfg_def
        breakers_from_config_def breaker_new_def)
  then have r: "stranded x n \<longleftrightarrow> (\<exists>y z. (n, y, z) \<in> set L \<and> half_open y n \<and> \<not> held z n)" using stranded_run[OF assms, of n] by simp
  have h: "held y n \<longleftrightarrow> (\<exists>j \<in> set (pr_jobs y). holds j = Some n)" for y
    unfolding held_def holding_def image_iff by metis
  show ?thesis using r unfolding stranded_def h by auto
qed

section \<open>A lost job strands its probe\<close>

text \<open>
  C24. A job that is lost takes a backend out of service. When a client that goes away, or a panic,
  ends the only job that holds the probe of a half-open breaker, nothing records an outcome: in every
  state the proxy reaches afterwards, whatever other jobs are lost, the breaker is half open and no
  job holds the backend, so no request is sent to it again.
\<close>
theorem cancelled_probe_strands:
  assumes "half_open x n" "proxy_loss parse_uri n x y" "\<not> held y n" "(proxy_event parse_uri)\<^sup>*\<^sup>* y z"
  shows "half_open z n \<and> (\<forall>j \<in> set (pr_jobs z). holds j \<noteq> Some n)"
proof -
  have "stranded y n" using stranded_loss[OF assms(2), of n] assms(1,3) by simp
  then have "stranded z n" using stranded_events[OF assms(4)] by simp
  then show ?thesis by (auto simp: stranded_def held_def holding_def image_iff)
qed

section \<open>An example run\<close>

definition reaches :: "(string \<Rightarrow> bool) \<Rightarrow> proxy \<Rightarrow> backend_pool \<Rightarrow> job list \<Rightarrow> bool" where
  "reaches parse_uri x p js \<longleftrightarrow> (\<exists>y. (proxy_step parse_uri)\<^sup>*\<^sup>* x y \<and> pr_pool y = p \<and> pr_jobs y = js)"

lemma reaches_refl: "reaches parse_uri x (pr_pool x) (pr_jobs x)"
  by (auto simp: reaches_def)

lemma reaches_step:
  "(proxy_step parse_uri)\<^sup>*\<^sup>* x y \<Longrightarrow> proxy_step parse_uri y z \<Longrightarrow> reaches parse_uri x (pr_pool z) (pr_jobs z)"
  unfolding reaches_def by (blast intro: rtranclp.rtrancl_into_rtrancl)

lemma reaches_job:
  assumes "reaches parse_uri x p (j # ls)" "job_step parse_uri p j out p' js"
  shows "reaches parse_uri x p' (js @ ls)"
proof -
  obtain y where y: "(proxy_step parse_uri)\<^sup>*\<^sup>* x y" "pr_pool y = p" "pr_jobs y = j # ls" using assms(1) by (auto simp: reaches_def)
  obtain ms rs where "out = (ms, rs)" by fastforce
  with reaches_step[OF y(1) worked[of y "[]" j ls parse_uri ms rs p' js]] y assms(2) show ?thesis by simp
qed

lemma reaches_arrival:
  assumes "reaches parse_uri x p js"
  shows "reaches parse_uri x p (Routing rt cfg req RtStart # js)"
proof -
  obtain y where y: "(proxy_step parse_uri)\<^sup>*\<^sup>* x y" "pr_pool y = p" "pr_jobs y = js" using assms(1) by (auto simp: reaches_def)
  with reaches_step[OF y(1) arrived[of req "[]" parse_uri y rt cfg]] show ?thesis by (simp add: is_excluded_def)
qed

text \<open>The steps of a router that runs alone are steps of the proxy.\<close>

lemma reaches_routing:
  assumes "(router_step rt (=))\<^sup>*\<^sup>* (p, pc) (p', pc')" "reaches parse_uri x p (Routing rt cfg req pc # js)"
  shows "reaches parse_uri x p' (Routing rt cfg req pc' # js)"
  using assms(1)
proof (induction "(p', pc')" arbitrary: p' pc' rule: rtranclp_induct)
  case base
  then show ?case using assms(2) by simp
next
  case (step y)
  obtain q qc where y: "y = (q, qc)" by fastforce
  note at = step(3)[OF y]
  show ?case using step(2)[unfolded y]
  proof cases
    case (own i)
    then show ?thesis using reaches_job[OF at routing, of i p' pc'] at by (cases "\<exists>r. qc = RtDone r") auto
  qed (use at in simp)
qed

definition solo_pool :: backend_pool where
  "solo_pool = with_breaker_cfg 0 [(''c'', \<lparr>bc_address = ''127.0.0.1:8081'', bc_weight = 1, bc_health_path = ''/''\<rparr>)] majority_cfg"

definition solo_env :: "int \<Rightarrow> router_env" where
  "solo_env t = \<lparr>re_now = t, re_admit_at = (\<lambda>_. t), re_pick = (\<lambda>_ _. 0), re_others = (\<lambda>_ p. p), re_uuid = ''u''\<rparr>"

definition solo_request :: proxy_request where
  "solo_request = \<lparr>pq_method = ''GET'', pq_path = ''/'', pq_path_and_query = Some ''/'', pq_headers = [], pq_body = []\<rparr>"

definition solo_decision :: routing_decision where
  "solo_decision = \<lparr>dc_backend = ''c'', dc_shadow = None, dc_request_id = ''u''\<rparr>"

text \<open>A request to a pool that has the one backend is decided, launched and sent.\<close>

lemma solo_sent:
  assumes x: "reaches (\<lambda>_. True) x p []" and p: "bp_backends p = bp_backends solo_pool" "breaker_can_route t p ''c''"
  shows "\<exists>f. reaches (\<lambda>_. True) x (fst (breaker_admit t p ''c'')) [Sent f] \<and>
    dc_backend (fl_decision f) = ''c'' \<and> dc_shadow (fl_decision f) = None"
proof -
  let ?p' = "fst (breaker_admit t p ''c'')"
  have b: "bp_backends p = [(''c'', backend_new ''c'' \<lparr>bc_address = ''127.0.0.1:8081'', bc_weight = 1, bc_health_path = ''/''\<rparr>)]"
    by (simp add: p(1) solo_pool_def with_breaker_cfg_def)
  have "candidates t p = [''c'']" using p(2) by (simp add: candidates_def b)
  moreover have "pool_weight p ''c'' = 1" by (simp add: pool_weight_def pool_get_def b)
  moreover have e: "alone (solo_env t)" by (simp add: alone_def solo_env_def)
  ultimately have "decide (solo_env t) p default_routing = (?p', Some solo_decision)"
    using decide_alone[of "solo_env t" default_routing p]
    by (simp add: default_routing_def solo_env_def solo_decision_def b u32_sum_def select_candidate_def Let_def)
  from decide_is_a_run[of "(=)" "solo_env t", OF _ _ this] have "(router_step default_routing (=))\<^sup>*\<^sup>* (p, RtStart) (?p', RtDone (Some solo_decision))"
    by (simp add: solo_env_def b)
  note run = reaches_routing[OF this reaches_arrival[OF x, where cfg = default_shadow and req = solo_request]]
  obtain f where f: "handle_decided (\<lambda>_. True) [] 0 ?p' default_shadow solo_request solo_decision = (?p', [], Forwarding f)"
    by (auto simp: handle_decided_def solo_decision_def Let_def launch_def rebuild_for_backend_streaming_def)
  then have d: "dc_backend (fl_decision f) = ''c''" "dc_shadow (fl_decision f) = None"
    by (auto simp: handle_decided_def solo_decision_def Let_def dest!: launch_decision)
  have "bp_backends ?p' = bp_backends p" by (auto simp: breaker_admit_def split: option.split)
  then have "forward_ready ?p' (fl_decision f)" by (simp add: forward_ready_def d pool_get_def b)
  from reaches_job[OF reaches_job[OF reaches_job[OF run decided, simplified] launched[OF f], simplified] sent[OF this]] d
  show ?thesis by auto
qed

lemma solo_half_open:
  "\<exists>p f. reaches (\<lambda>_. True) (proxy_idle solo_pool) p [Sent f] \<and> dc_backend (fl_decision f) = ''c'' \<and> pool_half_open p ''c''"
proof -
  have br: "bp_breakers solo_pool ''c'' = Some (breaker_new 0 majority_cfg)"
    by (simp add: solo_pool_def with_breaker_cfg_def breakers_from_config_def)
  have can: "breaker_can_route 0 solo_pool ''c''" by (simp add: breaker_can_route_def br can_route_def breaker_new_def)
  have adm: "fst (breaker_admit 0 solo_pool ''c'') = solo_pool"
    by (simp add: breaker_admit_def br try_admit_def breaker_new_def fun_upd_idem)
  have start: "reaches (\<lambda>_. True) (proxy_idle solo_pool) solo_pool []"
    using reaches_refl[of _ "proxy_idle solo_pool"] by (simp add: proxy_idle_def)
  from solo_sent[OF start refl can, unfolded adm] obtain f where f: "reaches (\<lambda>_. True) (proxy_idle solo_pool) solo_pool [Sent f]"
    "dc_backend (fl_decision f) = ''c''" "dc_shadow (fl_decision f) = None" by blast
  let ?p2 = "record_outcome 0 solo_pool ''c'' False"
  have "\<exists>ms r. handle_finish (forward_reply (\<lambda>_. None) (fl_request f)) 0 solo_pool f = (?p2, ms, r, None)"
    using f(2,3) by (auto simp: handle_defs forward_reply_def Let_def)
  then obtain ms r where "handle_finish (forward_reply (\<lambda>_. None) (fl_request f)) 0 solo_pool f = (?p2, ms, r, None)" by blast
  from reaches_job[OF f(1) answered[OF this]] have s2: "reaches (\<lambda>_. True) (proxy_idle solo_pool) ?p2 []" by simp
  have br2: "bp_breakers ?p2 ''c'' = Some (breaker_trip 0 (breaker_new 0 majority_cfg\<lparr>br_window := \<lparr>wi_errors = 1, wi_total = 1, wi_started = 0\<rparr>\<rparr>))"
    by (simp add: record_outcome_def br breaker_record_def breaker_new_def count_outcome_def majority_cfg_def window_new_def
        SECOND_def Let_def)
  let ?t = "6 * SECOND"
  have "breaker_can_route ?t ?p2 ''c''"
    by (simp add: breaker_can_route_def br2 breaker_trip_def can_route_def cooled_def COOL_OFF_def SECOND_def breaker_new_def)
  from solo_sent[OF s2 record_outcome_backends(1) this] obtain h where h:
    "reaches (\<lambda>_. True) (proxy_idle solo_pool) (fst (breaker_admit ?t ?p2 ''c'')) [Sent h]" "dc_backend (fl_decision h) = ''c''" by blast
  have "pool_half_open (fst (breaker_admit ?t ?p2 ''c'')) ''c''"
    by (simp add: pool_half_open_def breaker_admit_def br2 breaker_trip_def try_admit_def cooled_def COOL_OFF_def SECOND_def breaker_new_def)
  then show ?thesis using h by blast
qed

lemma run_of_steps: "(proxy_step parse_uri)\<^sup>*\<^sup>* x y \<Longrightarrow> proxy_run parse_uri x [] y"
  by (induction rule: rtranclp_induct) (auto intro: proxy_run.intros)

text \<open>The probe has its job; once the job is lost the run says so.\<close>

theorem probes_resolved_witness:
  "\<exists>x y. proxy_run (\<lambda>_. True) (proxy_idle solo_pool) [] x \<and> half_open x ''c'' \<and> (\<exists>j \<in> set (pr_jobs x). holds j = Some ''c'') \<and>
     proxy_run (\<lambda>_. True) (proxy_idle solo_pool) [(''c'', x, y)] y \<and> half_open y ''c'' \<and> pr_jobs y = []"
proof -
  obtain x f where x: "proxy_run (\<lambda>_. True) (proxy_idle solo_pool) [] x" "half_open x ''c''" "pr_jobs x = [Sent f]" "dc_backend (fl_decision f) = ''c''"
    using solo_half_open by (auto simp: reaches_def half_open_def dest: run_of_steps)
  let ?y = "x\<lparr>pr_jobs := []\<rparr>"
  have y: "proxy_run (\<lambda>_. True) (proxy_idle solo_pool) [(''c'', x, ?y)] ?y"
    using run_loss[OF x(1) cancelled[of x "[]" "Sent f" "[]" "''c''"]] x by simp
  have "\<exists>j \<in> set (pr_jobs x). holds j = Some ''c''" using probes_resolved[OF x(1)[unfolded solo_pool_def], of "''c''"] x(2) by auto
  moreover have "half_open ?y ''c''" using probes_resolved[OF y[unfolded solo_pool_def], of "''c''"] x(2) by auto
  ultimately show ?thesis using x(1,2) y by (intro exI[of _ x] exI[of _ ?y]) simp
qed

theorem cancelled_probe_strands_witness:
  "\<exists>x y. (proxy_step (\<lambda>_. True))\<^sup>*\<^sup>* (proxy_idle solo_pool) x \<and> proxy_loss (\<lambda>_. True) ''c'' x y \<and> half_open y ''c'' \<and>
     (\<forall>j \<in> set (pr_jobs y). holds j \<noteq> Some ''c'')"
proof -
  obtain x f where x: "(proxy_step (\<lambda>_. True))\<^sup>*\<^sup>* (proxy_idle solo_pool) x" "pr_jobs x = [Sent f]" "dc_backend (fl_decision f) = ''c''"
    "half_open x ''c''" using solo_half_open by (auto simp: reaches_def half_open_def)
  let ?y = "x\<lparr>pr_jobs := []\<rparr>"
  have c: "proxy_loss (\<lambda>_. True) ''c'' x ?y" using cancelled[of x "[]" "Sent f" "[]" "''c''"] x by simp
  have h: "\<not> held ?y ''c''" by (simp add: held_def)
  from cancelled_probe_strands[OF x(4) c h rtranclp.rtrancl_refl] x(1) c show ?thesis by blast
qed

end
