(* ===== verification/Proxy_Accounting.thy ===== *)
theory Proxy_Accounting
  imports Proxy_Probes
begin

text \<open>
  What the migration proxy owes its clients and its operators, over the steps of all jobs in any
  order: every request that arrived is answered after a bounded amount of work, and the metrics
  (\<open>metrics.rs\<close>, \<open>record_metrics\<close> of \<open>server.rs\<close>) say what the clients were answered.
\<close>

section \<open>Every request is answered\<close>

text \<open>The steps a job has left, those of the mirroring task it spawns included.\<close>

fun job_left :: "nat \<Rightarrow> job \<Rightarrow> nat" where
  "job_left k (Routing rt cfg req pc) = 8 + steps_left k pc"
| "job_left k (Decided cfg req d) = 7"
| "job_left k (Ready f) = 6"
| "job_left k (Sent f) = 5"
| "job_left k (Mirror task) = 4"
| "job_left k (MirrorClaimed task) = 3"
| "job_left k (MirrorReady task q) = 2"
| "job_left k (MirrorWait task q) = 1"

fun job_ok :: "job \<Rightarrow> bool" where
  "job_ok (Routing rt cfg req pc) \<longleftrightarrow> router_ok pc"
| "job_ok _ \<longleftrightarrow> True"

definition work_left :: "nat \<Rightarrow> job list \<Rightarrow> nat" where
  "work_left k js = sum_list (map (job_left k) js)"

lemma work_left_simps [simp]:
  "work_left k [] = 0" "work_left k (j # js) = job_left k j + work_left k js"
  "work_left k (js @ ls) = work_left k js + work_left k ls"
  by (simp_all add: work_left_def)

lemma job_step_left:
  assumes "job_step parse_uri p j out p' js" "job_ok j" "length (bp_backends p) = k"
  shows "list_all job_ok js \<and> work_left k js < job_left k j"
  using assms
proof (induction rule: job_step.induct)
  case (routing pc rt i p p' pc' cfg req)
  then show ?case using router_next_left[of pc p k rt i] by auto
qed (auto split: option.split)

text \<open>No job changes the set of backends.\<close>

abbreviation backend_names :: "backend_pool \<Rightarrow> string list" where
  "backend_names p \<equiv> map fst (bp_backends p)"

lemma release_probe_backends: "bp_backends (breaker_release_probe t p m) = bp_backends p"
  by (simp add: breaker_release_probe_def split: option.split)

lemma admit_backends: "breaker_admit t p m = (p', a) \<Longrightarrow> bp_backends p' = bp_backends p"
  using breaker_admit_backends(1)[of t p m] by simp

lemma router_next_backends: "router_next rt i p pc = (p', pc') \<Longrightarrow> bp_backends p' = bp_backends p"
  by (cases "(rt, i, p, pc)" rule: router_next.cases) (auto simp: Let_def split: prod.splits dest: admit_backends)

lemma job_step_backends: "job_step parse_uri p j out p' js \<Longrightarrow> bp_backends p' = bp_backends p"
proof (induction rule: job_step.induct)
  case (routing pc rt i p p' pc' cfg req)
  then show ?case by (simp add: router_next_backends)
qed (auto simp: handle_decided_def handle_shadow_begin_def handle_defs shadow_finish_def Let_def release_probe_backends
    split: option.splits prod.splits sum.splits forwarded.splits dest: admit_backends)

text \<open>The jobs that owe a client an answer.\<close>

fun is_handler :: "job \<Rightarrow> bool" where
  "is_handler (Routing rt cfg req pc) \<longleftrightarrow> True"
| "is_handler (Decided cfg req d) \<longleftrightarrow> True"
| "is_handler (Ready f) \<longleftrightarrow> True"
| "is_handler (Sent f) \<longleftrightarrow> True"
| "is_handler _ \<longleftrightarrow> False"

definition handlers :: "job list \<Rightarrow> nat" where
  "handlers js = length (filter is_handler js)"

lemma handlers_simps [simp]:
  "handlers [] = 0" "handlers (j # js) = (if is_handler j then 1 else 0) + handlers js"
  "handlers (js @ ls) = handlers js + handlers ls"
  by (simp_all add: handlers_def)

lemma job_step_answers: "job_step parse_uri p j out p' js \<Longrightarrow> handlers js + length (snd out) = handlers [j]"
  by (induction rule: job_step.induct) (auto split: option.split)

text \<open>A job that panics instead of taking its step.\<close>

definition crashes :: "(string \<Rightarrow> bool) \<Rightarrow> backend_pool \<Rightarrow> job \<Rightarrow> bool" where
  "crashes parse_uri p j \<longleftrightarrow>
     (\<exists>cfg req d uuid t p' ms. j = Decided cfg req d \<and> handle_decided parse_uri uuid t p cfg req d = (p', ms, Crashed)) \<or>
     (\<exists>k. j = MirrorClaimed k \<and> shadow_request parse_uri p k = None)"

lemma job_goes_on: "crashes parse_uri p j \<or> (\<exists>out p' js. job_step parse_uri p j out p' js)"
proof (cases j)
  case (Routing rt cfg req pc)
  show ?thesis
  proof (cases "\<exists>r. pc = RtDone r")
    case True
    then obtain r where "pc = RtDone r" by blast
    then show ?thesis using Routing by (cases r) (blast intro: job_step.unavailable job_step.decided)+
  next
    case False
    obtain p' pc' where "router_next rt undefined p pc = (p', pc')" by fastforce
    then show ?thesis using Routing False by (blast intro: job_step.routing)
  qed
next
  case (Decided cfg req d)
  obtain p' ms b where b: "handle_decided parse_uri [] 0 p cfg req d = (p', ms, b)" by (metis prod_cases3)
  then show ?thesis using Decided unfolding crashes_def
    by (cases b) (blast intro: job_step.body_failed job_step.launched)+
next
  case (Ready f)
  obtain p' ms r task where "handle_finish NotRoutable 0 p f = (p', ms, r, task)" by (metis prod_cases4)
  then show ?thesis using Ready by (cases "forward_ready p (fl_decision f)") (blast intro: job_step.sent job_step.not_ready)+
next
  case (Sent f)
  obtain p' ms r task where "handle_finish (forward_reply (\<lambda>_. None) (fl_request f)) 0 p f = (p', ms, r, task)" by (metis prod_cases4)
  then show ?thesis using Sent by (blast intro: job_step.answered)
next
  case (Mirror k)
  obtain p' a where "breaker_admit 0 p (tk_shadow k) = (p', a)" by fastforce
  then show ?thesis using Mirror by (cases a) (auto simp del: split_paired_Ex intro: job_step.intros)
next
  case (MirrorClaimed k)
  then show ?thesis by (cases "shadow_request parse_uri p k") (auto simp: crashes_def simp del: split_paired_Ex intro: job_step.intros)
next
  case (MirrorReady k q)
  obtain p' ds where "shadow_finish (\<lambda>_. []) [] NotRoutable 0 p k = (p', ds)" by fastforce
  then show ?thesis using MirrorReady
    by (cases "forward_ready p (tk_decision k)") (blast intro: job_step.mirror_sent job_step.mirror_not_ready)+
next
  case (MirrorWait k q)
  obtain p' ds where "shadow_finish (\<lambda>_. []) [] (forward_reply (\<lambda>_. None) q) 0 p k = (p', ds)" by fastforce
  then show ?thesis using MirrorWait by (blast intro: job_step.compared)
qed

definition work_inv :: "nat \<Rightarrow> proxy \<Rightarrow> bool" where
  "work_inv k x \<longleftrightarrow> length (bp_backends (pr_pool x)) = k \<and> list_all job_ok (pr_jobs x) \<and>
     handlers (pr_jobs x) + length (pr_replies x) = pr_arrived x \<and>
     pr_work x + work_left k (pr_jobs x) \<le> pr_arrived x * (8 + steps_left k RtStart)"

lemma work_inv_step: "proxy_step parse_uri x y \<Longrightarrow> work_inv k x \<Longrightarrow> work_inv k y"
proof (induction rule: proxy_step.induct)
  case (worked x js j ls ms rs p js')
  then show ?case
    using job_step_left[OF worked(2), of k] job_step_backends[OF worked(2)] job_step_answers[OF worked(2)]
    by (auto simp: work_inv_def split: if_splits)
next
  case (managed p x)
  then show ?case using map_eq_imp_length_eq[OF managed(2)] by (simp add: work_inv_def)
qed (auto simp: work_inv_def)

lemma work_inv_steps: "(proxy_step parse_uri)\<^sup>*\<^sup>* x y \<Longrightarrow> work_inv k x \<Longrightarrow> work_inv k y"
  by (induction rule: rtranclp_induct) (auto dest: work_inv_step)

lemma work_inv_idle: "work_inv (length (bp_backends p)) (proxy_idle p)"
  by (simp add: work_inv_def proxy_idle_def)

section \<open>The metrics say what the clients were answered\<close>

text \<open>
  A list of updates fits a list of answers: for each backend as many requests counted as answers,
  as many durations in each class as answers with a status of the class, and as many server errors
  as answers with such a status.
\<close>

definition answers :: "reply list \<Rightarrow> string \<Rightarrow> (nat \<Rightarrow> bool) \<Rightarrow> nat" where
  "answers rs b P = length (filter (\<lambda>(n, r). n = Some b \<and> P (ps_status r)) rs)"

lemma answers_simps [simp]:
  "answers [] b P = 0" "answers ((n, r) # rs) b P = (if n = Some b \<and> P (ps_status r) then 1 else 0) + answers rs b P"
  "answers (rs @ rs') b P = answers rs b P + answers rs' b P"
  by (simp_all add: answers_def)

definition metered :: "metric list \<Rightarrow> reply list \<Rightarrow> bool" where
  "metered ms rs \<longleftrightarrow> (\<forall>b.
     count_list ms (MRequest b) = answers rs b (\<lambda>_. True) \<and>
     (\<forall>c. count_list ms (MDuration b c) = answers rs b (\<lambda>s. status_class s = c)) \<and>
     count_list ms (M5xx b) = answers rs b is_server_error)"

lemma metered_append: "metered ms rs \<Longrightarrow> metered ms' rs' \<Longrightarrow> metered (ms @ ms') (rs @ rs')"
  by (simp add: metered_def)

lemma metered_silent:
  "metered [] []" "metered [] [(None, r)]" "metered (divergence_metrics n ds) []"
  by (induction ds) (auto simp: metered_def divergence_metrics_def)

lemma metered_answer:
  "ps_status r = 502 \<Longrightarrow> metered (failure_metrics b) [(Some b, r)]"
  "metered (success_metrics b (ps_status r)) [(Some b, r)]"
  by (auto simp: metered_def failure_metrics_def success_metrics_def record_metrics_def is_server_error_def status_class_def)

lemma handle_finish_metered:
  "handle_finish result t p f = (p', ms, r, task) \<Longrightarrow> metered ms [(Some (dc_backend (fl_decision f)), r)]"
  using metered_answer(1)[where r = bad_gateway] metered_answer(2)[where r = r]
  by (auto simp: handle_defs Let_def bad_gateway_def split: forwarded.splits option.splits prod.splits sum.splits)

lemma handle_decided_metered:
  "handle_decided parse_uri uuid t p cfg req d = (p', ms, Replied r) \<Longrightarrow> metered ms [(Some (dc_backend d), r)]"
  "handle_decided parse_uri uuid t p cfg req d = (p', ms, Forwarding f) \<Longrightarrow> ms = []"
  using metered_answer(1)[where r = bad_gateway]
  by (auto simp: handle_decided_def handle_shadow_begin_def launch_not_replied bad_gateway_def Let_def
      split: option.splits prod.splits sum.splits)

lemma job_step_metered: "job_step parse_uri p j out p' js \<Longrightarrow> metered (fst out) (snd out)"
  by (induction rule: job_step.induct)
    (auto intro: metered_silent handle_finish_metered handle_decided_metered(1) dest: handle_decided_metered(2))

lemma event_metered:
  assumes "proxy_event parse_uri x y" "metered (pr_metrics x) (pr_replies x)" "handlers (pr_jobs x) + length (pr_replies x) \<le> pr_arrived x"
  shows "metered (pr_metrics y) (pr_replies y) \<and> handlers (pr_jobs y) + length (pr_replies y) \<le> pr_arrived y"
  using assms(1) unfolding proxy_event_def
proof
  assume "proxy_step parse_uri x y"
  then show ?thesis using assms(2,3)
  proof cases
    case (worked js j ls ms rs p js')
    then show ?thesis using metered_append[OF assms(2)] job_step_metered[OF worked(3)] job_step_answers[OF worked(3)] assms(3)
      by auto
  qed (use metered_append[OF assms(2) metered_silent(2)] in auto)
next
  assume "\<exists>n. proxy_loss parse_uri n x y"
  then obtain n where "proxy_loss parse_uri n x y" by blast
  then show ?thesis using assms(2,3) by cases auto
qed

section \<open>Properties\<close>

text \<open>
  C13. Every request is answered. With n backends, and with any requests under way, their steps in any
  order, whatever the backends answer, as long as no client goes away: the jobs take at most n * n + 5 * n + 11 steps for each
  request that arrived, mirroring included; a job that has not ended can go on, unless it panics
  because the address and the path make no URI; and a request that arrived has its answer or its
  handler, so that once the jobs have ended there are as many answers as requests.
\<close>
theorem requests_answered:
  assumes "(proxy_step parse_uri)\<^sup>*\<^sup>* (proxy_idle (with_breaker_cfg now backends cfg)) x" "n = length backends"
  shows "pr_work x \<le> pr_arrived x * (n * n + 5 * n + 11) \<and>
    (\<forall>j \<in> set (pr_jobs x). crashes parse_uri (pr_pool x) j \<or> (\<exists>out p js. job_step parse_uri (pr_pool x) j out p js)) \<and>
    handlers (pr_jobs x) + length (pr_replies x) = pr_arrived x"
proof -
  let ?p = "with_breaker_cfg now backends cfg"
  have "length (bp_backends ?p) = n" using assms(2) by (simp add: with_breaker_cfg_def)
  with work_inv_steps[OF assms(1) work_inv_idle] have "work_inv n x" by simp
  then show ?thesis using job_goes_on by (auto simp: work_inv_def round_steps_def algebra_simps)
qed

text \<open>
  C14. The metrics tell the truth. In every state the proxy reaches, also when clients go away and
  jobs panic, the counter of requests of a backend is the number of answers given for it, the
  histogram has as many durations in a class as there were answers with a status of the class, and
  the counter of server errors is the number of answers with a status from 500 to 599; there are no
  more answers and handlers than requests that arrived.
\<close>
theorem requests_accounted:
  assumes "(proxy_event parse_uri)\<^sup>*\<^sup>* (proxy_idle (with_breaker_cfg now backends cfg)) x"
  shows "count_list (pr_metrics x) (MRequest b) = answers (pr_replies x) b (\<lambda>_. True) \<and>
    count_list (pr_metrics x) (MDuration b c) = answers (pr_replies x) b (\<lambda>s. status_class s = c) \<and>
    count_list (pr_metrics x) (M5xx b) = answers (pr_replies x) b (\<lambda>s. s \<in> {500..599}) \<and>
    handlers (pr_jobs x) + length (pr_replies x) \<le> pr_arrived x"
proof -
  have "metered (pr_metrics x) (pr_replies x) \<and> handlers (pr_jobs x) + length (pr_replies x) \<le> pr_arrived x"
    using assms by (induction rule: rtranclp_induct) (use event_metered in \<open>auto simp: proxy_idle_def metered_silent\<close>)
  moreover have "is_server_error = (\<lambda>s. s \<in> {500..599})" by (auto simp: is_server_error_def)
  ultimately show ?thesis by (simp add: metered_def)
qed

theorem requests_answered_witness:
  "\<exists>x. (proxy_step (\<lambda>_. True))\<^sup>*\<^sup>* (proxy_idle solo_pool) x \<and> handlers (pr_jobs x) = 1 \<and>
     length (pr_replies x) + 1 = pr_arrived x \<and> pr_work x \<le> pr_arrived x * 17"
proof -
  obtain x f where x: "(proxy_step (\<lambda>_. True))\<^sup>*\<^sup>* (proxy_idle solo_pool) x" "pr_jobs x = [Sent f]"
    using solo_half_open by (auto simp: reaches_def)
  from requests_answered[OF x(1)[unfolded solo_pool_def] refl] x show ?thesis by auto
qed

theorem requests_accounted_witness:
  "\<exists>x y. (proxy_step (\<lambda>_. True))\<^sup>*\<^sup>* (proxy_idle solo_pool) x \<and> proxy_loss (\<lambda>_. True) ''c'' x y \<and>
     count_list (pr_metrics y) (MRequest ''c'') = answers (pr_replies y) ''c'' (\<lambda>_. True) \<and> length (pr_replies y) \<le> pr_arrived y"
proof -
  obtain x f where x: "(proxy_step (\<lambda>_. True))\<^sup>*\<^sup>* (proxy_idle solo_pool) x" "pr_jobs x = [Sent f]" "dc_backend (fl_decision f) = ''c''"
    using solo_half_open by (auto simp: reaches_def)
  let ?y = "x\<lparr>pr_jobs := []\<rparr>"
  have c: "proxy_loss (\<lambda>_. True) ''c'' x ?y" using cancelled[of x "[]" "Sent f" "[]" "''c''"] x by simp
  have "(proxy_event (\<lambda>_. True))\<^sup>*\<^sup>* (proxy_idle solo_pool) x"
    using x(1) by (rule rtranclp_mono[THEN predicate2D, rotated]) (auto simp: proxy_event_def)
  moreover have "proxy_event (\<lambda>_. True) x ?y" using c by (auto simp: proxy_event_def)
  ultimately have "(proxy_event (\<lambda>_. True))\<^sup>*\<^sup>* (proxy_idle solo_pool) ?y" by (rule rtranclp.rtrancl_into_rtrancl)
  from requests_accounted[OF this[unfolded solo_pool_def], of "''c''"] x(1) c show ?thesis by fastforce
qed

end
