(* ===== verification/Proxy_Drain.thy ===== *)
theory Proxy_Drain
  imports Control_Plane
begin

text \<open>
  The accept loop of the migration proxy and its end, \<open>run_proxy_with_listener\<close> in \<open>server.rs\<close>,
  and the commands of \<open>lib.rs\<close>. An iteration of the loop has as input what it finds: whether the
  drain flag is set, which connection tasks have ended, and what the wait for a connection or for
  the drain signal gives. Connections are numbered; when each would end by itself is an input, and so
  is how long the runtime takes to end a task that was aborted.
\<close>

section \<open>Accepting\<close>

datatype accept_event = DrainSeen | AcceptFailed | Accepted nat

record accept_round =
  ar_draining :: bool
  ar_finished :: "nat list"
  ar_event :: accept_event

definition reap_finished_connections :: "nat list \<Rightarrow> nat list \<Rightarrow> nat list" where
  "reap_finished_connections finished in_flight = filter (\<lambda>c. c \<notin> set finished) in_flight"

text \<open>The result: whether the loop has ended, the tasks not yet joined, and the rounds not used.\<close>

fun accept_loop :: "accept_round list \<Rightarrow> nat list \<Rightarrow> bool \<times> nat list \<times> accept_round list" where
  "accept_loop [] in_flight = (False, in_flight, [])"
| "accept_loop (r # rs) in_flight =
     (if ar_draining r then (True, in_flight, rs)
      else
        (let in_flight1 = reap_finished_connections (ar_finished r) in_flight in
         case ar_event r of
           DrainSeen \<Rightarrow> (True, in_flight1, rs)
         | AcceptFailed \<Rightarrow> accept_loop rs in_flight1
         | Accepted c \<Rightarrow> accept_loop rs (in_flight1 @ [c])))"

section \<open>Draining\<close>

text \<open>
  The loop over \<open>join_next\<close>, which waits for the task that ends next, with the deadline of the timeout
  around it, if there is one: the instant at which it ends, and the tasks that were not joined when
  the deadline passed.
\<close>

function join_all :: "int option \<Rightarrow> (nat \<Rightarrow> int) \<Rightarrow> nat list \<Rightarrow> int \<Rightarrow> int \<times> nat list" where
  "join_all deadline ends in_flight now =
     (if in_flight = [] then (now, [])
      else
        (let c = arg_min_list ends in_flight; t = max now (ends c) in
         case deadline of
           Some d \<Rightarrow> if d < t then (d, in_flight) else join_all deadline ends (remove1 c in_flight) t
         | None \<Rightarrow> join_all deadline ends (remove1 c in_flight) t))"
  by pat_completeness auto
termination
  by (relation "measure (\<lambda>(_, _, fs, _). length fs)") (auto simp: length_remove1 arg_min_list_in)

declare join_all.simps [simp del]

text \<open>
  The end of the proxy: the tasks are joined within the grace period; if that passes, the rest is
  aborted and joined. The result is the instant of the end and the connections that were aborted.
\<close>

definition drain_join :: "int \<Rightarrow> nat \<Rightarrow> (nat \<Rightarrow> int) \<Rightarrow> (nat \<Rightarrow> int) \<Rightarrow> nat list \<Rightarrow> int \<times> nat list" where
  "drain_join now grace_secs ends abort_delay in_flight =
     (case join_all (Some (now + int grace_secs * SECOND)) ends in_flight now of
        (t, []) \<Rightarrow> (t, [])
      | (t, rest) \<Rightarrow> (fst (join_all None (\<lambda>c. min (ends c) (t + abort_delay c)) rest t), rest))"

definition run_proxy ::
  "live_state \<Rightarrow> accept_round list \<Rightarrow> int \<Rightarrow> (nat \<Rightarrow> int) \<Rightarrow> (nat \<Rightarrow> int) \<Rightarrow> (int \<times> nat list) option" where
  "run_proxy st rounds now ends abort_delay =
     (case accept_loop rounds [] of
        (False, _, _) \<Rightarrow> None
      | (True, in_flight, _) \<Rightarrow> Some (drain_join now (ls_drain_grace st) ends abort_delay in_flight))"

section \<open>Commands\<close>

text \<open>The width of a format counts characters, the bytes that do not continue one.\<close>

definition pad_right :: "nat \<Rightarrow> string \<Rightarrow> string" where
  "pad_right w s = s @ replicate (w - length (filter (\<lambda>c. \<not> is_cont (byte_val c)) s)) SP"

definition status_lines :: "state_snapshot \<Rightarrow> string list" where
  "status_lines snap =
     [''Uptime:  '' @ dec_nat (sn_uptime_secs snap) @ ''s'',
      ''Draining: '' @ (if sn_draining snap then ''true'' else ''false''), ''Backends:''] @
     map (\<lambda>b. ''  '' @ pad_right 16 (bs_name b) @ '' '' @ pad_right 22 (bs_address b) @ '' weight='' @
       pad_right 4 (dec_nat (bs_weight b)) @ '' health='' @ bs_health b) (sn_backends snap)"

definition command_result :: "control_response \<Rightarrow> control_message + control_message" where
  "command_result resp = (if \<not> cr_ok resp then Inl (cr_message resp) else Inr (cr_message resp))"

section \<open>The end of the proxy\<close>

text \<open>What joining comes to: without a deadline, and with one.\<close>

lemma join_step:
  assumes "in_flight \<noteq> []" "c = arg_min_list ends in_flight" "t = max now (ends c)"
  shows "c \<in> set in_flight" "x \<in> set in_flight \<Longrightarrow> ends c \<le> ends x" "set in_flight \<subseteq> insert c (set (remove1 c in_flight))"
    "join_all None ends in_flight now = join_all None ends (remove1 c in_flight) t"
    "join_all (Some d) ends in_flight now = (if d < t then (d, in_flight) else join_all (Some d) ends (remove1 c in_flight) t)"
proof -
  show "c \<in> set in_flight" using assms by (simp add: arg_min_list_in)
  show "x \<in> set in_flight \<Longrightarrow> ends c \<le> ends x"
    using assms(1) f_arg_min_list_f[of in_flight ends] by (simp add: assms(2))
  show "set in_flight \<subseteq> insert c (set (remove1 c in_flight))" by (induction in_flight) auto
  show "join_all None ends in_flight now = join_all None ends (remove1 c in_flight) t"
    using assms by (simp add: join_all.simps[of None ends in_flight] Let_def)
  show "join_all (Some d) ends in_flight now = (if d < t then (d, in_flight) else join_all (Some d) ends (remove1 c in_flight) t)"
    using assms by (simp add: join_all.simps[of "Some d" ends in_flight] Let_def)
qed

lemma join_all_free:
  "\<exists>t. join_all None ends fs now = (t, []) \<and> now \<le> t \<and> (\<forall>u. now \<le> u \<and> (\<forall>c \<in> set fs. ends c \<le> u) \<longrightarrow> t \<le> u)"
proof (induction "length fs" arbitrary: fs now)
  case 0
  then show ?case by (simp add: join_all.simps)
next
  case (Suc n)
  define c where "c = arg_min_list ends fs"
  have fs: "fs \<noteq> []" using Suc(2) by auto
  note j = join_step[OF fs c_def, of "max now (ends c)" now, OF refl]
  have "n = length (remove1 c fs)" using Suc(2) j(1) by (simp add: length_remove1)
  from Suc(1)[OF this, of "max now (ends c)"] obtain t where t: "join_all None ends fs now = (t, [])" "max now (ends c) \<le> t"
    "\<And>u. max now (ends c) \<le> u \<Longrightarrow> \<forall>x \<in> set (remove1 c fs). ends x \<le> u \<Longrightarrow> t \<le> u" unfolding j(4) by blast
  then show ?case using j(1) set_remove1_subset[of c fs] by (auto simp: subset_iff)
qed

lemma join_all_until:
  assumes "now \<le> d"
  shows "\<exists>t rest. join_all (Some d) ends fs now = (t, rest) \<and> set rest = {c \<in> set fs. d < ends c} \<and> now \<le> t \<and>
    (\<forall>c \<in> set fs. c \<in> set rest \<or> ends c \<le> t) \<and>
    (if rest = [] then t \<le> d \<and> (\<forall>u. now \<le> u \<and> (\<forall>c \<in> set fs. ends c \<le> u) \<longrightarrow> t \<le> u) else t = d)"
  using assms
proof (induction "length fs" arbitrary: fs now)
  case 0
  then show ?case by (simp add: join_all.simps)
next
  case (Suc n)
  define c where "c = arg_min_list ends fs"
  have fs: "fs \<noteq> []" using Suc(2) by auto
  note j = join_step[OF fs c_def, of "max now (ends c)" now, OF refl]
  show ?case
  proof (cases "d < max now (ends c)")
    case True
    then have "\<forall>x \<in> set fs. d < ends x" using Suc.prems j(2) by force
    then show ?thesis using True j(5) fs Suc.prems by auto
  next
    case False
    have n: "n = length (remove1 c fs)" using Suc(2) j(1) by (simp add: length_remove1)
    have j5: "join_all (Some d) ends fs now = join_all (Some d) ends (remove1 c fs) (max now (ends c))" "max now (ends c) \<le> d"
      using False j(5)[of d] by auto
    obtain t rest where tr: "join_all (Some d) ends fs now = (t, rest) \<and> set rest = {x \<in> set (remove1 c fs). d < ends x} \<and>
      max now (ends c) \<le> t \<and> (\<forall>x \<in> set (remove1 c fs). x \<in> set rest \<or> ends x \<le> t) \<and>
      (if rest = [] then t \<le> d \<and> (\<forall>u. max now (ends c) \<le> u \<and> (\<forall>x \<in> set (remove1 c fs). ends x \<le> u) \<longrightarrow> t \<le> u) else t = d)"
      using Suc(1)[OF n j5(2), folded j5(1)] by - (elim exE, rule that)
    note t = tr[THEN conjunct1] tr[THEN conjunct2, THEN conjunct1] tr[THEN conjunct2, THEN conjunct2, THEN conjunct1]
      tr[THEN conjunct2, THEN conjunct2, THEN conjunct2, THEN conjunct1] tr[THEN conjunct2, THEN conjunct2, THEN conjunct2, THEN conjunct2]
    define A where "A = set (remove1 c fs)"
    note t' = t[folded A_def]
    have fs': "set fs = insert c A" using j(1,3) set_remove1_subset[of c fs] unfolding A_def by blast
    have "ends c \<le> d" using False by simp
    then have "set rest = {x \<in> set fs. d < ends x}" using t'(2) by (auto simp: fs')
    moreover have "\<forall>x \<in> set fs. x \<in> set rest \<or> ends x \<le> t" using t'(3,4) by (auto simp: fs')
    moreover have "if rest = [] then t \<le> d \<and> (\<forall>u. now \<le> u \<and> (\<forall>x \<in> set fs. ends x \<le> u) \<longrightarrow> t \<le> u) else t = d"
      using t'(5) by (auto simp: fs' split: if_splits)
    ultimately show ?thesis using t(1,3) by auto
  qed
qed

text \<open>
  The tasks not yet joined when the accept loop ends: those of connections that were accepted, each
  of them that has not ended.
\<close>

lemma accept_loop_tracks:
  assumes "\<forall>x \<in> set rs. \<not> ar_draining x \<and> ar_event x \<noteq> DrainSeen" "ar_draining r \<or> ar_event r = DrainSeen"
    and "\<forall>x \<in> set (rs @ [r]). \<forall>c \<in> set (ar_finished x). ends c \<le> now"
  shows "\<exists>in_flight rest. accept_loop (rs @ r # rs') fs = (True, in_flight, rest) \<and>
    set in_flight \<subseteq> set fs \<union> {c. Accepted c \<in> set (map ar_event rs)} \<and>
    (\<forall>c. c \<in> set fs \<or> Accepted c \<in> set (map ar_event rs) \<longrightarrow> c \<in> set in_flight \<or> ends c \<le> now)"
  using assms
proof (induction rs arbitrary: fs)
  case Nil
  then show ?case by (auto simp: Let_def reap_finished_connections_def)
next
  case (Cons a rs)
  define gs where "gs = reap_finished_connections (ar_finished a) fs"
  have gs: "set gs \<subseteq> set fs" "\<forall>c \<in> set fs. c \<in> set gs \<or> ends c \<le> now"
    using Cons.prems(3) by (auto simp: gs_def reap_finished_connections_def)
  have pre: "\<forall>x \<in> set rs. \<not> ar_draining x \<and> ar_event x \<noteq> DrainSeen"
    "\<forall>x \<in> set (rs @ [r]). \<forall>c \<in> set (ar_finished x). ends c \<le> now" using Cons.prems by simp_all
  show ?case
  proof (cases "ar_event a")
    case (Accepted c)
    from Cons.IH[OF pre(1) Cons.prems(2) pre(2), of "gs @ [c]"] obtain in_flight rest where
      i: "accept_loop (rs @ r # rs') (gs @ [c]) = (True, in_flight, rest)"
        "set in_flight \<subseteq> set (gs @ [c]) \<union> {c. Accepted c \<in> set (map ar_event rs)}"
        "\<forall>x. x \<in> set (gs @ [c]) \<or> Accepted x \<in> set (map ar_event rs) \<longrightarrow> x \<in> set in_flight \<or> ends x \<le> now" by blast
    then have "accept_loop ((a # rs) @ r # rs') fs = (True, in_flight, rest)"
      using Accepted Cons.prems(1) by (simp add: gs_def Let_def)
    then show ?thesis using i(2,3) gs Accepted by (intro exI[of _ in_flight] exI[of _ rest]) auto
  next
    case AcceptFailed
    from Cons.IH[OF pre(1) Cons.prems(2) pre(2), of gs] obtain in_flight rest where
      i: "accept_loop (rs @ r # rs') gs = (True, in_flight, rest)"
        "set in_flight \<subseteq> set gs \<union> {c. Accepted c \<in> set (map ar_event rs)}"
        "\<forall>x. x \<in> set gs \<or> Accepted x \<in> set (map ar_event rs) \<longrightarrow> x \<in> set in_flight \<or> ends x \<le> now" by blast
    then have "accept_loop ((a # rs) @ r # rs') fs = (True, in_flight, rest)"
      using AcceptFailed Cons.prems(1) by (simp add: gs_def Let_def)
    then show ?thesis using i(2,3) gs AcceptFailed by (intro exI[of _ in_flight] exI[of _ rest]) auto
  qed (use Cons.prems(1) in simp)
qed

lemma drain_join_ends:
  assumes "d = now + int grace * SECOND" "\<And>c. abort_delay c \<le> delay" "0 \<le> delay"
  shows "\<exists>t aborted. drain_join now grace ends abort_delay fs = (t, aborted) \<and>
    set aborted = {c \<in> set fs. d < ends c} \<and> now \<le> t \<and> t \<le> d + delay \<and>
    (\<forall>c \<in> set fs. c \<in> set aborted \<or> ends c \<le> t) \<and>
    (aborted = [] \<longrightarrow> (\<forall>u. now \<le> u \<and> (\<forall>c \<in> set fs. ends c \<le> u) \<longrightarrow> t \<le> u))"
proof -
  have le: "now \<le> d" by (simp add: assms(1) SECOND_def)
  from join_all_until[OF this, of ends fs] obtain t rest where
    j: "join_all (Some d) ends fs now = (t, rest)" "set rest = {c \<in> set fs. d < ends c}" "now \<le> t"
      "\<forall>c \<in> set fs. c \<in> set rest \<or> ends c \<le> t"
      "if rest = [] then t \<le> d \<and> (\<forall>u. now \<le> u \<and> (\<forall>c \<in> set fs. ends c \<le> u) \<longrightarrow> t \<le> u) else t = d" by blast
  show ?thesis
  proof (cases rest)
    case Nil
    then show ?thesis using j assms(3) by (auto simp: drain_join_def assms(1)[symmetric])
  next
    case (Cons x xs)
    define e where "e = (\<lambda>c. min (ends c) (d + abort_delay c))"
    obtain v where v: "join_all None e rest d = (v, [])" "d \<le> v" "\<And>u. d \<le> u \<Longrightarrow> \<forall>c \<in> set rest. e c \<le> u \<Longrightarrow> v \<le> u"
      using join_all_free[of e rest d] by blast
    have "v \<le> d + delay" using assms(2,3) by (intro v(3)) (auto simp: e_def min_le_iff_disj)
    moreover have "drain_join now grace ends abort_delay fs = (v, rest)"
      using j(1,5) v(1) Cons by (simp add: drain_join_def assms(1)[symmetric] e_def)
    ultimately show ?thesis using j v(2) le Cons by force
  qed
qed

text \<open>
  C37. The drain ends in time and loses no connection. Let a round of the accept loop be the first
  to see the drain, and let the tasks that were reaped before have ended. Then the proxy ends. A
  connection that was accepted has ended by itself by then or is aborted; those that are aborted are
  the ones accepted before the drain, open when it began, that would have gone on past the grace
  period. The end is within the grace period and what the runtime takes to end the aborted tasks;
  with nothing to abort it is as soon as the last open connection has ended.
\<close>
theorem drain_ends_in_time:
  assumes "\<forall>x \<in> set rs. \<not> ar_draining x \<and> ar_event x \<noteq> DrainSeen" "ar_draining r \<or> ar_event r = DrainSeen"
    and "\<forall>x \<in> set (rs @ [r]). \<forall>c \<in> set (ar_finished x). ends c \<le> now"
    and "\<And>c. abort_delay c \<le> delay" "0 \<le> delay" "deadline = now + int (ls_drain_grace st) * SECOND"
  shows "\<exists>t aborted. run_proxy st (rs @ r # rs') now ends abort_delay = Some (t, aborted) \<and>
    now \<le> t \<and> t \<le> deadline + delay \<and>
    (\<forall>c. Accepted c \<in> set (map ar_event rs) \<longrightarrow> c \<in> set aborted \<or> ends c \<le> t) \<and>
    set aborted = {c. Accepted c \<in> set (map ar_event rs) \<and> deadline < ends c} \<and>
    (aborted = [] \<longrightarrow> (\<forall>u. now \<le> u \<and> (\<forall>c. Accepted c \<in> set (map ar_event rs) \<longrightarrow> ends c \<le> u) \<longrightarrow> t \<le> u))"
proof -
  obtain fs rest where a: "accept_loop (rs @ r # rs') [] = (True, fs, rest)"
    "set fs \<subseteq> {c. Accepted c \<in> set (map ar_event rs)}" "\<And>c. Accepted c \<in> set (map ar_event rs) \<Longrightarrow> c \<in> set fs \<or> ends c \<le> now"
    using accept_loop_tracks[of rs r ends now rs' "[]", OF assms(1-3)] by auto
  obtain t aborted where j: "drain_join now (ls_drain_grace st) ends abort_delay fs = (t, aborted)"
    "set aborted = {c \<in> set fs. deadline < ends c}" "now \<le> t" "t \<le> deadline + delay"
    "\<forall>c \<in> set fs. c \<in> set aborted \<or> ends c \<le> t" "aborted = [] \<longrightarrow> (\<forall>u. now \<le> u \<and> (\<forall>c \<in> set fs. ends c \<le> u) \<longrightarrow> t \<le> u)"
    using drain_join_ends[of deadline now "ls_drain_grace st" abort_delay delay ends fs, OF assms(6,4,5)] by blast
  have le: "now \<le> deadline" by (simp add: assms(6) SECOND_def)
  have "run_proxy st (rs @ r # rs') now ends abort_delay = Some (t, aborted)" by (simp add: run_proxy_def a(1) j(1))
  moreover have "c \<in> set aborted \<or> ends c \<le> t" if "Accepted c \<in> set (map ar_event rs)" for c using a(3)[OF that] j(3,5) by auto
  moreover have "set aborted = {c. Accepted c \<in> set (map ar_event rs) \<and> deadline < ends c}" using j(2) a(2,3) le by force
  moreover have "t \<le> u" if "aborted = []" "now \<le> u" "\<forall>c. Accepted c \<in> set (map ar_event rs) \<longrightarrow> ends c \<le> u" for u
    using j(6) that a(2) by blast
  ultimately show ?thesis using j(3,4) by (intro exI[of _ t] exI[of _ aborted]) auto
qed

theorem drain_ends_in_time_witness:
  "\<exists>t. run_proxy (set_drain_grace 2 (live_state_new 0 example_config))
     ([\<lparr>ar_draining = False, ar_finished = [], ar_event = Accepted 7\<rparr>] @
       \<lparr>ar_draining = False, ar_finished = [], ar_event = DrainSeen\<rparr> # []) 0 (\<lambda>_. 9 * SECOND) (\<lambda>_. 1) = Some (t, [7]) \<and>
     t \<le> 2 * SECOND + 1"
proof -
  let ?rs = "[\<lparr>ar_draining = False, ar_finished = [], ar_event = Accepted 7\<rparr>]"
  let ?r = "\<lparr>ar_draining = False, ar_finished = [], ar_event = DrainSeen\<rparr>"
  let ?st = "set_drain_grace 2 (live_state_new 0 example_config)"
  have p: "\<forall>x \<in> set ?rs. \<not> ar_draining x \<and> ar_event x \<noteq> DrainSeen" "ar_draining ?r \<or> ar_event ?r = DrainSeen"
    "\<forall>x \<in> set (?rs @ [?r]). \<forall>c \<in> set (ar_finished x). (\<lambda>_. 9 * SECOND) c \<le> 0"
    "2 * SECOND = 0 + int (ls_drain_grace ?st) * SECOND" by (simp_all add: set_drain_grace_def)
  obtain t aborted where t: "run_proxy ?st (?rs @ ?r # []) 0 (\<lambda>_. 9 * SECOND) (\<lambda>_. 1) = Some (t, aborted)" "t \<le> 2 * SECOND + 1"
    "set aborted = {c. Accepted c \<in> set (map ar_event ?rs) \<and> 2 * SECOND < 9 * SECOND}"
    using drain_ends_in_time[OF p(1-3), of "\<lambda>_. 1" 1 "2 * SECOND" ?st "[]"] p(4) by auto
  have "aborted = [7]"
  proof -
    have "run_proxy ?st (?rs @ ?r # []) 0 (\<lambda>_. 9 * SECOND) (\<lambda>_. 1) = Some (drain_join 0 2 (\<lambda>_. 9 * SECOND) (\<lambda>_. 1) [7])"
      by (simp add: run_proxy_def reap_finished_connections_def set_drain_grace_def numeral_2_eq_2)
    then show ?thesis using t(1)
      by (simp add: drain_join_def join_all.simps[of "Some _"] SECOND_def split: prod.splits)
  qed
  then show ?thesis using t by blast
qed

end
