(* ===== verification/Migrate_Cli.thy ===== *)
theory Migrate_Cli
  imports Control_Sessions Proxy_Drain Proxy_Server
begin

text \<open>
  The command line of the migration proxy (\<open>crates/thttpd-migrate/src/main.rs\<close> and \<open>lib.rs\<close>): the start
  of the proxy up to where it serves, and the commands, which talk to a running proxy through its
  control socket or read its state file. The parser of the arguments, the TOML reader, JSON and the
  listener of the metrics are parameters.
\<close>

section \<open>Start\<close>

datatype start_error =
  NoConfigFile | ConfigUnreadable | ConfigSyntax | ConfigInvalid config_error
| ListenAddress | MetricsAddress | ControlSocket socket_error | ControlBind

record start_env =
  se_read :: "string \<Rightarrow> string option"
  se_toml :: "string \<Rightarrow> proxy_config option"
  se_parse_sock :: "string \<Rightarrow> bool"
  se_parse_uri :: "string \<Rightarrow> bool"
  se_now :: int
  se_log_format :: "string option"
  se_env_filter :: "string option"
  se_subscriber_set :: bool
  se_listener_ok :: "string \<Rightarrow> bool"
  se_parent_ok :: bool
  se_meta :: path_meta
  se_probe :: connect_result
  se_remove_ok :: bool
  se_bind_ok :: bool

definition load :: "start_env \<Rightarrow> string \<Rightarrow> start_error + proxy_config" where
  "load e path =
     (case se_read e path of
        None \<Rightarrow> Inl ConfigUnreadable
      | Some text \<Rightarrow>
          (case se_toml e text of
             None \<Rightarrow> Inl ConfigSyntax
           | Some cfg \<Rightarrow>
               (case validate (se_parse_sock e) (se_parse_uri e) cfg of
                  Inl err \<Rightarrow> Inl (ConfigInvalid err)
                | Inr _ \<Rightarrow> Inr cfg)))"

text \<open>Preparing the path and binding; the accept loop itself is in the theory Control_Sessions.\<close>

definition spawn_server :: "start_env \<Rightarrow> start_error + unit" where
  "spawn_server e =
     (case fst (prepare_control_socket_path (se_parent_ok e) (se_meta e) (se_probe e) (se_remove_ok e)) of
        Inl err \<Rightarrow> Inl (ControlSocket err)
      | Inr _ \<Rightarrow> if se_bind_ok e then Inr () else Inl ControlBind)"

text \<open>
  The subscriber for traces: the filter of the environment goes before the level, and a subscriber
  that is already there stays.
\<close>

record tracing =
  tr_filter :: string
  tr_json :: bool

definition tracing_init :: "string option \<Rightarrow> bool \<Rightarrow> string \<Rightarrow> bool \<Rightarrow> tracing option" where
  "tracing_init env_filter already level json =
     (let filter = (case env_filter of Some f \<Rightarrow> f | None \<Rightarrow> level)
      in if already then None else Some \<lparr>tr_filter = filter, tr_json = json\<rparr>)"

definition init_tracing :: "start_env \<Rightarrow> string \<Rightarrow> tracing option" where
  "init_tracing e log_level =
     tracing_init (se_env_filter e) (se_subscriber_set e) log_level
       (case se_log_format e of Some v \<Rightarrow> v = ''json'' | None \<Rightarrow> False)"

record started =
  sd_tracing :: "tracing option"
  sd_live :: "live_state \<times> backend_pool"
  sd_metrics :: "((metric_kind \<times> string) \<times> string) list option"
  sd_config :: proxy_config

definition start :: "start_env \<Rightarrow> string option \<Rightarrow> string option \<Rightarrow> start_error + started" where
  "start e config log_level =
     (case config of
        None \<Rightarrow> Inl NoConfigFile
      | Some cfg_path \<Rightarrow>
          (case load e cfg_path of
             Inl err \<Rightarrow> Inl err
           | Inr cfg \<Rightarrow>
               ensure (se_parse_sock e (px_listen cfg)) ListenAddress
               (ensure (se_parse_sock e (mt_listen (px_metrics cfg))) MetricsAddress
                 (case spawn_server e of
                    Inl err \<Rightarrow> Inl err
                  | Inr _ \<Rightarrow> Inr \<lparr>sd_tracing = init_tracing e (effective_log_level log_level (px_log_level cfg)),
                      sd_live = (live_state_new (se_now e) cfg,
                        with_breaker_cfg (se_now e) (px_backends cfg) (px_circuit_breaker cfg)),
                      sd_metrics = metrics_install (se_listener_ok e) (mt_listen (px_metrics cfg)) (mt_path (px_metrics cfg)),
                      sd_config = cfg\<rparr>))))"

text \<open>
  A start succeeds exactly when the configuration is readable and valid and the control socket can be
  had; the addresses, parsed a second time, are not refused any more, and a failure of the exporter of
  the metrics does not count. What it serves with is what \<open>proxy_start\<close> makes of the configuration.
\<close>

lemma load_Inr: "load e path = Inr cfg \<Longrightarrow> validate (se_parse_sock e) (se_parse_uri e) cfg = Inr ()"
  by (auto simp: load_def split: option.splits sum.splits)

lemma start_iff:
  "(\<exists>s. start e (Some path) lvl = Inr s) \<longleftrightarrow> (\<exists>cfg. load e path = Inr cfg) \<and> spawn_server e = Inr ()"
proof (cases "load e path")
  case (Inr cfg)
  have "se_parse_sock e (px_listen cfg)" "se_parse_sock e (mt_listen (px_metrics cfg))"
    using load_Inr[OF Inr] by (auto simp: validate_def validate_shadow_Inr split: sum.splits)
  then show ?thesis by (simp add: start_def Inr ensure_def split: sum.splits)
qed (simp add: start_def)

lemma start_live:
  assumes "start e config lvl = Inr s"
  shows "proxy_start (se_parse_sock e) (se_parse_uri e) (se_now e) (sd_config s) = Inr (sd_live s)"
  using assms load_Inr by (fastforce simp: start_def proxy_start_def split: option.splits sum.splits)

section \<open>Commands\<close>

record client_env =
  ce_connect :: "(bytes \<Rightarrow> bytes) option"
  ce_to_json :: "control_request \<Rightarrow> bytes"
  ce_from_json :: "bytes \<Rightarrow> control_response option"
  ce_read :: "string \<Rightarrow> string option"
  ce_snapshot :: "string \<Rightarrow> state_snapshot option"

datatype cli_error =
  NotConnected | Transport frame_error | Refused control_message | BadPairs pair_error
| StateUnreadable | StateSyntax | StartFailed start_error

text \<open>A client call: connecting may fail; then the answer decides.\<close>

definition client_call :: "client_env \<Rightarrow> ((bytes \<Rightarrow> bytes) \<Rightarrow> frame_error + control_response) \<Rightarrow> cli_error + control_message" where
  "client_call e client =
     (case ce_connect e of
        None \<Rightarrow> Inl NotConnected
      | Some exchange \<Rightarrow>
          (case client exchange of
             Inl err \<Rightarrow> Inl (Transport err)
           | Inr resp \<Rightarrow> (case command_result resp of Inl m \<Rightarrow> Inl (Refused m) | Inr m \<Rightarrow> Inr m)))"

definition set_weight_command :: "client_env \<Rightarrow> string list \<Rightarrow> cli_error + control_message" where
  "set_weight_command e pairs =
     (case parse_weight_pairs pairs [] of
        Inl err \<Rightarrow> Inl (BadPairs err)
      | Inr weights \<Rightarrow> client_call e (\<lambda>x. client_set_weight (ce_to_json e) (ce_from_json e) x weights))"

definition drain_command :: "client_env \<Rightarrow> nat \<Rightarrow> cli_error + control_message" where
  "drain_command e timeout_secs = client_call e (\<lambda>x. client_drain (ce_to_json e) (ce_from_json e) x timeout_secs)"

definition rollback_command :: "client_env \<Rightarrow> string \<Rightarrow> cli_error + control_message" where
  "rollback_command e to = client_call e (\<lambda>x. client_rollback (ce_to_json e) (ce_from_json e) x to)"

definition status_command :: "client_env \<Rightarrow> string \<Rightarrow> cli_error + string list" where
  "status_command e path =
     (case ce_read e path of
        None \<Rightarrow> Inl StateUnreadable
      | Some text \<Rightarrow>
          (case ce_snapshot e text of None \<Rightarrow> Inl StateSyntax | Some snap \<Rightarrow> Inr (status_lines snap)))"

datatype cmd =
  CmdStart "string option" "string option" | CmdStatus string | CmdSetWeight "string list"
| CmdDrain nat | CmdRollback string

datatype cli_result = Serving started | Printed "control_message + string list"

fun migrate_main :: "start_env \<Rightarrow> client_env \<Rightarrow> cmd \<Rightarrow> cli_error + cli_result" where
  "migrate_main se ce (CmdStart config log_level) =
     map_sum StartFailed Serving (start se config log_level)"
| "migrate_main se ce (CmdStatus path) = map_sum id (\<lambda>ls. Printed (Inr ls)) (status_command ce path)"
| "migrate_main se ce (CmdSetWeight pairs) = map_sum id (\<lambda>m. Printed (Inl m)) (set_weight_command ce pairs)"
| "migrate_main se ce (CmdDrain timeout_secs) = map_sum id (\<lambda>m. Printed (Inl m)) (drain_command ce timeout_secs)"
| "migrate_main se ce (CmdRollback to) = map_sum id (\<lambda>m. Printed (Inl m)) (rollback_command ce to)"

section \<open>A command takes effect\<close>

text \<open>
  The two ends of the control socket. They carry a request to a proxy in the state \<open>c\<close> if the decoder
  of the server gives back what the client encoded and the decoder of the client the response, and
  both are within the limit of a frame.
\<close>

record server_codec =
  sc_from_req :: "bytes \<Rightarrow> control_request option"
  sc_to_resp :: "control_response \<Rightarrow> bytes"

definition carries :: "client_env \<Rightarrow> server_codec \<Rightarrow> int \<Rightarrow> live_state \<times> backend_pool \<Rightarrow> control_request \<Rightarrow> bool" where
  "carries e sc now c req \<longleftrightarrow>
     sc_from_req sc (ce_to_json e req) = Some req \<and> length (ce_to_json e req) \<le> 16 * 1024 * 1024 \<and>
     (let resp = fst (snd (handle_request now c req))
      in ce_from_json e (sc_to_resp sc resp) = Some resp \<and> length (sc_to_resp sc resp) \<le> 16 * 1024 * 1024)"

text \<open>A connection to a proxy in the state \<open>c\<close>: what the client gets back, and the new state.\<close>

definition socket_answer :: "server_codec \<Rightarrow> int \<Rightarrow> live_state \<times> backend_pool \<Rightarrow> bytes \<Rightarrow> bytes" where
  "socket_answer sc now c s =
     (case snd (handle_conn (sc_from_req sc) (sc_to_resp sc) now s c) of Inr out \<Rightarrow> out | Inl _ \<Rightarrow> [])"

definition state_after :: "client_env \<Rightarrow> server_codec \<Rightarrow> int \<Rightarrow> live_state \<times> backend_pool \<Rightarrow> control_request \<Rightarrow>
    live_state \<times> backend_pool" where
  "state_after e sc now c req =
     fst (handle_conn (sc_from_req sc) (sc_to_resp sc) now (write_frame (ce_to_json e req)) c)"

lemma client_call_effect:
  assumes "ce_connect e = Some (socket_answer sc now c)" "carries e sc now c req"
    and "handle_request now c req = (c', resp, snap)"
  shows "client_call e (\<lambda>x. send_request (ce_to_json e) (ce_from_json e) x req) =
      (if cr_ok resp then Inr (cr_message resp) else Inl (Refused (cr_message resp)))"
    and "state_after e sc now c req = c'"
proof -
  note ex = control_exchange[of "sc_from_req sc" "ce_to_json e" req now c c' resp snap "ce_from_json e" "sc_to_resp sc"]
  have "socket_answer sc now c = (\<lambda>s. case snd (handle_conn (sc_from_req sc) (sc_to_resp sc) now s c) of
      Inr out \<Rightarrow> out | Inl _ \<Rightarrow> [])"
    by (simp add: socket_answer_def fun_eq_iff)
  then show "client_call e (\<lambda>x. send_request (ce_to_json e) (ce_from_json e) x req) =
      (if cr_ok resp then Inr (cr_message resp) else Inl (Refused (cr_message resp)))"
    using ex(2) assms by (simp add: client_call_def command_result_def carries_def)
  show "state_after e sc now c req = c'" using ex(1) assms by (simp add: state_after_def carries_def)
qed

text \<open>
  C35. A command of the command line takes effect exactly when it reports success. Against a running
  proxy, setting weights succeeds when the proxy accepts them, and then the proxy's state is the one
  with these weights; when it refuses them, the command fails with the reason and the state is
  as it was. The same holds for a rollback. A drain always succeeds, and the proxy drains with
  the grace period that was asked for, at least a second.
\<close>

theorem commands_take_effect:
  assumes "ce_connect e = Some (socket_answer sc now (st, p))" "parse_weight_pairs pairs [] = Inr ws"
    and "carries e sc now (st, p) (CrSetWeight ws)" "carries e sc now (st, p) (CrRollback to)"
    and "carries e sc now (st, p) (CrDrain secs)"
  shows "(case set_weights st p ws of
        Inr c' \<Rightarrow> set_weight_command e pairs = Inr (WeightsUpdated ws) \<and>
          state_after e sc now (st, p) (CrSetWeight ws) = c'
      | Inl err \<Rightarrow> set_weight_command e pairs = Inl (Refused (SetWeightFailed err)) \<and>
          state_after e sc now (st, p) (CrSetWeight ws) = (st, p)) \<and>
    (case rollback st p to of
        Inr c' \<Rightarrow> rollback_command e to = Inr (RolledBack to) \<and> state_after e sc now (st, p) (CrRollback to) = c'
      | Inl err \<Rightarrow> rollback_command e to = Inl (Refused (RollbackFailed err)) \<and>
          state_after e sc now (st, p) (CrRollback to) = (st, p)) \<and>
    drain_command e secs = Inr (DrainStarted secs) \<and>
    state_after e sc now (st, p) (CrDrain secs) = (st\<lparr>ls_drain_grace := max secs 1, ls_draining := True\<rparr>, p)"
proof -
  note eff = client_call_effect[OF assms(1)]
  have w: "set_weight_command e pairs = client_call e (\<lambda>x. send_request (ce_to_json e) (ce_from_json e) x (CrSetWeight ws))"
    by (simp add: set_weight_command_def assms(2) client_set_weight_def)
  have r: "rollback_command e to = client_call e (\<lambda>x. send_request (ce_to_json e) (ce_from_json e) x (CrRollback to))"
    by (simp add: rollback_command_def client_rollback_def)
  have d: "drain_command e secs = client_call e (\<lambda>x. send_request (ce_to_json e) (ce_from_json e) x (CrDrain secs))"
    by (simp add: drain_command_def client_drain_def)
  have 1: "case set_weights st p ws of
        Inr c' \<Rightarrow> set_weight_command e pairs = Inr (WeightsUpdated ws) \<and>
          state_after e sc now (st, p) (CrSetWeight ws) = c'
      | Inl err \<Rightarrow> set_weight_command e pairs = Inl (Refused (SetWeightFailed err)) \<and>
          state_after e sc now (st, p) (CrSetWeight ws) = (st, p)"
    unfolding w by (cases "set_weights st p ws") (auto simp: eff[OF assms(3)] response_ok_def response_err_def Let_def split: prod.splits)
  have 2: "case rollback st p to of
        Inr c' \<Rightarrow> rollback_command e to = Inr (RolledBack to) \<and> state_after e sc now (st, p) (CrRollback to) = c'
      | Inl err \<Rightarrow> rollback_command e to = Inl (Refused (RollbackFailed err)) \<and>
          state_after e sc now (st, p) (CrRollback to) = (st, p)"
    unfolding r by (cases "rollback st p to") (auto simp: eff[OF assms(4)] response_ok_def response_err_def Let_def split: prod.splits)
  have 3: "drain_command e secs = Inr (DrainStarted secs) \<and>
    state_after e sc now (st, p) (CrDrain secs) = (st\<lparr>ls_drain_grace := max secs 1, ls_draining := True\<rparr>, p)"
    unfolding d by (simp add: eff[OF assms(5) handle_request.simps(3)[unfolded Let_def]] response_ok_def
        set_draining_def set_drain_grace_def)
  show ?thesis using 1 2 3 by blast
qed

text \<open>A codec for three requests to a proxy of two backends.\<close>

definition example_live :: "live_state \<times> backend_pool" where
  "example_live = (live_state_new 0 example_config, example_pool)"

definition example_reply :: "control_request \<Rightarrow> control_response" where
  "example_reply req = fst (snd (handle_request 0 example_live req))"

fun request_name :: "control_request \<Rightarrow> bytes" where
  "request_name (CrSetWeight _) = ''w''" | "request_name (CrRollback _) = ''r''"
| "request_name (CrDrain _) = ''d''" | "request_name CrSnapshot = ''s''"

definition named_request :: "bytes \<Rightarrow> control_request option" where
  "named_request b = map_of [(''w'', CrSetWeight [(''rust'', 7)]), (''r'', CrRollback ''nowhere''), (''d'', CrDrain 0)] b"

definition example_codec :: server_codec where
  "example_codec = \<lparr>sc_from_req = named_request,
     sc_to_resp = (\<lambda>r. if \<not> cr_ok r then ''r'' else (case cr_message r of DrainStarted _ \<Rightarrow> ''d'' | _ \<Rightarrow> ''w''))\<rparr>"

definition example_client :: client_env where
  "example_client = \<lparr>ce_connect = Some (socket_answer example_codec 0 example_live), ce_to_json = request_name,
     ce_from_json = (\<lambda>b. map_option example_reply (named_request b)), ce_read = (\<lambda>_. None), ce_snapshot = (\<lambda>_. None)\<rparr>"

lemma example_set: "\<exists>c. set_weights (live_state_new 0 example_config) example_pool [(''rust'', 7)] = Inr c"
  by (simp add: set_weights_eq pool_get_def prospective_total_def example_pool_defs)

lemma example_rollback: "rollback (live_state_new 0 example_config) example_pool ''nowhere'' = Inl (UnknownTarget ''nowhere'')"
  by (simp add: rollback_eq pool_get_def example_pool_defs ensure_def)

lemma example_replies:
  "cr_ok (example_reply (CrSetWeight [(''rust'', 7)]))"
  "cr_message (example_reply (CrSetWeight [(''rust'', 7)])) = WeightsUpdated [(''rust'', 7)]"
  "\<not> cr_ok (example_reply (CrRollback ''nowhere''))"
  "cr_ok (example_reply (CrDrain 0))" "cr_message (example_reply (CrDrain 0)) = DrainStarted 0"
  using example_set example_rollback
  by (auto simp: example_reply_def example_live_def response_ok_def response_err_def Let_def)

lemma example_carries:
  "carries example_client example_codec 0 example_live (CrSetWeight [(''rust'', 7)])"
  "carries example_client example_codec 0 example_live (CrRollback ''nowhere'')"
  "carries example_client example_codec 0 example_live (CrDrain 0)"
  by (simp_all add: carries_def example_reply_def[symmetric] example_client_def example_codec_def named_request_def
      example_replies)

theorem commands_take_effect_witness:
  "set_weight_command example_client [''rust=7''] = Inr (WeightsUpdated [(''rust'', 7)]) \<and>
   rollback_command example_client ''nowhere'' = Inl (Refused (RollbackFailed (UnknownTarget ''nowhere''))) \<and>
   ls_drain_grace (fst (state_after example_client example_codec 0 example_live (CrDrain 0))) = 1"
proof -
  have pairs: "parse_weight_pairs [''rust=7''] [] = Inr [(''rust'', 7)]"
    by (simp add: split_once_def parse_u32_def parse_unsigned_def parse_digits_def digits_val_def digit_val_def byte_val_def
        is_ascii_digit_def)
  have conn: "ce_connect example_client = Some (socket_answer example_codec 0 (live_state_new 0 example_config, example_pool))"
    by (simp add: example_client_def example_live_def)
  from commands_take_effect[OF conn pairs example_carries[unfolded example_live_def]] example_set example_rollback
  show ?thesis by (auto simp: example_live_def)
qed

end
