(* ===== verification/Spec2Isabelle.thy ===== *)
theory Spec2Isabelle
  imports Glob_Match Http_Date Fd_Watch Mime_Types Url_Path Request_Fsm Http_Conn Http_Response
    Throttle_Table Timer_Wheel Mmap_Cache Basic_Auth Dir_Listing Cgi_Env Server_Config Access_Log
    Launch Event_Loop Signals Confinement Server_Properties Delivery File_Service Circuit_Breaker Proxy_Config
    Backend_Pool Weighted_Router Live_State Control_Plane Control_Sessions Response_Diff Proxy_Forward Proxy_Server
    Proxy_Accounting Proxy_Drain Migrate_Cli
begin

text \<open>
  A verification library for thttpd-rs, the Rust port of the web server sthttpd. It follows the
  crates under \<^verbatim>\<open>rust/crates\<close>; file names below are relative to that directory.

  \<^bold>\<open>The program.\<close> \<^verbatim>\<open>thttpd-core\<close> is one thread with an event loop: it polls listening sockets and
  connections, accepts, reads a request into a fixed buffer, scans it with a state machine,
  resolves the path to a static file or a CGI script, builds the whole response in memory, sends
  it under bandwidth rules, lingers and closes. The other crates are the parts it calls.
  \<^verbatim>\<open>thttpd-migrate\<close> is a second program: a proxy that sends the requests of one address to several
  backends, by weight or with a copy to a second backend whose answer is compared.

  \<^bold>\<open>Leaf components\<close>, each with its operations as functions and its own correctness lemmas:
  \<^item> Rust_Prelude: the byte strings, numbers and paths of the Rust standard library that the
    source uses, and the lemmas the other theories share.
  \<^item> Glob_Match (\<^verbatim>\<open>thttpd-match\<close>): the backtracking matcher accepts the language of the pattern.
  \<^item> Http_Date (\<^verbatim>\<open>thttpd-tdate\<close>): parsers and formatter, their round trip, termination, the
    weekday that is off.
  \<^item> Fd_Watch (\<^verbatim>\<open>thttpd-fdwatch\<close>): poll tokens. Mime_Types (\<^verbatim>\<open>thttpd-mime\<close>).
  \<^item> Url_Path (\<^verbatim>\<open>thttpd-http/src/url.rs\<close>): percent decoding, normalisation.
  \<^item> Request_Fsm (\<^verbatim>\<open>parse.rs, parse_state.rs, method.rs\<close>): the scanner; scanning in pieces equals
    scanning at once (locale \<open>resumable_scan\<close>).
  \<^item> Http_Conn, Http_Response (\<^verbatim>\<open>conn.rs, response.rs\<close>): connection data, responses, error pages.
  \<^item> Throttle_Table (\<^verbatim>\<open>thttpd-core/src/throttle.rs\<close>): rules, admission and accounting; the locale
    \<open>usage_ledger\<close> states what the loop relies on: what an admission acquires a release returns.
  \<^item> Timer_Wheel (\<^verbatim>\<open>thttpd-timers\<close>), Mmap_Cache (\<^verbatim>\<open>thttpd-mmc\<close>), Basic_Auth (\<^verbatim>\<open>thttpd-auth\<close>),
    Dir_Listing and Cgi_Env (\<^verbatim>\<open>thttpd-http/src/dirlist.rs, cgi.rs\<close>), Server_Config and Access_Log
    (\<^verbatim>\<open>thttpd-core/src/config.rs, logging.rs\<close>).

  \<^bold>\<open>The start of the server\<close> (\<^verbatim>\<open>thttpd-core/src/startup.rs, main.rs\<close>). Daemon has the two forks and
  the status pipe as one process sees them; Startup the whole sequence, as a trace of system calls
  and a result or an exit status; Launch the launcher, the process in the middle and the daemon as
  a step relation on the pipe they share: the status of the launcher says whether the daemon
  started, and the launcher does not wait forever.

  \<^bold>\<open>The event loop\<close> (\<^verbatim>\<open>thttpd-core/src/connection.rs, server.rs, eventloop.rs\<close>). Conn_Table has
  the record \<open>server\<close> with the connection table, the registry of the poll and the other parts'
  states, the environment \<open>env\<close> of one handler call (clock, file system, socket results, script
  output, the answers of services outside the source) and the transitions between connection
  states. Request_Handling, Static_Files and Cgi_Dispatch are the phases of \<open>process_request\<close>,
  \<open>serve_static\<close> and \<open>dispatch_cgi\<close>. Event_Loop has the handlers, one iteration of \<open>run\<close> for a
  \<open>tick\<close> of observations, and \<open>run_server\<close>, the loop for a list of ticks. \<open>None\<close> is a panic.

  \<^bold>\<open>What is shown of it.\<close> Server_Invariant proves, handler by handler, that an invariant of the
  whole server is kept: distinct keys, at most 4096 connections, buffer and response indexes in
  range, no active script, the throttle ledger exact (through \<open>throttle_ledger\<close>, the
  interpretation of \<open>usage_ledger\<close>), and, when no registration is refused, the interest in the
  registry that each connection's state needs. Server_Properties draws the consequences for every
  state a run reaches, among them that a byte range whose end is before its start is the only way
  to panic, and that the connections are well formed. Server_Frame has what each handler leaves
  alone. Signals (\<^verbatim>\<open>signal.rs\<close>) has the flags, the handlers and an iteration with signals arriving
  between its steps: which of them are obeyed, and when. Isolation
  shows that an event on one connection leaves the slots and the registrations of all others alone,
  Cache_Invariant that the cache of mappings has the bytes of the files in every state a run
  reaches. Delivery has the loop as one connection sees it, a relation \<open>serves\<close> of which every
  iteration is a run, and shows what the peer receives and at which rate. Confinement shows which
  file a path names. Request_Intake follows a request that arrives in pieces, through the scanner,
  to its analysis; File_Service composes all of this with the checks on the file and the response
  builder: a client that asks for a file it may have receives the bytes of that file behind the
  header the protocol asks for, and all of them after as many writes as the answer has bytes and
  one more, whatever else the loop does meanwhile.

  \<^bold>\<open>The migration proxy\<close> (\<^verbatim>\<open>thttpd-migrate/src\<close>), leaves first:
  \<^item> Circuit_Breaker (\<^verbatim>\<open>circuit.rs\<close>): the breaker; the locale \<open>probe_gate\<close> is what the proxy relies
    on, one probe at a time; the race of \<open>record\<close> and \<open>try_admit\<close> on their atomic steps.
  \<^item> Proxy_Config (\<^verbatim>\<open>config.rs\<close>), Backend_Pool (\<^verbatim>\<open>backend.rs, health.rs\<close>): validation; when the health
    checker takes a backend out and back.
  \<^item> Weighted_Router (\<^verbatim>\<open>router.rs\<close>): a decision, alone and with other tasks in between; the share of
    each backend. Router_Steps: the decision in steps that read one backend each; it ends in a
    bounded number of its own steps whatever the other tasks do, and the function is one of the runs.
  \<^item> Live_State (\<^verbatim>\<open>state.rs, lib.rs\<close>), Control_Plane (\<^verbatim>\<open>control.rs\<close>): weights, rollback, drain,
    snapshots, framing (locale \<open>framing\<close>); the invariant of the commands; where traffic goes after
    a rollback. Control_Sessions: the sessions of the clients, the writer of the state file and
    the control lock as a step relation; the state the commands leave is consistent.
  \<^item> Response_Diff (\<^verbatim>\<open>diff.rs\<close>): what counts as a divergence.
  \<^item> Proxy_Forward (\<^verbatim>\<open>forwarder.rs\<close> and the capped reading of \<^verbatim>\<open>shadow.rs\<close>), Proxy_Server (\<^verbatim>\<open>server.rs\<close>
    and the task of \<^verbatim>\<open>shadow.rs\<close>): the handlers, cut where they wait for a backend; the client
    does not see the mirroring.
  \<^item> Proxy_Probes: the steps of all routers, handlers and mirroring tasks interleaved as a relation on
    states; every probe is resolved, unless a client goes away or a job panics. Proxy_Accounting: every
    request is answered after a bounded number of steps, and the metrics (\<^verbatim>\<open>metrics.rs\<close>) count the
    answers. Proxy_Drain: the accept loop and its end.
  \<^item> Migrate_Cli (\<^verbatim>\<open>main.rs, lib.rs, tracing_setup.rs\<close>): when the proxy starts, and what the commands do to a
    running one.

  \<^bold>\<open>Machine integers.\<close> i64 values are int with \<open>wrap_i64\<close> where the source can overflow, usize is
  nat with \<open>as_usize\<close> where a cast can wrap, sums of u32 weights are taken modulo 2^32.
  The release build is modelled: wrapping, not panicking.

  \<^bold>\<open>Loops.\<close> Every loop is a terminating function except the timer run, a \<open>partial_function\<close> whose
  termination is a property; the sequence of loop iterations is a list of ticks of any length.

  \<^bold>\<open>Not modelled.\<close> The sockets and the file system (their answers are inputs), the export of
  metrics and the output of traces, which nothing reads back. Of the proxy: TOML and JSON, the argument parser,
  the HTTP library, SHA-256 and floating point are parameters. The legacy C server, the test harness
  and the pipeline are not part of the program. Of the crates what is left out are their tests,
  accessors, display and default implementations, the spawning of tasks whose bodies are modelled,
  and \<open>run_skeleton\<close>, which nothing calls.
\<close>

end
